(* ===== verification/Prelude.thy ===== *)
theory Prelude
  imports Main "HOL-Library.Word" "HOL-Library.Monad_Syntax"
begin

text \<open>
  What every component shares: the machine integers of the Rust sources, byte buffers with
  Rust's checked indexing, and the big- and little-endian encodings.

  A Rust function that may panic is modelled by a function into \<open>option\<close>: \<open>None\<close> is the
  panic (an index or slice out of range, a \<open>copy_from_slice\<close> of the wrong length), \<open>Some r\<close>
  a normal return of \<open>r\<close>. A Rust function that itself returns an \<open>Option\<close> therefore has the
  type \<open>'a option option\<close>, and \<open>ret\<close> and \<open>panic\<close> name the outer layer. The \<open>do\<close> blocks of
  \<open>Monad_Syntax\<close> sequence the steps, as the statements of the source.
\<close>

unbundle bit_operations_syntax

type_synonym u8 = "8 word"
type_synonym u16 = "16 word"
type_synonym u32 = "32 word"
type_synonym u64 = "64 word"
type_synonym bytes = "8 word list"

abbreviation (input) panic :: "'a option" where
  "panic \<equiv> None"

abbreviation (input) ret :: "'a \<Rightarrow> 'a option" where
  "ret x \<equiv> Some x"

text \<open>\<open>buf_simps\<close> evaluates reads of buffers that a sequence of writes has built.\<close>

named_theorems buf_simps

section \<open>Buffers\<close>

text \<open>\<open>xs[i]\<close>, \<open>&xs[a..b]\<close>, \<open>xs[a..b].copy_from_slice(src)\<close> and \<open>xs[i] = v\<close>.\<close>

definition seg :: "'a list \<Rightarrow> nat \<Rightarrow> nat \<Rightarrow> 'a list" where
  "seg xs a b = take (b - a) (drop a xs)"

definition overlay :: "'a list \<Rightarrow> nat \<Rightarrow> 'a list \<Rightarrow> 'a list" where
  "overlay xs a src = take a xs @ take (length xs - a) src @ drop (a + length src) xs"

definition rd :: "'a list \<Rightarrow> nat \<Rightarrow> 'a option" where
  "rd xs i = (if i < length xs then ret (xs ! i) else panic)"

definition slice :: "'a list \<Rightarrow> nat \<Rightarrow> nat \<Rightarrow> 'a list option" where
  "slice xs a b = (if a \<le> b \<and> b \<le> length xs then ret (seg xs a b) else panic)"

definition put :: "'a list \<Rightarrow> nat \<Rightarrow> nat \<Rightarrow> 'a list \<Rightarrow> 'a list option" where
  "put xs a b src =
     (if a \<le> b \<and> b \<le> length xs \<and> length src = b - a then ret (overlay xs a src) else panic)"

definition wr :: "'a list \<Rightarrow> nat \<Rightarrow> 'a \<Rightarrow> 'a list option" where
  "wr xs i v = (if i < length xs then ret (overlay xs i [v]) else panic)"

text \<open>
  \<open>xs[i] != v || xs[j] != w || ...\<close> negated: the reads happen in order and stop at the first
  difference, so an index past the end panics only when the reads before it matched.
\<close>

fun match_at :: "'a list \<Rightarrow> (nat \<times> 'a) list \<Rightarrow> bool option" where
  "match_at xs [] = ret True"
| "match_at xs ((i, v) # r) = do { b \<leftarrow> rd xs i; if b \<noteq> v then ret False else match_at xs r }"

lemma nth_list_update':
  "xs[i := x] ! j = (if i = j \<and> j < length xs then x else xs ! j)"
  by (induction xs arbitrary: i j) (auto simp: nth_Cons split: nat.splits)

lemma length_seg [simp]: "length (seg xs a b) = min (b - a) (length xs - a)"
  by (simp add: seg_def min.commute)

lemma length_overlay [simp]: "length (overlay xs a src) = length xs"
  by (simp add: overlay_def)

lemma nth_overlay [buf_simps]:
  "i < length xs \<Longrightarrow>
   overlay xs a src ! i = (if a \<le> i \<and> i < a + length src then src ! (i - a) else xs ! i)"
  by (auto simp: overlay_def nth_append min_def)

lemma nth_seg [buf_simps]: "a + i < b \<Longrightarrow> b \<le> length xs \<Longrightarrow> seg xs a b ! i = xs ! (a + i)"
  by (simp add: seg_def)

lemma seg_full: "length src = b - a \<Longrightarrow> b \<le> length xs \<Longrightarrow> a \<le> b \<Longrightarrow> seg (overlay xs a src) a b = src"
  by (simp add: seg_def overlay_def)

lemma seg_overlay_other:
  assumes "b \<le> c \<or> c + length src \<le> a" and "b \<le> length xs"
  shows "seg (overlay xs c src) a b = seg xs a b"
proof (rule nth_equalityI)
  show "length (seg (overlay xs c src) a b) = length (seg xs a b)"
    by simp
  fix i
  assume "i < length (seg (overlay xs c src) a b)"
  then have i: "a + i < b"
    by (simp only: length_seg)
  with assms have "overlay xs c src ! (a + i) = xs ! (a + i)"
    by (subst nth_overlay) auto
  with i assms(2) show "seg (overlay xs c src) a b ! i = seg xs a b ! i"
    by (simp add: nth_seg)
qed

text \<open>Consecutive writes are one write: a builder that fills a buffer front to back concatenates.\<close>

lemma overlay_snoc:
  "b = a + length s \<Longrightarrow> b + length t \<le> length xs \<Longrightarrow> overlay (overlay xs a s) b t = overlay xs a (s @ t)"
  by (rule nth_equalityI) (auto simp: nth_overlay nth_append)

lemma overlay_gap:
  "a + length s < b \<Longrightarrow> b + length t \<le> length xs \<Longrightarrow>
   overlay (overlay xs a s) b t = overlay xs a (s @ seg xs (a + length s) b @ t)"
  by (rule nth_equalityI) (auto simp: nth_overlay nth_append nth_seg)

lemma seg_replicate [simp]: "seg (replicate n x) a b = replicate (min (b - a) (n - a)) x"
  by (simp add: seg_def)

lemma overlay_front: "length s \<le> length xs \<Longrightarrow> overlay xs 0 s = s @ drop (length s) xs"
  by (simp add: overlay_def)

lemma seg_overlay_inside:
  "a \<le> c \<Longrightarrow> c + length s \<le> b \<Longrightarrow> b \<le> length xs \<Longrightarrow>
   seg (overlay xs c s) a b = overlay (seg xs a b) (c - a) s"
  by (rule nth_equalityI) (auto simp: nth_overlay nth_seg add.commute)

text \<open>A read inside one write is a read of what was written.\<close>

lemma seg_overlay_tail:
  "c \<le> a \<Longrightarrow> b \<le> c + length s \<Longrightarrow> c + length s \<le> length xs \<Longrightarrow>
   seg (overlay xs c s) a b = seg s (a - c) (b - c)"
  by (rule nth_equalityI) (auto simp: nth_overlay nth_seg)

lemma seg_empty [simp]: "seg xs a a = []"
  by (simp add: seg_def)

lemma seg_step: "a < b \<Longrightarrow> b \<le> length xs \<Longrightarrow> seg xs a b = xs ! a # seg xs (Suc a) b"
  by (simp add: seg_def Cons_nth_drop_Suc [symmetric] Suc_diff_Suc [symmetric])

lemma seg_append: "a \<le> b \<Longrightarrow> b \<le> c \<Longrightarrow> seg xs a c = seg xs a b @ seg xs b c"
  using take_add [of "b - a" "c - b" "drop a xs"] by (simp add: seg_def)

lemma seg_app_left [simp]: "b \<le> length xs \<Longrightarrow> seg (xs @ ys) a b = seg xs a b"
  by (simp add: seg_def)

lemma seg_take [simp]: "b \<le> n \<Longrightarrow> seg (take n xs) a b = seg xs a b"
  by (simp add: seg_def drop_take min_absorb1 diff_le_mono)

lemma seg_app_right:
  "length xs \<le> a \<Longrightarrow> seg (xs @ ys) a b = seg ys (a - length xs) (b - length xs)"
  by (cases "length xs \<le> b") (auto simp: seg_def)

lemma seg_0: "seg xs 0 n = take n xs"
  by (simp add: seg_def)

lemma seg_all: "length xs = n \<Longrightarrow> seg xs 0 n = xs"
  by (simp add: seg_def)

lemma rd_ok [simp]: "i < length xs \<Longrightarrow> rd xs i = Some (xs ! i)"
  by (simp add: rd_def)

lemma rd_None_iff [simp]: "rd xs i = None \<longleftrightarrow> length xs \<le> i"
  by (auto simp: rd_def)

lemma slice_ok [simp]: "a \<le> b \<Longrightarrow> b \<le> length xs \<Longrightarrow> slice xs a b = Some (seg xs a b)"
  by (simp add: slice_def)

lemma put_ok [simp]:
  "a \<le> b \<Longrightarrow> b \<le> length xs \<Longrightarrow> length src = b - a \<Longrightarrow> put xs a b src = Some (overlay xs a src)"
  by (simp add: put_def)

lemma wr_ok [simp]: "i < length xs \<Longrightarrow> wr xs i v = Some (overlay xs i [v])"
  by (simp add: wr_def)

lemma wr_panic: "length xs \<le> i \<Longrightarrow> wr xs i v = None"
  by (simp add: wr_def)

lemma match_at_ok [simp]:
  "\<forall>p \<in> set r. fst p < length xs \<Longrightarrow> match_at xs r = Some (\<forall>p \<in> set r. xs ! fst p = snd p)"
  by (induction xs r rule: match_at.induct) auto

lemma put_SomeD: "put xs a b src = Some ys \<Longrightarrow> length ys = length xs"
  by (auto simp: put_def split: if_splits)

lemma wr_SomeD: "wr xs i v = Some ys \<Longrightarrow> length ys = length xs"
  by (auto simp: wr_def split: if_splits)

section \<open>Endianness\<close>

text \<open>\<open>to_be_bytes\<close>, \<open>from_be_bytes\<close>, \<open>to_le_bytes\<close> and \<open>from_le_bytes\<close>.\<close>

definition be16 :: "u16 \<Rightarrow> bytes" where
  "be16 w = [ucast (drop_bit 8 w), ucast w]"

definition le16 :: "u16 \<Rightarrow> bytes" where
  "le16 w = rev (be16 w)"

definition be32 :: "u32 \<Rightarrow> bytes" where
  "be32 w = [ucast (drop_bit 24 w), ucast (drop_bit 16 w), ucast (drop_bit 8 w), ucast w]"

definition le32 :: "u32 \<Rightarrow> bytes" where
  "le32 w = rev (be32 w)"

definition from_be16 :: "u8 \<Rightarrow> u8 \<Rightarrow> u16" where
  "from_be16 a b = push_bit 8 (ucast a) OR ucast b"

definition from_be32 :: "u8 \<Rightarrow> u8 \<Rightarrow> u8 \<Rightarrow> u8 \<Rightarrow> u32" where
  "from_be32 a b c d =
     push_bit 24 (ucast a) OR push_bit 16 (ucast b) OR push_bit 8 (ucast c) OR ucast d"

text \<open>\<open>u16::from_be_bytes([xs[i], xs[i + 1]])\<close>\<close>

definition rd16 :: "bytes \<Rightarrow> nat \<Rightarrow> u16 option" where
  "rd16 xs i = do { a \<leftarrow> rd xs i; b \<leftarrow> rd xs (i + 1); ret (from_be16 a b) }"

lemma rd16_ok [simp]: "i + 1 < length xs \<Longrightarrow> rd16 xs i = Some (from_be16 (xs ! i) (xs ! (i + 1)))"
  by (simp add: rd16_def)

lemma length_be [simp]:
  "length (be16 w) = 2" "length (le16 w) = 2" "length (be32 v) = 4" "length (le32 v) = 4"
  by (simp_all add: be16_def be32_def le16_def le32_def)

lemma nth_be [buf_simps]:
  "be16 w ! 0 = ucast (drop_bit 8 w)" "be16 w ! Suc 0 = ucast w"
  "be32 v ! 0 = ucast (drop_bit 24 v)" "be32 v ! Suc 0 = ucast (drop_bit 16 v)"
  "be32 v ! 2 = ucast (drop_bit 8 v)" "be32 v ! 3 = ucast v"
  by (simp_all add: be16_def be32_def eval_nat_numeral)

lemma from_be16_be16 [simp]: "from_be16 (ucast (drop_bit 8 w)) (ucast w) = w"
  by (rule bit_word_eqI) (auto simp: from_be16_def bit_simps not_less)

lemma from_be16_0 [simp]: "from_be16 0 b = ucast b"
  by (simp add: from_be16_def)

lemma from_be32_be32 [simp]:
  "from_be32 (ucast (drop_bit 24 w)) (ucast (drop_bit 16 w)) (ucast (drop_bit 8 w)) (ucast w) = w"
proof (rule bit_word_eqI)
  fix n
  assume "n < LENGTH(32)"
  then consider "n < 8" | "8 \<le> n \<and> n < 16" | "16 \<le> n \<and> n < 24" | "24 \<le> n \<and> n < 32"
    by fastforce
  then show "bit (from_be32 (ucast (drop_bit 24 w)) (ucast (drop_bit 16 w))
      (ucast (drop_bit 8 w)) (ucast w)) n \<longleftrightarrow> bit w n"
    by cases (auto simp: from_be32_def bit_simps)
qed

lemma unat_u8: "unat (w :: u8) < 256"
  using unsigned_less [where ?'a = nat and w = w] by simp

lemma unat_u16: "unat (w :: u16) < 65536"
  using unsigned_less [where ?'a = nat and w = w] by simp

lemma unat_u32: "unat (w :: u32) < 4294967296"
  using unsigned_less [where ?'a = nat and w = w] by simp

lemma unat_u64: "unat (w :: u64) < 18446744073709551616"
  using unsigned_less [where ?'a = nat and w = w] by simp

text \<open>Shifting right and masking, read as division and remainder.\<close>

lemma unat_drop_bit_div: "unat (drop_bit n w) = unat w div 2 ^ n" for w :: "'a::len word"
  by (metis drop_bit_eq_div unsigned_drop_bit_eq unsigned_take_bit_eq take_bit_length_eq)

lemma unat_take_bit_mod: "unat (take_bit n w) = unat w mod 2 ^ n" for w :: "'a::len word"
  by (subst unsigned_take_bit_eq) (simp add: take_bit_eq_mod)

text \<open>\<open>x as u32\<close> keeps the value when it widens.\<close>

lemma unat_widen [simp]:
  "unat (ucast (a :: u8) :: u16) = unat a" "unat (ucast (a :: u8) :: u32) = unat a"
  "unat (ucast (a :: u8) :: u64) = unat a" "unat (ucast (b :: u16) :: u32) = unat b"
  "unat (ucast (b :: u16) :: u64) = unat b" "unat (ucast (c :: u32) :: u64) = unat c"
  using unat_u8 [of a] unat_u16 [of b] unat_u32 [of c]
  by (simp_all add: unsigned_ucast_eq take_bit_nat_eq_self)

lemma unat_from_be16: "unat (from_be16 a b) = 256 * unat a + unat b"
proof -
  have "from_be16 a b = push_bit 8 (ucast a) + ucast b"
    unfolding from_be16_def
    by (rule disjunctive_add_eq_or [symmetric]) (rule bit_word_eqI, auto simp: bit_simps dest: bit_imp_le_length)
  moreover have "unat (push_bit 8 (ucast a :: u16)) = 256 * unat a"
    using unat_u8 [of a] by (simp add: push_bit_eq_mult unat_word_ariths)
  moreover have "unat a < 256" "unat b < 256"
    by (rule unat_u8)+
  ultimately show ?thesis
    by (simp add: unat_word_ariths)
qed

lemma rd16_app: "i = length p \<Longrightarrow> rd16 (p @ be16 w @ q) i = Some w"
  by (simp add: rd16_def nth_append nth_be)

end
