(* ===== verification/Print.thy ===== *)
theory Print
  imports Prelude
begin

text \<open>
  \<^verbatim>\<open>common/src/print.rs\<close>: the console behind the global \<open>PUTC_FN\<close> callback, hexadecimal,
  decimal and dotted-quad formatting, and the bounded formatter of the DHCP summary.
  The console is a record of whether a callback is installed and the bytes handed to it.
  A fixed scratch array with a fill count (\<open>buf\<close> with \<open>pos\<close>, \<open>rev\<close> with \<open>n\<close>) is the list of
  the bytes written so far, and writing past the array's length is a panic.
\<close>

section \<open>The console\<close>

record console =
  putc_fn :: bool
  out :: bytes

definition init_print :: "console \<Rightarrow> console" where
  "init_print c = c\<lparr>putc_fn := True\<rparr>"

definition putc_raw :: "u8 \<Rightarrow> console \<Rightarrow> console" where
  "putc_raw b c = (if putc_fn c then c\<lparr>out := out c @ [b]\<rparr> else c)"

fun puts :: "bytes \<Rightarrow> console \<Rightarrow> console" where
  "puts [] c = c"
| "puts (b # bs) c = puts bs (putc_raw b c)"

definition putc :: "u8 \<Rightarrow> console \<Rightarrow> console" where
  "putc b c = putc_raw b c"

text \<open>A string literal as the bytes of its (ASCII) characters.\<close>

definition lit :: "string \<Rightarrow> bytes" where
  "lit s = map (\<lambda>ch. word_of_nat (of_char ch)) s"

lemma length_lit [simp]: "length (lit s) = length s"
  by (simp add: lit_def)

lemma puts_out: "puts bs c = (if putc_fn c then c\<lparr>out := out c @ bs\<rparr> else c)"
  by (induction bs c rule: puts.induct) (auto simp: putc_raw_def)

lemma putc_fn_puts [simp]: "putc_fn (puts bs c) = putc_fn c" "putc_fn (putc b c) = putc_fn c"
  by (simp_all add: puts_out putc_def putc_raw_def)

lemma out_puts [simp]:
  "putc_fn c \<Longrightarrow> out (puts bs c) = out c @ bs" "putc_fn c \<Longrightarrow> out (putc b c) = out c @ [b]"
  by (simp_all add: puts_out putc_def putc_raw_def)

section \<open>Hexadecimal\<close>

definition hex_digit :: "u8 \<Rightarrow> u8" where
  "hex_digit d = (if d < 10 then 48 + d else 65 + d - 10)"

fun hex_loop :: "u64 \<Rightarrow> nat \<Rightarrow> bool \<Rightarrow> bytes \<Rightarrow> (bool \<times> bytes) option" where
  "hex_loop val 0 started buf = ret (started, buf)"
| "hex_loop val (Suc i) started buf =
     (if 64 \<le> i * 4 then panic
      else let digit = ucast (drop_bit (i * 4) val AND 0xF) :: u8 in
        if digit = 0 \<and> \<not> started \<and> 0 < i then hex_loop val i started buf
        else if length buf < 16 then hex_loop val i True (buf @ [hex_digit digit])
        else panic)"

definition format_hex :: "u64 \<Rightarrow> nat \<Rightarrow> bytes option" where
  "format_hex val nibbles = do {
     (started, buf) \<leftarrow> hex_loop val nibbles False [];
     ret (if \<not> started then buf @ [48] else buf)
   }"

definition print_hex :: "u64 \<Rightarrow> nat \<Rightarrow> console \<Rightarrow> console option" where
  "print_hex val nibbles c = do { s \<leftarrow> format_hex val nibbles; ret (puts s c) }"

section \<open>Decimal\<close>

function dec_loop :: "u64 \<Rightarrow> bytes \<Rightarrow> bytes option" where
  "dec_loop v rv =
     (if v > 0 then
        if length rv < 20 then dec_loop (v div 10) (rv @ [48 + ucast (v mod 10)]) else panic
      else ret rv)"
  by pat_completeness auto
termination
  by (relation "measure (\<lambda>(v, rv). unat v)")
    (auto simp: unat_div word_less_nat_alt)

declare dec_loop.simps [simp del]

definition format_dec :: "u64 \<Rightarrow> bytes option" where
  "format_dec val =
     (if val = 0 then ret [48] else do { rv \<leftarrow> dec_loop val []; ret (rev rv) })"

definition print_dec :: "u64 \<Rightarrow> console \<Rightarrow> console option" where
  "print_dec val c = do { s \<leftarrow> format_dec val; ret (puts s c) }"

definition print_ip :: "bytes \<Rightarrow> console \<Rightarrow> console option" where
  "print_ip ip c = do {
     a \<leftarrow> rd ip 0; c \<leftarrow> print_dec (ucast a) c; let c = putc 46 c;
     a \<leftarrow> rd ip 1; c \<leftarrow> print_dec (ucast a) c; let c = putc 46 c;
     a \<leftarrow> rd ip 2; c \<leftarrow> print_dec (ucast a) c; let c = putc 46 c;
     a \<leftarrow> rd ip 3; print_dec (ucast a) c
   }"

section \<open>The bounded buffer of the DHCP formatter\<close>

text \<open>\<open>buf_push\<close> on the pair of the buffer and the count \<open>*n\<close>; a full buffer drops the byte.\<close>

type_synonym pbuf = "bytes \<times> nat"

definition buf_push :: "u8 \<Rightarrow> pbuf \<Rightarrow> pbuf" where
  "buf_push b = (\<lambda>(buf, n). if n < length buf then (overlay buf n [b], n + 1) else (buf, n))"

fun buf_push_str :: "bytes \<Rightarrow> pbuf \<Rightarrow> pbuf" where
  "buf_push_str [] p = p"
| "buf_push_str (b # s) p = buf_push_str s (buf_push b p)"

text \<open>\<open>tmp[i..]\<close> is the list \<open>acc\<close> of the digits already produced, so \<open>i = 10 - length acc\<close>.\<close>

function dec_digits :: "u32 \<Rightarrow> bytes \<Rightarrow> bytes option" where
  "dec_digits x acc =
     (if length acc < 10 then
        let acc' = (48 + ucast (x mod 10)) # acc; x' = x div 10 in
        if x' = 0 then ret acc' else dec_digits x' acc'
      else panic)"
  by pat_completeness auto
termination
  by (relation "measure (\<lambda>(x, acc). 10 - length acc)") auto

declare dec_digits.simps [simp del]

definition buf_push_dec :: "u32 \<Rightarrow> pbuf \<Rightarrow> pbuf option" where
  "buf_push_dec v p = do { t \<leftarrow> dec_digits v []; ret (buf_push_str t p) }"

fun push_ip_from :: "nat \<Rightarrow> bytes \<Rightarrow> pbuf \<Rightarrow> pbuf option" where
  "push_ip_from i [] p = ret p"
| "push_ip_from i (b # ip) p = do {
     p \<leftarrow> buf_push_dec (ucast b) (if 0 < i then buf_push 46 p else p);
     push_ip_from (Suc i) ip p
   }"

definition buf_push_ip :: "bytes \<Rightarrow> pbuf \<Rightarrow> pbuf option" where
  "buf_push_ip ip p = push_ip_from 0 ip p"

fun push_mac_from :: "nat \<Rightarrow> bytes \<Rightarrow> pbuf \<Rightarrow> pbuf" where
  "push_mac_from i [] p = p"
| "push_mac_from i (b # mac) p =
     push_mac_from (Suc i) mac
       (buf_push (lit ''0123456789ABCDEF'' ! unat (b AND 0xF))
         (buf_push (lit ''0123456789ABCDEF'' ! unat (drop_bit 4 b))
           (if 0 < i then buf_push 58 p else p)))"

definition buf_push_mac :: "bytes \<Rightarrow> pbuf \<Rightarrow> pbuf" where
  "buf_push_mac mac p = push_mac_from 0 mac p"

definition push_bootfile :: "bytes \<Rightarrow> pbuf \<Rightarrow> pbuf" where
  "push_bootfile bootfile p = buf_push_str (takeWhile (\<lambda>b. b \<noteq> 0) bootfile) p"

definition format_dhcp_info ::
  "bytes \<Rightarrow> bytes \<Rightarrow> bytes \<Rightarrow> bytes \<Rightarrow> bytes \<Rightarrow> bytes \<Rightarrow> bytes \<Rightarrow> (bytes \<times> nat) option" where
  "format_dhcp_info mac ip subnet gateway next_server bootfile buf = do {
     let p = buf_push_mac mac (buf_push_str (lit ''MAC: '') (buf, 0));
     let p = buf_push_str (lit ''IP: '') (buf_push 10 p);
     p \<leftarrow> buf_push_ip ip p;
     let p = buf_push_str (lit ''Subnet: '') (buf_push 10 p);
     p \<leftarrow> buf_push_ip subnet p;
     let p = buf_push_str (lit ''Gateway: '') (buf_push 10 p);
     p \<leftarrow> (if gateway = [0, 0, 0, 0] then ret (buf_push_str (lit ''(none)'') p)
          else buf_push_ip gateway p);
     let p = buf_push_str (lit ''TFTP Server: '') (buf_push 10 p);
     p \<leftarrow> buf_push_ip next_server p;
     let p = buf_push_str (lit ''Bootfile: '') (buf_push 10 p);
     ret (buf_push 10 (push_bootfile bootfile p))
   }"


section \<open>What the formatters print\<close>

text \<open>The value a digit string denotes in a base, and the decimal numeral of a number.\<close>

fun digits_value :: "nat \<Rightarrow> (u8 \<Rightarrow> nat) \<Rightarrow> bytes \<Rightarrow> nat" where
  "digits_value base dig [] = 0"
| "digits_value base dig (d # ds) = dig d * base ^ length ds + digits_value base dig ds"

definition dec_dig :: "u8 \<Rightarrow> nat" where
  "dec_dig b = unat b - 48"

definition hex_dig :: "u8 \<Rightarrow> nat" where
  "hex_dig b = (if b \<le> 57 then unat b - 48 else unat b - 55)"

fun dec_str :: "nat \<Rightarrow> bytes" where
  "dec_str n = (if n < 10 then [48 + word_of_nat n]
     else dec_str (n div 10) @ [48 + word_of_nat (n mod 10)])"

declare dec_str.simps [simp del]

lemma digits_value_append:
  "digits_value b f (xs @ ys) = digits_value b f xs * b ^ length ys + digits_value b f ys"
  by (induction xs) (simp_all add: power_add algebra_simps)

lemma dec_str_small: "n < 10 \<Longrightarrow> dec_str n = [48 + word_of_nat n]"
  by (simp add: dec_str.simps)

lemma dec_str_step: "10 \<le> n \<Longrightarrow> dec_str n = dec_str (n div 10) @ [48 + word_of_nat (n mod 10)]"
  by (subst dec_str.simps) simp

lemma dec_str_nonempty [simp]: "dec_str n \<noteq> []"
  by (subst dec_str.simps) simp

lemma unat_digit: "d < 10 \<Longrightarrow> unat (48 + word_of_nat d :: u8) = 48 + d"
  by (simp add: unat_word_ariths unsigned_of_nat take_bit_nat_eq_self)

lemma dec_dig_digit [simp]: "d < 10 \<Longrightarrow> dec_dig (48 + word_of_nat d) = d"
  by (simp add: dec_dig_def unat_digit)

lemma dec_str_value: "digits_value 10 dec_dig (dec_str n) = n"
proof (induction n rule: dec_str.induct)
  case (1 n)
  then show ?case
    by (cases "n < 10") (simp_all add: dec_str_small dec_str_step digits_value_append)
qed

lemma dec_str_digits: "b \<in> set (dec_str n) \<Longrightarrow> 48 \<le> unat b \<and> unat b \<le> 57"
proof (induction n rule: dec_str.induct)
  case (1 n)
  have "d < 10 \<Longrightarrow> 48 \<le> unat (48 + word_of_nat d :: u8) \<and> unat (48 + word_of_nat d :: u8) \<le> 57" for d
    by (simp add: unat_digit)
  with 1 show ?case
    by (cases "n < 10") (auto simp: dec_str_small dec_str_step)
qed

lemma dec_str_hd: "hd (dec_str n) = 48 \<longleftrightarrow> n = 0"
proof (induction n rule: dec_str.induct)
  case (1 n)
  have "d < 10 \<Longrightarrow> (48 + word_of_nat d = (48 :: u8)) \<longleftrightarrow> d = 0" for d
    by (auto simp: word_of_nat_eq_0_iff dest: dvd_imp_le)
  with 1 show ?case
    by (cases "n < 10") (auto simp: dec_str_small dec_str_step)
qed

lemma length_dec_str: "n < 10 ^ k \<Longrightarrow> 0 < k \<Longrightarrow> length (dec_str n) \<le> k"
proof (induction k arbitrary: n)
  case 0
  then show ?case by simp
next
  case (Suc k)
  show ?case
  proof (cases "n < 10")
    case True
    then show ?thesis by (simp add: dec_str_small)
  next
    case False
    with Suc.prems have "0 < k"
      by (cases k) simp_all
    moreover have "n div 10 < 10 ^ k"
      using Suc.prems by (simp add: less_mult_imp_div_less mult.commute)
    ultimately show ?thesis
      using Suc.IH [of "n div 10"] False by (simp add: dec_str_step)
  qed
qed

text \<open>The low decimal digit, as the casts of the source compute it.\<close>

lemma ucast_mod10 [simp]: "(ucast (v mod 10 :: u64) :: u8) = word_of_nat (unat v mod 10)"
  "(ucast (x mod 10 :: u32) :: u8) = word_of_nat (unat x mod 10)"
  using of_nat_unat [of "v mod 10", where ?'a = u8] of_nat_unat [of "x mod 10", where ?'a = u8]
  by (simp_all add: unat_mod)

lemma dec_loop_correct:
  "0 < v \<Longrightarrow> length rv + length (dec_str (unat v)) \<le> 20 \<Longrightarrow>
   dec_loop v rv = Some (rv @ rev (dec_str (unat v)))"
proof (induction v rv rule: dec_loop.induct)
  case (1 v rv)
  have room: "length rv < 20"
    using "1.prems"(2) by (cases "dec_str (unat v)") auto
  show ?case
  proof (cases "unat v < 10")
    case True
    then have "v div 10 = 0"
      by (simp add: word_eq_iff_unsigned [where ?'a = nat] unat_div)
    with True room "1.prems"(1) show ?thesis
      by (simp add: dec_loop.simps [of v] dec_loop.simps [of 0] dec_str_small)
  next
    case False
    then have split: "dec_str (unat v) = dec_str (unat (v div 10)) @ [48 + word_of_nat (unat v mod 10)]"
      by (simp add: dec_str_step unat_div)
    have pos: "0 < v div 10"
      using False by (simp add: word_less_nat_alt unat_div)
    have "dec_loop (v div 10) (rv @ [48 + ucast (v mod 10)]) =
        Some ((rv @ [48 + ucast (v mod 10)]) @ rev (dec_str (unat (v div 10))))"
      using "1.IH" [OF "1.prems"(1) room pos] "1.prems"(2) split by simp
    with split room "1.prems"(1) show ?thesis
      by (simp add: dec_loop.simps [of v])
  qed
qed

lemma format_dec_eq: "format_dec v = Some (dec_str (unat v))"
proof (cases "v = 0")
  case True
  then show ?thesis by (simp add: format_dec_def dec_str_small)
next
  case False
  have "length (dec_str (unat v)) \<le> 20"
    using unat_u64 [of v] by (intro length_dec_str) simp_all
  with False show ?thesis
    by (auto simp: format_dec_def dec_loop_correct word_neq_0_conv)
qed

lemma dec_digits_correct:
  "length acc + length (dec_str (unat x)) \<le> 10 \<Longrightarrow>
   dec_digits x acc = Some (dec_str (unat x) @ acc)"
proof (induction x acc rule: dec_digits.induct)
  case (1 x acc)
  have room: "length acc < 10"
    using "1.prems" by (cases "dec_str (unat x)") auto
  show ?case
  proof (cases "unat x < 10")
    case True
    then have "x div 10 = 0"
      by (simp add: word_eq_iff_unsigned [where ?'a = nat] unat_div)
    with True room show ?thesis
      by (simp add: dec_digits.simps [of x] dec_str_small)
  next
    case False
    then have split: "dec_str (unat x) = dec_str (unat (x div 10)) @ [48 + word_of_nat (unat x mod 10)]"
      by (simp add: dec_str_step unat_div)
    have nz: "x div 10 \<noteq> 0"
      using False by (simp add: word_eq_iff_unsigned [where ?'a = nat] unat_div)
    have "dec_digits (x div 10) ((48 + ucast (x mod 10)) # acc) =
        Some (dec_str (unat (x div 10)) @ (48 + ucast (x mod 10)) # acc)"
      using "1.IH" [OF room refl refl nz] "1.prems" split by simp
    with split room nz show ?thesis
      by (simp add: dec_digits.simps [of x])
  qed
qed

lemma length_dec_str_u32: "length (dec_str (unat (x :: u32))) \<le> 10"
  using unat_u32 [of x] by (intro length_dec_str) simp_all

lemma buf_push_dec_eq: "buf_push_dec v p = Some (buf_push_str (dec_str (unat v)) p)"
  using length_dec_str_u32 [of v] by (simp add: buf_push_dec_def dec_digits_correct)

text \<open>
  A buffer \<open>holds\<close> a text when it contains the text's longest prefix that fits: the state
  of the bounded formatter after any sequence of pushes.
\<close>

definition holds :: "nat \<Rightarrow> bytes \<Rightarrow> pbuf \<Rightarrow> bool" where
  "holds cap t p \<longleftrightarrow>
     length (fst p) = cap \<and> snd p = min cap (length t) \<and> take (snd p) (fst p) = take cap t"

lemma holds_empty: "holds (length buf) [] (buf, 0)"
  by (simp add: holds_def)

lemma holds_push: "holds cap t p \<Longrightarrow> holds cap (t @ [b]) (buf_push b p)"
proof -
  assume h: "holds cap t p"
  obtain buf n where p: "p = (buf, n)" by force
  show ?thesis
  proof (cases "n < cap")
    case True
    with h have "n = length t" "length buf = cap" "take n buf = t"
      by (auto simp: holds_def p)
    with True show ?thesis
      by (simp add: holds_def p buf_push_def overlay_def)
  next
    case False
    with h show ?thesis
      by (auto simp: holds_def p buf_push_def)
  qed
qed

lemma holds_push_str: "holds cap t p \<Longrightarrow> holds cap (t @ s) (buf_push_str s p)"
proof (induction s p arbitrary: t rule: buf_push_str.induct)
  case (2 b s p)
  then show ?case
    using "2.IH" [of "t @ [b]"] holds_push by simp
qed simp

fun dotted_from :: "nat \<Rightarrow> bytes \<Rightarrow> bytes" where
  "dotted_from i [] = []"
| "dotted_from i (b # ip) = (if 0 < i then [46] else []) @ dec_str (unat b) @ dotted_from (Suc i) ip"

fun mac_from :: "nat \<Rightarrow> bytes \<Rightarrow> bytes" where
  "mac_from i [] = []"
| "mac_from i (b # mac) = (if 0 < i then [58] else []) @
     [hex_digit (drop_bit 4 b), hex_digit (b AND 0xF)] @ mac_from (Suc i) mac"

definition dotted :: "bytes \<Rightarrow> bytes" where
  "dotted ip = dotted_from 0 ip"

lemma holds_push_ip:
  "holds cap t p \<Longrightarrow> \<exists>p'. push_ip_from i ip p = Some p' \<and> holds cap (t @ dotted_from i ip) p'"
proof (induction ip arbitrary: i t p)
  case (Cons b ip)
  let ?p = "if 0 < i then buf_push 46 p else p"
  let ?t = "t @ (if 0 < i then [46] else [])"
  have "holds cap ?t ?p"
    using Cons.prems holds_push by simp
  then have "holds cap (?t @ dec_str (unat b)) (buf_push_str (dec_str (unat b)) ?p)"
    by (rule holds_push_str)
  from Cons.IH [OF this, of "Suc i"] show ?case
    by (simp add: buf_push_dec_eq)
qed simp

lemma print_dec_eq: "print_dec v c = Some (puts (dec_str (unat v)) c)"
  by (simp add: print_dec_def format_dec_eq)

lemma puts_puts: "puts t (puts s c) = puts (s @ t) c"
  by (simp add: puts_out)

lemma putc_puts: "putc b (puts s c) = puts (s @ [b]) c" "puts s (putc b c) = puts (b # s) c"
  by (simp_all add: puts_out putc_def putc_raw_def)

lemma print_ip_eq:
  assumes "length ip = 4"
  shows "print_ip ip c = Some (puts (dotted ip) c)"
proof -
  have "ip = [ip ! 0, ip ! 1, ip ! 2, ip ! 3]"
    using assms by (intro nth_equalityI) (auto simp: less_Suc_eq numeral_eq_Suc)
  then obtain p q r s where ip: "ip = [p, q, r, s]"
    by blast
  show ?thesis
    by (simp add: ip print_ip_def print_dec_eq dotted_def putc_puts puts_puts del: puts.simps)
qed

lemma hex_table: "i < 16 \<Longrightarrow> lit ''0123456789ABCDEF'' ! i = hex_digit (word_of_nat i)"
proof -
  have "\<forall>i \<in> set [0..<16]. lit ''0123456789ABCDEF'' ! i = hex_digit (word_of_nat i)"
    by code_simp
  then show "i < 16 \<Longrightarrow> ?thesis" by simp
qed

lemma unat_nibbles: "unat (drop_bit 4 (b :: u8)) < 16" "unat (b AND 0xF) < 16"
proof -
  have "unat (drop_bit 4 b) = unat b div 16"
    by (simp add: drop_bit_eq_div unat_div)
  then show "unat (drop_bit 4 b) < 16"
    using unat_u8 [of b] by simp
  have "unat (b AND 0xF) \<le> unat (0xF :: u8)"
    by (metis word_and_le1 word_le_nat_alt)
  then show "unat (b AND 0xF) < 16" by simp
qed

lemma holds_push_mac: "holds cap t p \<Longrightarrow> holds cap (t @ mac_from i mac) (push_mac_from i mac p)"
proof (induction mac arbitrary: i t p)
  case (Cons b mac)
  let ?p = "if 0 < i then buf_push 58 p else p"
  let ?t = "t @ (if 0 < i then [58] else [])"
  have "holds cap ?t ?p"
    using Cons.prems holds_push by simp
  from holds_push [OF holds_push [OF this]] have
    "holds cap ((?t @ [hex_digit (drop_bit 4 b)]) @ [hex_digit (b AND 0xF)])
       (buf_push (hex_digit (b AND 0xF)) (buf_push (hex_digit (drop_bit 4 b)) ?p))" .
  from Cons.IH [OF this, of "Suc i"] show ?case
    by (simp add: hex_table unat_nibbles)
qed simp

definition dhcp_text :: "bytes \<Rightarrow> bytes \<Rightarrow> bytes \<Rightarrow> bytes \<Rightarrow> bytes \<Rightarrow> bytes \<Rightarrow> bytes" where
  "dhcp_text mac ip subnet gateway next_server bootfile =
     lit ''MAC: '' @ mac_from 0 mac @ [10] @
     lit ''IP: '' @ dotted ip @ [10] @
     lit ''Subnet: '' @ dotted subnet @ [10] @
     lit ''Gateway: '' @ (if gateway = [0, 0, 0, 0] then lit ''(none)'' else dotted gateway) @ [10] @
     lit ''TFTP Server: '' @ dotted next_server @ [10] @
     lit ''Bootfile: '' @ takeWhile (\<lambda>b. b \<noteq> 0) bootfile @ [10]"

text \<open>One line of the summary after another keeps \<open>holds\<close>.\<close>

lemma holds_label: "holds cap t p \<Longrightarrow> holds cap (t @ [b] @ s) (buf_push_str s (buf_push b p))"
  using holds_push_str [OF holds_push, of cap t p b s] by simp

lemma holds_ip:
  "holds cap t p \<Longrightarrow> \<exists>p'. buf_push_ip ip p = Some p' \<and> holds cap (t @ dotted ip) p'"
  using holds_push_ip by (simp add: buf_push_ip_def dotted_def)

lemma holds_gateway:
  assumes "holds cap t p"
  shows "\<exists>p'. (if gateway = [0, 0, 0, 0] then Some (buf_push_str (lit ''(none)'') p)
               else buf_push_ip gateway p) = Some p' \<and>
    holds cap (t @ (if gateway = [0, 0, 0, 0] then lit ''(none)'' else dotted gateway)) p'"
  using holds_push_str [OF assms] holds_ip [OF assms] by (cases "gateway = [0, 0, 0, 0]") auto

lemma format_dhcp_info_holds:
  "\<exists>p. format_dhcp_info mac ip subnet gateway next_server bootfile buf = Some p \<and>
       holds (length buf) (dhcp_text mac ip subnet gateway next_server bootfile) p"
proof -
  let ?holds = "holds (length buf)"
  have "?holds (lit ''MAC: '') (buf_push_str (lit ''MAC: '') (buf, 0))"
    using holds_push_str [OF holds_empty, of buf "lit ''MAC: ''"] by simp
  from holds_label [OF holds_push_mac [OF this, of 0 mac], of 10 "lit ''IP: ''"] obtain t p0 where
    p0: "p0 = buf_push_str (lit ''IP: '') (buf_push 10 (buf_push_mac mac (buf_push_str (lit ''MAC: '') (buf, 0))))"
    and t: "t = (lit ''MAC: '' @ mac_from 0 mac) @ [10] @ lit ''IP: ''" and "?holds t p0"
    by (simp add: buf_push_mac_def)
  from holds_ip [OF this(3)] obtain p1 where
    p1: "buf_push_ip ip p0 = Some p1" and "?holds (t @ dotted ip) p1" by blast
  from holds_ip [OF holds_label [OF this(2)]] obtain p2 where
    p2: "buf_push_ip subnet (buf_push_str (lit ''Subnet: '') (buf_push 10 p1)) = Some p2"
    and "?holds (((t @ dotted ip) @ [10] @ lit ''Subnet: '') @ dotted subnet) p2" by blast
  from holds_gateway [OF holds_label [OF this(2)]] obtain p3 where
    p3: "(if gateway = [0, 0, 0, 0] then Some (buf_push_str (lit ''(none)'') (buf_push_str (lit ''Gateway: '') (buf_push 10 p2)))
          else buf_push_ip gateway (buf_push_str (lit ''Gateway: '') (buf_push 10 p2))) = Some p3"
    and "?holds (((((t @ dotted ip) @ [10] @ lit ''Subnet: '') @ dotted subnet) @ [10] @ lit ''Gateway: '')
      @ (if gateway = [0, 0, 0, 0] then lit ''(none)'' else dotted gateway)) p3" by blast
  from holds_ip [OF holds_label [OF this(2), where b = 10 and s = "lit ''TFTP Server: ''"]] obtain p4 where
    p4: "buf_push_ip next_server (buf_push_str (lit ''TFTP Server: '') (buf_push 10 p3)) = Some p4"
    and "?holds (((((((t @ dotted ip) @ [10] @ lit ''Subnet: '') @ dotted subnet) @ [10] @ lit ''Gateway: '')
      @ (if gateway = [0, 0, 0, 0] then lit ''(none)'' else dotted gateway)) @ [10] @ lit ''TFTP Server: '')
      @ dotted next_server) p4" by blast
  from holds_push [OF holds_push_str [OF holds_label [OF this(2)]]]
  have "?holds (dhcp_text mac ip subnet gateway next_server bootfile)
      (buf_push 10 (push_bootfile bootfile (buf_push_str (lit ''Bootfile: '') (buf_push 10 p4))))"
    by (simp add: dhcp_text_def push_bootfile_def t)
  moreover have "format_dhcp_info mac ip subnet gateway next_server bootfile buf =
      Some (buf_push 10 (push_bootfile bootfile (buf_push_str (lit ''Bootfile: '') (buf_push 10 p4))))"
    using p1 p2 p3 p4 by (simp add: format_dhcp_info_def p0 split: if_splits)
  ultimately show ?thesis by blast
qed

subsection \<open>Hexadecimal\<close>

lemma unat_hex_nibble:
  "i * 4 < 64 \<Longrightarrow> unat (ucast (drop_bit (i * 4) val AND 0xF :: u64) :: u8) = unat val div 16 ^ i mod 16"
proof -
  have "drop_bit (i * 4) val AND 0xF = take_bit 4 (drop_bit (i * 4) val)"
    by (simp add: take_bit_eq_mask mask_eq_decr_exp)
  moreover have "unat (take_bit 4 (drop_bit (i * 4) val)) = unat val div 16 ^ i mod 16"
    by (simp only: unat_take_bit_mod unat_drop_bit_div) (simp add: power_mult mult.commute [of i])
  ultimately show "?thesis"
    by (simp add: unsigned_ucast_eq take_bit_eq_mod)
qed

lemma hex_dig_hex_digit: "unat d < 16 \<Longrightarrow> hex_dig (hex_digit d) = unat d"
proof -
  have all: "\<forall>i \<in> set [0..<16]. hex_dig (hex_digit (word_of_nat i)) = i"
    by code_simp
  assume "unat d < 16"
  with all have "hex_dig (hex_digit (word_of_nat (unat d))) = unat d"
    by (metis atLeastLessThan_iff le0 set_upt)
  then show ?thesis by simp
qed

text \<open>
  The digit loop: once a digit has been written the remaining positions are all written,
  before that leading zeros are dropped, except at the last position.
\<close>

lemma hex_loop_started:
  "i \<le> 16 \<Longrightarrow> length buf + i \<le> 16 \<Longrightarrow>
   \<exists>s. hex_loop val i True buf = Some (True, buf @ s) \<and> length s = i \<and>
       digits_value 16 hex_dig s = unat val mod 16 ^ i"
proof (induction i arbitrary: buf)
  case (Suc i)
  let ?d = "ucast (drop_bit (i * 4) val AND 0xF :: u64) :: u8"
  obtain s where s: "hex_loop val i True (buf @ [hex_digit ?d]) = Some (True, (buf @ [hex_digit ?d]) @ s)"
    "length s = i" "digits_value 16 hex_dig s = unat val mod 16 ^ i"
    using Suc.IH [of "buf @ [hex_digit ?d]"] Suc.prems by auto
  have d: "unat ?d = unat val div 16 ^ i mod 16"
    using Suc.prems by (intro unat_hex_nibble) simp
  have "digits_value 16 hex_dig (hex_digit ?d # s) = unat val mod 16 ^ Suc i"
    using s(2,3) d mod_mult2_eq [of "unat val" "16 ^ i" 16]
    by (simp add: hex_dig_hex_digit mult.commute)
  with s Suc.prems show ?case
    by (intro exI [of _ "hex_digit ?d # s"]) (simp add: Let_def)
qed simp

lemma hex_digit_eq_48: "unat d < 16 \<Longrightarrow> hex_digit d = 48 \<Longrightarrow> d = 0"
  using hex_dig_hex_digit [of d] by (simp add: hex_dig_def unat_eq_zero)

lemma hex_loop_fresh:
  "0 < i \<Longrightarrow> i \<le> 16 \<Longrightarrow>
   \<exists>s. hex_loop val i False [] = Some (True, s) \<and> s \<noteq> [] \<and> length s \<le> i \<and>
       digits_value 16 hex_dig s = unat val mod 16 ^ i \<and> (hd s = 48 \<longrightarrow> length s = 1)"
proof (induction i)
  case (Suc i)
  let ?d = "ucast (drop_bit (i * 4) val AND 0xF :: u64) :: u8"
  have d: "unat ?d = unat val div 16 ^ i mod 16"
    using Suc.prems by (intro unat_hex_nibble) simp
  show ?case
  proof (cases "?d = 0 \<and> 0 < i")
    case True
    with d have "unat val div 16 ^ i mod 16 = 0" by simp
    then have "unat val mod 16 ^ Suc i = unat val mod 16 ^ i"
      using mod_mult2_eq [of "unat val" "16 ^ i" 16] by (simp add: mult.commute)
    with True Suc show ?thesis
      by (fastforce simp: Let_def)
  next
    case False
    obtain s where s: "hex_loop val i True [hex_digit ?d] = Some (True, [hex_digit ?d] @ s)"
      "length s = i" "digits_value 16 hex_dig s = unat val mod 16 ^ i"
      using hex_loop_started [of i "[hex_digit ?d]" val] Suc.prems by auto
    have "digits_value 16 hex_dig (hex_digit ?d # s) = unat val mod 16 ^ Suc i"
      using s(2,3) d mod_mult2_eq [of "unat val" "16 ^ i" 16]
      by (simp add: hex_dig_hex_digit mult.commute)
    with False s Suc.prems show ?thesis
      using hex_digit_eq_48 [of ?d] d
      by (intro exI [of _ "hex_digit ?d # s"]) (auto simp: Let_def)
  qed
qed simp

section \<open>Properties\<close>

text \<open>
  \<open>format_dec\<close> never panics and prints the decimal numeral of its argument: the digits
  denote the value, all are decimal digits, there is no leading zero except for 0 itself, and
  the twenty bytes of the buffer suffice.
\<close>

theorem format_dec_correct:
  "\<exists>s. format_dec v = Some s \<and> digits_value 10 dec_dig s = unat v \<and> length s \<le> 20 \<and>
       (\<forall>b \<in> set s. 48 \<le> unat b \<and> unat b \<le> 57) \<and> (hd s = 48 \<longleftrightarrow> v = 0)"
proof -
  have "length (dec_str (unat v)) \<le> 20"
    using unat_u64 [of v] by (intro length_dec_str) simp_all
  then show ?thesis
    using dec_str_digits by (auto simp: format_dec_eq dec_str_value dec_str_hd unat_eq_zero)
qed

theorem format_dec_correct_witness:
  "\<exists>s. format_dec 1048576 = Some s \<and> digits_value 10 dec_dig s = 1048576"
  using format_dec_correct [of 1048576] by auto

text \<open>
  For any number of nibbles the 16-byte buffer holds, \<open>format_hex\<close> prints a hexadecimal
  numeral of the low nibbles of its argument, without leading zeros.
\<close>

theorem format_hex_correct:
  assumes "0 < nibbles" and "nibbles \<le> 16"
  shows "\<exists>s. format_hex val nibbles = Some s \<and> digits_value 16 hex_dig s = unat val mod 16 ^ nibbles
    \<and> length s \<le> nibbles \<and> (hd s = 48 \<longrightarrow> length s = 1)"
  using hex_loop_fresh [OF assms, of val] by (auto simp: format_hex_def)

theorem format_hex_correct_witness:
  "\<exists>s. format_hex 0xDEADBEEF 4 = Some s \<and> digits_value 16 hex_dig s = 0xBEEF \<and> length s \<le> 4"
  using format_hex_correct [of 4 "0xDEADBEEF"] by auto

text \<open>
  The DHCP summary is bounded by the caller's buffer: for every buffer, however short,
  \<open>format_dhcp_info\<close> does not panic, writes the longest prefix of the full text that fits and
  returns its length, and the buffer keeps its size.
\<close>

theorem format_dhcp_info_bounded:
  "\<exists>buf' n. format_dhcp_info mac ip subnet gateway next_server bootfile buf = Some (buf', n) \<and>
     n = min (length buf) (length (dhcp_text mac ip subnet gateway next_server bootfile)) \<and>
     take n buf' = take n (dhcp_text mac ip subnet gateway next_server bootfile) \<and>
     length buf' = length buf"
proof -
  obtain p where "format_dhcp_info mac ip subnet gateway next_server bootfile buf = Some p"
    and "holds (length buf) (dhcp_text mac ip subnet gateway next_server bootfile) p"
    using format_dhcp_info_holds by blast
  then show ?thesis
    by (cases p) (auto simp: holds_def min_def)
qed

end
