(* ===== verification/Rom.thy ===== *)
theory Rom
  imports Print
begin

text \<open>
  \<^verbatim>\<open>romwrap/src/main.rs\<close>: the tool that wraps an image into a PCI option ROM, with its options. The file
  system is a parameter: what reading a file gives, and whether writing one succeeds.
\<close>

section \<open>The image\<close>

definition ROM_HEADER_SIZE :: nat where "ROM_HEADER_SIZE = 0x1C"
definition PCIR_SIZE :: nat where "PCIR_SIZE = 0x18"
definition TOTAL_HEADERS :: nat where "TOTAL_HEADERS = ROM_HEADER_SIZE + PCIR_SIZE"
definition BIOS_ENTRY_SIZE :: nat where "BIOS_ENTRY_SIZE = 3"

lemmas rom_sizes = ROM_HEADER_SIZE_def PCIR_SIZE_def TOTAL_HEADERS_def BIOS_ENTRY_SIZE_def

definition payload_offset :: "bool \<Rightarrow> nat" where
  "payload_offset is_bios = TOTAL_HEADERS + (if is_bios then BIOS_ENTRY_SIZE else 0)"

definition total_blocks :: "bytes \<Rightarrow> bool \<Rightarrow> u16" where
  "total_blocks pe_data is_bios = word_of_nat ((payload_offset is_bios + length pe_data + 511) div 512)"

text \<open>The headers and the entry routine, \<^verbatim>\<open>xor ax,ax; retf\<close>.\<close>

definition rom_front :: "u16 \<Rightarrow> u16 \<Rightarrow> u16 \<Rightarrow> bool \<Rightarrow> bytes" where
  "rom_front blocks vendor_id device_id is_bios =
     le16 0xAA55 @ le16 (if is_bios then word_of_nat TOTAL_HEADERS else 0) @ le16 blocks @ replicate 18 0 @
     le32 (word_of_nat ROM_HEADER_SIZE) @
     lit ''PCIR'' @ le16 vendor_id @ le16 device_id @ le16 0 @ le16 (word_of_nat PCIR_SIZE) @
     [0, if is_bios then 0 else 3, 0x80, 0] @ le16 blocks @ le16 blocks @ replicate 4 0 @
     (if is_bios then [0x33, 0xC0, 0xCB] else [])"

text \<open>\<^verbatim>\<open>Vec::resize\<close> with zeros.\<close>

definition resize :: "nat \<Rightarrow> bytes \<Rightarrow> bytes" where
  "resize n xs = take n xs @ replicate (n - length xs) 0"

definition build_pci_rom :: "bytes \<Rightarrow> u16 \<Rightarrow> u16 \<Rightarrow> bool \<Rightarrow> bytes" where
  "build_pci_rom pe_data vendor_id device_id is_bios =
     (let blocks = total_blocks pe_data is_bios in
      resize (unat blocks * 512) (rom_front blocks vendor_id device_id is_bios @ pe_data))"

section \<open>The tool\<close>

definition after_prefix :: "bytes \<Rightarrow> bytes \<Rightarrow> bytes option" where
  "after_prefix p s = (if take (length p) s = p then Some (drop (length p) s) else None)"

text \<open>\<^verbatim>\<open>trim_start_matches("0x")\<close> takes every such prefix away.\<close>

function trim_0x :: "bytes \<Rightarrow> bytes" where
  "trim_0x s = (case s of a # b # r \<Rightarrow> if a = 48 \<and> b = 120 then trim_0x r else s | _ \<Rightarrow> s)"
  by pat_completeness auto
termination
  by (relation "measure length") auto

declare trim_0x.simps [simp del]

definition hex_value :: "u8 \<Rightarrow> nat option" where
  "hex_value b =
     (if 48 \<le> b \<and> b \<le> 57 then Some (unat (b - 48)) else if 97 \<le> b \<and> b \<le> 102 then Some (unat (b - 87))
      else if 65 \<le> b \<and> b \<le> 70 then Some (unat (b - 55)) else None)"

text \<open>\<^verbatim>\<open>u16::from_str_radix(s, 16)\<close>: an optional plus, at least one digit, no overflow.\<close>

fun hex_digits :: "bytes \<Rightarrow> nat \<Rightarrow> nat option" where
  "hex_digits [] acc = Some acc"
| "hex_digits (b # r) acc =
     (case hex_value b of None \<Rightarrow> None
      | Some d \<Rightarrow> if acc * 16 + d \<ge> 2 ^ 16 then None else hex_digits r (acc * 16 + d))"

definition parse_u16_hex :: "bytes \<Rightarrow> u16 option" where
  "parse_u16_hex s =
     (let ds = (if length s > 1 \<and> hd s = 43 then tl s else s) in
      if ds = [] then None else map_option word_of_nat (hex_digits ds 0))"

text \<open>The options, left to right; an identifier that does not parse is a panic.\<close>

record rom_options =
  rom_vendor :: u16
  rom_device :: u16
  rom_bios :: bool

definition read_option :: "bytes \<Rightarrow> rom_options \<Rightarrow> rom_options option" where
  "read_option arg x =
     (if arg = lit ''--bios'' then ret (x\<lparr>rom_bios := True\<rparr>)
      else case after_prefix (lit ''--vendor='') arg of
        Some v \<Rightarrow> do { n \<leftarrow> parse_u16_hex (trim_0x v); ret (x\<lparr>rom_vendor := n\<rparr>) }
      | None \<Rightarrow> (case after_prefix (lit ''--device='') arg of
          Some d \<Rightarrow> do { n \<leftarrow> parse_u16_hex (trim_0x d); ret (x\<lparr>rom_device := n\<rparr>) }
        | None \<Rightarrow> ret x))"

primrec read_options :: "bytes list \<Rightarrow> rom_options \<Rightarrow> rom_options option" where
  "read_options [] x = ret x"
| "read_options (a # as) x = do { y \<leftarrow> read_option a x; read_options as y }"

text \<open>What the tool does: it shows its usage, refuses the input, or writes the image.\<close>

datatype rom_outcome = Usage | NotPE | Wrote bytes

definition wrap_main :: "(bytes \<Rightarrow> bytes option) \<Rightarrow> (bytes \<Rightarrow> bytes \<Rightarrow> bool) \<Rightarrow> bytes list \<Rightarrow> rom_outcome option" where
  "wrap_main read_file write_file args =
     (if length args < 3 then ret Usage
      else do {
        x \<leftarrow> read_options (drop 3 args) \<lparr>rom_vendor = 0x8086, rom_device = 0x100E, rom_bios = False\<rparr>;
        input \<leftarrow> read_file (args ! 1);
        if \<not> rom_bios x \<and> (length input < 2 \<or> take 2 input \<noteq> [77, 90]) then ret NotPE
        else let rom = build_pci_rom input (rom_vendor x) (rom_device x) (rom_bios x) in
          if write_file (args ! 2) rom then ret (Wrote rom) else panic
      })"

section \<open>What the image holds\<close>

lemma rom_front_length: "length (rom_front blocks vendor_id device_id is_bios) = payload_offset is_bios"
  by (simp add: rom_front_def payload_offset_def rom_sizes lit_def)

lemma length_resize [simp]: "length (resize n xs) = n"
  by (simp add: resize_def)

lemma rom_length:
  "length (build_pci_rom pe_data vendor_id device_id is_bios) =
     512 * (((payload_offset is_bios + length pe_data + 511) div 512) mod 65536)"
  by (simp add: build_pci_rom_def Let_def total_blocks_def unat_of_nat)

text \<open>An image that fits the block count is the headers, the payload and zeros up to the next block.\<close>

lemma rom_contents:
  assumes "payload_offset is_bios + length pe_data \<le> 65535 * 512"
  defines "n \<equiv> payload_offset is_bios + length pe_data"
  shows "build_pci_rom pe_data vendor_id device_id is_bios =
    rom_front (total_blocks pe_data is_bios) vendor_id device_id is_bios @ pe_data @ replicate (512 * ((n + 511) div 512) - n) 0"
proof -
  have "(n + 511) div 512 < 65536"
    using assms(1) by (simp add: n_def less_mult_imp_div_less)
  then have "unat (total_blocks pe_data is_bios) = (n + 511) div 512"
    by (simp add: total_blocks_def unat_of_nat n_def)
  moreover have "n \<le> 512 * ((n + 511) div 512)"
    by linarith
  ultimately show ?thesis
    by (simp add: build_pci_rom_def Let_def resize_def rom_front_length n_def mult.commute)
qed

text \<open>The count of blocks is kept in 16 bits: an image of the last block below 32 MB comes out empty.\<close>

lemma rom_lost:
  assumes "65535 * 512 < payload_offset is_bios + length pe_data" and "payload_offset is_bios + length pe_data \<le> 65536 * 512"
  shows "build_pci_rom pe_data vendor_id device_id is_bios = []"
proof -
  have "(payload_offset is_bios + length pe_data + 511) div 512 = 65536"
    using assms by linarith
  then show ?thesis
    using rom_length [of pe_data vendor_id device_id is_bios] by simp
qed

lemma seg_mid: "length p = a \<Longrightarrow> b = a + length q \<Longrightarrow> seg (p @ q @ r) a b = q"
  by (simp add: seg_def)

lemma rom_words:
  "le16 0xAA55 = [0x55, 0xAA]" "le32 (word_of_nat ROM_HEADER_SIZE) = [0x1C, 0, 0, 0]"
  by (simp_all add: le16_def le32_def be16_def be32_def ROM_HEADER_SIZE_def drop_bit_eq_div)

lemma rom_fields:
  assumes "payload_offset is_bios + length pe_data \<le> 65535 * 512" and "rom = build_pci_rom pe_data vendor_id device_id is_bios"
  shows "seg rom 0 2 = [0x55, 0xAA]" and "seg rom 24 28 = [0x1C, 0, 0, 0]" and "seg rom 28 32 = lit ''PCIR''"
    and "seg rom 40 44 = [0, if is_bios then 0 else 3, 0x80, 0]"
    and "seg rom (payload_offset is_bios) (payload_offset is_bios + length pe_data) = pe_data"
proof -
  obtain t where t: "rom = rom_front (total_blocks pe_data is_bios) vendor_id device_id is_bios @ pe_data @ t"
    using rom_contents [OF assms(1)] assms(2) by simp
  then show "seg rom (payload_offset is_bios) (payload_offset is_bios + length pe_data) = pe_data"
    by (simp add: seg_def rom_front_length)
  have "seg rom 0 2 = le16 0xAA55" "seg rom 24 28 = le32 (word_of_nat ROM_HEADER_SIZE)"
    unfolding t rom_front_def by (simp_all add: seg_def)
  then show "seg rom 0 2 = [0x55, 0xAA]" "seg rom 24 28 = [0x1C, 0, 0, 0]"
    by (simp_all only: rom_words)
  let ?a = "le16 0xAA55 @ le16 (if is_bios then word_of_nat TOTAL_HEADERS else 0) @ le16 (total_blocks pe_data is_bios) @
    replicate 18 0 @ le32 (word_of_nat ROM_HEADER_SIZE)"
  let ?b = "?a @ lit ''PCIR'' @ le16 vendor_id @ le16 device_id @ le16 0 @ le16 (word_of_nat PCIR_SIZE)"
  have "\<exists>r. rom = ?a @ lit ''PCIR'' @ r" "\<exists>r. rom = ?b @ [0, if is_bios then 0 else 3, 0x80, 0] @ r"
    unfolding t rom_front_def append_assoc by (intro exI, rule refl)+
  moreover have "length ?a = 28" "length ?b = 40" "length (lit ''PCIR'') = 4"
    by (simp_all add: lit_def)
  ultimately show "seg rom 28 32 = lit ''PCIR''" "seg rom 40 44 = [0, if is_bios then 0 else 3, 0x80, 0]"
    using seg_mid [of ?a 28 32 "lit ''PCIR''"] seg_mid [of ?b 40 44 "[0, if is_bios then 0 else 3, 0x80, 0]"] by force+
qed

text \<open>An identifier of one to four hexadecimal digits is accepted.\<close>

lemma hex_value_less: "hex_value b = Some d \<Longrightarrow> d < 16"
  by (auto simp: hex_value_def word_le_nat_alt unat_sub split: if_splits)

lemma hex_digits_fit:
  "list_all (\<lambda>b. hex_value b \<noteq> None) ds \<Longrightarrow> acc < 16 ^ k \<Longrightarrow> k + length ds \<le> 4 \<Longrightarrow> hex_digits ds acc \<noteq> None"
proof (induction ds arbitrary: acc k)
  case (Cons b ds)
  then obtain d where d: "hex_value b = Some d" "d < 16"
    using hex_value_less by auto
  then have "acc * 16 + d < 16 ^ Suc k"
    using Cons.prems(2) by simp
  moreover have "(16 :: nat) ^ Suc k \<le> 16 ^ 4"
    using Cons.prems(3) by (intro power_increasing) simp_all
  ultimately show ?case
    using Cons.IH [of "acc * 16 + d" "Suc k"] Cons.prems(1,3) d(1) by simp
qed simp

lemma parse_u16_hex_total:
  assumes "ds \<noteq> []" and "length ds \<le> 4" and "list_all (\<lambda>b. hex_value b \<noteq> None) ds"
  shows "parse_u16_hex ds \<noteq> None"
proof -
  have "hd ds \<noteq> 43"
    using assms(1,3) by (cases ds) (auto simp: hex_value_def)
  then show ?thesis
    using hex_digits_fit [OF assms(3), of 0 0] assms(1,2) by (simp add: parse_u16_hex_def)
qed

end
