(* ===== verification/LuaHelp.thy ===== *)
theory LuaHelp
  imports Print
begin

text \<open>
  The texts of the shell's help, \<^verbatim>\<open>HELP_COMMANDS\<close> of \<^verbatim>\<open>lua/src/repl.rs\<close>: for each command its name, a
  short text and the lines of its description.
\<close>

type_synonym help_entry = "bytes \<times> bytes \<times> bytes list"

definition help_1 :: "help_entry list" where
  "help_1 =
     [(lit ''help'', lit ''Show this help; 'help <cmd>' for details'',
       [lit ''help [command]'',
        lit ''No argument lists all REPL commands.'',
        [39] @ lit ''help <cmd>' shows detailed help for one command.'']),
      (lit ''exit'', lit ''Exit the Lua shell and return to the menu'',
       [lit ''exit'',
        lit ''Leaves the Lua shell and returns to the main menu.'',
        lit ''May also be written exit() in a script.'']),
      (lit ''clear'', lit ''Clear the screen'',
       [lit ''clear'',
        lit ''Clears the display (same as Ctrl-L).'']),
      (lit ''global'', lit ''Declare a persistent global variable'',
       [lit ''global name [= value]'',
        lit ''Declares `name` as a global that persists across REPL lines'',
        lit ''(unlike `local`, which is scoped to one chunk). Use this in'',
        lit ''the REPL when a value must survive to the next line.'',
        lit ''Example: global f = io.open(\"x.txt\", \"r\")'']),
      (lit ''print'', lit ''Print one or more values'',
       [lit ''print(v1, v2, ...)'',
        lit ''Prints values separated by tabs, followed by a newline.'',
        lit ''Example: print(1 + 2) -> 3'']),
      (lit ''next'', lit ''Return the next key/value pair of a table'',
       [lit ''next(t [, k])'',
        lit ''Returns the next key and value after key k in table t, or the'',
        lit ''first pair when k is nil/missing, or nil at the end. Use'',
        [39] @ lit ''k, v = next(t, k)' to walk a table; 'next(t) == nil' tests'',
        lit ''whether t is empty.'',
        lit ''Example: next({10, 20}) -> 1 10'']),
      (lit ''pairs'', lit ''Iterator for all key/value pairs of a table'',
       [lit ''pairs(t)'',
        lit ''Returns the next function and the table, so that'',
        [39] @ lit ''for k, v in pairs(t) do ... end' iterates every pair. A'',
        lit ''__pairs metamethod is dispatched when present.'',
        lit ''Example: for k, v in pairs({a=1}) do print(k, v) end'']),
      (lit ''rawequal'', lit ''Compare two values without metamethods'',
       [lit ''rawequal(v1, v2)'',
        lit ''Returns whether v1 equals v2 using primitive equality, never'',
        lit ''the __eq metamethod (unlike `v1 == v2`).'',
        lit ''Example: rawequal(1, 1.0) -> true'']),
      (lit ''rawget'', lit ''Get table[index] without the __index metavalue'',
       [lit ''rawget(table, index)'',
        lit ''Returns the real value of table[index], never consulting the'',
        lit ''__index metamethod. The index may be any value; the table'',
        lit ''must be a table.'',
        lit ''Example: rawget({a=1}, \"a\") -> 1'']),
      (lit ''rawlen'', lit ''Length of a table or string (no __len)'',
       [lit ''rawlen(v)'',
        lit ''Returns the length of v, which must be a table or a string.'',
        lit ''A table's length is the run of consecutive integer keys'',
        lit ''starting at 1 (no __len is consulted).'',
        lit ''Example: rawlen(\"abc\") -> 3'']),
      (lit ''rawset'', lit ''Set table[index] without the __newindex metavalue'',
       [lit ''rawset(table, index, value)'',
        lit ''Sets the real value of table[index] and returns the table,'',
        lit ''never consulting the __newindex metamethod. The index may'',
        lit ''not be nil or NaN.'',
        lit ''Example: rawset({}, \"k\", 7) -> table'']),
      (lit ''select'', lit ''Return arguments after an index, or count with '#'' @ [39],
       [lit ''select(index, ...)'',
        lit ''With a number index, returns the arguments after position'',
        lit ''index (-1 is the last argument). With the string \"#\",'',
        lit ''returns the number of extra arguments it received.'',
        lit ''Example: select(2, \"a\", \"b\", \"c\") -> b c'']),
      (lit ''setmetatable'', lit ''Set (or remove) a table's metatable'',
       [lit ''setmetatable(table, metatable)'',
        lit ''Stores the metatable for the table (nil removes it) and'',
        lit ''returns the table. Dispatched metamethods: __index,'',
        lit ''__newindex, __eq, __lt, __le, __concat, __add, __sub, __mul,'',
        lit ''__div, __mod, __unm, __call, __tostring, __pairs. A metatable'',
        lit ''with a non-nil __metatable field is protected.'',
        lit ''Example: setmetatable({}, {}) -> table'']),
      (lit ''tonumber'', lit ''Convert a value or numeric string to a number'',
       [lit ''tonumber(e [, base])'',
        lit ''Without a base, converts a number or a numeric string to an'',
        lit ''integer or float (nil if it cannot). With a base (2..36) the'',
        lit ''first argument must be a string, parsed as an integer in'',
        lit ''that base. Example: tonumber(\"ff\", 16) -> 255'']),
      (lit ''tostring'', lit ''Convert a value to its string form'',
       [lit ''tostring(v)'',
        lit ''Returns the human-readable string form of any value, using'',
        lit ''the same rendering as print. A table's __tostring metamethod'',
        lit ''is dispatched (it must return a string).'',
        lit ''Example: tostring(42) -> 42'']),
      (lit ''type'', lit ''Return the type name of a value'',
       [lit ''type(v)'',
        lit ''Returns \"nil\", \"boolean\", \"number\", \"string\", \"table\"'',
        lit ''or \"function\". Metamethods are not consulted.'',
        lit ''Example: type(42) -> number'']),
      (lit ''warn'', lit ''Emit a warning message'',
       [lit ''warn(msg, ...)'',
        lit ''Concatenates its string (or number) arguments and prints'',
        [39] @ lit ''Lua warning: <msg>'. The control messages \"@off\" and \"@on\"'',
        lit ''turn warnings off and on again.'',
        lit ''Example: warn(\"hi\") -> Lua warning: hi''])]"

definition help_2 :: "help_entry list" where
  "help_2 =
     [(lit ''pcall'', lit ''Call a function in protected mode'',
       [lit ''pcall(f, ...)'',
        lit ''Calls f with the given arguments. Returns true plus the'',
        lit ''results on success, or false plus the error object on'',
        lit ''failure. Example: pcall(next, {5}) -> true 1 5'',
        lit ''A coroutine may yield through pcall; the protected call'',
        lit ''resumes and finishes when the coroutine is resumed.'',
        lit ''Example: pcall(next, {5}) -> true 1 5'']),
      (lit ''xpcall'', lit ''Call a function with an error handler'',
       [lit ''xpcall(f, err, ...)'',
        lit ''Like pcall, but on failure calls err(error_object) and'',
        lit ''returns false plus the handler's results. The handler itself'',
        lit ''runs unprotected; errors inside it propagate to the caller.'',
        lit ''Example: xpcall(function() error(\"boom\") end, function(e) return e end) -> false boom'']),
      (lit ''error'', lit ''Raise an error'',
       [lit ''error(v [, level])'',
        lit ''Raises v as an error object. pcall catches it and returns'',
        lit ''the value unchanged. level is validated but ignored (this'',
        lit ''interpreter has no source positions).'',
        lit ''Example: pcall(error, \"boom\") -> false boom'']),
      (lit ''assert'', lit ''Raise an error if a condition is false'',
       [lit ''assert(v [, message, ...])'',
        lit ''Returns all its arguments when v is truthy. Raises an error'',
        lit ''with message (default \"assertion failed!\") otherwise.'',
        lit ''Example: assert(1 == 1) -> true'']),
      (lit ''string.byte'', lit ''Return numeric byte values of characters in a string'',
       [lit ''string.byte(s [, i [, j]])'',
        lit ''Returns the numeric codes of the characters s[i..j].'',
        lit ''The default for i is 1 and the default for j is i.'',
        lit ''Negative indices count from the end of the string.'',
        lit ''Example: string.byte(\"ABC\", 1, 2) -> 65 66'']),
      (lit ''string.char'', lit ''Build a string from byte values'',
       [lit ''string.char(b1, b2, ...)'',
        lit ''Returns a string composed of the given byte values. Each'',
        lit ''argument must be an integer in the range 0..255. With no'',
        lit ''arguments returns the empty string.'',
        lit ''Example: string.char(65, 66, 67) -> \"ABC\"'']),
      (lit ''string.dump'', lit ''Return a binary dump of a function'',
       [lit ''string.dump(f)'',
        lit ''Returns a binary string containing the function's bytecode'',
        lit ''and metadata. The format is interpreter-specific and is not'',
        lit ''loadable without a corresponding loader.'',
        lit ''Example: type(string.dump(print)) -> string'']),
      (lit ''string.find'', lit ''Find a pattern in a string'',
       [lit ''string.find(s, pattern [, init [, plain]])'',
        lit ''Returns the start and end indices (1-based, inclusive) of'',
        lit ''the first match of `pattern` in `s`, or nil if not found.'',
        lit ''`init` defaults to 1; `plain` defaults to false. When `plain`'',
        lit ''is true the pattern is treated as a literal substring.'',
        lit ''Supported patterns: ., %a/%d/%l/%s/%u/%w/%x/%p/%c, [set],'',
        lit ''[^set], *, +, -, ?, ^, $.'',
        lit ''See 'help patterns' for pattern syntax.'',
        lit ''Example: string.find(\"abc\", \"b\") -> 2 2'']),
      (lit ''string.format'', lit ''Format values into a string'',
       [lit ''string.format(formatstring, ...)'',
        lit ''Formats the arguments according to `formatstring`. Supported'',
        lit ''conversions: %% %s %q %c %d %i %u %o %x %X %f %e %E %g %G.'',
        lit ''Flags: - + ' ' 0 #. Width and precision are supported.'',
        lit ''%g/%G use %.14g precision. Results are capped at 1024 bytes.'',
        lit ''Example: string.format(\"%d\", 42) -> 42'']),
      (lit ''string.gmatch'', lit ''Iterate over matches of a pattern'',
       [lit ''string.gmatch(s, pattern [, init])'',
        lit ''Returns an iterator that yields the captures of each match'',
        lit ''of `pattern` in `s` (or the whole match when the pattern has'',
        lit ''no captures), starting at `init` (default 1). Usable in a'',
        lit ''`for` loop or by calling the iterator directly; it returns'',
        lit ''nil once exhausted. Capture groups `(...)` are supported.'',
        lit ''See 'help patterns' for pattern syntax.'',
        lit ''Example: string.gmatch(\"a b\", \"%a+\")() -> a'']),
      (lit ''string.gsub'', lit ''Replace matches of a pattern'',
       [lit ''string.gsub(s, pattern, repl [, n])'',
        lit ''Replaces up to `n` matches of `pattern` in `s` with `repl`'',
        lit ''(a string, table, or function) and returns (result, count).'',
        lit ''In a string `repl`, %0..%9 stand for captures and %% is %.'',
        lit ''See 'help patterns' for pattern syntax.'',
        lit ''Example: string.gsub(\"a b\", \" \", \"-\") -> a-b 1'']),
      (lit ''string.len'', lit ''Length of a string in bytes'',
       [lit ''string.len(s)'',
        lit ''Returns the number of bytes in `s` (same as #s).'',
        lit ''Example: string.len(\"abc\") -> 3'']),
      (lit ''string.lower'', lit ''Lowercase a string'',
       [lit ''string.lower(s)'',
        lit ''Returns a copy of `s` with all ASCII uppercase letters'',
        lit ''converted to lowercase. Non-ASCII bytes are unchanged.'',
        lit ''Example: string.lower(\"ABC\") -> abc'']),
      (lit ''string.match'', lit ''First match of a pattern'',
       [lit ''string.match(s, pattern [, init])'',
        lit ''Returns the captures of the first match of `pattern` in `s`'',
        lit ''(or the whole match when there are no captures), starting at'',
        lit ''`init` (default 1). Returns nil if there is no match.'',
        lit ''See 'help patterns' for pattern syntax.'',
        lit ''Example: string.match(\"a=5\", \"(%a)=(%d+)\") -> a 5'']),
      (lit ''string.pack'', lit ''Pack values into a binary string'',
       [lit ''string.pack(fmt, v1, ...)'',
        lit ''Returns a binary string containing the values packed according'',
        lit ''to the format string `fmt`. See 'help format-strings' for the'',
        lit ''meaning of `fmt`.'',
        lit ''Example: string.pack(\"<i4\", 42) -> *''])]"

definition help_3 :: "help_entry list" where
  "help_3 =
     [(lit ''string.packsize'', lit ''Size of a packed string'',
       [lit ''string.packsize(fmt)'',
        lit ''Returns the size (in bytes) of a string created by'',
        lit ''string.pack with the given format string `fmt`. See'',
        [39] @ lit ''help format-strings' for the meaning of `fmt`.'',
        lit ''Example: string.packsize(\"<i4\") -> 4'']),
      (lit ''string.rep'', lit ''Repeat a string'',
       [lit ''string.rep(s, n [, sep])'',
        lit ''Returns a string containing `n` copies of `s`, optionally'',
        lit ''separated by `sep`.'',
        lit ''Example: string.rep(\"ab\", 3) -> ababab'']),
      (lit ''string.reverse'', lit ''Reverse a string'',
       [lit ''string.reverse(s)'',
        lit ''Returns a string with the characters of `s` in reverse order.'',
        lit ''Example: string.reverse(\"abc\") -> cba'']),
      (lit ''string.sub'', lit ''Substring of a string'',
       [lit ''string.sub(s, i [, j])'',
        lit ''Returns the substring of `s` from index `i` to `j` (inclusive).'',
        lit ''Negative indices count from the end. Defaults: i=1, j=-1.'',
        lit ''Example: string.sub(\"hello\", 2, 4) -> ell'']),
      (lit ''string.unpack'', lit ''Unpack values from a binary string'',
       [lit ''string.unpack(fmt, s [, pos])'',
        lit ''Unpacks values from `s` according to `fmt`, starting at `pos`'',
        lit ''(default 1), returning the values plus the next position.'',
        lit ''See 'help format-strings' for the meaning of `fmt`.'',
        lit ''Example: string.unpack(\"<i4\", string.pack(\"<i4\", 42)) -> 42 5'']),
      (lit ''string.upper'', lit ''Uppercase a string'',
       [lit ''string.upper(s)'',
        lit ''Returns a copy of `s` with all ASCII lowercase letters'',
        lit ''converted to uppercase.'',
        lit ''Example: string.upper(\"abc\") -> ABC'']),
      (lit ''patterns'', lit ''Pattern syntax for find/gmatch/gsub/match'',
       [lit ''patterns'',
        lit ''Patterns are described by regular strings interpreted by'',
        lit ''string.find, string.gmatch, string.gsub, and string.match.'',
        lit ''Character classes: . (any), %a (letters), %d (digits),'',
        lit ''%l/%u (lower/upper), %s (space), %w (alphanumeric),'',
        lit ''%x (hex), %p (punct), %c (control), %g (printable).'',
        lit ''Magic chars ^$()%.[]*+-? are escaped with %.'',
        lit ''Quantifiers: * (0+ greedy), + (1+ greedy), - (0+ lazy),'',
        lit ''? (0 or 1). Captures: (subpattern). Anchors: ^ and $.'',
        lit ''See the Lua 5.5 manual section 6.5.1 for full details.'']),
      (lit ''format-strings'', lit ''Format strings for pack/unpack'',
       [lit ''format-strings'',
        lit ''Format strings describe binary layouts for string.pack,'',
        lit ''string.packsize, and string.unpack. Options: < > = (endian),'',
        lit ''!n (alignment), b/B (byte), h/H (short), i/I (int), l/L (long),'',
        lit ''j/J (lua_Integer), T (size_t), f (float), d (double), n (number),'',
        lit ''cN (fixed string), z (zero-terminated), s (length-prefixed),'',
        lit ''x (padding), Xop (align), space (ignored).'',
        lit ''See the Lua 5.5 manual section 6.5.2 for full details.'']),
      (lit ''table.concat'', lit ''Concatenate table elements into a string'',
       [lit ''table.concat(list [, sep [, i [, j]]])'',
        lit ''Concatenates list[i..j] into a string, separated by `sep`.'',
        lit ''Example: table.concat({\"a\",\"b\",\"c\"}, \"-\") -> a-b-c'']),
      (lit ''table.create'', lit ''Create a new table'',
       [lit ''table.create(n [, m])'',
        lit ''Creates a new table (size hints are ignored in this subset).'',
        lit ''Example: table.create(4) -> table'']),
      (lit ''table.insert'', lit ''Insert an element into a table'',
       [lit ''table.insert(list, [pos,] value)'',
        lit ''Inserts `value` at `pos` (default: end), shifting elements.'',
        lit ''Example: table.insert({1,3}, 2, 2) -> {1,2,3}'']),
      (lit ''table.move'', lit ''Move elements between tables'',
       [lit ''table.move(a1, f, e, t [, a2])'',
        lit ''Moves a1[f..e] to a2[t..] (a2 defaults to a1).'',
        lit ''Example: table.move({1,2,3,4}, 1, 2, 3) -> {1,2,1,2}'']),
      (lit ''table.pack'', lit ''Pack values into a table'',
       [lit ''table.pack(...)'',
        lit ''Packs all arguments into a table with an `n` field.'',
        lit ''Example: table.pack(10, 20).n -> 2'']),
      (lit ''table.remove'', lit ''Remove an element from a table'',
       [lit ''table.remove(list [, pos])'',
        lit ''Removes and returns the element at `pos` (default: last).'',
        lit ''Example: table.remove({1,2,3}, 2) -> 2'']),
      (lit ''table.sort'', lit ''Sort a table in place'',
       [lit ''table.sort(list [, comp])'',
        lit ''Sorts the array part of `list` in place. `comp(a,b)` returns'',
        lit ''true if a < b. Default ordering is used when omitted.'',
        lit ''Example: table.sort({3,1,2}) -> {1,2,3}'']),
      (lit ''table.unpack'', lit ''Unpack a table into values'',
       [lit ''table.unpack(list [, i [, j]])'',
        lit ''Returns list[i..j] as multiple values (defaults 1..#list).'',
        lit ''Example: table.unpack({7,8,9}) -> 7 8 9'']),
      (lit ''math.ceil'', lit ''Smallest integer >= x'',
       [lit ''math.ceil(x)'',
        lit ''Returns the smallest integer larger than or equal to x.'',
        lit ''Example: math.ceil(2.3) -> 3'']),
      (lit ''math.floor'', lit ''Largest integer <= x'',
       [lit ''math.floor(x)'',
        lit ''Returns the largest integer smaller than or equal to x.'',
        lit ''Example: math.floor(2.7) -> 2''])]"

definition help_4 :: "help_entry list" where
  "help_4 =
     [(lit ''math.maxinteger'', lit ''Maximum integer value'',
       [lit ''math.maxinteger'',
        lit ''The maximum value for an integer (2^63-1).'']),
      (lit ''math.mininteger'', lit ''Minimum integer value'',
       [lit ''math.mininteger'',
        lit ''The minimum value for an integer (-2^63).'']),
      (lit ''math.random'', lit ''Pseudo-random number'',
       [lit ''math.random([m [, n]])'',
        lit ''With no args: float in [0,1). With one arg m: int in [1,m].'',
        lit ''With two args: int in [m,n].'',
        lit ''Example: math.random(1, 6) -> 4'']),
      (lit ''math.randomseed'', lit ''Set the random seed'',
       [lit ''math.randomseed(x)'',
        lit ''Sets the seed for math.random.'',
        lit ''Example: math.randomseed(42)'']),
      (lit ''math.tointeger'', lit ''Convert to integer'',
       [lit ''math.tointeger(x)'',
        lit ''Returns x as an integer if it is (or can be) one, else nil.'',
        lit ''Example: math.tointeger(3.0) -> 3'']),
      (lit ''math.type'', lit ''Type of a number'',
       [lit ''math.type(x)'',
        lit ''Returns \"integer\" or \"float\" if x is a number, else nil.'',
        lit ''Example: math.type(3) -> integer'']),
      (lit ''io.close'', lit ''Close a file'',
       [lit ''io.close([file])'',
        lit ''Closes `file` (or the default output file). Returns true.'',
        lit ''Example: io.close(f) -> true'']),
      (lit ''io.flush'', lit ''Flush a file'',
       [lit ''io.flush([file])'',
        lit ''Flushes buffered output for `file` (or the default output).'',
        lit ''Example: io.flush() -> true'']),
      (lit ''io.input'', lit ''Set/get the default input file'',
       [lit ''io.input([file])'',
        lit ''Sets (or returns) the default input file handle.'',
        lit ''Example: io.input(f)'']),
      (lit ''io.lines'', lit ''Iterate over lines of a file'',
       [lit ''io.lines([filename])'',
        lit ''Returns an iterator over the lines of `filename` (or the'',
        lit ''default input). Each call yields one line.'',
        lit ''Example: for l in io.lines(\"f.txt\") do print(l) end'']),
      (lit ''io.open'', lit ''Open a file'',
       [lit ''io.open(filename [, mode])'',
        lit ''Opens `filename` in `mode` (\"r\",\"w\",\"a\",...\") and returns'',
        lit ''a file handle, or nil on failure. Operates on the pseudo-fs.'',
        lit ''Example: io.open(\"x.txt\", \"r\")'']),
      (lit ''io.output'', lit ''Set/get the default output file'',
       [lit ''io.output([file])'',
        lit ''Sets (or returns) the default output file handle.'',
        lit ''Example: io.output(f)'']),
      (lit ''io.read'', lit ''Read from a file'',
       [lit ''io.read([file], ...)'',
        lit ''Reads from `file` (or the default input) using the given'',
        lit ''formats ('' @ lit ''*a, *l, *n, or a byte count).'',
        lit ''Example: io.read(\"*a\")'']),
      (lit ''io.tmpfile'', lit ''Create a temporary file'',
       [lit ''io.tmpfile()'',
        lit ''Creates a temporary in-memory file and returns a handle.'',
        lit ''Example: local f = io.tmpfile()'']),
      (lit ''io.type'', lit ''Type of a file handle'',
       [lit ''io.type(obj)'',
        lit ''Returns \"file\", \"closed file\", or nil.'',
        lit ''Example: io.type(f) -> file'']),
      (lit ''io.write'', lit ''Write to a file'',
       [lit ''io.write(...)'',
        lit ''Writes the string/number arguments to the default output.'',
        lit ''Example: io.write(\"hi\")'']),
      (lit ''file:seek'', lit ''Seek in a file'',
       [lit ''file:seek([whence [, offset]])'',
        lit ''Sets the file position. whence: \"set\", \"cur\", \"end\".'',
        lit ''Returns the new position.'',
        lit ''Example: f:seek(\"set\", 0)'']),
      (lit ''file:setvbuf'', lit ''Set the buffering mode of a file'',
       [lit ''file:setvbuf(mode [, size])'',
        lit ''Sets the buffering mode (\"no\", \"full\", \"line\").'',
        lit ''A no-op in this subset; returns true.'',
        lit ''Example: f:setvbuf(\"no\")'']),
      (lit ''os.exit'', lit ''Exit the interpreter'',
       [lit ''os.exit([code [, close]])'',
        lit ''Terminates the interpreter.'',
        lit ''Example: os.exit()'']),
      (lit ''os.remove'', lit ''Delete a file'',
       [lit ''os.remove(filename)'',
        lit ''Deletes `filename` from the pseudo-filesystem.'',
        lit ''Returns true on success, or nil on failure.'',
        lit ''Example: os.remove(\"x.txt\")''])]"

definition help_5 :: "help_entry list" where
  "help_5 =
     [(lit ''os.rename'', lit ''Rename a file'',
       [lit ''os.rename(oldname, newname)'',
        lit ''Renames `oldname` to `newname` in the pseudo-filesystem.'',
        lit ''Returns true on success, or nil on failure.'',
        lit ''Example: os.rename(\"a.txt\", \"b.txt\")'']),
      (lit ''coroutine'', lit ''Coroutine library'',
       [lit ''coroutine.create(f), coroutine.resume(co, ...),'',
        lit ''coroutine.yield(...), coroutine.status(co),'',
        lit ''coroutine.wrap(f), coroutine.isyieldable(),'',
        lit ''coroutine.running(), coroutine.close(co)'',
        lit ''Real coroutines on the bytecode VM (a pool of 3).'',
        lit ''type(co) returns \"thread\".'',
        lit ''Example: coroutine.resume(coroutine.create(function() return 42 end)) -> true 42'']),
      (lit ''fetch'', lit ''Download a file from the TFTP server'',
       [lit ''fetch(\"file\"[, \"dest\"])'',
        lit ''Downloads 'file' from the TFTP server (DHCP next_server) and'',
        lit ''returns its byte count, or nil on failure. The optional'',
        [39] @ lit ''dest' names the local file it is saved under (shown by ls).'',
        lit ''`file` may be prefixed with tftp://, http://, or https:// (default tftp;'',
        lit ''http/https on native, https on UEFI).'',
        lit ''Requires a TFTP server: run 'dhcp' first to set up the'',
        lit ''network (or it works automatically in PXE scripts).'']),
      (lit ''dofile'', lit ''Run a Lua chunk loaded by name (TFTP) and return its value'',
       [lit ''dofile(\"file.lua\")'',
        lit ''Loads a Lua source chunk from the TFTP server, executes it,'',
        lit ''and returns the chunk's return value (nil if it doesn't'',
        lit ''return). The chunk shares globals but has its own locals.'',
        lit ''Requires a TFTP server: run 'dhcp' first.'']),
      (lit ''ls'', lit ''List the files downloaded with fetch()'',
       [lit ''ls'',
        lit ''Lists every file successfully downloaded with fetch(\"file\"),'',
        lit ''one per line as 'name (N bytes)'. Prints nothing if none yet.'']),
      (lit ''dhcp'', lit ''Set up the network (e1000 + DHCP) so fetch() works'',
       [lit ''dhcp'',
        lit ''Runs the network setup: scans PCI for the e1000, initializes'',
        lit ''it, and runs DHCP. Returns true on success, false on failure.'',
        lit ''After it succeeds, fetch(\"file\") can download files from the'',
        lit ''TFTP server. May also be written dhcp().'']),
      (lit ''shell'', lit ''Enter a nested Lua shell'',
       [lit ''shell()'',
        lit ''Tries to enter a nested interactive shell.'',
        lit ''Not supported inside the REPL.'']),
      (lit ''lua'', lit ''Run Lua expressions and statements'',
       [lit ''lua'',
        lit ''Every line is evaluated as Lua: bare expressions print their'',
        lit ''result; statements (assignment, if/while/for, functions,'',
        lit ''tables) run normally.''])]"

definition HELP_COMMANDS :: "help_entry list" where
  "HELP_COMMANDS = help_1 @ help_2 @ help_3 @ help_4 @ help_5"

text \<open>A text with a part in single quotes.\<close>

definition quoted :: "string \<Rightarrow> string \<Rightarrow> bytes" where
  "quoted pre word = lit pre @ [39] @ lit word @ [39]"

end
