(* ===== verification/LuaBase.thy ===== *)
theory LuaBase
  imports Prelude Print "HOL-Library.Log_Nat"
begin

text \<open>
  What the theories of the Lua interpreter share: results with errors as values, the sequencing of
  state transformers that may fail, scanning of byte sequences, and the number types \<open>i64\<close> and
  \<open>f64\<close> with the parts of Rust's standard library that read them from text.
\<close>

section \<open>Results\<close>

text \<open>
  \<open>Ok\<close> and \<open>Err\<close> are Rust's \<open>Result<_, &'static str>\<close>; \<open>Panic\<close> is an index out of range or an
  underflow; \<open>OutOfFuel\<close> marks a recursion cut by its fuel. The state comes back in every case: an
  error does not undo the writes before it.
\<close>

datatype 'a res = Ok 'a | Err string | Panic | OutOfFuel

type_synonym ('s, 'a) step = "'s \<Rightarrow> 'a res \<times> 's"

definition ok :: "'a \<Rightarrow> ('s, 'a) step" where
  "ok x = (\<lambda>s. (Ok x, s))"

definition fail :: "string \<Rightarrow> ('s, 'a) step" where
  "fail msg = (\<lambda>s. (Err msg, s))"

definition crash :: "('s, 'a) step" where
  "crash = (\<lambda>s. (Panic, s))"

text \<open>A message that quotes a token, written with back quotes here.\<close>

definition quoting :: "string \<Rightarrow> string" where
  "quoting s = map (\<lambda>c. if c = CHR 0x60 then CHR 0x27 else c) s"

text \<open>\<open>let x = m?; k(x)\<close>\<close>

fun pass_on :: "'a res \<Rightarrow> 'b res" where
  "pass_on (Ok x) = Panic"
| "pass_on (Err msg) = Err msg"
| "pass_on Panic = Panic"
| "pass_on OutOfFuel = OutOfFuel"

definition andthen :: "('s, 'a) step \<Rightarrow> ('a \<Rightarrow> ('s, 'b) step) \<Rightarrow> ('s, 'b) step" where
  "andthen m k = (\<lambda>s. case m s of (Ok x, s') \<Rightarrow> k x s' | (r, s') \<Rightarrow> (pass_on r, s'))"

text \<open>\<open>m?; k\<close>, reading the state, changing it, and a check of what must not panic.\<close>

definition andnext :: "('s, 'a) step \<Rightarrow> ('s, 'b) step \<Rightarrow> ('s, 'b) step" where
  "andnext m k = andthen m (\<lambda>_. k)"

definition reads :: "('s \<Rightarrow> ('s, 'a) step) \<Rightarrow> ('s, 'a) step" where
  "reads k = (\<lambda>s. k s s)"

definition sets :: "('s \<Rightarrow> 's) \<Rightarrow> ('s, unit) step" where
  "sets f = (\<lambda>s. (Ok (), f s))"

definition when_panics :: "bool \<Rightarrow> ('s, 'a) step \<Rightarrow> ('s, 'a) step" where
  "when_panics b k = (if b then crash else k)"

named_theorems step_simps

lemma step_apply [step_simps]:
  "ok x s = (Ok x, s)" "fail msg s = (Err msg, s)" "crash s = (Panic, s)"
  "reads k' s = k' s s" "sets f s = (Ok (), f s)"
  by (simp_all add: ok_def fail_def crash_def reads_def sets_def)

lemma andthen_apply [step_simps]:
  "andthen m k s = (case m s of (Ok x, s') \<Rightarrow> k x s' | (Err msg, s') \<Rightarrow> (Err msg, s')
     | (Panic, s') \<Rightarrow> (Panic, s') | (OutOfFuel, s') \<Rightarrow> (OutOfFuel, s'))"
  by (auto simp: andthen_def split: prod.splits res.splits)

lemma andnext_apply [step_simps]: "andnext m k s = andthen m (\<lambda>_. k) s"
  by (simp add: andnext_def)

lemma when_panics_apply [step_simps]: "when_panics b m s = (if b then (Panic, s) else m s)"
  by (simp add: when_panics_def crash_def)

section \<open>Scanning\<close>

text \<open>A search over a prefix of an array yields the first index with the property.\<close>

lemma find_upt_Some: "find P [0..<n] = Some i \<longleftrightarrow> i < n \<and> P i \<and> (\<forall>j<i. \<not> P j)"
proof
  show "find P [0..<n] = Some i \<Longrightarrow> i < n \<and> P i \<and> (\<forall>j<i. \<not> P j)"
    by (fastforce simp: find_Some_iff)
  assume r: "i < n \<and> P i \<and> (\<forall>j<i. \<not> P j)"
  then have nth: "[0..<n] ! k = k" if "k \<le> i" for k
    using that by simp
  show "find P [0..<n] = Some i"
    unfolding find_Some_iff using r nth by (intro exI [of _ i]) simp
qed

lemma find_upt_None: "find P [0..<n] = None \<longleftrightarrow> (\<forall>i<n. \<not> P i)"
  by (auto simp: find_None_iff)

text \<open>\<open>while i < src.len() && p(src[i]) { i += 1 }\<close>\<close>

function scan_while :: "(u8 \<Rightarrow> bool) \<Rightarrow> bytes \<Rightarrow> nat \<Rightarrow> nat" where
  "scan_while p src i = (if i < length src \<and> p (src ! i) then scan_while p src (i + 1) else i)"
  by pat_completeness auto
termination
  by (relation "measure (\<lambda>(p, src, i). length src - i)") auto

declare scan_while.simps [simp del]

lemma scan_while_eq: "scan_while p src i = i + length (takeWhile p (drop i src))"
proof (induction p src i rule: scan_while.induct)
  case (1 p src i)
  show ?case
  proof (cases "i < length src")
    case True
    then have "drop i src = src ! i # drop (i + 1) src"
      by (simp add: Cons_nth_drop_Suc)
    with 1 True show ?thesis
      by (subst scan_while.simps) simp
  qed (subst scan_while.simps, simp)
qed

lemma scan_while_bounds: "i \<le> scan_while p src i" "i \<le> length src \<Longrightarrow> scan_while p src i \<le> length src"
  using length_takeWhile_le [of p "drop i src"] by (simp_all add: scan_while_eq)

section \<open>Numbers\<close>

type_synonym i64 = "64 word"

definition is_digit :: "u8 \<Rightarrow> bool" where
  "is_digit b \<longleftrightarrow> 48 \<le> b \<and> b \<le> 57"

text \<open>\<open>str::parse::<i64>\<close> of a sequence of digits: an error when empty or too large.\<close>

definition parse_i64 :: "bytes \<Rightarrow> i64 option" where
  "parse_i64 s =
     (let v = digits_value 10 dec_dig s in
      if s = [] \<or> \<not> list_all is_digit s \<or> v \<ge> 2 ^ 63 then None else Some (word_of_nat v))"

text \<open>
  A double is its bit pattern. \<open>f64_round n d\<close> is \<open>n / d\<close> rounded to the nearest double, ties to
  the even mantissa: with \<open>2^k \<le> n/d < 2^(k+1)\<close> the unit of the result is \<open>2^e\<close> with
  \<open>e = max (k - 52) (-1074)\<close>. The mantissa, of 52 or 53 bits, is added to the exponent field, so
  that a carry out of it lands in the next exponent; too large values are the infinity.
\<close>

type_synonym f64 = "64 word"

definition log2_ratio :: "nat \<Rightarrow> nat \<Rightarrow> int" where
  "log2_ratio n d =
     (let k = int (floorlog 2 n) - int (floorlog 2 d) in
      if (if k \<ge> 0 then n \<ge> d * 2 ^ nat k else n * 2 ^ nat (- k) \<ge> d) then k else k - 1)"

definition round_half_even :: "nat \<Rightarrow> nat \<Rightarrow> nat" where
  "round_half_even n d =
     (let q = n div d; r = n mod d in if 2 * r > d \<or> 2 * r = d \<and> odd q then q + 1 else q)"

definition f64_inf :: nat where "f64_inf = 0x7FF0000000000000"

definition f64_round :: "nat \<Rightarrow> nat \<Rightarrow> f64" where
  "f64_round n d =
     (if n = 0 then 0
      else let e = max (log2_ratio n d - 52) (- 1074);
               m = (if e \<ge> 0 then round_half_even n (d * 2 ^ nat e)
                    else round_half_even (n * 2 ^ nat (- e)) d) in
        word_of_nat (min (m + nat (e + 1074) * 2 ^ 52) f64_inf))"

text \<open>
  \<open>str::parse::<f64>\<close> of unsigned decimal text: digits, a point with digits on at least one side,
  an exponent.
\<close>

definition decimal_f64 :: "nat \<Rightarrow> int \<Rightarrow> f64" where
  "decimal_f64 m e = (if e \<ge> 0 then f64_round (m * 10 ^ nat e) 1 else f64_round m (10 ^ nat (- e)))"

definition parse_exponent :: "bytes \<Rightarrow> int option" where
  "parse_exponent s =
     (case s of [] \<Rightarrow> Some 0
      | c # r \<Rightarrow>
          if c \<noteq> 101 \<and> c \<noteq> 69 then None
          else let neg = (r \<noteq> [] \<and> hd r = 45);
                   ds = (if r \<noteq> [] \<and> (hd r = 43 \<or> hd r = 45) then tl r else r) in
            if ds = [] \<or> \<not> list_all is_digit ds then None
            else Some (if neg then - int (digits_value 10 dec_dig ds) else int (digits_value 10 dec_dig ds)))"

definition parse_f64 :: "bytes \<Rightarrow> f64 option" where
  "parse_f64 s =
     (let ip = takeWhile is_digit s; r = dropWhile is_digit s;
          (fp, r) = (if r \<noteq> [] \<and> hd r = 46 then (takeWhile is_digit (tl r), dropWhile is_digit (tl r))
                     else ([], r)) in
      if ip = [] \<and> fp = [] then None
      else case parse_exponent r of None \<Rightarrow> None
        | Some e \<Rightarrow> Some (decimal_f64 (digits_value 10 dec_dig (ip @ fp)) (e - int (length fp))))"

end
