(* ===== verification/LuaState.thy ===== *)
theory LuaState
  imports LuaBase
begin

text \<open>
  \<^verbatim>\<open>lua/src/lib.rs\<close>: the interpreter's values, syntax nodes and instructions, its whole memory as
  the record \<open>lua\<close>, and the operations on it: the string arena, the node and function arenas, the
  value stack, frames with their locals, captured cells and closures, globals, threads.

  A fixed-size array of the memory is a function from indices with its capacity as a constant;
  an access whose index is not bounded by a check of the source goes through \<open>bounded\<close>, which
  panics at the capacity as Rust does. Counters and indices are \<open>nat\<close>: every counter stays at or
  below the capacity it is compared with, all of them below \<open>2^16\<close>, so that the casts to \<open>u16\<close>
  and \<open>u8\<close> keep them (the exceptions are words or have their cast written out). Function pointers
  of the host are numbers; what the host does when called is a parameter where it is needed, a
  function of \<open>host_calls\<close>, the calls made so far, so that its answers may differ from call to call.
  The effect of \<open>putc\<close> is the list \<open>console\<close> of the bytes written.
\<close>

section \<open>Capacities\<close>

definition MAX_NODES :: nat where "MAX_NODES = 1024"
definition STR_CAP :: nat where "STR_CAP = 32768"
definition MAX_STRINGS :: nat where "MAX_STRINGS = 256"
definition STACK_CAP :: nat where "STACK_CAP = 128"
definition MAX_FRAMES :: nat where "MAX_FRAMES = 16"
definition MAX_LOCALS :: nat where "MAX_LOCALS = 16"
definition MAX_FUNCS :: nat where "MAX_FUNCS = 32"
definition MAX_GLOBALS :: nat where "MAX_GLOBALS = 64"
definition TABLE_SLOTS :: nat where "TABLE_SLOTS = 32"
definition MAX_TABLES :: nat where "MAX_TABLES = 16"
definition MAX_FETCHED :: nat where "MAX_FETCHED = 16"
definition MAX_COS :: nat where "MAX_COS = 3"
definition MAX_THREADS :: nat where "MAX_THREADS = MAX_COS + 1"
definition MAX_UPVALS :: nat where "MAX_UPVALS = 8"
definition MAX_CELLS :: nat where "MAX_CELLS = 64"
definition MAX_CLOSURES :: nat where "MAX_CLOSURES = 32"
definition MAX_GMATCH :: nat where "MAX_GMATCH = 8"
definition NO_CELL :: nat where "NO_CELL = 65535"
definition NO_CLOSURE :: nat where "NO_CLOSURE = 65535"
definition MAX_CODE :: nat where "MAX_CODE = 4096"
definition WANT_ALL :: nat where "WANT_ALL = 65535"
definition NO_NODE :: nat where "NO_NODE = 65535"

lemmas lua_caps = MAX_NODES_def STR_CAP_def MAX_STRINGS_def STACK_CAP_def MAX_FRAMES_def MAX_LOCALS_def
  MAX_FUNCS_def MAX_GLOBALS_def TABLE_SLOTS_def MAX_TABLES_def MAX_FETCHED_def MAX_COS_def
  MAX_THREADS_def MAX_UPVALS_def MAX_CELLS_def MAX_CLOSURES_def MAX_GMATCH_def NO_CELL_def
  NO_CLOSURE_def MAX_CODE_def WANT_ALL_def NO_NODE_def

section \<open>Values, nodes, instructions\<close>

type_synonym strref = u32

definition pack_strref :: "u16 \<Rightarrow> u16 \<Rightarrow> strref" where
  "pack_strref off len = push_bit 16 (ucast off) OR ucast len"

datatype lval =
    VNil | VBool bool | VNum i64 | VFloat f64 | VStr strref | VTable nat | VFunc nat | VNative u8
  | VShell | VDhcp | VExit | VLs | VCo u8 | VWrapped u8 | VGmatch u8 | VIoLines u8 | VClosure nat

datatype lua_error = Msg string | Obj lval

datatype binop =
    OpAdd | OpSub | OpMul | OpDiv | OpMod | OpEq | OpNe | OpLt | OpLe | OpGt | OpGe | OpConcat
  | OpAnd | OpOr | OpNot | OpNeg

datatype node =
    NEmpty | NNil | NTrue | NFalse | NNum i64 | NFloat f64 | NStr strref | NVar strref
  | NBin binop nat nat | NUn binop nat | NIndex nat nat | NCall nat nat | NArg nat | NFuncLit nat
  | NTableLit nat | NField nat nat | NLocalDecl nat nat | NLocalFunc nat nat | NGlobalDecl nat nat
  | NAssign nat nat | NCallStmt nat | NExprStmt nat | NIf nat nat nat | NWhile nat nat
  | NFor nat nat nat nat nat | NForCell nat nat nat nat nat
  | NForIn nat nat nat nat | NForInCell nat nat nat nat
  | NBreak | NRepeat nat nat | NGoto nat | NLabel strref | NReturn nat

record func_def =
  params :: nat
  nparams :: nat
  fbody :: nat
  fentry :: nat
  up_names :: "nat \<Rightarrow> strref"
  nup :: nat

record up_entry =
  up_name :: strref
  up_cell :: nat

record closure_def =
  cl_func :: nat
  cl_ups :: "nat \<Rightarrow> up_entry"
  cl_nup :: nat

datatype instr_op =
    Halt | PushConst | PushNil | PushInt | GetVar | SetVar | SetGlobal | SetLocalTop
  | SetLocalTopCell | DeclareLocal | GetIndex | SetIndex | AssignMulti | NewTable | Dup | Pop
  | BinOp | UnOp | Jump | JumpScopes | JumpIfFalse | JumpIfFalseKeep | JumpIfTrueKeep | LoadFunc
  | MakeClosure | Mark | Call | Return | Print | StmtCheck | PushScope | PopScope | ForPrep | ForLoop
  | ForPrepCell | ForLoopCell | ForInPrep | ForInNext | ForInAdvance | Yield

record instr =
  i_op :: instr_op
  i_a :: nat
  i_b :: nat

section \<open>Memory\<close>

record local_slot =
  l_name :: strref
  l_value :: lval
  l_cell :: nat

record frame =
  f_locals :: "nat \<Rightarrow> local_slot"
  f_count :: nat
  ret_ip :: nat
  f_want :: nat
  f_stack_base :: nat
  ctrl :: "nat \<Rightarrow> lval"
  f_closure :: nat
  protected :: bool
  err_handler :: "lval option"
  f_mark_sp :: nat

record thread =
  t_vstack :: "nat \<Rightarrow> lval"
  t_vsp :: nat
  t_frames :: "nat \<Rightarrow> frame"
  t_fsp :: nat
  t_call_marks :: "nat \<Rightarrow> nat"
  t_mark_sp :: nat
  t_steps :: u64

record global_slot =
  g_name :: strref
  g_value :: lval

record table_rec =
  slots :: "nat \<Rightarrow> lval \<times> lval"
  t_len :: nat
  mt :: "nat option"

record co_state =
  co_status :: u8
  co_func :: lval
  co_ip :: nat
  co_want :: nat
  co_parent :: u8
  co_started :: bool

record gmatch_state =
  gm_subject :: strref
  gm_pattern :: strref
  gm_pos :: nat
  gm_done :: bool
  gm_used :: bool

type_synonym fn_ptr = nat

record lua =
  nodes :: "nat \<Rightarrow> node"
  nxt :: "nat \<Rightarrow> nat"
  node_used :: nat
  code :: "nat \<Rightarrow> instr"
  ncode :: nat
  strings :: "nat \<Rightarrow> u8"
  strregs :: "nat \<Rightarrow> u16 \<times> u16"
  nstrings :: nat
  str_next :: nat
  vstack :: "nat \<Rightarrow> lval"
  vsp :: nat
  call_marks :: "nat \<Rightarrow> nat"
  mark_sp :: nat
  frames :: "nat \<Rightarrow> frame"
  fsp :: nat
  funcs :: "nat \<Rightarrow> func_def"
  funcs_used :: nat
  globals :: "nat \<Rightarrow> global_slot"
  nglobals :: nat
  tbls :: "nat \<Rightarrow> table_rec"
  ntables :: nat
  steps :: u64
  fetched_names :: "nat \<Rightarrow> strref"
  fetched_lens :: "nat \<Rightarrow> u64"
  fetched_n :: nat
  fetch_cb :: "fn_ptr option"
  dhcp_cb :: "fn_ptr option"
  load_cb :: "fn_ptr option"
  dhcp_info_cb :: "fn_ptr option"
  dhcp_values_cb :: "fn_ptr option"
  warn_on :: bool
  threads :: "nat \<Rightarrow> thread"
  current :: nat
  cos :: "nat \<Rightarrow> co_state"
  yield_ip :: nat
  yield_want :: nat
  cells :: "nat \<Rightarrow> lval"
  ncells :: nat
  closures :: "nat \<Rightarrow> closure_def"
  nclosures :: nat
  gmatches :: "nat \<Rightarrow> gmatch_state"
  ngmatch :: nat
  rng_state :: u64
  io_default_input :: "u8 option"
  io_default_output :: "u8 option"
  mm_ready :: bool
  mm_depth :: nat
  mm_refs :: "nat \<Rightarrow> strref"
  cwd :: bytes
  cwd_len :: nat
  cd_cb :: "fn_ptr option"
  io_open_cb :: "fn_ptr option"
  io_close_cb :: "fn_ptr option"
  io_read_cb :: "fn_ptr option"
  io_write_cb :: "fn_ptr option"
  io_flush_cb :: "fn_ptr option"
  io_type_cb :: "fn_ptr option"
  io_size_cb :: "fn_ptr option"
  io_seek_cb :: "fn_ptr option"
  os_remove_cb :: "fn_ptr option"
  os_rename_cb :: "fn_ptr option"
  console :: bytes
  host_calls :: nat

definition empty_frame :: frame where
  "empty_frame = \<lparr>f_locals = (\<lambda>_. \<lparr>l_name = 0, l_value = VNil, l_cell = NO_CELL\<rparr>), f_count = 0,
     ret_ip = 0, f_want = 0, f_stack_base = 0, ctrl = (\<lambda>_. VNil), f_closure = NO_CLOSURE,
     protected = False, err_handler = None, f_mark_sp = 0\<rparr>"

definition empty_thread :: thread where
  "empty_thread = \<lparr>t_vstack = (\<lambda>_. VNil), t_vsp = 0, t_frames = (\<lambda>_. empty_frame), t_fsp = 0,
     t_call_marks = (\<lambda>_. 0), t_mark_sp = 0, t_steps = 0\<rparr>"

definition new_lua :: lua where
  "new_lua = \<lparr>nodes = (\<lambda>_. NEmpty), nxt = (\<lambda>_. NO_NODE), node_used = 0,
     code = (\<lambda>_. \<lparr>i_op = Halt, i_a = 0, i_b = 0\<rparr>), ncode = 0,
     strings = (\<lambda>_. 0), strregs = (\<lambda>_. (0, 0)), nstrings = 0, str_next = 0,
     vstack = (\<lambda>_. VNil), vsp = 0, call_marks = (\<lambda>_. 0), mark_sp = 0,
     frames = (\<lambda>_. empty_frame), fsp = 0,
     funcs = (\<lambda>_. \<lparr>params = 0, nparams = 0, fbody = 0, fentry = 0, up_names = (\<lambda>_. 0), nup = 0\<rparr>),
     funcs_used = 0, globals = (\<lambda>_. \<lparr>g_name = 0, g_value = VNil\<rparr>), nglobals = 0,
     tbls = (\<lambda>_. \<lparr>slots = (\<lambda>_. (VNil, VNil)), t_len = 0, mt = None\<rparr>), ntables = 0, steps = 0,
     fetched_names = (\<lambda>_. 0), fetched_lens = (\<lambda>_. 0), fetched_n = 0,
     fetch_cb = None, dhcp_cb = None, load_cb = None, dhcp_info_cb = None, dhcp_values_cb = None,
     warn_on = True, threads = (\<lambda>_. empty_thread), current = 0,
     cos = (\<lambda>_. \<lparr>co_status = 0, co_func = VNil, co_ip = 0, co_want = 0, co_parent = 0, co_started = False\<rparr>),
     yield_ip = 0, yield_want = 0, cells = (\<lambda>_. VNil), ncells = 0,
     closures = (\<lambda>_. \<lparr>cl_func = 0, cl_ups = (\<lambda>_. \<lparr>up_name = 0, up_cell = NO_CELL\<rparr>), cl_nup = 0\<rparr>),
     nclosures = 0,
     gmatches = (\<lambda>_. \<lparr>gm_subject = 0, gm_pattern = 0, gm_pos = 0, gm_done = False, gm_used = False\<rparr>),
     ngmatch = 0, rng_state = 0x123456789ABCDEF0, io_default_input = None, io_default_output = None,
     mm_ready = False, mm_depth = 0, mm_refs = (\<lambda>_. 0), cwd = 47 # replicate 31 0, cwd_len = 1,
     cd_cb = None, io_open_cb = None, io_close_cb = None, io_read_cb = None, io_write_cb = None,
     io_flush_cb = None, io_type_cb = None, io_size_cb = None, io_seek_cb = None, os_remove_cb = None,
     os_rename_cb = None, console = [], host_calls = 0\<rparr>"

definition lua_reset :: "lua \<Rightarrow> lua" where
  "lua_reset s = s\<lparr>node_used := 0, nxt := (\<lambda>_. NO_NODE), ncode := 0, nstrings := 0, str_next := 0,
     strings := (\<lambda>_. 0), strregs := (\<lambda>_. (0, 0)), vsp := 0, mark_sp := 0, fsp := 0, funcs_used := 0,
     nglobals := 0, ntables := 0, steps := 0, fetched_n := 0, current := 0, mm_ready := False,
     mm_depth := 0, ncells := 0, nclosures := 0, ngmatch := 0, rng_state := 0x123456789ABCDEF0,
     io_default_input := None, io_default_output := None,
     cos := (\<lambda>i. if i < MAX_COS then (cos s i)\<lparr>co_status := 0\<rparr> else cos s i)\<rparr>"

section \<open>Strings\<close>

definition str_off :: "strref \<Rightarrow> nat" where "str_off r = unat (drop_bit 16 r)"
definition str_len :: "strref \<Rightarrow> nat" where "str_len r = unat (r AND 0xFFFF)"

text \<open>\<open>str_bytes\<close>; the slice panics past the arena.\<close>

definition str_bytes :: "lua \<Rightarrow> strref \<Rightarrow> bytes option" where
  "str_bytes s r =
     (if str_off r + str_len r \<le> STR_CAP
      then ret (map (strings s) [str_off r ..< str_off r + str_len r]) else panic)"

text \<open>The registered string equal to \<open>bs\<close>, the first one.\<close>

definition reg_matches :: "lua \<Rightarrow> bytes \<Rightarrow> nat \<Rightarrow> bool" where
  "reg_matches s bs i \<longleftrightarrow> (case strregs s i of (off, len) \<Rightarrow>
     unat len = length bs \<and> (\<forall>j\<in>{0..<length bs}. strings s (unat off + j) = bs ! j))"

definition intern :: "bytes \<Rightarrow> (lua, strref) step" where
  "intern bs = (\<lambda>s.
     case find (reg_matches s bs) [0..<nstrings s] of
       Some i \<Rightarrow> (Ok (pack_strref (fst (strregs s i)) (snd (strregs s i))), s)
     | None \<Rightarrow>
         if nstrings s \<ge> MAX_STRINGS then (Err ''too many strings'', s)
         else let off = str_next s; last = off + length bs in
           if last > STR_CAP then (Err ''string overflow'', s)
           else let o16 = word_of_nat off; l16 = word_of_nat (length bs) in
             (Ok (pack_strref o16 l16),
              s\<lparr>strings := (\<lambda>j. if off \<le> j \<and> j < last then bs ! (j - off) else strings s j),
                str_next := last, strregs := (strregs s)(nstrings s := (o16, l16)),
                nstrings := nstrings s + 1\<rparr>))"

section \<open>Nodes and functions\<close>

definition alloc_node :: "node \<Rightarrow> (lua, nat) step" where
  "alloc_node n = (\<lambda>s.
     if node_used s \<ge> MAX_NODES then (Err ''script too complex'', s)
     else (Ok (node_used s), s\<lparr>nodes := (nodes s)(node_used s := n), node_used := node_used s + 1\<rparr>))"

definition alloc_func :: "nat \<Rightarrow> nat \<Rightarrow> nat \<Rightarrow> strref list \<Rightarrow> (lua, nat) step" where
  "alloc_func ps np body ups = (\<lambda>s.
     if funcs_used s \<ge> MAX_FUNCS then (Err ''too many functions'', s)
     else if length ups > MAX_UPVALS then (Err ''too many upvalues'', s)
     else (Ok (funcs_used s),
       s\<lparr>funcs := (funcs s)(funcs_used s := \<lparr>params = ps, nparams = np, fbody = body, fentry = 0,
            up_names = (\<lambda>i. if i < length ups then ups ! i else 0), nup = length ups\<rparr>),
         funcs_used := funcs_used s + 1\<rparr>))"

section \<open>The value stack and the frames\<close>

definition push_val :: "lval \<Rightarrow> (lua, unit) step" where
  "push_val v = (\<lambda>s.
     if vsp s \<ge> STACK_CAP then (Err ''stack overflow'', s)
     else (Ok (), s\<lparr>vstack := (vstack s)(vsp s := v), vsp := vsp s + 1\<rparr>))"

definition push_frame :: "(lua, unit) step" where
  "push_frame = (\<lambda>s.
     if fsp s \<ge> MAX_FRAMES then (Err ''call stack overflow'', s)
     else (Ok (), s\<lparr>frames := (frames s)(fsp s := empty_frame), fsp := fsp s + 1\<rparr>))"

definition pop_frame :: "lua \<Rightarrow> lua" where
  "pop_frame s = (if fsp s > 0 then s\<lparr>fsp := fsp s - 1\<rparr> else s)"

text \<open>The index of the first local of a frame with a name.\<close>

definition local_ix :: "frame \<Rightarrow> strref \<Rightarrow> nat option" where
  "local_ix f name = find (\<lambda>i. l_name (f_locals f i) = name) [0..<f_count f]"

definition set_slot :: "nat \<Rightarrow> nat \<Rightarrow> local_slot \<Rightarrow> lua \<Rightarrow> lua" where
  "set_slot f i l s = s\<lparr>frames := (frames s)(f := (frames s f)\<lparr>f_locals := (f_locals (frames s f))(i := l)\<rparr>)\<rparr>"

text \<open>Writing a local in place, or into its cell when it is captured.\<close>

definition store_local :: "nat \<Rightarrow> nat \<Rightarrow> lval \<Rightarrow> (lua, unit) step" where
  "store_local f i v = (\<lambda>s.
     let l = f_locals (frames s f) i in
     if l_cell l = NO_CELL then (Ok (), set_slot f i (l\<lparr>l_value := v\<rparr>) s)
     else if l_cell l \<ge> MAX_CELLS then (Panic, s)
     else (Ok (), s\<lparr>cells := (cells s)(l_cell l := v)\<rparr>))"

definition add_local :: "nat \<Rightarrow> local_slot \<Rightarrow> lua \<Rightarrow> lua" where
  "add_local f l s = (let fr = frames s f in
     s\<lparr>frames := (frames s)(f := fr\<lparr>f_locals := (f_locals fr)(f_count fr := l), f_count := f_count fr + 1\<rparr>)\<rparr>)"

definition declare_local :: "strref \<Rightarrow> lval \<Rightarrow> (lua, unit) step" where
  "declare_local name v = (\<lambda>s.
     if fsp s = 0 then (Err ''no active scope'', s)
     else let f = fsp s - 1 in
       if f_count (frames s f) \<ge> MAX_LOCALS then (Err ''too many locals'', s)
       else (Ok (), add_local f \<lparr>l_name = name, l_value = v, l_cell = NO_CELL\<rparr> s))"

definition set_local_top :: "strref \<Rightarrow> lval \<Rightarrow> (lua, unit) step" where
  "set_local_top name v = (\<lambda>s.
     if fsp s = 0 then (Err ''no active scope'', s)
     else let f = fsp s - 1 in
       case local_ix (frames s f) name of
         Some i \<Rightarrow> store_local f i v s
       | None \<Rightarrow> declare_local name v s)"

definition alloc_cell :: "lval \<Rightarrow> (lua, nat) step" where
  "alloc_cell v = (\<lambda>s.
     if ncells s \<ge> MAX_CELLS then (Err ''too many captured variables'', s)
     else (Ok (ncells s), s\<lparr>cells := (cells s)(ncells s := v), ncells := ncells s + 1\<rparr>))"

definition set_local_top_cell :: "strref \<Rightarrow> lval \<Rightarrow> (lua, unit) step" where
  "set_local_top_cell name v = (\<lambda>s.
     if fsp s = 0 then (Err ''no active scope'', s)
     else andthen (alloc_cell v) (\<lambda>cell s.
       let f = fsp s - 1 in
       case local_ix (frames s f) name of
         Some i \<Rightarrow> (Ok (), set_slot f i ((f_locals (frames s f) i)\<lparr>l_cell := cell\<rparr>) s)
       | None \<Rightarrow>
           if f_count (frames s f) \<ge> MAX_LOCALS then (Err ''too many locals'', s)
           else (Ok (), add_local f \<lparr>l_name = name, l_value = VNil, l_cell = cell\<rparr> s)) s)"

section \<open>Scopes\<close>

primrec function_frame_below :: "lua \<Rightarrow> nat \<Rightarrow> nat option" where
  "function_frame_below s 0 = None"
| "function_frame_below s (Suc f) =
     (if ret_ip (frames s f) \<noteq> 0 then Some f else function_frame_below s f)"

definition function_frame :: "lua \<Rightarrow> nat option" where
  "function_frame s = function_frame_below s (fsp s)"

text \<open>The scopes of the running function, innermost first: block frames down to the call frame.\<close>

primrec find_local_below :: "lua \<Rightarrow> strref \<Rightarrow> nat \<Rightarrow> (nat \<times> nat) option" where
  "find_local_below s name 0 = None"
| "find_local_below s name (Suc f) =
     (case local_ix (frames s f) name of
        Some i \<Rightarrow> Some (f, i)
      | None \<Rightarrow> if ret_ip (frames s f) \<noteq> 0 then None else find_local_below s name f)"

definition find_local :: "lua \<Rightarrow> strref \<Rightarrow> (nat \<times> nat) option" where
  "find_local s name = find_local_below s name (fsp s)"

text \<open>The closure of the running function, when it is one, and its upvalue entry for a name.\<close>

definition running_closure :: "lua \<Rightarrow> nat option" where
  "running_closure s =
     (case function_frame s of None \<Rightarrow> None
      | Some f \<Rightarrow> if f_closure (frames s f) = NO_CLOSURE then None else Some (f_closure (frames s f)))"

definition upvalue_ix :: "closure_def \<Rightarrow> strref \<Rightarrow> nat option" where
  "upvalue_ix c name = find (\<lambda>i. up_name (cl_ups c i) = name) [0..<cl_nup c]"

definition global_ix :: "lua \<Rightarrow> strref \<Rightarrow> nat option" where
  "global_ix s name = find (\<lambda>i. g_name (globals s i) = name) [0..<nglobals s]"

definition read_cell :: "lua \<Rightarrow> nat \<Rightarrow> lval option" where
  "read_cell s c = (if c < MAX_CELLS then ret (cells s c) else panic)"

definition upvalue :: "lua \<Rightarrow> strref \<Rightarrow> up_entry option option" where
  "upvalue s name =
     (case running_closure s of None \<Rightarrow> ret None
      | Some ci \<Rightarrow>
          if ci \<ge> MAX_CLOSURES then panic
          else ret (map_option (cl_ups (closures s ci)) (upvalue_ix (closures s ci) name)))"

text \<open>\<open>lookup\<close>, whose own result is an \<open>Option\<close>.\<close>

definition lookup :: "lua \<Rightarrow> strref \<Rightarrow> lval option option" where
  "lookup s name =
     (case find_local s name of
        Some (f, i) \<Rightarrow>
          let l = f_locals (frames s f) i in
          if l_cell l = NO_CELL then ret (Some (l_value l)) else map_option Some (read_cell s (l_cell l))
      | None \<Rightarrow> do {
          up \<leftarrow> upvalue s name;
          case up of
            Some u \<Rightarrow>
              if up_cell u = NO_CELL then ret (Some VNil) else map_option Some (read_cell s (up_cell u))
          | None \<Rightarrow> ret (map_option (\<lambda>i. g_value (globals s i)) (global_ix s name))
        })"

definition assign_local :: "strref \<Rightarrow> lval \<Rightarrow> (lua, bool) step" where
  "assign_local name v = (\<lambda>s.
     case find_local s name of
       Some (f, i) \<Rightarrow> andnext (store_local f i v) (ok True) s
     | None \<Rightarrow> (case upvalue s name of
           None \<Rightarrow> (Panic, s)
         | Some None \<Rightarrow> (Ok False, s)
         | Some (Some u) \<Rightarrow>
             if up_cell u = NO_CELL then (Ok True, s)
             else if up_cell u \<ge> MAX_CELLS then (Panic, s)
             else (Ok True, s\<lparr>cells := (cells s)(up_cell u := v)\<rparr>)))"

definition find_or_box_local_cell :: "strref \<Rightarrow> (lua, nat option) step" where
  "find_or_box_local_cell name = (\<lambda>s.
     case find_local s name of
       None \<Rightarrow> (Ok None, s)
     | Some (f, i) \<Rightarrow>
         let l = f_locals (frames s f) i in
         if l_cell l \<noteq> NO_CELL then (Ok (Some (l_cell l)), s)
         else andthen (alloc_cell (l_value l)) (\<lambda>cell s.
           (Ok (Some cell), set_slot f i ((f_locals (frames s f) i)\<lparr>l_cell := cell\<rparr>) s)) s)"

definition closure_up_cell :: "lua \<Rightarrow> strref \<Rightarrow> nat option option" where
  "closure_up_cell s name = map_option (map_option up_cell) (upvalue s name)"

definition set_global :: "strref \<Rightarrow> lval \<Rightarrow> lua \<Rightarrow> lua" where
  "set_global name v s =
     (case global_ix s name of
        Some i \<Rightarrow> s\<lparr>globals := (globals s)(i := (globals s i)\<lparr>g_value := v\<rparr>)\<rparr>
      | None \<Rightarrow>
          if nglobals s < MAX_GLOBALS then
            s\<lparr>globals := (globals s)(nglobals s := \<lparr>g_name = name, g_value = v\<rparr>),
              nglobals := nglobals s + 1\<rparr>
          else s)"

section \<open>Closures, iterators, random numbers, threads\<close>

definition alloc_closure :: "nat \<Rightarrow> (lua, nat) step" where
  "alloc_closure fi = (\<lambda>s.
     if nclosures s \<ge> MAX_CLOSURES then (Err ''too many closures'', s)
     else (Ok (nclosures s),
       s\<lparr>closures := (closures s)(nclosures s :=
            \<lparr>cl_func = fi, cl_ups = (\<lambda>_. \<lparr>up_name = 0, up_cell = NO_CELL\<rparr>), cl_nup = 0\<rparr>),
         nclosures := nclosures s + 1\<rparr>))"

definition alloc_gmatch :: "strref \<Rightarrow> strref \<Rightarrow> nat \<Rightarrow> (lua, u8) step" where
  "alloc_gmatch subject pattern init = (\<lambda>s.
     if ngmatch s \<ge> MAX_GMATCH then (Err ''too many gmatch iterators'', s)
     else (Ok (word_of_nat (ngmatch s)),
       s\<lparr>gmatches := (gmatches s)(ngmatch s := \<lparr>gm_subject = subject, gm_pattern = pattern,
            gm_pos = init, gm_done = False, gm_used = True\<rparr>),
         ngmatch := ngmatch s + 1\<rparr>))"

definition xorshift64 :: "u64 \<Rightarrow> u64" where
  "xorshift64 x =
     (let x = x XOR push_bit 13 x; x = x XOR drop_bit 7 x; x = x XOR push_bit 17 x in x)"

definition next_random :: "lua \<Rightarrow> f64 \<times> lua" where
  "next_random s =
     (let x = xorshift64 (rng_state s) in
      (f64_round (unat (drop_bit 11 x)) (2 ^ 53), s\<lparr>rng_state := x\<rparr>))"

definition next_random_int :: "u64 \<Rightarrow> lua \<Rightarrow> u64 \<times> lua" where
  "next_random_int n s = (let x = xorshift64 (rng_state s) in (x, s\<lparr>rng_state := x\<rparr>))"

definition swap_threads :: "nat \<Rightarrow> nat \<Rightarrow> (lua, unit) step" where
  "swap_threads from to = (\<lambda>s.
     if from = to then (Ok (), s)
     else if from \<ge> MAX_THREADS \<or> to \<ge> MAX_THREADS then (Panic, s)
     else let t = threads s to;
              saved = \<lparr>t_vstack = vstack s, t_vsp = vsp s, t_frames = frames s, t_fsp = fsp s,
                t_call_marks = call_marks s, t_mark_sp = mark_sp s, t_steps = steps s\<rparr>;
              s = s\<lparr>vstack := t_vstack t, vsp := t_vsp t, frames := t_frames t, fsp := t_fsp t,
                call_marks := t_call_marks t, mark_sp := t_mark_sp t, steps := t_steps t\<rparr> in
       (Ok (), s\<lparr>threads := (threads s)(to := threads s from, from := saved), current := to\<rparr>))"

section \<open>Fetched files and the DHCP globals\<close>

definition record_fetch_ref :: "strref \<Rightarrow> u64 \<Rightarrow> (lua, unit) step" where
  "record_fetch_ref name len = (\<lambda>s.
     case find (\<lambda>i. fetched_names s i = name) [0..<fetched_n s] of
       Some i \<Rightarrow> (Ok (), s\<lparr>fetched_lens := (fetched_lens s)(i := len)\<rparr>)
     | None \<Rightarrow>
         if fetched_n s \<ge> MAX_FETCHED then (Err ''too many fetched files'', s)
         else (Ok (), s\<lparr>fetched_names := (fetched_names s)(fetched_n s := name),
           fetched_lens := (fetched_lens s)(fetched_n s := len), fetched_n := fetched_n s + 1\<rparr>))"

record dhcp_values =
  v_mac :: bytes
  v_ip :: bytes
  v_subnet :: bytes
  v_gateway :: bytes
  v_server :: bytes
  v_bootfile :: bytes
  v_tftp_port :: u16

definition fmt_dec :: "u32 \<Rightarrow> bytes \<Rightarrow> nat \<Rightarrow> (bytes \<times> nat) option" where
  "fmt_dec v buf n = do {
     t \<leftarrow> dec_digits v [];
     buf \<leftarrow> put buf n (n + length t) t;
     ret (buf, n + length t)
   }"

fun fmt_dotted_from :: "nat \<Rightarrow> bytes \<Rightarrow> bytes \<Rightarrow> nat \<Rightarrow> (bytes \<times> nat) option" where
  "fmt_dotted_from i [] buf n = ret (buf, n)"
| "fmt_dotted_from i (b # ip) buf n = do {
     (buf, n) \<leftarrow> (if i > 0 then do { buf \<leftarrow> wr buf n 46; ret (buf, n + 1) } else ret (buf, n));
     (buf, n) \<leftarrow> fmt_dec (ucast b) buf n;
     fmt_dotted_from (i + 1) ip buf n
   }"

definition fmt_dotted :: "bytes \<Rightarrow> bytes \<Rightarrow> (bytes \<times> nat) option" where
  "fmt_dotted ip buf = fmt_dotted_from 0 ip buf 0"

fun fmt_mac_from :: "nat \<Rightarrow> bytes \<Rightarrow> bytes \<Rightarrow> nat \<Rightarrow> (bytes \<times> nat) option" where
  "fmt_mac_from i [] buf n = ret (buf, n)"
| "fmt_mac_from i (b # mac) buf n = do {
     (buf, n) \<leftarrow> (if i > 0 then do { buf \<leftarrow> wr buf n 58; ret (buf, n + 1) } else ret (buf, n));
     buf \<leftarrow> wr buf n (lit ''0123456789ABCDEF'' ! unat (drop_bit 4 b));
     buf \<leftarrow> wr buf (n + 1) (lit ''0123456789ABCDEF'' ! unat (b AND 0x0F));
     fmt_mac_from (i + 1) mac buf (n + 2)
   }"

definition fmt_mac :: "bytes \<Rightarrow> bytes \<Rightarrow> (bytes \<times> nat) option" where
  "fmt_mac mac buf = fmt_mac_from 0 mac buf 0"

text \<open>\<open>let n = fmt(..); self.intern(&buf[..n])?\<close>\<close>

definition intern_fmt :: "(bytes \<times> nat) option \<Rightarrow> (lua, strref) step" where
  "intern_fmt r = (case r of None \<Rightarrow> crash | Some (buf, n) \<Rightarrow> intern (take n buf))"

text \<open>\<open>set_dhcp_globals\<close>; \<open>host\<close> is what the callback at a pointer fills in.\<close>

definition set_dhcp_globals :: "(fn_ptr \<Rightarrow> dhcp_values) \<Rightarrow> (lua, unit) step" where
  "set_dhcp_globals host = (\<lambda>s0.
     case dhcp_values_cb s0 of
       None \<Rightarrow> (Ok (), s0)
     | Some f \<Rightarrow> let v = host f in
         andthen (intern (lit ''mac'')) (\<lambda>mac_name.
         andthen (intern (lit ''ip'')) (\<lambda>ip_name.
         andthen (intern (lit ''subnet'')) (\<lambda>subnet_name.
         andthen (intern (lit ''gateway'')) (\<lambda>gateway_name.
         andthen (intern (lit ''server'')) (\<lambda>server_name.
         andthen (intern (lit ''bootfile'')) (\<lambda>bootfile_name.
         andthen (intern (lit ''tftp_port'')) (\<lambda>tftp_port_name.
         andthen (intern_fmt (fmt_mac (v_mac v) (replicate 17 0))) (\<lambda>mac_val.
         andthen (intern_fmt (fmt_dotted (v_ip v) (replicate 15 0))) (\<lambda>ip_val.
         andthen (intern_fmt (fmt_dotted (v_subnet v) (replicate 15 0))) (\<lambda>subnet_val.
         andthen (intern_fmt (fmt_dotted (v_gateway v) (replicate 15 0))) (\<lambda>gateway_val.
         andthen (intern_fmt (fmt_dotted (v_server v) (replicate 15 0))) (\<lambda>server_val.
         andthen (intern (takeWhile (\<lambda>b. b \<noteq> 0) (v_bootfile v))) (\<lambda>bootfile_val.
         sets (\<lambda>s.
           let s = set_global mac_name (VStr mac_val) s;
               s = set_global ip_name (VStr ip_val) s;
               s = set_global subnet_name (VStr subnet_val) s;
               s = set_global gateway_name (VStr gateway_val) s;
               s = set_global server_name (VStr server_val) s;
               s = set_global bootfile_name (VStr bootfile_val) s in
           set_global tftp_port_name (VNum (ucast (v_tftp_port v))) s)))))))))))))) s0)"

text \<open>\<open>run_dhcp\<close>; \<open>setup\<close> is what the network setup at a pointer returns.\<close>

definition run_dhcp :: "(fn_ptr \<Rightarrow> fn_ptr option) \<Rightarrow> (fn_ptr \<Rightarrow> dhcp_values) \<Rightarrow> (lua, bool) step" where
  "run_dhcp setup host = (\<lambda>s.
     case dhcp_cb s of
       None \<Rightarrow> (Err ''dhcp not available'', s)
     | Some f \<Rightarrow> (case setup f of
           None \<Rightarrow> (Ok False, s)
         | Some cb \<Rightarrow> andnext (set_dhcp_globals host) (ok True) (s\<lparr>fetch_cb := Some cb\<rparr>)))"

end
