(* ===== verification/LuaCompile.thy ===== *)
theory LuaCompile
  imports LuaState
begin

text \<open>
  The bytecode compiler of \<^verbatim>\<open>lua/src/vm.rs\<close>. Its state is the record \<open>compiler\<close>, which holds the
  interpreter's memory as \<open>cst\<close>; the arrays of labels, fixups, loops and queued functions are lists
  with the capacities of the source. As for the parser, the recursive calls are a parameter \<open>rec\<close>
  of the functions, a dispatcher over the datatype \<open>cjob\<close>, and \<open>compile_job\<close> ties the knot with fuel.
\<close>

section \<open>The compiler's state\<close>

definition MAX_FIXUPS :: nat where "MAX_FIXUPS = 256"
definition MAX_LABELS :: nat where "MAX_LABELS = 256"
definition MAX_LOOPS :: nat where "MAX_LOOPS = 8"
definition MAX_LOOP_ENDS :: nat where "MAX_LOOP_ENDS = 16"

lemmas compile_caps = MAX_FIXUPS_def MAX_LABELS_def MAX_LOOPS_def MAX_LOOP_ENDS_def

record loop_ctx =
  lp_scope :: nat
  lp_ends :: "nat list"

record compiler =
  clabels :: "(nat \<times> nat \<times> nat) list"
  cfixups :: "(nat \<times> nat \<times> nat) list"
  cloops :: "loop_ctx list"
  cscope :: nat
  cpending :: "nat list"
  ccompiled :: "nat \<Rightarrow> bool"
  cst :: lua

type_synonym 'a comp = "(compiler, 'a) step"

definition new_compiler :: "lua \<Rightarrow> compiler" where
  "new_compiler l = \<lparr>clabels = [], cfixups = [], cloops = [], cscope = 0, cpending = [],
     ccompiled = (\<lambda>_. False), cst = l\<rparr>"

definition reset_function :: "compiler \<Rightarrow> compiler" where
  "reset_function c = c\<lparr>clabels := [], cfixups := [], cloops := [], cscope := 0\<rparr>"

definition here :: "compiler \<Rightarrow> nat" where
  "here c = ncode (cst c)"

definition emit :: "instr_op \<Rightarrow> nat \<Rightarrow> nat \<Rightarrow> nat comp" where
  "emit op a b = (\<lambda>c. let s = cst c in
     if ncode s \<ge> MAX_CODE then (Err ''script too complex (code overflow)'', c)
     else (Ok (ncode s), c\<lparr>cst := s\<lparr>code := (code s)(ncode s := \<lparr>i_op = op, i_a = a, i_b = b\<rparr>),
            ncode := ncode s + 1\<rparr>\<rparr>))"

text \<open>\<open>s.code[at as usize].a = v\<close>\<close>

definition set_a :: "nat \<Rightarrow> nat \<Rightarrow> lua \<Rightarrow> lua" where
  "set_a ip v s = s\<lparr>code := (code s)(ip := (code s ip)\<lparr>i_a := v\<rparr>)\<rparr>"

definition patch_here :: "nat \<Rightarrow> unit comp" where
  "patch_here ip = sets (\<lambda>c. c\<lparr>cst := set_a ip (here c) (cst c)\<rparr>)"

definition push_scope :: "unit comp" where
  "push_scope = reads (\<lambda>c. if cscope c \<ge> MAX_FRAMES then fail ''too many nested blocks''
     else andnext (emit PushScope 0 0) (sets (\<lambda>c. c\<lparr>cscope := cscope c + 1\<rparr>)))"

definition pop_scope :: "unit comp" where
  "pop_scope = andnext (emit PopScope 0 0) (sets (\<lambda>c. c\<lparr>cscope := cscope c - 1\<rparr>))"

section \<open>Loops, labels and gotos\<close>

text \<open>The innermost loop is the first of \<open>cloops\<close>.\<close>

definition begin_loop :: "nat \<Rightarrow> unit comp" where
  "begin_loop scope = (\<lambda>c.
     if length (cloops c) \<ge> MAX_LOOPS then (Err ''too many nested loops'', c)
     else (Ok (), c\<lparr>cloops := \<lparr>lp_scope = scope, lp_ends = []\<rparr> # cloops c\<rparr>))"

definition emit_break :: "unit comp" where
  "emit_break = reads (\<lambda>c. case cloops c of
       [] \<Rightarrow> fail ''break outside loop''
     | lp # lps \<Rightarrow>
         andthen (emit JumpScopes 0 ((cscope c + 256 - lp_scope lp) mod 256)) (\<lambda>ip.
         if length (lp_ends lp) \<ge> MAX_LOOP_ENDS then fail ''too many breaks in a loop''
         else sets (\<lambda>c. c\<lparr>cloops := lp\<lparr>lp_ends := lp_ends lp @ [ip]\<rparr> # lps\<rparr>)))"

definition end_loop :: "unit comp" where
  "end_loop = (\<lambda>c. case cloops c of
       [] \<Rightarrow> (Panic, c)
     | lp # lps \<Rightarrow>
         (Ok (), c\<lparr>cloops := lps, cst := fold (\<lambda>ip. set_a ip (here c)) (lp_ends lp) (cst c)\<rparr>))"

definition note_label :: "nat \<Rightarrow> unit comp" where
  "note_label node = (\<lambda>c.
     if length (clabels c) \<ge> MAX_LABELS then (Err ''too many labels'', c)
     else (Ok (), c\<lparr>clabels := clabels c @ [(node, here c, cscope c)]\<rparr>))"

definition add_fixup :: "nat \<Rightarrow> nat \<Rightarrow> nat \<Rightarrow> unit comp" where
  "add_fixup ip node depth = (\<lambda>c.
     if length (cfixups c) \<ge> MAX_FIXUPS then (Err ''too many gotos'', c)
     else (Ok (), c\<lparr>cfixups := cfixups c @ [(ip, node, depth)]\<rparr>))"

text \<open>The subtraction of the depths is on \<open>u8\<close>.\<close>

definition set_jump :: "nat \<Rightarrow> nat \<Rightarrow> nat \<Rightarrow> lua \<Rightarrow> lua" where
  "set_jump jp ip pops s = s\<lparr>code := (code s)(jp := (code s jp)\<lparr>i_a := ip, i_b := pops\<rparr>)\<rparr>"

fun resolve_all :: "(nat \<times> nat \<times> nat) list \<Rightarrow> unit comp" where
  "resolve_all [] = ok ()"
| "resolve_all ((jp, node, depth) # fs) = reads (\<lambda>c. case map_of (clabels c) node of
       None \<Rightarrow> fail ''unknown label''
     | Some (ip, label_depth) \<Rightarrow>
         andnext (sets (\<lambda>c. c\<lparr>cst := set_jump jp ip ((depth + 256 - label_depth) mod 256) (cst c)\<rparr>))
           (resolve_all fs))"

definition resolve_fixups :: "unit comp" where
  "resolve_fixups = reads (\<lambda>c. resolve_all (cfixups c))"

section \<open>Reading the syntax\<close>

definition node_at :: "nat \<Rightarrow> node comp" where
  "node_at n = (\<lambda>c. if n \<ge> MAX_NODES then (Panic, c) else (Ok (nodes (cst c) n), c))"

definition next_of :: "nat \<Rightarrow> nat comp" where
  "next_of n = (\<lambda>c. if n \<ge> MAX_NODES then (Panic, c) else (Ok (nxt (cst c) n), c))"

text \<open>
  The number of nodes of a chain. A chain without a cycle has at most \<open>MAX_NODES\<close> nodes, so that
  running out of \<open>MAX_NODES + 1\<close> rounds means that the loop of the source does not end.
\<close>

primrec chain_len :: "nat \<Rightarrow> nat \<Rightarrow> nat comp" where
  "chain_len 0 n = (\<lambda>c. (OutOfFuel, c))"
| "chain_len (Suc k) n =
     (if n = NO_NODE then ok 0
      else andthen (next_of n) (\<lambda>n'. andthen (chain_len k n') (\<lambda>len. ok (len + 1))))"

definition is_call :: "node \<Rightarrow> bool" where
  "is_call n \<longleftrightarrow> (case n of NCall _ _ \<Rightarrow> True | _ \<Rightarrow> False)"

text \<open>Whether the last argument of a call is itself a call; the first loop of \<open>compile_call\<close>.\<close>

primrec has_call_last :: "nat \<Rightarrow> nat \<Rightarrow> bool comp" where
  "has_call_last 0 n = (\<lambda>c. (OutOfFuel, c))"
| "has_call_last (Suc k) n =
     (if n = NO_NODE then ok False
      else andthen (next_of n) (\<lambda>n'. andthen (node_at n) (\<lambda>a. case a of
          NArg v \<Rightarrow>
            if n' = NO_NODE then andthen (node_at v) (\<lambda>vn. ok (is_call vn)) else has_call_last k n'
        | _ \<Rightarrow> fail ''internal error: expected argument'')))"

definition op_code :: "binop \<Rightarrow> nat" where
  "op_code op = (case op of OpAdd \<Rightarrow> 0 | OpSub \<Rightarrow> 1 | OpMul \<Rightarrow> 2 | OpDiv \<Rightarrow> 3 | OpMod \<Rightarrow> 4 | OpEq \<Rightarrow> 5
     | OpNe \<Rightarrow> 6 | OpLt \<Rightarrow> 7 | OpLe \<Rightarrow> 8 | OpGt \<Rightarrow> 9 | OpGe \<Rightarrow> 10 | OpConcat \<Rightarrow> 11 | OpAnd \<Rightarrow> 12
     | OpOr \<Rightarrow> 13 | OpNot \<Rightarrow> 14 | OpNeg \<Rightarrow> 15)"

section \<open>Expressions\<close>

datatype cjob = CChain nat | CExpr nat nat | CPrefixes nat | CFields nat | CArgs nat nat

type_synonym ccalls = "cjob \<Rightarrow> nat comp"

primrec emit_times :: "nat \<Rightarrow> instr_op \<Rightarrow> unit comp" where
  "emit_times 0 op = ok ()"
| "emit_times (Suc n) op = andnext (emit op 0 0) (emit_times n op)"

text \<open>\<open>compile_func_value\<close>: the function is queued once.\<close>

definition queue_func :: "nat \<Rightarrow> unit comp" where
  "queue_func fi = (\<lambda>c.
     if fi \<ge> MAX_FUNCS then (Panic, c)
     else if ccompiled c fi then (Ok (), c)
     else let c = c\<lparr>ccompiled := (ccompiled c)(fi := True)\<rparr> in
       if length (cpending c) \<ge> MAX_FUNCS then (Err ''too many functions'', c)
       else (Ok (), c\<lparr>cpending := fi # cpending c\<rparr>))"

definition compile_func_value :: "nat \<Rightarrow> nat comp" where
  "compile_func_value fi =
     andnext (queue_func fi)
       (reads (\<lambda>c. emit (if nup (funcs (cst c) fi) > 0 then MakeClosure else LoadFunc) fi 0))"

definition compile_call :: "ccalls \<Rightarrow> nat \<Rightarrow> nat \<Rightarrow> nat \<Rightarrow> nat comp" where
  "compile_call rec f first_arg want =
     andthen (has_call_last (MAX_NODES + 1) first_arg) (\<lambda>dynamic.
     andnext (if dynamic then andnext (emit Mark 0 0) (ok ()) else ok ())
     (andnext (rec (CExpr f 1))
     (andthen (rec (CArgs first_arg 0)) (\<lambda>argc.
      emit Call (if dynamic then WANT_ALL else argc) want))))"

text \<open>The second loop of \<open>compile_call\<close>; its result is the number of arguments.\<close>

definition compile_args :: "ccalls \<Rightarrow> nat \<Rightarrow> nat \<Rightarrow> nat comp" where
  "compile_args rec n argc =
     (if n = NO_NODE then ok argc
      else andthen (next_of n) (\<lambda>n'. andthen (node_at n) (\<lambda>a. case a of
          NArg v \<Rightarrow>
            andnext (rec (CExpr v (if n' = NO_NODE then WANT_ALL else 1)))
            (if argc + 1 > 32 then fail ''too many arguments'' else rec (CArgs n' (argc + 1)))
        | _ \<Rightarrow> fail ''internal error: expected argument'')))"

definition compile_fields :: "ccalls \<Rightarrow> nat \<Rightarrow> nat comp" where
  "compile_fields rec f =
     (if f = NO_NODE then ok 0
      else andthen (node_at f) (\<lambda>n. case n of
          NField k v \<Rightarrow>
            andnext (emit Dup 0 0)
            (andnext (rec (CExpr k 1))
            (andnext (rec (CExpr v 1))
            (andnext (emit SetIndex 0 0)
            (andthen (next_of f) (\<lambda>f'. rec (CFields f'))))))
        | _ \<Rightarrow> fail ''internal error: expected field''))"

text \<open>Both \<open>and\<close> and \<open>or\<close>: the right operand is skipped.\<close>

definition compile_short :: "ccalls \<Rightarrow> instr_op \<Rightarrow> nat \<Rightarrow> nat \<Rightarrow> nat comp" where
  "compile_short rec jump l r =
     andnext (rec (CExpr l 1))
     (andthen (emit jump 0 0) (\<lambda>j. andnext (rec (CExpr r 1)) (andnext (patch_here j) (ok 0))))"

definition compile_value :: "ccalls \<Rightarrow> nat \<Rightarrow> node \<Rightarrow> nat comp" where
  "compile_value rec n nd = (case nd of
       NEmpty \<Rightarrow> emit PushConst n 0 | NNil \<Rightarrow> emit PushConst n 0 | NTrue \<Rightarrow> emit PushConst n 0
     | NFalse \<Rightarrow> emit PushConst n 0 | NNum _ \<Rightarrow> emit PushConst n 0 | NFloat _ \<Rightarrow> emit PushConst n 0
     | NStr _ \<Rightarrow> emit PushConst n 0
     | NVar _ \<Rightarrow> emit GetVar n 0
     | NBin op l r \<Rightarrow>
         if op = OpAnd then compile_short rec JumpIfFalseKeep l r
         else if op = OpOr then compile_short rec JumpIfTrueKeep l r
         else andnext (rec (CExpr l 1)) (andnext (rec (CExpr r 1)) (emit BinOp (op_code op) 0))
     | NUn op x \<Rightarrow> andnext (rec (CExpr x 1)) (emit UnOp (op_code op) 0)
     | NIndex b k \<Rightarrow> andnext (rec (CExpr b 1)) (andnext (rec (CExpr k 1)) (emit GetIndex 0 0))
     | NFuncLit fi \<Rightarrow> compile_func_value fi
     | NTableLit first \<Rightarrow> andnext (emit NewTable 0 0) (rec (CFields first))
     | _ \<Rightarrow> fail ''internal error: expression expected'')"

definition compile_expr :: "ccalls \<Rightarrow> nat \<Rightarrow> nat \<Rightarrow> nat comp" where
  "compile_expr rec n want =
     andthen (node_at n) (\<lambda>nd. case nd of
       NCall f first_arg \<Rightarrow> compile_call rec f first_arg want
     | _ \<Rightarrow>
         andnext (compile_value rec n nd)
         (if want = 0 then emit Pop 0 0
          else if want \<noteq> 1 \<and> want \<noteq> WANT_ALL then andnext (emit_times (want - 1) PushNil) (ok 0)
          else ok 0))"

section \<open>Statements\<close>

text \<open>The index targets of an assignment, before its value.\<close>

definition compile_prefixes :: "ccalls \<Rightarrow> nat \<Rightarrow> nat comp" where
  "compile_prefixes rec t =
     (if t = NO_NODE then ok 0
      else andthen (node_at t) (\<lambda>n.
        andnext (case n of NIndex b k \<Rightarrow> andnext (rec (CExpr b 1)) (rec (CExpr k 1)) | _ \<Rightarrow> ok 0)
        (andthen (next_of t) (\<lambda>t'. rec (CPrefixes t')))))"

text \<open>A block in a scope of its own.\<close>

definition scoped :: "ccalls \<Rightarrow> nat \<Rightarrow> unit comp" where
  "scoped rec body = andnext push_scope (andnext (rec (CChain body)) pop_scope)"

definition compile_if :: "ccalls \<Rightarrow> nat \<Rightarrow> nat \<Rightarrow> nat \<Rightarrow> unit comp" where
  "compile_if rec cond then_b els =
     andnext (rec (CExpr cond 1))
     (andthen (emit JumpIfFalse 0 0) (\<lambda>jf.
      andnext (scoped rec then_b)
      (andthen (emit Jump 0 0) (\<lambda>jend.
       andnext (patch_here jf)
       (andnext (if els \<noteq> NO_NODE then scoped rec els else ok ()) (patch_here jend))))))"

definition compile_while :: "ccalls \<Rightarrow> nat \<Rightarrow> nat \<Rightarrow> unit comp" where
  "compile_while rec cond body = reads (\<lambda>c0.
     andnext (rec (CExpr cond 1))
     (andthen (emit JumpIfFalse 0 0) (\<lambda>jf. reads (\<lambda>c.
      andnext (begin_loop (cscope c))
      (andnext (scoped rec body)
      (andnext (emit Jump (here c0) 0)
      (andnext (patch_here jf) end_loop)))))))"

definition compile_repeat :: "ccalls \<Rightarrow> nat \<Rightarrow> nat \<Rightarrow> unit comp" where
  "compile_repeat rec body cond = reads (\<lambda>c0.
     andnext (begin_loop (cscope c0))
     (andnext push_scope
     (andnext (rec (CChain body))
     (andnext (rec (CExpr cond 1))
     (andnext pop_scope
     (andnext (emit JumpIfFalse (here c0) 0) end_loop))))))"

text \<open>The end of both \<open>for\<close> loops: the body in its scope, the jump back, and the way out.\<close>

definition compile_loop_body :: "ccalls \<Rightarrow> nat \<Rightarrow> instr_op \<Rightarrow> nat \<Rightarrow> nat \<Rightarrow> nat \<Rightarrow> unit comp" where
  "compile_loop_body rec body back back_ip b exit_ip =
     reads (\<lambda>c. andnext (begin_loop (cscope c - 1))
     (andnext (scoped rec body)
     (andnext (emit back back_ip b)
     (reads (\<lambda>c. andnext pop_scope
     (andnext (sets (\<lambda>c'. c'\<lparr>cst := set_a exit_ip (here c) (cst c')\<rparr>)) end_loop))))))"

definition compile_for :: "ccalls \<Rightarrow> bool \<Rightarrow> nat \<Rightarrow> nat \<Rightarrow> nat \<Rightarrow> nat \<Rightarrow> nat \<Rightarrow> unit comp" where
  "compile_for rec cell var start limit step body =
     andnext push_scope
     (andnext (rec (CExpr start 1))
     (andnext (rec (CExpr limit 1))
     (andnext (if step \<noteq> NO_NODE then rec (CExpr step 1) else emit PushInt 1 0)
     (andthen (emit (if cell then ForPrepCell else ForPrep) 0 var) (\<lambda>prep. reads (\<lambda>c.
      compile_loop_body rec body (if cell then ForLoopCell else ForLoop) (here c) var prep))))))"

definition compile_for_in :: "ccalls \<Rightarrow> bool \<Rightarrow> nat \<Rightarrow> nat \<Rightarrow> nat \<Rightarrow> nat \<Rightarrow> unit comp" where
  "compile_for_in rec cell kvar vvar table body =
     (let set_op = (if cell then SetLocalTopCell else SetLocalTop) in
      andnext push_scope
      (andnext (rec (CExpr table 2))
      (andnext (emit ForInPrep 0 0)
      (andthen (emit ForInNext 0 0) (\<lambda>next_ip.
       andnext (if vvar \<noteq> NO_NODE then emit set_op vvar 0 else emit Pop 0 0)
       (andnext (emit set_op kvar 0)
        (compile_loop_body rec body ForInAdvance next_ip 0 next_ip)))))))"

text \<open>Leaving every nested block scope before returning.\<close>

definition emit_return :: "nat \<Rightarrow> unit comp" where
  "emit_return count = reads (\<lambda>c.
     andnext (emit_times (cscope c) PopScope) (andnext (emit Return count 0) (ok ())))"

definition compile_return :: "ccalls \<Rightarrow> nat \<Rightarrow> unit comp" where
  "compile_return rec v =
     (if v = NO_NODE then emit_return 0
      else andthen (node_at v) (\<lambda>n.
        if is_call n then andnext (rec (CExpr v WANT_ALL)) (emit_return WANT_ALL)
        else andnext (rec (CExpr v 1)) (emit_return 1)))"

definition done_with :: "nat comp \<Rightarrow> unit comp" where
  "done_with m = andnext m (ok ())"

definition compile_stmt :: "ccalls \<Rightarrow> nat \<Rightarrow> unit comp" where
  "compile_stmt rec n = andthen (node_at n) (\<lambda>nd. case nd of
       NLocalDecl first v \<Rightarrow>
         andthen (chain_len (MAX_NODES + 1) first) (\<lambda>count.
         andnext (rec (CExpr v count)) (done_with (emit DeclareLocal first count)))
     | NLocalFunc name fi \<Rightarrow>
         andnext (emit PushNil 0 0)
         (andnext (emit DeclareLocal name 1)
         (andnext (compile_func_value fi) (done_with (emit SetVar name 0))))
     | NGlobalDecl name v \<Rightarrow>
         andnext (if v \<noteq> NO_NODE then rec (CExpr v 1) else emit PushNil 0 0)
           (done_with (emit SetGlobal name 0))
     | NAssign first v \<Rightarrow>
         andthen (chain_len (MAX_NODES + 1) first) (\<lambda>count.
         andnext (rec (CPrefixes first))
         (andnext (rec (CExpr v count)) (done_with (emit AssignMulti first count))))
     | NCallStmt e \<Rightarrow> andnext (rec (CExpr e 1)) (done_with (emit StmtCheck 0 0))
     | NExprStmt e \<Rightarrow> andnext (rec (CExpr e 1)) (done_with (emit Print 0 0))
     | NIf cond t e \<Rightarrow> compile_if rec cond t e
     | NWhile cond body \<Rightarrow> compile_while rec cond body
     | NRepeat body cond \<Rightarrow> compile_repeat rec body cond
     | NFor var a z s body \<Rightarrow> compile_for rec False var a z s body
     | NForCell var a z s body \<Rightarrow> compile_for rec True var a z s body
     | NForIn k v t body \<Rightarrow> compile_for_in rec False k v t body
     | NForInCell k v t body \<Rightarrow> compile_for_in rec True k v t body
     | NBreak \<Rightarrow> emit_break
     | NLabel _ \<Rightarrow> note_label n
     | NGoto t \<Rightarrow> andthen (emit JumpScopes 0 0) (\<lambda>ip. reads (\<lambda>c. add_fixup ip t (cscope c)))
     | NReturn v \<Rightarrow> compile_return rec v
     | _ \<Rightarrow> fail ''internal error: statement expected'')"

definition compile_chain :: "ccalls \<Rightarrow> nat \<Rightarrow> nat comp" where
  "compile_chain rec n =
     (if n = NO_NODE then ok 0
      else andnext (compile_stmt rec n) (andthen (next_of n) (\<lambda>n'. rec (CChain n'))))"

section \<open>The compiler\<close>

definition compile_step :: "ccalls \<Rightarrow> ccalls" where
  "compile_step rec j = (case j of
       CChain n \<Rightarrow> compile_chain rec n
     | CExpr n want \<Rightarrow> compile_expr rec n want
     | CPrefixes t \<Rightarrow> compile_prefixes rec t
     | CFields f \<Rightarrow> compile_fields rec f
     | CArgs n argc \<Rightarrow> compile_args rec n argc)"

primrec compile_job :: "nat \<Rightarrow> ccalls" where
  "compile_job 0 j = (\<lambda>c. (OutOfFuel, c))"
| "compile_job (Suc k) j = compile_step (compile_job k) j"

text \<open>One chain with its final \<open>Return\<close>; and the functions queued, the last one first.\<close>

definition compile_body :: "nat \<Rightarrow> nat \<Rightarrow> unit comp" where
  "compile_body k first =
     andnext (compile_job k (CChain first)) (andnext (emit Return 0 0) resolve_fixups)"

definition begin_function :: "nat \<Rightarrow> nat list \<Rightarrow> compiler \<Rightarrow> compiler" where
  "begin_function fi rest c =
     (let c = reset_function (c\<lparr>cpending := rest\<rparr>); s = cst c in
      c\<lparr>cst := s\<lparr>funcs := (funcs s)(fi := (funcs s fi)\<lparr>fentry := ncode s\<rparr>)\<rparr>\<rparr>)"

text \<open>A function is queued once, so that \<open>MAX_FUNCS + 1\<close> rounds are enough.\<close>

primrec compile_pending :: "nat \<Rightarrow> nat \<Rightarrow> unit comp" where
  "compile_pending 0 k = (\<lambda>c. (OutOfFuel, c))"
| "compile_pending (Suc r) k = reads (\<lambda>c. case cpending c of
       [] \<Rightarrow> ok ()
     | fi # rest \<Rightarrow>
         andnext (sets (begin_function fi rest))
         (andnext (compile_body k (fbody (funcs (cst c) fi))) (compile_pending r k)))"

definition compile :: "nat \<Rightarrow> lua \<Rightarrow> nat res \<times> lua" where
  "compile first l =
     (case andnext (compile_body (MAX_NODES + 2) first)
             (andnext (compile_pending (MAX_FUNCS + 1) (MAX_NODES + 2)) (ok (ncode l))) (new_compiler l)
      of (r, c) \<Rightarrow> (r, cst c))"

end
