(* ===== verification/LuaFloat.thy ===== *)
theory LuaFloat
  imports LuaState
begin

text \<open>
  The arithmetic of \<open>f64\<close> that the interpreter uses, on bit patterns, and the functions on numbers of
  \<^verbatim>\<open>lua/src/eval.rs\<close>: rounding, the decimal text of integers and floats, and the numbers that
  \<open>tonumber\<close> reads. Every finite double is an integer times \<open>2^-1074\<close>, so that sums, products and
  quotients are exact ratios that \<open>f64_round\<close> rounds once, as IEEE 754 asks for; there is one NaN.
\<close>

section \<open>Doubles\<close>

definition f64_sign :: "f64 \<Rightarrow> bool" where "f64_sign x \<longleftrightarrow> bit x 63"
definition f64_abs :: "f64 \<Rightarrow> nat" where "f64_abs x = unat (take_bit 63 x)"
definition f64_nan :: f64 where "f64_nan = 0x7FF8000000000000"
definition is_nan :: "f64 \<Rightarrow> bool" where "is_nan x \<longleftrightarrow> f64_abs x > f64_inf"
definition is_inf :: "f64 \<Rightarrow> bool" where "is_inf x \<longleftrightarrow> f64_abs x = f64_inf"
definition is_finite :: "f64 \<Rightarrow> bool" where "is_finite x \<longleftrightarrow> f64_abs x < f64_inf"

text \<open>The magnitude in units of \<open>2^-1074\<close>, with the sign.\<close>

definition f64_units :: "f64 \<Rightarrow> int" where
  "f64_units x =
     (let e = f64_abs x div 2 ^ 52; m = f64_abs x mod 2 ^ 52;
          n = (if e = 0 then m else (2 ^ 52 + m) * 2 ^ (e - 1)) in
      if f64_sign x then - int n else int n)"

definition with_sign :: "bool \<Rightarrow> f64 \<Rightarrow> f64" where
  "with_sign neg x = (if neg then x OR 0x8000000000000000 else x)"

definition f64_ratio :: "bool \<Rightarrow> nat \<Rightarrow> nat \<Rightarrow> f64" where
  "f64_ratio neg n d = with_sign neg (f64_round n d)"

definition f64_infinite :: "bool \<Rightarrow> f64" where
  "f64_infinite neg = with_sign neg (word_of_nat f64_inf)"

definition f64_neg :: "f64 \<Rightarrow> f64" where "f64_neg x = x XOR 0x8000000000000000"

definition f64_add :: "f64 \<Rightarrow> f64 \<Rightarrow> f64" where
  "f64_add x y =
     (if is_nan x \<or> is_nan y \<or> is_inf x \<and> is_inf y \<and> f64_sign x \<noteq> f64_sign y then f64_nan
      else if is_inf x then x else if is_inf y then y
      else let n = f64_units x + f64_units y in
        if n = 0 then with_sign (f64_sign x \<and> f64_sign y) 0
        else f64_ratio (n < 0) (nat \<bar>n\<bar>) (2 ^ 1074))"

definition f64_sub :: "f64 \<Rightarrow> f64 \<Rightarrow> f64" where "f64_sub x y = f64_add x (f64_neg y)"

definition f64_mul :: "f64 \<Rightarrow> f64 \<Rightarrow> f64" where
  "f64_mul x y =
     (let neg = (f64_sign x \<noteq> f64_sign y) in
      if is_nan x \<or> is_nan y \<or> is_inf x \<and> f64_abs y = 0 \<or> f64_abs x = 0 \<and> is_inf y then f64_nan
      else if is_inf x \<or> is_inf y then f64_infinite neg
      else f64_ratio neg (nat \<bar>f64_units x * f64_units y\<bar>) (2 ^ 2148))"

definition f64_div :: "f64 \<Rightarrow> f64 \<Rightarrow> f64" where
  "f64_div x y =
     (let neg = (f64_sign x \<noteq> f64_sign y) in
      if is_nan x \<or> is_nan y \<or> is_inf x \<and> is_inf y \<or> f64_abs x = 0 \<and> f64_abs y = 0 then f64_nan
      else if is_inf x \<or> f64_abs y = 0 then f64_infinite neg
      else if is_inf y then with_sign neg 0
      else f64_ratio neg (nat \<bar>f64_units x\<bar>) (nat \<bar>f64_units y\<bar>))"

definition f64_key :: "f64 \<Rightarrow> int" where
  "f64_key x = (if f64_sign x then - int (f64_abs x) else int (f64_abs x))"

definition f64_lt :: "f64 \<Rightarrow> f64 \<Rightarrow> bool" where
  "f64_lt x y \<longleftrightarrow> \<not> is_nan x \<and> \<not> is_nan y \<and> f64_key x < f64_key y"

definition f64_le :: "f64 \<Rightarrow> f64 \<Rightarrow> bool" where
  "f64_le x y \<longleftrightarrow> \<not> is_nan x \<and> \<not> is_nan y \<and> f64_key x \<le> f64_key y"

definition f64_eq :: "f64 \<Rightarrow> f64 \<Rightarrow> bool" where
  "f64_eq x y \<longleftrightarrow> \<not> is_nan x \<and> \<not> is_nan y \<and> f64_key x = f64_key y"

text \<open>\<open>n as f64\<close>, and the saturating \<open>x as i64\<close>, which drops the fraction.\<close>

definition f64_of_i64 :: "i64 \<Rightarrow> f64" where
  "f64_of_i64 n = f64_ratio (sint n < 0) (nat \<bar>sint n\<bar>) 1"

definition i64_of_f64 :: "f64 \<Rightarrow> i64" where
  "i64_of_f64 x =
     (if is_nan x then 0
      else if is_inf x then (if f64_sign x then 0x8000000000000000 else 0x7FFFFFFFFFFFFFFF)
      else let n = (if f64_units x < 0 then - (\<bar>f64_units x\<bar> div 2 ^ 1074) else f64_units x div 2 ^ 1074) in
        word_of_int (max (- (2 ^ 63)) (min (2 ^ 63 - 1) n)))"

section \<open>Rounding\<close>

definition one_f64 :: f64 where "one_f64 = 0x3FF0000000000000"
definition half_f64 :: f64 where "half_f64 = 0x3FE0000000000000"
definition ten_f64 :: f64 where "ten_f64 = 0x4024000000000000"

definition float_floor :: "f64 \<Rightarrow> f64" where
  "float_floor x = (let tf = f64_of_i64 (i64_of_f64 x) in if f64_lt x tf then f64_sub tf one_f64 else tf)"

definition float_ceil :: "f64 \<Rightarrow> f64" where
  "float_ceil x = (let tf = f64_of_i64 (i64_of_f64 x) in if f64_lt tf x then f64_add tf one_f64 else tf)"

definition floor_f64 :: "f64 \<Rightarrow> f64" where "floor_f64 x = float_floor x"

definition ceil_f64 :: "f64 \<Rightarrow> f64" where
  "ceil_f64 x =
     (if f64_le 0 x then let tf = f64_of_i64 (i64_of_f64 x) in if f64_lt tf x then f64_add tf one_f64 else tf
      else f64_of_i64 (i64_of_f64 x))"

definition float_trunc :: "f64 \<Rightarrow> f64" where
  "float_trunc x = (if f64_le 0 x then float_floor x else float_ceil x)"

definition float_round :: "f64 \<Rightarrow> f64" where
  "float_round x = (if f64_le 0 x then float_floor (f64_add x half_f64) else float_ceil (f64_sub x half_f64))"

primrec pow10_u32 :: "nat \<Rightarrow> f64" where
  "pow10_u32 0 = one_f64"
| "pow10_u32 (Suc n) = f64_mul (pow10_u32 n) ten_f64"

section \<open>Decimal text\<close>

text \<open>\<open>itoa\<close>: the digits of the magnitude, last digit first; the buffer of 24 bytes holds them all.\<close>

function itoa_digits :: "u64 \<Rightarrow> bytes \<Rightarrow> bytes" where
  "itoa_digits v acc =
     (let acc = (48 + ucast (v mod 10)) # acc; v = v div 10 in if v = 0 then acc else itoa_digits v acc)"
  by pat_completeness auto
termination
proof (relation "measure (\<lambda>(v, acc). unat v)")
  fix v x :: u64 and acc xa :: bytes
  assume "xa = (48 + ucast (v mod 10)) # acc" "x = v div 10" "x \<noteq> 0"
  then have "unat x = unat v div 10" and "unat x \<noteq> 0"
    by (simp add: unat_div) (use \<open>x \<noteq> 0\<close> in \<open>simp only: unat_eq_zero not_False_eq_True\<close>)
  then show "((x, xa), (v, acc)) \<in> measure (\<lambda>(v, acc). unat v)"
    by simp
qed simp

declare itoa_digits.simps [simp del]

definition itoa :: "i64 \<Rightarrow> bytes" where
  "itoa n = (let neg = n <s 0; ds = itoa_digits (if neg then - n else n) [] in if neg then 45 # ds else ds)"

text \<open>
  \<open>{:.13e}\<close> of \<open>core::fmt\<close>: the decimal exponent and 14 digits, correctly rounded (ties to even), of a
  positive double.
\<close>

fun dec_exponent :: "nat \<Rightarrow> nat \<Rightarrow> nat \<Rightarrow> int \<Rightarrow> int" where
  "dec_exponent 0 n d e = e"
| "dec_exponent (Suc k) n d e =
     (if n \<ge> 10 * d then dec_exponent k n (10 * d) (e + 1)
      else if n < d then dec_exponent k (10 * n) d (e - 1) else e)"

definition sci_digits :: "f64 \<Rightarrow> nat \<times> int" where
  "sci_digits x =
     (let n = nat \<bar>f64_units x\<bar>; e = dec_exponent 700 n (2 ^ 1074) 0;
          m = (if e \<le> 13 then round_half_even (n * 10 ^ nat (13 - e)) (2 ^ 1074)
               else round_half_even n (2 ^ 1074 * 10 ^ nat (e - 13))) in
      if m = 10 ^ 14 then (10 ^ 13, e + 1) else (m, e))"

definition trim_zeros :: "bytes \<Rightarrow> bytes" where
  "trim_zeros ds = (let r = rev (dropWhile (\<lambda>b. b = 48) (rev ds)) in if r = [] then take 1 ds else r)"

definition fmt_float :: "f64 \<Rightarrow> bytes" where
  "fmt_float x =
     (if is_nan x then lit ''nan''
      else if is_inf x then (if f64_sign x then lit ''-inf'' else lit ''inf'')
      else if f64_abs x = 0 then (if f64_sign x then lit ''-0.0'' else lit ''0.0'')
      else case sci_digits x of (m, e) \<Rightarrow>
        let digits = trim_zeros (dec_str m); nd = length digits; sign = (if f64_sign x then [45] else []) in
        sign @
        (if e < -4 \<or> e \<ge> 14 then
           take 1 digits @ (if nd > 1 then 46 # drop 1 digits else []) @ [101, if e < 0 then 45 else 43] @
           (let mag = nat \<bar>e\<bar> in (if mag < 10 then [48] else []) @ dec_str mag)
         else if e \<ge> 0 then
           let ip = nat e + 1 in
           take ip digits @ replicate (ip - nd) 48 @ [46] @ (if nd > ip then drop ip digits else [48])
         else lit ''0.'' @ replicate (nat (- e - 1)) 48 @ digits))"

section \<open>Numbers in text\<close>

definition is_ascii_white :: "u8 \<Rightarrow> bool" where "is_ascii_white b \<longleftrightarrow> b \<in> {32, 9, 10, 12, 13}"

definition trim_ascii :: "bytes \<Rightarrow> bytes" where
  "trim_ascii b = rev (dropWhile is_ascii_white (rev (dropWhile is_ascii_white b)))"

text \<open>\<open>str::parse::<i64>\<close> with a sign.\<close>

definition parse_signed :: "bytes \<Rightarrow> i64 option" where
  "parse_signed s =
     (if s \<noteq> [] \<and> hd s = 45 then
        (let v = digits_value 10 dec_dig (tl s) in
         if tl s = [] \<or> \<not> list_all is_digit (tl s) \<or> v > 2 ^ 63 then None else Some (- word_of_nat v))
      else parse_i64 (if s \<noteq> [] \<and> hd s = 43 then tl s else s))"

text \<open>The digit of a base: \<open>0\<close> to \<open>9\<close>, then letters of either case.\<close>

definition base_digit :: "u8 \<Rightarrow> int option" where
  "base_digit c =
     (if 48 \<le> c \<and> c \<le> 57 then Some (uint c - 48)
      else if 97 \<le> c \<and> c \<le> 122 then Some (uint c - 97 + 10)
      else if 65 \<le> c \<and> c \<le> 90 then Some (uint c - 65 + 10) else None)"

text \<open>\<open>n.checked_mul(base)?.checked_add(d)?\<close> for each digit.\<close>

fun base_loop :: "bytes \<Rightarrow> int \<Rightarrow> int \<Rightarrow> int option" where
  "base_loop [] base n = Some n"
| "base_loop (c # cs) base n =
     (case base_digit c of
        None \<Rightarrow> None
      | Some d \<Rightarrow>
          if d \<ge> base \<or> n * base \<ge> 2 ^ 63 \<or> n * base + d \<ge> 2 ^ 63 then None
          else base_loop cs base (n * base + d))"

definition str_to_base :: "bytes \<Rightarrow> int \<Rightarrow> i64 option" where
  "str_to_base b base =
     (let s = trim_ascii b in
      if s = [] then None
      else let neg = (hd s = 45); ds = (if hd s = 45 \<or> hd s = 43 then tl s else s) in
        if ds = [] then None
        else map_option (\<lambda>n. if neg then - word_of_int n else word_of_int n) (base_loop ds base 0))"

text \<open>\<open>str_to_number\<close>: the shape of a decimal number is checked, then the library parser reads it.\<close>

definition decimal_shape :: "bytes \<Rightarrow> bool" where
  "decimal_shape t =
     (let t = (if hd t = 43 \<or> hd t = 45 then tl t else t);
          ip = takeWhile is_digit t; r = dropWhile is_digit t;
          fp = (if r \<noteq> [] \<and> hd r = 46 then takeWhile is_digit (tl r) else []);
          r = (if r \<noteq> [] \<and> hd r = 46 then dropWhile is_digit (tl r) else r) in
      ip @ fp \<noteq> [] \<and>
      (r = [] \<or>
       (hd r = 101 \<or> hd r = 69) \<and>
       (let x = tl r; x = (if x \<noteq> [] \<and> (hd x = 43 \<or> hd x = 45) then tl x else x) in
        x \<noteq> [] \<and> list_all is_digit x)))"

definition parse_signed_f64 :: "bytes \<Rightarrow> f64 option" where
  "parse_signed_f64 t =
     (if hd t = 45 then map_option f64_neg (parse_f64 (tl t))
      else parse_f64 (if hd t = 43 then tl t else t))"

definition str_to_number :: "bytes \<Rightarrow> lval option" where
  "str_to_number b =
     (let s = trim_ascii b in
      if s = [] then None
      else case parse_signed s of
          Some i \<Rightarrow> Some (VNum i)
        | None \<Rightarrow> if decimal_shape s then map_option VFloat (parse_signed_f64 s) else None)"

end
