(* ===== verification/LuaValue.thy ===== *)
theory LuaValue
  imports LuaFloat "HOL-Library.Signed_Division"
begin

text \<open>
  Values at run time, \<^verbatim>\<open>lua/src/eval.rs\<close>: equality, tables with their metatables, the operators with
  the dispatch of metamethods, and the text of values. A metamethod that is a function is called
  through the parameter \<open>call\<close>, which the machine of the theory \<open>LuaVm\<close> instantiates with itself.
\<close>

section \<open>Results with Lua errors\<close>

text \<open>
  Run-time errors carry a message or a Lua value; otherwise the results are those of \<open>LuaBase\<close>. An
  operation of the memory with static messages is lifted by \<open>vlift\<close>.
\<close>

datatype 'a vres = Fine 'a | Throw lua_error | VPanic | VFuel

type_synonym 'a vm = "lua \<Rightarrow> 'a vres \<times> lua"

definition vok :: "'a \<Rightarrow> 'a vm" where "vok x = (\<lambda>s. (Fine x, s))"
definition throw :: "lua_error \<Rightarrow> 'a vm" where "throw e = (\<lambda>s. (Throw e, s))"
definition raise :: "string \<Rightarrow> 'a vm" where "raise msg = throw (Msg msg)"
definition vpanic :: "'a vm" where "vpanic = (\<lambda>s. (VPanic, s))"

fun vpass :: "'a vres \<Rightarrow> 'b vres" where
  "vpass (Fine x) = VPanic"
| "vpass (Throw e) = Throw e"
| "vpass VPanic = VPanic"
| "vpass VFuel = VFuel"

definition vthen :: "'a vm \<Rightarrow> ('a \<Rightarrow> 'b vm) \<Rightarrow> 'b vm" where
  "vthen m k = (\<lambda>s. case m s of (Fine x, s') \<Rightarrow> k x s' | (r, s') \<Rightarrow> (vpass r, s'))"

definition vnext :: "'a vm \<Rightarrow> 'b vm \<Rightarrow> 'b vm" where "vnext m k = vthen m (\<lambda>_. k)"
definition vreads :: "(lua \<Rightarrow> 'a vm) \<Rightarrow> 'a vm" where "vreads k = (\<lambda>s. k s s)"
definition vsets :: "(lua \<Rightarrow> lua) \<Rightarrow> unit vm" where "vsets f = (\<lambda>s. (Fine (), f s))"

definition vlift :: "(lua, 'a) step \<Rightarrow> 'a vm" where
  "vlift m = (\<lambda>s. case m s of (Ok x, s') \<Rightarrow> (Fine x, s') | (Err msg, s') \<Rightarrow> (Throw (Msg msg), s')
     | (Panic, s') \<Rightarrow> (VPanic, s') | (OutOfFuel, s') \<Rightarrow> (VFuel, s'))"

definition vchecked :: "(lua \<Rightarrow> 'a option) \<Rightarrow> 'a vm" where
  "vchecked f = (\<lambda>s. case f s of None \<Rightarrow> (VPanic, s) | Some x \<Rightarrow> (Fine x, s))"

named_theorems vm_simps

lemma vm_apply [vm_simps]:
  "vok x s = (Fine x, s)" "throw e s = (Throw e, s)" "raise msg s = (Throw (Msg msg), s)"
  "vpanic s = (VPanic, s)" "vreads k s = k s s" "vsets f s = (Fine (), f s)"
  by (simp_all add: vok_def throw_def raise_def vpanic_def vreads_def vsets_def)

lemma vthen_apply [vm_simps]:
  "vthen m k s = (case m s of (Fine x, s') \<Rightarrow> k x s' | (Throw e, s') \<Rightarrow> (Throw e, s')
     | (VPanic, s') \<Rightarrow> (VPanic, s') | (VFuel, s') \<Rightarrow> (VFuel, s'))"
  by (auto simp: vthen_def split: prod.splits vres.splits)

lemma vnext_apply [vm_simps]: "vnext m k s = vthen m (\<lambda>_. k) s"
  by (simp add: vnext_def)

text \<open>What a call gives back, \<open>enum ExecResult\<close>: \<open>RetN n\<close> stands for \<open>n\<close> values on the stack.\<close>

datatype exec_result =
    Normal | Ret lval | Ret2 lval lval | RetN nat | BreakOut | GotoOut nat | Shell | Exit | YieldN nat

type_synonym caller = "lval \<Rightarrow> nat \<Rightarrow> exec_result vm"

section \<open>Values\<close>

definition truthy :: "lval \<Rightarrow> bool" where
  "truthy v \<longleftrightarrow> v \<noteq> VNil \<and> v \<noteq> VBool False"

definition float_of :: "lval \<Rightarrow> f64 option" where
  "float_of v = (case v of VNum n \<Rightarrow> Some (f64_of_i64 n) | VFloat f \<Rightarrow> Some f | _ \<Rightarrow> None)"

definition val_eq :: "lval \<Rightarrow> lval \<Rightarrow> bool" where
  "val_eq a b \<longleftrightarrow> (case (a, b) of
       (VFloat x, VFloat y) \<Rightarrow> f64_eq x y
     | (VNum x, VFloat y) \<Rightarrow> f64_eq (f64_of_i64 x) y
     | (VFloat y, VNum x) \<Rightarrow> f64_eq (f64_of_i64 x) y
     | _ \<Rightarrow> a = b)"

definition type_name :: "lval \<Rightarrow> bytes" where
  "type_name v = (case v of
       VNil \<Rightarrow> lit ''nil'' | VBool _ \<Rightarrow> lit ''boolean'' | VNum _ \<Rightarrow> lit ''number'' | VFloat _ \<Rightarrow> lit ''number''
     | VStr _ \<Rightarrow> lit ''string'' | VTable _ \<Rightarrow> lit ''table'' | VCo _ \<Rightarrow> lit ''thread'' | _ \<Rightarrow> lit ''function'')"

section \<open>Tables\<close>

definition new_table :: "nat vm" where
  "new_table = (\<lambda>s.
     if ntables s \<ge> MAX_TABLES then (Throw (Msg ''too many tables''), s)
     else (Fine (ntables s), s\<lparr>tbls := (tbls s)(ntables s :=
         \<lparr>slots = (\<lambda>_. (VNil, VNil)), t_len = 0, mt = None\<rparr>), ntables := ntables s + 1\<rparr>))"

text \<open>The first slot with a key; \<open>s.tbls[tid]\<close> panics past the array.\<close>

definition slot_of :: "table_rec \<Rightarrow> lval \<Rightarrow> nat option" where
  "slot_of t k = find (\<lambda>i. val_eq (fst (slots t i)) k) [0..<t_len t]"

definition raw_get :: "nat \<Rightarrow> lval \<Rightarrow> lval vm" where
  "raw_get tid k = vreads (\<lambda>s.
     if tid \<ge> MAX_TABLES then vpanic
     else vok (case slot_of (tbls s tid) k of Some i \<Rightarrow> snd (slots (tbls s tid) i) | None \<Rightarrow> VNil))"

definition raw_has :: "nat \<Rightarrow> lval \<Rightarrow> bool vm" where
  "raw_has tid k = vreads (\<lambda>s.
     if tid \<ge> MAX_TABLES then vpanic else vok (slot_of (tbls s tid) k \<noteq> None))"

definition set_table :: "nat \<Rightarrow> table_rec \<Rightarrow> lua \<Rightarrow> lua" where
  "set_table tid t s = s\<lparr>tbls := (tbls s)(tid := t)\<rparr>"

text \<open>Removing a slot shifts the later ones down; the slot freed keeps its old entry.\<close>

definition drop_slot :: "nat \<Rightarrow> table_rec \<Rightarrow> table_rec" where
  "drop_slot i t = t\<lparr>slots := (\<lambda>j. if i \<le> j \<and> j < t_len t - 1 then slots t (j + 1) else slots t j),
     t_len := t_len t - 1\<rparr>"

definition raw_set :: "nat \<Rightarrow> lval \<Rightarrow> lval \<Rightarrow> unit vm" where
  "raw_set tid k v =
     (if k = VNil then raise ''table index is nil''
      else if (case k of VFloat f \<Rightarrow> is_nan f | _ \<Rightarrow> False) then raise ''table index is NaN''
      else if tid \<ge> MAX_TABLES then vpanic
      else vreads (\<lambda>s. let t = tbls s tid in
        case slot_of t k of
          Some i \<Rightarrow>
            vsets (set_table tid (if v = VNil then drop_slot i t
              else t\<lparr>slots := (slots t)(i := (fst (slots t i), v))\<rparr>))
        | None \<Rightarrow>
            if v = VNil then vok ()
            else if t_len t \<ge> TABLE_SLOTS then raise ''table full''
            else vsets (set_table tid (t\<lparr>slots := (slots t)(t_len t := (k, v)), t_len := t_len t + 1\<rparr>))))"

section \<open>Metamethods\<close>

definition MM_NAMES :: "bytes list" where
  "MM_NAMES = map lit [''__index'', ''__newindex'', ''__eq'', ''__lt'', ''__le'', ''__concat'', ''__add'',
     ''__sub'', ''__mul'', ''__div'', ''__mod'', ''__unm'', ''__call'', ''__tostring'', ''__pairs'']"

definition MM_INDEX :: nat where "MM_INDEX = 0"
definition MM_NEWINDEX :: nat where "MM_NEWINDEX = 1"
definition MM_EQ :: nat where "MM_EQ = 2"
definition MM_LT :: nat where "MM_LT = 3"
definition MM_LE :: nat where "MM_LE = 4"
definition MM_CONCAT :: nat where "MM_CONCAT = 5"
definition MM_ADD :: nat where "MM_ADD = 6"
definition MM_SUB :: nat where "MM_SUB = 7"
definition MM_MUL :: nat where "MM_MUL = 8"
definition MM_DIV :: nat where "MM_DIV = 9"
definition MM_MOD :: nat where "MM_MOD = 10"
definition MM_UNM :: nat where "MM_UNM = 11"
definition MM_CALL :: nat where "MM_CALL = 12"
definition MM_TOSTRING :: nat where "MM_TOSTRING = 13"
definition MM_PAIRS :: nat where "MM_PAIRS = 14"
definition MAX_MM_DEPTH :: nat where "MAX_MM_DEPTH = 100"

primrec intern_mm_names :: "bytes list \<Rightarrow> nat \<Rightarrow> unit vm" where
  "intern_mm_names [] j = vsets (\<lambda>s. s\<lparr>mm_ready := True\<rparr>)"
| "intern_mm_names (n # ns) j =
     vthen (vlift (intern n)) (\<lambda>r.
     vnext (vsets (\<lambda>s. s\<lparr>mm_refs := (mm_refs s)(j := r)\<rparr>)) (intern_mm_names ns (j + 1)))"

definition mm_name :: "nat \<Rightarrow> strref vm" where
  "mm_name i = vnext (vreads (\<lambda>s. if mm_ready s then vok () else intern_mm_names MM_NAMES 0))
     (vreads (\<lambda>s. vok (mm_refs s i)))"

definition mt_lookup :: "nat \<Rightarrow> nat \<Rightarrow> lval vm" where
  "mt_lookup tid i = vreads (\<lambda>s.
     if tid \<ge> MAX_TABLES then vpanic
     else case mt (tbls s tid) of
         None \<Rightarrow> vok VNil
       | Some m \<Rightarrow> vthen (mm_name i) (\<lambda>name. raw_get m (VStr name)))"

definition mm_of :: "lval \<Rightarrow> nat \<Rightarrow> lval vm" where
  "mm_of v i = (case v of VTable tid \<Rightarrow> mt_lookup tid i | _ \<Rightarrow> vok VNil)"

primrec push_all :: "lval list \<Rightarrow> unit vm" where
  "push_all [] = vok ()"
| "push_all (v # vs) = vnext (vlift (push_val v)) (push_all vs)"

definition call_mm :: "caller \<Rightarrow> lval \<Rightarrow> lval list \<Rightarrow> lval vm" where
  "call_mm call f args = vreads (\<lambda>s0.
     let back = (\<lambda>v. vnext (vsets (\<lambda>s. s\<lparr>vsp := vsp s0\<rparr>)) (vok v)) in
     if length args > 32 then raise ''too many arguments''
     else vnext (push_all args)
       (vthen (call f (length args)) (\<lambda>r. case r of
            Normal \<Rightarrow> back VNil
          | Ret v \<Rightarrow> back v
          | Ret2 a _ \<Rightarrow> back a
          | RetN n \<Rightarrow>
              if n = 0 then back VNil
              else vreads (\<lambda>s. if n \<le> vsp s \<and> vsp s - n < STACK_CAP then back (vstack s (vsp s - n)) else vpanic)
          | Shell \<Rightarrow> back VNil
          | Exit \<Rightarrow> back VNil
          | YieldN _ \<Rightarrow> raise ''attempt to yield across a metamethod''
          | _ \<Rightarrow> raise ''internal error: control flow from metamethod'')))"

text \<open>
  \<open>enter_mm(s)?; let r = m; leave_mm(s); r\<close>: the depth is left again when \<open>m\<close> fails.
\<close>

definition in_mm :: "'a vm \<Rightarrow> 'a vm" where
  "in_mm m = (\<lambda>s.
     if mm_depth s \<ge> MAX_MM_DEPTH then (Throw (Msg ''metamethod chain too long (possible loop)''), s)
     else case m (s\<lparr>mm_depth := mm_depth s + 1\<rparr>) of (r, s') \<Rightarrow> (r, s'\<lparr>mm_depth := mm_depth s' - 1\<rparr>))"

definition binop_mm :: "lval \<Rightarrow> lval \<Rightarrow> nat \<Rightarrow> lval option vm" where
  "binop_mm a b i =
     vthen (mm_of a i) (\<lambda>h. if h \<noteq> VNil then vok (Some h)
       else vthen (mm_of b i) (\<lambda>h. vok (if h \<noteq> VNil then Some h else None)))"

definition eq_values :: "caller \<Rightarrow> lval \<Rightarrow> lval \<Rightarrow> bool vm" where
  "eq_values call a b =
     (if val_eq a b then vok True
      else case (a, b) of
          (VTable _, VTable _) \<Rightarrow>
            vthen (binop_mm a b MM_EQ) (\<lambda>h. case h of
                Some f \<Rightarrow> vthen (in_mm (call_mm call f [a, b])) (\<lambda>r. vok (truthy r))
              | None \<Rightarrow> vok False)
        | _ \<Rightarrow> vok False)"

definition unm :: "caller \<Rightarrow> lval \<Rightarrow> lval vm" where
  "unm call v = (case v of
       VNum n \<Rightarrow> vok (VNum (- n))
     | VFloat f \<Rightarrow> vok (VFloat (f64_neg f))
     | _ \<Rightarrow> vthen (mm_of v MM_UNM) (\<lambda>f.
         if f = VNil then raise ''attempt to perform arithmetic on a non-number value''
         else in_mm (call_mm call f [v])))"

text \<open>
  \<open>t[k]\<close> and \<open>t[k] = v\<close>, which follow \<open>__index\<close> and \<open>__newindex\<close>. The first argument bounds the chain
  of tables; \<open>enter_mm\<close> stops it after \<open>MAX_MM_DEPTH\<close> of them.
\<close>

primrec tget :: "nat \<Rightarrow> caller \<Rightarrow> lval \<Rightarrow> lval \<Rightarrow> lval vm" where
  "tget 0 call t k = (\<lambda>s. (VFuel, s))"
| "tget (Suc n) call t k = (case t of
       VTable tid \<Rightarrow>
         vthen (raw_get tid k) (\<lambda>v. if v \<noteq> VNil then vok v
         else vthen (mt_lookup tid MM_INDEX) (\<lambda>h. case h of
             VNil \<Rightarrow> vok VNil
           | VTable _ \<Rightarrow> in_mm (tget n call h k)
           | _ \<Rightarrow> in_mm (call_mm call h [t, k])))
     | _ \<Rightarrow> raise ''attempt to index a non-table value'')"

primrec tset :: "nat \<Rightarrow> caller \<Rightarrow> lval \<Rightarrow> lval \<Rightarrow> lval \<Rightarrow> unit vm" where
  "tset 0 call t k v = (\<lambda>s. (VFuel, s))"
| "tset (Suc n) call t k v = (case t of
       VTable tid \<Rightarrow>
         vthen (raw_has tid k) (\<lambda>has. if has then raw_set tid k v
         else vthen (mt_lookup tid MM_NEWINDEX) (\<lambda>h. case h of
             VNil \<Rightarrow> raw_set tid k v
           | VTable _ \<Rightarrow> in_mm (tset n call h k v)
           | _ \<Rightarrow> in_mm (vnext (call_mm call h [t, k, v]) (vok ()))))
     | _ \<Rightarrow> raise ''attempt to index a non-table value'')"

definition CHAIN_FUEL :: nat where "CHAIN_FUEL = MAX_MM_DEPTH + 1"

section \<open>Operators\<close>

text \<open>Integer division truncates and \<open>%\<close> is Euclidean; both panic on the one quotient out of range.\<close>

definition i64_min :: i64 where "i64_min = 0x8000000000000000"

definition int_arith :: "binop \<Rightarrow> i64 \<Rightarrow> i64 \<Rightarrow> lval vm" where
  "int_arith op x y = (case op of
       OpAdd \<Rightarrow> vok (VNum (x + y))
     | OpSub \<Rightarrow> vok (VNum (x - y))
     | OpMul \<Rightarrow> vok (VNum (x * y))
     | OpDiv \<Rightarrow> if y = 0 then raise ''division by zero''
                else if x = i64_min \<and> y = - 1 then vpanic
                else vok (VNum (word_of_int (sint x sdiv sint y)))
     | OpMod \<Rightarrow> if y = 0 then raise ''division by zero''
                else if x = i64_min \<and> y = - 1 then vpanic
                else vok (VNum (word_of_int (sint x mod \<bar>sint y\<bar>)))
     | _ \<Rightarrow> vok (VNum 0))"

definition float_arith :: "binop \<Rightarrow> f64 \<Rightarrow> f64 \<Rightarrow> f64" where
  "float_arith op x y = (case op of
       OpAdd \<Rightarrow> f64_add x y
     | OpSub \<Rightarrow> f64_sub x y
     | OpMul \<Rightarrow> f64_mul x y
     | OpDiv \<Rightarrow> f64_div x y
     | OpMod \<Rightarrow> f64_sub x (f64_mul (float_floor (f64_div x y)) y)
     | _ \<Rightarrow> 0)"

definition arith_mm :: "binop \<Rightarrow> nat" where
  "arith_mm op = (case op of OpAdd \<Rightarrow> MM_ADD | OpSub \<Rightarrow> MM_SUB | OpMul \<Rightarrow> MM_MUL | OpDiv \<Rightarrow> MM_DIV | _ \<Rightarrow> MM_MOD)"

definition dispatch_mm :: "caller \<Rightarrow> lval \<Rightarrow> lval \<Rightarrow> nat \<Rightarrow> string \<Rightarrow> lval vm" where
  "dispatch_mm call a b i msg =
     vthen (binop_mm a b i) (\<lambda>h. case h of
         Some f \<Rightarrow> in_mm (call_mm call f [a, b])
       | None \<Rightarrow> raise msg)"

definition arith :: "caller \<Rightarrow> binop \<Rightarrow> lval \<Rightarrow> lval \<Rightarrow> lval vm" where
  "arith call op a b = (case (a, b) of
       (VNum x, VNum y) \<Rightarrow> int_arith op x y
     | _ \<Rightarrow> (case (float_of a, float_of b) of
           (Some x, Some y) \<Rightarrow> vok (VFloat (float_arith op x y))
         | _ \<Rightarrow> dispatch_mm call a b (arith_mm op) ''attempt to perform arithmetic on a non-number value''))"

definition compare_mm :: "caller \<Rightarrow> bool \<Rightarrow> lval \<Rightarrow> lval \<Rightarrow> lval vm" where
  "compare_mm call lt x y =
     vthen (binop_mm x y (if lt then MM_LT else MM_LE)) (\<lambda>h. case h of
         Some f \<Rightarrow> vthen (in_mm (call_mm call f [x, y])) (\<lambda>r. vok (VBool (truthy r)))
       | None \<Rightarrow>
           if lt then raise ''attempt to compare non-number values''
           else vthen (binop_mm y x MM_LT) (\<lambda>h. case h of
               Some f \<Rightarrow> vthen (in_mm (call_mm call f [y, x])) (\<lambda>r. vok (VBool (\<not> truthy r)))
             | None \<Rightarrow> raise ''attempt to compare non-number values''))"

text \<open>\<open>x < y\<close> when \<open>lt\<close>, otherwise \<open>x <= y\<close>.\<close>

definition compare :: "caller \<Rightarrow> bool \<Rightarrow> lval \<Rightarrow> lval \<Rightarrow> lval vm" where
  "compare call lt x y = (case (x, y) of
       (VNum m, VNum n) \<Rightarrow> vok (VBool (if lt then m <s n else m <=s n))
     | _ \<Rightarrow> (case (float_of x, float_of y) of
           (Some m, Some n) \<Rightarrow> vok (VBool (if lt then f64_lt m n else f64_le m n))
         | _ \<Rightarrow> compare_mm call lt x y))"

definition string_of :: "lval \<Rightarrow> strref vm" where
  "string_of v = (case v of
       VStr r \<Rightarrow> vok r
     | VNum n \<Rightarrow> vlift (intern (itoa n))
     | VFloat f \<Rightarrow> vlift (intern (fmt_float f))
     | _ \<Rightarrow> raise ''attempt to concatenate a non-string value'')"

definition is_text :: "lval \<Rightarrow> bool" where
  "is_text v \<longleftrightarrow> (case v of VStr _ \<Rightarrow> True | VNum _ \<Rightarrow> True | VFloat _ \<Rightarrow> True | _ \<Rightarrow> False)"

definition concat_op :: "caller \<Rightarrow> lval \<Rightarrow> lval \<Rightarrow> lval vm" where
  "concat_op call a b =
     (if is_text a \<and> is_text b then
        vthen (string_of a) (\<lambda>sa.
        vthen (string_of b) (\<lambda>sb.
        vthen (vchecked (\<lambda>s. str_bytes s sa)) (\<lambda>ba.
        vthen (vchecked (\<lambda>s. str_bytes s sb)) (\<lambda>bb.
        if length ba + length bb > 512 then raise ''string too long''
        else vthen (vlift (intern (ba @ bb))) (\<lambda>r. vok (VStr r))))))
      else dispatch_mm call a b MM_CONCAT ''attempt to concatenate a non-string value'')"

definition binop :: "caller \<Rightarrow> binop \<Rightarrow> lval \<Rightarrow> lval \<Rightarrow> lval vm" where
  "binop call op a b = (case op of
       OpEq \<Rightarrow> vthen (eq_values call a b) (\<lambda>r. vok (VBool r))
     | OpNe \<Rightarrow> vthen (eq_values call a b) (\<lambda>r. vok (VBool (\<not> r)))
     | OpLt \<Rightarrow> compare call True a b
     | OpLe \<Rightarrow> compare call False a b
     | OpGt \<Rightarrow> compare call True b a
     | OpGe \<Rightarrow> compare call False b a
     | OpConcat \<Rightarrow> concat_op call a b
     | OpAnd \<Rightarrow> raise ''internal error: operator handled elsewhere''
     | OpOr \<Rightarrow> raise ''internal error: operator handled elsewhere''
     | OpNot \<Rightarrow> raise ''internal error: operator handled elsewhere''
     | OpNeg \<Rightarrow> raise ''internal error: operator handled elsewhere''
     | _ \<Rightarrow> arith call op a b)"

section \<open>Output\<close>

definition emit_bytes :: "bytes \<Rightarrow> unit vm" where
  "emit_bytes bs = vsets (\<lambda>s. s\<lparr>console := console s @ bs\<rparr>)"

text \<open>The text of a value that is neither a string nor rendered by a metamethod.\<close>

definition plain_text :: "lval \<Rightarrow> bytes" where
  "plain_text v = (case v of
       VNil \<Rightarrow> lit ''nil'' | VBool b \<Rightarrow> (if b then lit ''true'' else lit ''false'') | VNum n \<Rightarrow> itoa n
     | VFloat f \<Rightarrow> fmt_float f | VTable _ \<Rightarrow> lit ''table'' | VNative _ \<Rightarrow> lit ''native'' | VShell \<Rightarrow> lit ''shell''
     | VDhcp \<Rightarrow> lit ''dhcp'' | VExit \<Rightarrow> lit ''exit'' | VLs \<Rightarrow> lit ''ls'' | VCo _ \<Rightarrow> lit ''thread'' | _ \<Rightarrow> lit ''function'')"

text \<open>The value that \<open>__tostring\<close> gives for a table that has it.\<close>

definition tostring_mm :: "caller \<Rightarrow> lval \<Rightarrow> lval option vm" where
  "tostring_mm call v =
     vthen (mm_of v MM_TOSTRING) (\<lambda>h. if h = VNil then vok None
       else vthen (in_mm (call_mm call h [v])) (\<lambda>r. if is_text r then vok (Some r)
         else raise (quoting ''`__tostring` must return a string'')))"

definition value_to_string :: "caller \<Rightarrow> lval \<Rightarrow> strref vm" where
  "value_to_string call v =
     vthen (tostring_mm call v) (\<lambda>r. case r of
         Some w \<Rightarrow> string_of w
       | None \<Rightarrow> (case v of VStr r \<Rightarrow> vok r | _ \<Rightarrow> vlift (intern (plain_text v))))"

definition tostring :: "caller \<Rightarrow> lval \<Rightarrow> unit vm" where
  "tostring call v =
     vthen (tostring_mm call v) (\<lambda>r. case r of
         Some w \<Rightarrow> vthen (string_of w) (\<lambda>sr. vthen (vchecked (\<lambda>s. str_bytes s sr)) emit_bytes)
       | None \<Rightarrow> (case v of
             VStr r \<Rightarrow> vthen (vchecked (\<lambda>s. str_bytes s r)) emit_bytes
           | _ \<Rightarrow> emit_bytes (plain_text v)))"

text \<open>\<open>error_bytes\<close> truncates to the buffer; \<open>emit_error\<close> writes the whole text.\<close>

definition error_text :: "lua \<Rightarrow> lua_error \<Rightarrow> bytes option" where
  "error_text s e = (case e of
       Msg m \<Rightarrow> ret (lit m)
     | Obj (VStr r) \<Rightarrow> str_bytes s r
     | Obj v \<Rightarrow> ret (lit ''error object is a '' @ type_name v @ lit '' value''))"

definition error_bytes :: "lua \<Rightarrow> lua_error \<Rightarrow> nat \<Rightarrow> bytes option" where
  "error_bytes s e cap = map_option (take cap) (error_text s e)"

definition emit_error :: "lua_error \<Rightarrow> unit vm" where
  "emit_error e = vthen (vchecked (\<lambda>s. error_text s e)) emit_bytes"

text \<open>\<open>ls\<close>: the fetched files of the working directory.\<close>

definition split_name :: "bytes \<Rightarrow> bytes \<times> bytes" where
  "split_name name =
     (if 47 \<notin> set name then ([47], name)
      else let base = rev (takeWhile (\<lambda>b. b \<noteq> 47) (rev name));
               parent = take (length name - length base - 1) name in
        (if parent = [] then [47] else parent, base))"

primrec ls_files :: "nat list \<Rightarrow> bytes \<Rightarrow> unit vm" where
  "ls_files [] dir = vok ()"
| "ls_files (i # is) dir =
     vthen (vchecked (\<lambda>s. str_bytes s (fetched_names s i))) (\<lambda>name. case split_name name of (parent, base) \<Rightarrow>
     vnext (if parent \<noteq> dir then vok ()
       else vreads (\<lambda>s. emit_bytes ((if base = [] then name else base) @ lit '' ('' @
         itoa (fetched_lens s i) @ lit '' bytes)'' @ [10])))
     (ls_files is dir))"

definition ls_run :: "unit vm" where
  "ls_run = vreads (\<lambda>s. if cwd_len s > 32 then vpanic
     else let dir = take (cwd_len s) (cwd s) in
       vnext (if dir \<noteq> [47] then emit_bytes (lit ''.. (0 bytes)'' @ [10]) else vok ())
         (ls_files [0..<fetched_n s] dir))"

end
