(* ===== verification/LuaPattern.thy ===== *)
theory LuaPattern
  imports LuaState
begin

text \<open>
  The string patterns of \<^verbatim>\<open>lua/src/eval.rs\<close>: plain search, the backtracking matcher, and the matcher
  of \<open>string.gmatch\<close> with its captures. The source walks a pattern by an index \<open>pi\<close> and recurses on
  slices of it; here a position in the pattern is the rest of the pattern from there on. The search
  is compared with a reference that lists all matches in the order of preference of Lua: the longest
  run first for \<open>*\<close> and \<open>+\<close>, the shortest first for \<open>-\<close>, with the item first for \<open>?\<close>.
\<close>

section \<open>Items\<close>

definition between :: "u8 \<Rightarrow> u8 \<Rightarrow> u8 \<Rightarrow> bool" where
  "between a b c \<longleftrightarrow> a \<le> c \<and> c \<le> b"

definition is_upper :: "u8 \<Rightarrow> bool" where "is_upper c \<longleftrightarrow> between 65 90 c"
definition is_lower :: "u8 \<Rightarrow> bool" where "is_lower c \<longleftrightarrow> between 97 122 c"
definition is_alpha :: "u8 \<Rightarrow> bool" where "is_alpha c \<longleftrightarrow> is_upper c \<or> is_lower c"
definition is_hex :: "u8 \<Rightarrow> bool" where
  "is_hex c \<longleftrightarrow> is_digit c \<or> between 65 70 c \<or> between 97 102 c"
definition is_punct :: "u8 \<Rightarrow> bool" where
  "is_punct c \<longleftrightarrow> between 33 47 c \<or> between 58 64 c \<or> between 91 96 c \<or> between 123 126 c"
definition is_white :: "u8 \<Rightarrow> bool" where "is_white c \<longleftrightarrow> c \<in> {32, 9, 10, 12, 13}"

definition class_match :: "u8 \<Rightarrow> u8 \<Rightarrow> bool" where
  "class_match c cls =
     (if cls = 97 then is_alpha c else if cls = 65 then is_upper c
      else if cls = 99 then c < 0x20 \<or> c = 0x7F else if cls = 100 then is_digit c
      else if cls = 108 then is_lower c else if cls = 112 then is_punct c
      else if cls = 115 then is_white c else if cls = 117 then is_upper c
      else if cls = 119 then is_alpha c \<or> is_digit c else if cls = 120 then is_hex c
      else c = cls)"

text \<open>One element of a bracket class: its byte or its class (0 for none), and the rest.\<close>

definition bracket_elem :: "bytes \<Rightarrow> u8 \<times> u8 \<times> bytes" where
  "bracket_elem r = (case r of
       [] \<Rightarrow> (0, 0, [])
     | x # r' \<Rightarrow> if x = 37 \<and> r' \<noteq> [] then (0, hd r', tl r') else (x, 0, r'))"

lemma bracket_elem_rest: "bracket_elem r = (x, cls, r') \<Longrightarrow> r \<noteq> [] \<Longrightarrow> length r' < length r"
  by (auto simp: bracket_elem_def split: list.splits if_splits)

definition in_range :: "u8 \<Rightarrow> u8 \<Rightarrow> u8 \<Rightarrow> u8 \<Rightarrow> u8 \<Rightarrow> bool" where
  "in_range c lo lo_cls hi hi_cls =
     (if lo_cls = 0 \<and> hi_cls = 0 then lo \<le> c \<and> c \<le> hi
      else if lo_cls \<noteq> 0 \<and> hi_cls = 0 then class_match c lo_cls \<or> lo \<le> c \<and> c \<le> hi
      else if lo_cls = 0 \<and> hi_cls \<noteq> 0 then lo \<le> c \<and> c \<le> hi \<or> class_match c hi_cls
      else class_match c lo_cls \<or> class_match c hi_cls)"

text \<open>The loop of \<open>match_bracket\<close>.\<close>

function bracket_loop :: "u8 \<Rightarrow> bytes \<Rightarrow> bool \<Rightarrow> bool" where
  "bracket_loop c r matched =
     (if r = [] \<or> hd r = 93 then matched
      else case bracket_elem r of (lo, lo_cls, r1) \<Rightarrow>
        if length r1 \<ge> 2 \<and> r1 ! 0 = 45 \<and> r1 ! 1 \<noteq> 93 then
          case bracket_elem (tl r1) of (hi, hi_cls, r2) \<Rightarrow>
            bracket_loop c r2 (matched \<or> in_range c lo lo_cls hi hi_cls)
        else bracket_loop c r1 (matched \<or> (if lo_cls \<noteq> 0 then class_match c lo_cls else c = lo)))"
  by pat_completeness auto
termination
proof (relation "measure (\<lambda>(c, r, m). length r)")
  fix c r matched lo z lo_cls r1 hi u hi_cls r2
  assume "\<not> (r = [] \<or> hd r = 93)" "(lo, z) = bracket_elem r" "(lo_cls, r1) = z"
    "2 \<le> length r1 \<and> r1 ! 0 = 45 \<and> r1 ! 1 \<noteq> 93" "(hi, u) = bracket_elem (tl r1)" "(hi_cls, r2) = u"
  then have "bracket_elem r = (lo, lo_cls, r1)" "bracket_elem (tl r1) = (hi, hi_cls, r2)" "r \<noteq> []" "tl r1 \<noteq> []"
    by (auto simp flip: length_greater_0_conv)
  then show "((c, r2, matched \<or> in_range c lo lo_cls hi hi_cls), (c, r, matched)) \<in> measure (\<lambda>(c, r, m). length r)"
    using bracket_elem_rest [of r lo lo_cls r1] bracket_elem_rest [of "tl r1" hi hi_cls r2] by simp
next
  fix c r matched lo z lo_cls r1
  assume "\<not> (r = [] \<or> hd r = 93)" "(lo, z) = bracket_elem r" "(lo_cls, r1) = z"
  then show "((c, r1, matched \<or> (if lo_cls \<noteq> 0 then class_match c lo_cls else c = lo)), (c, r, matched))
      \<in> measure (\<lambda>(c, r, m). length r)"
    using bracket_elem_rest [of r lo lo_cls r1] by simp
qed simp

declare bracket_loop.simps [simp del]

definition match_bracket :: "bytes \<Rightarrow> nat \<Rightarrow> bytes \<Rightarrow> nat option" where
  "match_bracket subject si p =
     (if p = [] \<or> hd p \<noteq> 91 then None
      else let negate = (tl p \<noteq> [] \<and> hd (tl p) = 94) in
        if si \<ge> length subject then None
        else let matched = bracket_loop (subject ! si) (if negate then tl (tl p) else tl p) False in
          if (matched \<and> \<not> negate) \<or> (\<not> matched \<and> negate) then Some 1 else None)"

text \<open>The length of what follows the opening bracket, with the closing one; all when there is none.\<close>

fun skip_bracket :: "bytes \<Rightarrow> nat" where
  "skip_bracket [] = 0"
| "skip_bracket [x] = 1"
| "skip_bracket (x # y # r) =
     (if x = 93 then 1 else if x = 37 then 2 + skip_bracket r else 1 + skip_bracket (y # r))"

definition item_size :: "bytes \<Rightarrow> nat" where
  "item_size p = (case p of [] \<Rightarrow> 0 | x # r \<Rightarrow> if x = 37 then 2 else if x = 91 then 1 + skip_bracket r else 1)"

lemma item_size_pos [simp]: "p \<noteq> [] \<Longrightarrow> 0 < item_size p"
  by (simp add: item_size_def split: list.splits)

definition match_item :: "bytes \<Rightarrow> nat \<Rightarrow> bytes \<Rightarrow> nat option" where
  "match_item subject si p =
     (if p = [] then Some 0
      else let ch = hd p; one = (\<lambda>ok. if si < length subject \<and> ok (subject ! si) then Some 1 else None) in
        if ch = 46 then one (\<lambda>_. True)
        else if ch = 37 then
          (if tl p = [] then None
           else let cls = hd (tl p) in if cls = 37 then one (\<lambda>c. c = 37) else one (\<lambda>c. class_match c cls))
        else if ch = 91 then match_bracket subject si p
        else if ch = 94 \<or> ch = 36 then Some 0
        else one (\<lambda>c. c = ch))"

lemma match_item_cases:
  "match_item subject si p = Some n \<Longrightarrow> n = 0 \<or> n = 1 \<and> si < length subject"
  by (auto simp: match_item_def match_bracket_def Let_def split: if_splits)

section \<open>The backtracking matcher\<close>

text \<open>The quantifier after an item, 0 for none; \<open>after_item\<close> is what follows it.\<close>

definition quantifier :: "bytes \<Rightarrow> u8" where
  "quantifier p = (if item_size p < length p then p ! item_size p else 0)"

definition after_item :: "bytes \<Rightarrow> bytes" where
  "after_item p = drop (item_size p + 1) p"

lemma after_item_shorter: "p \<noteq> [] \<Longrightarrow> length (after_item p) < length p"
  by (simp add: after_item_def)

text \<open>\<open>while let Some(n) = match_item(..) { if n == 0 { break } end += n }\<close>: the end of the run.\<close>

function item_run :: "bytes \<Rightarrow> nat \<Rightarrow> bytes \<Rightarrow> nat" where
  "item_run subject si p =
     (case match_item subject si p of
        Some n \<Rightarrow> if n = 0 then si else item_run subject (si + n) p
      | None \<Rightarrow> si)"
  by pat_completeness auto
termination
  by (relation "measure (\<lambda>(subject, si, p). length subject - si)") (auto dest: match_item_cases)

declare item_run.simps [simp del]

text \<open>
  \<open>match_rest subject i si p\<close> is the loop of \<open>match_here\<close> with its start \<open>i\<close>; \<open>greedy\<close> and \<open>lazy\<close> are
  the loops for \<open>*\<close>, \<open>+\<close> and for \<open>-\<close>.
\<close>

function match_rest :: "bytes \<Rightarrow> nat \<Rightarrow> nat \<Rightarrow> bytes \<Rightarrow> nat option"
and greedy :: "bytes \<Rightarrow> nat \<Rightarrow> nat \<Rightarrow> bytes \<Rightarrow> nat \<Rightarrow> nat \<Rightarrow> nat option"
and lazy :: "bytes \<Rightarrow> nat \<Rightarrow> nat \<Rightarrow> bytes \<Rightarrow> nat option" where
  "match_rest subject i si p =
     (if p = [] then Some (si - i)
      else if hd p = 36 then (if si = length subject then Some (si - i) else None)
      else if quantifier p = 63 then
        (case (case match_item subject si p of
             Some n \<Rightarrow> map_option (\<lambda>len. si + n - i + len) (match_rest subject (si + n) (si + n) (after_item p))
           | None \<Rightarrow> None) of
           Some len \<Rightarrow> Some len
         | None \<Rightarrow> map_option (\<lambda>len. si - i + len) (match_rest subject si si (after_item p)))
      else if quantifier p = 42 \<or> quantifier p = 43 then
        greedy subject i si p (if quantifier p = 42 then 0 else 1) (item_run subject si p - si)
      else if quantifier p = 45 then lazy subject i si p
      else (case match_item subject si p of
          Some n \<Rightarrow> match_rest subject i (si + n) (drop (item_size p) p)
        | None \<Rightarrow> None))"
| "greedy subject i si p least k =
     (if p = [] then None
      else case (if k \<ge> least then map_option (\<lambda>len. si + k - i + len)
             (match_rest subject (si + k) (si + k) (after_item p)) else None) of
          Some len \<Rightarrow> Some len
        | None \<Rightarrow> if k = 0 then None else greedy subject i si p least (k - 1))"
| "lazy subject i si p =
     (if p = [] then None
      else case map_option (\<lambda>len. si - i + len) (match_rest subject si si (after_item p)) of
          Some len \<Rightarrow> Some len
        | None \<Rightarrow> (case match_item subject si p of
              Some n \<Rightarrow> if n > 0 then lazy subject i (si + n) p else None
            | None \<Rightarrow> None))"
  by pat_completeness auto
termination
  by (relation "measures [\<lambda>x. case x of Inl (s, i, si, p) \<Rightarrow> length p | Inr (Inl (s, i, si, p, m, k)) \<Rightarrow> length p
        | Inr (Inr (s, i, si, p)) \<Rightarrow> length p,
      \<lambda>x. case x of Inl (s, i, si, p) \<Rightarrow> 1 | Inr (Inl (s, i, si, p, m, k)) \<Rightarrow> 0 | Inr (Inr (s, i, si, p)) \<Rightarrow> 0,
      \<lambda>x. case x of Inl (s, i, si, p) \<Rightarrow> 0 | Inr (Inl (s, i, si, p, m, k)) \<Rightarrow> k
        | Inr (Inr (s, i, si, p)) \<Rightarrow> length s - si]")
    (auto simp: after_item_shorter dest: match_item_cases)

declare match_rest.simps [simp del] greedy.simps [simp del] lazy.simps [simp del]

definition match_here :: "bytes \<Rightarrow> nat \<Rightarrow> bytes \<Rightarrow> nat option" where
  "match_here subject i p = match_rest subject i i p"

section \<open>Searching\<close>

text \<open>
  Indices are 1-based and inclusive. In \<open>find_plain\<close> the subtraction of the lengths wraps around for
  a pattern longer than the subject, and the first slice is then out of range.
\<close>

definition find_plain :: "bytes \<Rightarrow> bytes \<Rightarrow> nat \<Rightarrow> (nat \<times> nat) option option" where
  "find_plain subject pattern start =
     (if pattern = [] then ret (Some (start + 1, start))
      else if start > length subject then ret None
      else if length pattern > length subject then panic
      else ret (map_option (\<lambda>i. (i + 1, i + length pattern))
        (find (\<lambda>i. seg subject i (i + length pattern) = pattern)
          [start..<length subject - length pattern + 1])))"

function find_from :: "bytes \<Rightarrow> bytes \<Rightarrow> bool \<Rightarrow> nat \<Rightarrow> (nat \<times> nat) option" where
  "find_from subject p anchored i =
     (case match_here subject i p of
        Some len \<Rightarrow> Some (i + 1, i + len)
      | None \<Rightarrow> if anchored \<or> i \<ge> length subject then None else find_from subject p anchored (i + 1))"
  by pat_completeness auto
termination
  by (relation "measure (\<lambda>(subject, p, anchored, i). length subject - i)") auto

declare find_from.simps [simp del]

definition string_find :: "bytes \<Rightarrow> bytes \<Rightarrow> nat \<Rightarrow> bool \<Rightarrow> (nat \<times> nat) option option" where
  "string_find subject pattern start plain =
     (if plain then find_plain subject pattern start
      else if pattern = [] then ret (Some (start + 1, start))
      else let anchored = (hd pattern = 94) in
        ret (find_from subject (if anchored then tl pattern else pattern) anchored start))"

section \<open>Captures\<close>

definition GM_CAPS :: nat where "GM_CAPS = 8"

record gmatch_match =
  m_start :: nat
  m_end :: nat
  m_caps :: "(nat \<times> nat) list"

text \<open>The distance to the parenthesis that closes a group.\<close>

fun find_close_paren :: "bytes \<Rightarrow> nat option" where
  "find_close_paren [] = None"
| "find_close_paren [x] = (if x = 41 then Some 0 else None)"
| "find_close_paren (x # y # r) =
     (if x = 37 then map_option (\<lambda>n. n + 2) (find_close_paren r)
      else if x = 41 then Some 0 else map_option Suc (find_close_paren (y # r)))"

text \<open>
  \<open>gm_match\<close>: the captures are an array that every attempt appends to, whether it succeeds or not,
  so they are part of the result; \<open>gm_greedy\<close> and \<open>gm_lazy\<close> are the loops.
\<close>

type_synonym captures = "(nat \<times> nat) list"

definition add_capture :: "captures \<Rightarrow> nat \<Rightarrow> nat \<Rightarrow> captures" where
  "add_capture caps a b = (if length caps < GM_CAPS then caps @ [(a, b)] else caps)"

function gm_match :: "bytes \<Rightarrow> nat \<Rightarrow> nat \<Rightarrow> bytes \<Rightarrow> captures \<Rightarrow> nat option \<times> captures"
and gm_greedy :: "bytes \<Rightarrow> nat \<Rightarrow> nat \<Rightarrow> bytes \<Rightarrow> nat \<Rightarrow> nat \<Rightarrow> captures \<Rightarrow> nat option \<times> captures"
and gm_lazy :: "bytes \<Rightarrow> nat \<Rightarrow> nat \<Rightarrow> bytes \<Rightarrow> captures \<Rightarrow> nat option \<times> captures" where
  "gm_match subject start si p caps =
     (if p = [] then (Some (si - start), caps)
      else if hd p = 36 then (if si = length subject then (Some (si - start), caps) else (None, caps))
      else if hd p = 40 then
        (case find_close_paren (tl p) of
           None \<Rightarrow> (None, caps)
         | Some k \<Rightarrow> (case match_here subject si (take k (tl p)) of
             None \<Rightarrow> (None, caps)
           | Some len \<Rightarrow>
               gm_match subject start (si + len) (drop (k + 1) (tl p)) (add_capture caps si (si + len))))
      else if quantifier p = 63 then
        (case (case match_item subject si p of
             Some n \<Rightarrow> (case gm_match subject (si + n) (si + n) (after_item p) caps of
                 (r, caps) \<Rightarrow> (map_option (\<lambda>len. si + n - start + len) r, caps))
           | None \<Rightarrow> (None, caps)) of
           (Some len, caps) \<Rightarrow> (Some len, caps)
         | (None, caps) \<Rightarrow> (case gm_match subject si si (after_item p) caps of
               (r, caps) \<Rightarrow> (map_option (\<lambda>len. si - start + len) r, caps)))
      else if quantifier p = 42 \<or> quantifier p = 43 then
        gm_greedy subject start si p (if quantifier p = 42 then 0 else 1) (item_run subject si p - si) caps
      else if quantifier p = 45 then gm_lazy subject start si p caps
      else (case match_item subject si p of
          Some n \<Rightarrow> gm_match subject start (si + n) (drop (item_size p) p) caps
        | None \<Rightarrow> (None, caps)))"
| "gm_greedy subject start si p least k caps =
     (if p = [] then (None, caps)
      else case (if k \<ge> least then
             (case gm_match subject (si + k) (si + k) (after_item p) caps of
                (r, caps) \<Rightarrow> (map_option (\<lambda>len. si + k - start + len) r, caps))
           else (None, caps)) of
          (Some len, caps) \<Rightarrow> (Some len, caps)
        | (None, caps) \<Rightarrow>
            if k = 0 then (None, caps) else gm_greedy subject start si p least (k - 1) caps)"
| "gm_lazy subject start si p caps =
     (if p = [] then (None, caps)
      else case gm_match subject si si (after_item p) caps of
          (Some len, caps) \<Rightarrow> (Some (si - start + len), caps)
        | (None, caps) \<Rightarrow> (case match_item subject si p of
              Some n \<Rightarrow> if n > 0 then gm_lazy subject start (si + n) p caps else (None, caps)
            | None \<Rightarrow> (None, caps)))"
  by pat_completeness auto
termination
  by (relation "measures [\<lambda>x. case x of Inl (s, i, si, p, c) \<Rightarrow> length p | Inr (Inl (s, i, si, p, m, k, c)) \<Rightarrow> length p
        | Inr (Inr (s, i, si, p, c)) \<Rightarrow> length p,
      \<lambda>x. case x of Inl (s, i, si, p, c) \<Rightarrow> 1 | Inr (Inl (s, i, si, p, m, k, c)) \<Rightarrow> 0 | Inr (Inr (s, i, si, p, c)) \<Rightarrow> 0,
      \<lambda>x. case x of Inl (s, i, si, p, c) \<Rightarrow> 0 | Inr (Inl (s, i, si, p, m, k, c)) \<Rightarrow> k
        | Inr (Inr (s, i, si, p, c)) \<Rightarrow> length s - si]")
    (auto simp: after_item_shorter dest: match_item_cases)

declare gm_match.simps [simp del] gm_greedy.simps [simp del] gm_lazy.simps [simp del]

function gm_from :: "bytes \<Rightarrow> bytes \<Rightarrow> bool \<Rightarrow> nat \<Rightarrow> gmatch_match option" where
  "gm_from subject p anchored i =
     (case gm_match subject i i p [] of
        (Some len, caps) \<Rightarrow> Some \<lparr>m_start = i, m_end = i + len, m_caps = caps\<rparr>
      | (None, _) \<Rightarrow> if anchored \<or> i \<ge> length subject then None else gm_from subject p anchored (i + 1))"
  by pat_completeness auto
termination
  by (relation "measure (\<lambda>(subject, p, anchored, i). length subject - i)") auto

declare gm_from.simps [simp del]

definition gm_find :: "bytes \<Rightarrow> bytes \<Rightarrow> nat \<Rightarrow> gmatch_match option" where
  "gm_find subject pattern start =
     (if pattern = [] then Some \<lparr>m_start = start, m_end = start, m_caps = []\<rparr>
      else let anchored = (hd pattern = 94) in
        gm_from subject (if anchored then tl pattern else pattern) anchored start)"

text \<open>Whether every parenthesis is closed; \<open>depth\<close> is the number of open ones.\<close>

fun parens_closed :: "bytes \<Rightarrow> nat \<Rightarrow> bool" where
  "parens_closed [] depth \<longleftrightarrow> depth = 0"
| "parens_closed [x] depth \<longleftrightarrow> (if x = 40 then False else if x = 41 then depth = 1 else depth = 0)"
| "parens_closed (x # y # r) depth \<longleftrightarrow>
     (if x = 37 then parens_closed r depth
      else if x = 40 then parens_closed (y # r) (depth + 1)
      else if x = 41 then depth > 0 \<and> parens_closed (y # r) (depth - 1)
      else parens_closed (y # r) depth)"

definition valid_gmatch_pattern :: "bytes \<Rightarrow> bool" where
  "valid_gmatch_pattern pattern \<longleftrightarrow> parens_closed pattern 0"

text \<open>\<open>gmatch_advance\<close>: the values it pushes and how many; none when the matches are exhausted.\<close>

primrec push_captures :: "(nat \<times> nat) list \<Rightarrow> bytes \<Rightarrow> nat \<Rightarrow> (lua, nat) step" where
  "push_captures [] subject n = ok n"
| "push_captures (c # cs) subject n =
     (case slice subject (fst c) (snd c) of
        None \<Rightarrow> crash
      | Some bs \<Rightarrow> andthen (intern bs) (\<lambda>v. andnext (push_val (VStr v)) (push_captures cs subject (n + 1))))"

definition set_gmatch :: "nat \<Rightarrow> (gmatch_state \<Rightarrow> gmatch_state) \<Rightarrow> (lua, unit) step" where
  "set_gmatch gid f = sets (\<lambda>s. s\<lparr>gmatches := (gmatches s)(gid := f (gmatches s gid))\<rparr>)"

definition gmatch_advance :: "nat \<Rightarrow> (lua, nat) step" where
  "gmatch_advance gid = reads (\<lambda>s.
     if gid \<ge> MAX_GMATCH then crash
     else let st = gmatches s gid; stop = andnext (set_gmatch gid (\<lambda>g. g\<lparr>gm_done := True\<rparr>)) (ok 0) in
       if gm_done st then ok 0
       else (case (str_bytes s (gm_subject st), str_bytes s (gm_pattern st)) of
           (Some subject, Some pattern) \<Rightarrow>
             (case gm_find subject pattern (gm_pos st) of
                None \<Rightarrow> stop
              | Some m \<Rightarrow>
                  let a = m_start m; b = m_end m in
                  andnext (set_gmatch gid (\<lambda>g. if b > a then g\<lparr>gm_pos := b\<rparr>
                    else if a + 1 > length subject then g\<lparr>gm_done := True\<rparr> else g\<lparr>gm_pos := a + 1\<rparr>))
                  (push_captures (if m_caps m = [] then [(a, b)] else m_caps m) subject 0))
         | _ \<Rightarrow> crash))"

section \<open>The reference\<close>

text \<open>
  The ends of all matches of a pattern from a position, in the order of preference. The runs of a
  quantified item are given by the longest prefix of bytes that it matches.
\<close>

definition item_fits :: "bytes \<Rightarrow> u8 \<Rightarrow> bool" where
  "item_fits p c \<longleftrightarrow> match_item [c] 0 p = Some 1"

definition run_length :: "bytes \<Rightarrow> nat \<Rightarrow> bytes \<Rightarrow> nat" where
  "run_length subject i p = length (takeWhile (item_fits p) (drop i subject))"

definition item_ends :: "bytes \<Rightarrow> nat \<Rightarrow> bytes \<Rightarrow> nat list" where
  "item_ends subject i p =
     (if hd p = 94 then [i] else if run_length subject i p > 0 then [i + 1] else [])"

function match_ends :: "bytes \<Rightarrow> bytes \<Rightarrow> nat \<Rightarrow> nat list" where
  "match_ends subject p i =
     (if p = [] then [i]
      else if hd p = 36 then (if i = length subject then [i] else [])
      else let q = quantifier p; rest = (\<lambda>j. match_ends subject (after_item p) j); n = run_length subject i p in
        if q = 63 then concat (map rest (item_ends subject i p @ [i]))
        else if q = 42 then concat (map rest (rev [i..<i + n + 1]))
        else if q = 43 then concat (map rest (rev [i + 1..<i + n + 1]))
        else if q = 45 then concat (map rest [i..<i + n + 1])
        else concat (map (\<lambda>j. match_ends subject (drop (item_size p) p) j) (item_ends subject i p)))"
  by pat_completeness auto
termination
  by (relation "measure (\<lambda>(subject, p, i). length p)") (auto simp: after_item_shorter)

declare match_ends.simps [simp del]

lemma match_item_fits:
  assumes "p \<noteq> []" and "hd p \<noteq> 36"
  shows "match_item subject i p = (if hd p = 94 then Some 0
    else if i < length subject \<and> item_fits p (subject ! i) then Some 1 else None)"
  using assms by (auto simp: match_item_def item_fits_def match_bracket_def Let_def)

lemma no_fit: "p \<noteq> [] \<Longrightarrow> hd p = 94 \<Longrightarrow> \<not> item_fits p c"
  by (simp add: item_fits_def match_item_def)

lemma run_length_step:
  assumes "p \<noteq> []" and "hd p \<noteq> 36"
  shows "run_length subject i p = (case match_item subject i p of
    Some n \<Rightarrow> if n = 0 then 0 else 1 + run_length subject (i + n) p | None \<Rightarrow> 0)"
proof (cases "i < length subject")
  case True
  then have "drop i subject = subject ! i # drop (Suc i) subject"
    by (simp add: Cons_nth_drop_Suc)
  then show ?thesis
    using True assms no_fit [OF assms(1)] by (simp add: run_length_def match_item_fits)
qed (use assms in \<open>simp add: run_length_def match_item_fits\<close>)

lemma item_run_length:
  assumes "p \<noteq> []" and "hd p \<noteq> 36"
  shows "item_run subject i p = i + run_length subject i p"
  using assms
proof (induction subject i p rule: item_run.induct)
  case (1 subject i p)
  show ?case
    using 1 run_length_step [OF 1(2,3), of subject i]
    by (subst item_run.simps) (auto split: option.splits dest: match_item_cases)
qed

definition preferred :: "'a list \<Rightarrow> 'a option" where
  "preferred xs = (case xs of [] \<Rightarrow> None | x # _ \<Rightarrow> Some x)"

lemma preferred_simps [simp]: "preferred [] = None" "preferred (x # xs) = Some x"
  by (simp_all add: preferred_def)

lemma preferred_append [simp]: "preferred (xs @ ys) = (case preferred xs of None \<Rightarrow> preferred ys | Some x \<Rightarrow> Some x)"
  by (simp add: preferred_def split: list.splits)

lemma item_ends_eq:
  assumes "p \<noteq> []" and "hd p \<noteq> 36"
  shows "item_ends subject i p = (case match_item subject i p of Some n \<Rightarrow> [i + n] | None \<Rightarrow> [])"
  using run_length_step [OF assms, of subject i] match_item_fits [OF assms, of subject i]
  by (auto simp: item_ends_def split: if_splits)

lemma match_ends_bounds: "e \<in> set (match_ends subject p i) \<Longrightarrow> i \<le> e"
proof (induction subject p i rule: match_ends.induct)
  case (1 subject p i)
  show ?case
    using "1.prems"
    by (subst (asm) match_ends.simps)
      (fastforce simp: Let_def item_ends_def split: if_splits dest: "1.IH")
qed

text \<open>The ends of the matches of what follows an item, from each of the positions of a list.\<close>

abbreviation rest_ends :: "bytes \<Rightarrow> bytes \<Rightarrow> nat list \<Rightarrow> nat list" where
  "rest_ends subject p js \<equiv> concat (map (match_ends subject (after_item p)) js)"

lemma first_rest_bounds: "preferred (match_ends subject p i) = Some e \<Longrightarrow> i \<le> e"
  by (rule match_ends_bounds [of _ subject p]) (auto simp: preferred_def split: list.splits)

lemma first_rest_shift:
  "i \<le> si \<Longrightarrow> map_option (\<lambda>e. si + (e - si) - i) (preferred (match_ends subject p si)) =
    map_option (\<lambda>e. e - i) (preferred (match_ends subject p si))"
  by (cases "preferred (match_ends subject p si)") (auto dest: first_rest_bounds)

lemma matcher_first:
  "i \<le> si \<Longrightarrow> match_rest subject i si p = map_option (\<lambda>e. e - i) (preferred (match_ends subject p si))"
  "i \<le> si \<Longrightarrow> p \<noteq> [] \<Longrightarrow> greedy subject i si p least k =
     map_option (\<lambda>e. e - i) (preferred (rest_ends subject p (rev [si + least..<si + k + 1])))"
  "i \<le> si \<Longrightarrow> p \<noteq> [] \<Longrightarrow> hd p \<noteq> 36 \<Longrightarrow> lazy subject i si p =
     map_option (\<lambda>e. e - i) (preferred (rest_ends subject p [si..<si + run_length subject si p + 1]))"
proof (induction subject i si p and subject i si p least k and subject i si p
    rule: match_rest_greedy_lazy.induct)
  case (1 subject i si p)
  show ?case
  proof (cases "p = [] \<or> hd p = 36")
    case True
    then show ?thesis by (subst match_rest.simps, subst match_ends.simps) auto
  next
    case False
    then have p: "p \<noteq> []" "hd p \<noteq> 36" by simp_all
    have fits: "item_ends subject si p = (case match_item subject si p of Some n \<Rightarrow> [si + n] | None \<Rightarrow> [])"
      using p by (rule item_ends_eq)
    have run: "item_run subject si p - si = run_length subject si p"
      using p by (simp add: item_run_length)
    consider "quantifier p = 63" | "quantifier p = 42 \<or> quantifier p = 43" | "quantifier p = 45"
      | "quantifier p \<notin> {63, 42, 43, 45}" by blast
    then show ?thesis
    proof cases
      case 1
      have item: "match_rest subject (si + n) (si + n) (after_item p) =
          map_option (\<lambda>e. e - (si + n)) (preferred (match_ends subject (after_item p) (si + n)))"
        if "match_item subject si p = Some n" for n
        using that "1.IH"(1) p 1 by auto
      let ?with = "case match_item subject si p of
           Some n \<Rightarrow> map_option (\<lambda>len. si + n - i + len) (match_rest subject (si + n) (si + n) (after_item p))
         | None \<Rightarrow> None"
      have skip: "match_rest subject si si (after_item p) =
          map_option (\<lambda>e. e - si) (preferred (match_ends subject (after_item p) si))" if "?with = None"
        using that "1.IH"(2) p 1 by auto
      show ?thesis
        using p 1 item skip fits "1.prems"
        by (subst match_rest.simps, subst match_ends.simps)
          (auto simp: Let_def option.map_comp comp_def first_rest_shift split: option.splits dest!: first_rest_bounds)
    next
      case 2
      then show ?thesis
        using p "1.IH"(3) "1.prems" run
        by (subst match_rest.simps, subst match_ends.simps) (auto simp: Let_def simp del: upt.simps)
    next
      case 3
      then show ?thesis
        using p "1.IH"(4) "1.prems"
        by (subst match_rest.simps, subst match_ends.simps) (auto simp: Let_def simp del: upt.simps)
    next
      case 4
      then show ?thesis
        using p "1.IH"(5) "1.prems" fits
        by (subst match_rest.simps, subst match_ends.simps) (auto simp: Let_def split: option.splits)
    qed
  qed
next
  case (2 subject i si p least k)
  have here: "k \<ge> least \<Longrightarrow> match_rest subject (si + k) (si + k) (after_item p) =
      map_option (\<lambda>e. e - (si + k)) (preferred (match_ends subject (after_item p) (si + k)))"
    using 2 by simp
  show ?case
  proof (cases "k \<ge> least")
    case True
    then have upt: "rev [si + least..<si + k + 1] = (si + k) # rev [si + least..<si + k]"
      by simp
    show ?thesis
    proof (cases "preferred (match_ends subject (after_item p) (si + k))")
      case None
      then have "greedy subject i si p least k = (if k = 0 then None else greedy subject i si p least (k - 1))"
        using True here "2.prems"(2) by (subst greedy.simps) simp
      then show ?thesis
        using None True here "2.IH"(2) "2.prems" unfolding upt by (auto simp: upt_rec)
    next
      case (Some e)
      then show ?thesis
        using True here "2.prems" first_rest_bounds [OF Some] unfolding upt by (subst greedy.simps) simp
    qed
  next
    case False
    then show ?thesis
      using "2.prems" "2.IH"(2) by (subst greedy.simps) auto
  qed
next
  case (3 subject i si p)
  have here: "match_rest subject si si (after_item p) =
      map_option (\<lambda>e. e - si) (preferred (match_ends subject (after_item p) si))"
    using 3 by simp
  have run: "run_length subject si p = (case match_item subject si p of
      Some n \<Rightarrow> if n = 0 then 0 else 1 + run_length subject (si + n) p | None \<Rightarrow> 0)"
    using "3.prems" by (intro run_length_step)
  have upt: "[si..<si + n + 1] = si # [Suc si..<si + n + 1]" for n
    by (simp add: upt_rec)
  show ?case
  proof (cases "preferred (match_ends subject (after_item p) si)")
    case None
    show ?thesis
    proof (cases "match_item subject si p")
      case (Some n)
      then show ?thesis
        using None here "3.IH"(2) "3.prems" run match_item_cases [OF Some] unfolding upt
        by (subst lazy.simps) (auto simp del: upt_Suc)
    qed (use None here "3.prems" run in \<open>subst lazy.simps, simp add: upt\<close>)
  next
    case (Some e)
    then show ?thesis
      using here "3.prems" first_rest_bounds [OF Some] unfolding upt by (subst lazy.simps) simp
  qed
qed

section \<open>What the searches find\<close>

text \<open>All matches of a pattern in a subject from a start on, the preferred one first, 1-based.\<close>

definition all_matches :: "bytes \<Rightarrow> bytes \<Rightarrow> nat \<Rightarrow> (nat \<times> nat) list" where
  "all_matches subject pattern start =
     (if pattern \<noteq> [] \<and> hd pattern = 94 then map (Pair (start + 1)) (match_ends subject (tl pattern) start)
      else concat (map (\<lambda>i. map (Pair (i + 1)) (match_ends subject pattern i))
        (start # [start + 1..<length subject + 1])))"

lemma preferred_map [simp]: "preferred (map f xs) = map_option f (preferred xs)"
  by (cases xs) simp_all

lemma match_here_first: "match_here subject i p = map_option (\<lambda>e. e - i) (preferred (match_ends subject p i))"
  by (simp add: match_here_def matcher_first(1))

lemma found_first:
  "map_option (\<lambda>len. (i + 1, i + len)) (match_here subject i p) =
    map_option (Pair (i + 1)) (preferred (match_ends subject p i))"
  by (cases "preferred (match_ends subject p i)") (auto simp: match_here_first dest: first_rest_bounds)

lemma find_from_anchored: "find_from subject p True i = preferred (map (Pair (i + 1)) (match_ends subject p i))"
  using found_first [of i subject p] by (subst find_from.simps) (auto split: option.splits)

lemma find_from_first:
  "find_from subject p False i = preferred (concat (map (\<lambda>i. map (Pair (i + 1)) (match_ends subject p i))
     (i # [i + 1..<length subject + 1])))"
proof (induction subject p False i rule: find_from.induct)
  case (1 subject p i)
  have upt: "i < length subject \<Longrightarrow> [i + 1..<length subject + 1] = (i + 1) # [i + 1 + 1..<length subject + 1]"
    by (simp add: upt_rec)
  show ?case
  proof (cases "match_here subject i p")
    case None
    then have "preferred (match_ends subject p i) = None"
      by (simp add: match_here_first)
    then show ?thesis
      using None 1 upt by (subst find_from.simps) (auto simp del: upt_Suc)
  next
    case (Some len)
    then show ?thesis
      using found_first [of i subject p] by (subst find_from.simps) (auto split: option.splits)
  qed
qed

text \<open>
  C1. The pattern search of \<open>string.find\<close> is the reference search: it yields the preferred match at
  the first position that has one, and \<open>nil\<close> exactly when there is no match at all. So the loops
  with their backtracking over one run lose no match and change no preference.
\<close>

theorem string_find_reference:
  "string_find subject pattern start False = Some (preferred (all_matches subject pattern start))"
proof (cases "pattern = []")
  case True
  then show ?thesis
    by (simp add: string_find_def all_matches_def match_ends.simps del: upt_Suc)
next
  case False
  then show ?thesis
    by (simp add: string_find_def all_matches_def find_from_anchored find_from_first Let_def del: upt_Suc)
qed

text \<open>The positions from a start on at which the pattern stands in the subject.\<close>

definition occurrences :: "bytes \<Rightarrow> bytes \<Rightarrow> nat \<Rightarrow> nat set" where
  "occurrences subject pattern start = {i. start \<le> i \<and> take (length pattern) (drop i subject) = pattern}"

lemma find_upt_from_Some: "find P [m..<n] = Some i \<longleftrightarrow> m \<le> i \<and> i < n \<and> P i \<and> (\<forall>j. m \<le> j \<longrightarrow> j < i \<longrightarrow> \<not> P j)"
proof -
  have "find P [m..<n] = Some i \<longleftrightarrow>
      (\<exists>k<n - m. P (m + k) \<and> i = m + k \<and> (\<forall>j<k. \<not> P (m + j)))"
    unfolding find_Some_iff by (intro ex_cong1 conj_cong refl) (auto simp: less_diff_conv)
  also have "\<dots> \<longleftrightarrow> m \<le> i \<and> i < n \<and> P i \<and> (\<forall>j. m \<le> j \<longrightarrow> j < i \<longrightarrow> \<not> P j)"
    by (auto simp: le_iff_add)
  finally show ?thesis .
qed

text \<open>
  Plain search yields the leftmost occurrence from the start on, or \<open>nil\<close> when there is none;
  but for a pattern longer than the subject, with a start that the caller lets through, it reads out
  of range: \<open>string.find("a", "abc", 1, true)\<close> stops the interpreter.
\<close>

theorem find_plain_leftmost:
  "find_plain subject pattern start =
     (if pattern = [] then Some (Some (start + 1, start))
      else if start > length subject then Some None
      else if length pattern > length subject then None
      else let occ = occurrences subject pattern start in
        Some (if occ = {} then None else Some (Inf occ + 1, Inf occ + length pattern)))"
proof (cases "pattern = [] \<or> start > length subject \<or> length pattern > length subject")
  case True
  then show ?thesis by (auto simp: find_plain_def)
next
  case False
  let ?n = "length subject - length pattern + 1" and ?P = "\<lambda>i. seg subject i (i + length pattern) = pattern"
  have occ: "i \<in> occurrences subject pattern start \<longleftrightarrow> start \<le> i \<and> i < ?n \<and> ?P i" for i
  proof -
    have "i < ?n" if "take (length pattern) (drop i subject) = pattern"
    proof -
      have "length pattern \<le> length subject - i"
        using arg_cong [OF that, of length] by (simp add: min_def split: if_splits)
      moreover have "0 < length pattern"
        using False by simp
      ultimately show ?thesis by linarith
    qed
    then show ?thesis
      by (auto simp: occurrences_def seg_def)
  qed
  have "find ?P [start..<?n] = (if occurrences subject pattern start = {} then None else Some (Inf (occurrences subject pattern start)))"
  proof (cases "occurrences subject pattern start = {}")
    case True
    then show ?thesis
      using occ by (auto simp: find_None_iff)
  next
    case ne: False
    have "Inf (occurrences subject pattern start) \<in> occurrences subject pattern start"
      using ne by (rule Inf_nat_def1)
    moreover have "j \<notin> occurrences subject pattern start" if "j < Inf (occurrences subject pattern start)" for j
      using that cInf_lower [of j "occurrences subject pattern start"] by fastforce
    ultimately have "find ?P [start..<?n] = Some (Inf (occurrences subject pattern start))"
      using occ unfolding find_upt_from_Some by auto
    then show ?thesis
      using ne by simp
  qed
  then show ?thesis
    using False by (simp add: find_plain_def Let_def del: upt_Suc)
qed

section \<open>Iterating over matches\<close>

lemma no_group:
  assumes "40 \<notin> set p"
  shows "40 \<notin> set (after_item p)" and "40 \<notin> set (drop n p)" and "p \<noteq> [] \<Longrightarrow> hd p \<noteq> 40"
  using assms set_drop_subset [of _ p] by (auto simp: after_item_def dest: hd_in_set)

lemma gm_without_groups:
  "40 \<notin> set p \<Longrightarrow> gm_match subject i si p caps = (match_rest subject i si p, caps)"
  "40 \<notin> set p \<Longrightarrow> gm_greedy subject i si p least k caps = (greedy subject i si p least k, caps)"
  "40 \<notin> set p \<Longrightarrow> gm_lazy subject i si p caps = (lazy subject i si p, caps)"
proof (induction subject i si p and subject i si p least k and subject i si p
    rule: match_rest_greedy_lazy.induct)
  case (1 subject i si p)
  then show ?case
    using no_group [OF "1.prems"]
    by (subst gm_match.simps, subst match_rest.simps) (auto split: option.splits)
next
  case (2 subject i si p least k)
  then show ?case
    using no_group [OF "2.prems"]
    by (subst gm_greedy.simps, subst greedy.simps) (auto split: option.splits)
next
  case (3 subject i si p)
  then show ?case
    using no_group [OF "3.prems"]
    by (subst gm_lazy.simps, subst lazy.simps) (auto split: option.splits)
qed

lemma gm_from_without_groups:
  "40 \<notin> set p \<Longrightarrow> map_option (\<lambda>m. (m_start m + 1, m_end m)) (gm_from subject p anchored i) =
    find_from subject p anchored i \<and> (\<forall>m. gm_from subject p anchored i = Some m \<longrightarrow> m_caps m = [])"
proof (induction subject p anchored i rule: find_from.induct)
  case (1 subject p anchored i)
  then show ?case
    by (subst (1 2) gm_from.simps, subst find_from.simps)
      (auto simp: gm_without_groups match_here_def split: option.splits)
qed

text \<open>
  C2. For a pattern without groups \<open>string.gmatch\<close> finds the matches of \<open>string.find\<close>: the two copies of
  the matcher in the source agree.
\<close>

theorem gm_find_is_string_find:
  assumes "40 \<notin> set pattern"
  shows "Some (map_option (\<lambda>m. (m_start m + 1, m_end m)) (gm_find subject pattern start)) =
    string_find subject pattern start False"
proof -
  have "40 \<notin> set (tl pattern)"
    using assms by (cases pattern) auto
  then show ?thesis
    using gm_from_without_groups assms by (auto simp: gm_find_def string_find_def Let_def)
qed

lemma gm_find_is_string_find_witness:
  "Some (map_option (\<lambda>m. (m_start m + 1, m_end m)) (gm_find (lit ''key = 42'') (lit ''%d+'') 0)) =
    string_find (lit ''key = 42'') (lit ''%d+'') 0 False"
  by (rule gm_find_is_string_find) (simp add: lit_def)

text \<open>
  With groups, the captures of attempts that were given up stay: \<open>a*(.)x\<close> on \<open>aax\<close> has one group, and
  the match reports two captures, the first one of the attempt that failed.
\<close>

lemma stale_captures:
  "gm_find (lit ''aax'') (lit ''a*(.)x'') 0 = Some \<lparr>m_start = 0, m_end = 3, m_caps = [(2, 3), (1, 2)]\<rparr>"
  by code_simp

end
