(* ===== verification/LuaVm.thy ===== *)
theory LuaVm
  imports LuaCompile LuaValue LuaPattern
begin

text \<open>
  The virtual machine of \<^verbatim>\<open>lua/src/vm.rs\<close> and the call of values of \<^verbatim>\<open>lua/src/eval.rs\<close>: one
  definition for each instruction or group of instructions, protected calls with their unwinding,
  coroutines, and the entry points that run a script, a chunk or a line. The nested runs go through
  the parameter \<open>rec\<close> over the datatype \<open>vjob\<close>, and \<open>exec\<close> ties the knot with fuel. The host and the
  builtin functions other than \<open>pcall\<close> and \<open>xpcall\<close> are parameters, the record \<open>host\<close>.
\<close>

section \<open>The host\<close>

text \<open>The runs an operation asks for: the run loop, or a call with its arguments on the stack.\<close>

datatype vjob = JRun nat nat | JCall lval nat

type_synonym vcalls = "vjob \<Rightarrow> exec_result vm"

text \<open>The answers of the host depend on the number of calls made before.\<close>

record host =
  h_setup :: "nat \<Rightarrow> fn_ptr \<Rightarrow> fn_ptr option"
  h_values :: "nat \<Rightarrow> fn_ptr \<Rightarrow> dhcp_values"
  h_info :: "nat \<Rightarrow> fn_ptr \<Rightarrow> bytes"
  h_read :: "nat \<Rightarrow> fn_ptr \<Rightarrow> u8 \<Rightarrow> bytes option"
  h_load :: "nat \<Rightarrow> fn_ptr \<Rightarrow> bytes \<Rightarrow> bytes option"
  h_native :: "vcalls \<Rightarrow> u8 \<Rightarrow> lval list \<Rightarrow> exec_result vm"

definition host_called :: "unit vm" where
  "host_called = vsets (\<lambda>s. s\<lparr>host_calls := host_calls s + 1\<rparr>)"

definition DHCP_INFO_CAP :: nat where "DHCP_INFO_CAP = 384"

definition emit_dhcp_info :: "host \<Rightarrow> unit vm" where
  "emit_dhcp_info h = vreads (\<lambda>s. case dhcp_info_cb s of
       None \<Rightarrow> vok ()
     | Some f \<Rightarrow> vnext host_called (emit_bytes (take DHCP_INFO_CAP (h_info h (host_calls s) f))))"

definition dhcp_now :: "host \<Rightarrow> bool vm" where
  "dhcp_now h = vreads (\<lambda>s.
     vnext host_called
       (vthen (vlift (run_dhcp (h_setup h (host_calls s)) (h_values h (host_calls s)))) (\<lambda>ok.
        vnext (if ok then emit_dhcp_info h else vok ()) (vok ok))))"

text \<open>\<open>s.io_read.and_then(|f| f(id, 1, 0, &mut buf))\<close>, the line read into a buffer of \<open>cap\<close> bytes.\<close>

definition read_line :: "host \<Rightarrow> u8 \<Rightarrow> nat \<Rightarrow> bytes option vm" where
  "read_line h hid cap = vreads (\<lambda>s. case io_read_cb s of
       None \<Rightarrow> vok None
     | Some f \<Rightarrow> vnext host_called (case h_read h (host_calls s) f hid of
           None \<Rightarrow> vok None
         | Some bs \<Rightarrow> if bs = [] then vok None else if length bs > cap then vpanic else vok (Some bs)))"

section \<open>The stacks\<close>

definition RET_HALT :: nat where "RET_HALT = 0xFFFE"
definition RET_PCALL :: nat where "RET_PCALL = 0xFFFD"
definition MAX_STEPS :: nat where "MAX_STEPS = 5000000"

definition vpop :: "lval vm" where
  "vpop = (\<lambda>s. if vsp s = 0 \<or> vsp s > STACK_CAP then (VPanic, s)
     else (Fine (vstack s (vsp s - 1)), s\<lparr>vsp := vsp s - 1\<rparr>))"

definition vtop :: "lval vm" where
  "vtop = vreads (\<lambda>s. if vsp s = 0 \<or> vsp s > STACK_CAP then vpanic else vok (vstack s (vsp s - 1)))"

definition at_stack :: "nat \<Rightarrow> lval vm" where
  "at_stack i = vreads (\<lambda>s. if i < STACK_CAP then vok (vstack s i) else vpanic)"

definition put_stack :: "nat \<Rightarrow> lval \<Rightarrow> unit vm" where
  "put_stack i v = (if i < STACK_CAP then vsets (\<lambda>s. s\<lparr>vstack := (vstack s)(i := v)\<rparr>) else vpanic)"

definition set_vsp :: "nat \<Rightarrow> unit vm" where "set_vsp n = vsets (\<lambda>s. s\<lparr>vsp := n\<rparr>)"

definition vpush :: "lval \<Rightarrow> unit vm" where "vpush v = vlift (push_val v)"

text \<open>A subtraction of \<open>usize\<close> whose result is an index: below zero it is out of range.\<close>

definition minus_ix :: "nat \<Rightarrow> nat \<Rightarrow> nat vm" where
  "minus_ix a b = (if b \<le> a then vok (a - b) else vpanic)"

text \<open>\<open>for j in 0..n { s.vstack[dst + j] = s.vstack[src + j] }\<close>, and the same with \<open>nil\<close>.\<close>

primrec copy_vals :: "nat \<Rightarrow> nat \<Rightarrow> nat \<Rightarrow> unit vm" where
  "copy_vals 0 src dst = vok ()"
| "copy_vals (Suc n) src dst = vthen (at_stack src) (\<lambda>v. vnext (put_stack dst v) (copy_vals n (src + 1) (dst + 1)))"

primrec fill_nil :: "nat \<Rightarrow> nat \<Rightarrow> unit vm" where
  "fill_nil 0 dst = vok ()"
| "fill_nil (Suc n) dst = vnext (put_stack dst VNil) (fill_nil n (dst + 1))"

primrec read_vals :: "nat \<Rightarrow> nat \<Rightarrow> lval list vm" where
  "read_vals 0 src = vok []"
| "read_vals (Suc n) src = vthen (at_stack src) (\<lambda>v. vthen (read_vals n (src + 1)) (\<lambda>vs. vok (v # vs)))"

primrec push_nils :: "nat \<Rightarrow> unit vm" where
  "push_nils 0 = vok ()"
| "push_nils (Suc n) = vnext (vpush VNil) (push_nils n)"

definition normalize :: "nat \<Rightarrow> nat \<Rightarrow> unit vm" where
  "normalize base want =
     (if want = WANT_ALL then vok ()
      else vreads (\<lambda>s. vthen (minus_ix (vsp s) base) (\<lambda>n.
        if n > want then set_vsp (base + want) else push_nils (want - n))))"

definition result_count :: "exec_result \<Rightarrow> nat" where
  "result_count r = (case r of Ret _ \<Rightarrow> 1 | Ret2 _ _ \<Rightarrow> 2 | RetN n \<Rightarrow> n | _ \<Rightarrow> 0)"

definition result_from_stack :: "nat \<Rightarrow> nat \<Rightarrow> exec_result vm" where
  "result_from_stack base n =
     (if n = 0 then vok Normal
      else if n = 1 then vthen (at_stack base) (\<lambda>v. vok (Ret v))
      else if n = 2 then vthen (at_stack base) (\<lambda>a. vthen (at_stack (base + 1)) (\<lambda>b. vok (Ret2 a b)))
      else vok (RetN (n mod 256)))"

definition node_name :: "nat \<Rightarrow> strref vm" where
  "node_name n = vreads (\<lambda>s. if n \<ge> MAX_NODES then vpanic
     else vok (case nodes s n of NVar name \<Rightarrow> name | _ \<Rightarrow> 0))"

definition ast_op :: "nat \<Rightarrow> binop" where
  "ast_op n = (if n = 0 then OpAdd else if n = 1 then OpSub else if n = 2 then OpMul else if n = 3 then OpDiv
     else if n = 4 then OpMod else if n = 5 then OpEq else if n = 6 then OpNe else if n = 7 then OpLt
     else if n = 8 then OpLe else if n = 9 then OpGt else if n = 10 then OpGe else if n = 11 then OpConcat
     else if n = 12 then OpAnd else if n = 13 then OpOr else if n = 14 then OpNot else OpNeg)"

section \<open>Frames\<close>

text \<open>The top frame; \<open>(s.fsp - 1) as usize\<close> is out of range without one.\<close>

definition top_frame :: "(nat \<Rightarrow> frame \<Rightarrow> 'a vm) \<Rightarrow> 'a vm" where
  "top_frame k = vreads (\<lambda>s. if fsp s = 0 \<or> fsp s > MAX_FRAMES then vpanic
     else k (fsp s - 1) (frames s (fsp s - 1)))"

definition set_frame :: "nat \<Rightarrow> (frame \<Rightarrow> frame) \<Rightarrow> unit vm" where
  "set_frame f g = vsets (\<lambda>s. s\<lparr>frames := (frames s)(f := g (frames s f))\<rparr>)"

definition set_ctrl :: "nat \<Rightarrow> lval \<Rightarrow> lval \<Rightarrow> lval \<Rightarrow> unit vm" where
  "set_ctrl f a b c = set_frame f (\<lambda>fr. fr\<lparr>ctrl := (ctrl fr)(0 := a, 1 := b, 2 := c)\<rparr>)"

definition vpush_frame :: "(frame \<Rightarrow> frame) \<Rightarrow> unit vm" where
  "vpush_frame g = vnext (vlift push_frame) (vreads (\<lambda>s. set_frame (fsp s - 1) g))"

definition vpop_frame :: "unit vm" where "vpop_frame = vsets pop_frame"

text \<open>The parameters of a function, \<open>nil\<close> beyond the arguments.\<close>

primrec declare_args :: "nat \<Rightarrow> nat \<Rightarrow> lval list \<Rightarrow> unit vm" where
  "declare_args 0 p args = vok ()"
| "declare_args (Suc n) p args =
     vthen (node_name p) (\<lambda>name.
     vnext (vlift (declare_local name (case args of [] \<Rightarrow> VNil | v # _ \<Rightarrow> v)))
       (declare_args n (p + 1) (tl args)))"

definition setup_func_frame :: "nat \<Rightarrow> nat \<Rightarrow> nat \<Rightarrow> nat \<Rightarrow> nat \<Rightarrow> nat \<Rightarrow> nat \<Rightarrow> unit vm" where
  "setup_func_frame fi argc base off ret_to want closure =
     (if fi \<ge> MAX_FUNCS \<or> argc > 32 then vpanic
      else vreads (\<lambda>s. let fd = funcs s fi in
        vthen (read_vals argc (base + off)) (\<lambda>args.
        vnext (vpush_frame (\<lambda>fr. fr\<lparr>ret_ip := ret_to, f_want := want, f_stack_base := base, f_closure := closure\<rparr>))
        (vnext (declare_args (nparams fd) (params fd) args) (set_vsp base)))))"

text \<open>The function of a function value or closure, and the closure it runs in.\<close>

definition func_of :: "lval \<Rightarrow> (nat \<times> nat) option vm" where
  "func_of v = (case v of
       VFunc fi \<Rightarrow> vok (Some (fi, NO_CLOSURE))
     | VClosure ci \<Rightarrow> vreads (\<lambda>s. if ci \<ge> MAX_CLOSURES then vpanic else vok (Some (cl_func (closures s ci), ci)))
     | _ \<Rightarrow> vok None)"

definition entry_of :: "nat \<Rightarrow> nat vm" where
  "entry_of fi = vreads (\<lambda>s. vok (fentry (funcs s fi)))"

definition run :: "vcalls \<Rightarrow> nat \<Rightarrow> exec_result vm" where
  "run rec entry = vreads (\<lambda>s. rec (JRun entry (fsp s)))"

text \<open>\<open>call_value\<close>: the arguments are on top of the stack.\<close>

definition call_value :: "vcalls \<Rightarrow> caller" where
  "call_value rec fv argc =
     vthen (func_of fv) (\<lambda>f. case f of
         Some (fi, ci) \<Rightarrow>
           vreads (\<lambda>s. vthen (minus_ix (vsp s) argc) (\<lambda>base.
           vnext (setup_func_frame fi argc base 0 RET_HALT WANT_ALL ci)
           (vthen (entry_of fi) (\<lambda>entry. run rec entry))))
       | None \<Rightarrow> rec (JCall fv argc))"

section \<open>Protected calls\<close>

text \<open>The values of a result, put on the stack; the number of them.\<close>

definition push_result :: "exec_result \<Rightarrow> nat vm" where
  "push_result r = (case r of
       Ret v \<Rightarrow> vnext (vpush v) (vok 1)
     | Ret2 a b \<Rightarrow> vnext (vpush a) (vnext (vpush b) (vok 2))
     | RetN n \<Rightarrow> vok n
     | _ \<Rightarrow> vok 0)"

text \<open>\<open>m\<close> values at \<open>base\<close> become \<open>want\<close> of them.\<close>

definition settle :: "nat \<Rightarrow> nat \<Rightarrow> nat \<Rightarrow> unit vm" where
  "settle base m want =
     (let out_n = (if want = WANT_ALL then m else want) in
      vnext (if out_n > m then fill_nil (out_n - m) (base + m) else vok ()) (set_vsp (base + out_n)))"

definition finish_pcall :: "nat \<Rightarrow> nat \<Rightarrow> exec_result \<Rightarrow> unit vm" where
  "finish_pcall base want r =
     vthen (push_result r) (\<lambda>n.
     vnext (put_stack base (VBool True)) (vnext (settle base (n + 1) want) vpop_frame))"

datatype flow = GoTo nat | Stop exec_result

text \<open>The callee of \<open>pcall\<close> and \<open>xpcall\<close>: a function runs under the protected frame, another value is
  called now.\<close>

definition protected_call :: "vcalls \<Rightarrow> lval \<Rightarrow> nat \<Rightarrow> nat \<Rightarrow> nat \<Rightarrow> nat \<Rightarrow> flow vm" where
  "protected_call rec fv argc base ip want =
     vthen (func_of fv) (\<lambda>f. case f of
         Some (fi, ci) \<Rightarrow>
           vnext (setup_func_frame fi argc (base + 1) 0 RET_PCALL WANT_ALL ci)
             (vthen (entry_of fi) (\<lambda>entry. vok (GoTo entry)))
       | None \<Rightarrow>
           vthen (rec (JCall fv argc)) (\<lambda>r. case r of
               Shell \<Rightarrow> vnext vpop_frame (vok (Stop Shell))
             | Exit \<Rightarrow> vnext vpop_frame (vok (Stop Exit))
             | YieldN _ \<Rightarrow> raise ''attempt to yield across a protected call''
             | BreakOut \<Rightarrow> raise ''internal error: control flow from call''
             | GotoOut _ \<Rightarrow> raise ''internal error: control flow from call''
             | r \<Rightarrow> vnext (finish_pcall base want r) (vok (GoTo ip))))"

text \<open>\<open>[pcall, f, args...]\<close> at \<open>base\<close> becomes \<open>[f, args...]\<close> under a protected frame.\<close>

definition do_pcall :: "vcalls \<Rightarrow> nat \<Rightarrow> nat \<Rightarrow> nat \<Rightarrow> nat \<Rightarrow> flow vm" where
  "do_pcall rec base argc ip want =
     (if argc < 1 then raise ''pcall expects at least 1 argument''
      else vnext (copy_vals argc (base + 1) base) (vnext (set_vsp (base + argc))
        (vthen (at_stack base) (\<lambda>fv. vreads (\<lambda>s.
         vnext (vpush_frame (\<lambda>fr. fr\<lparr>ret_ip := ip, f_want := want, f_stack_base := base, protected := True,
           f_mark_sp := mark_sp s\<rparr>))
         (protected_call rec fv ((argc - 1) mod 256) base ip want))))))"

definition do_xpcall :: "vcalls \<Rightarrow> nat \<Rightarrow> nat \<Rightarrow> nat \<Rightarrow> nat \<Rightarrow> flow vm" where
  "do_xpcall rec base argc ip want =
     (if argc < 2 then raise ''xpcall expects at least 2 arguments''
      else vnext (copy_vals argc (base + 1) base) (vnext (set_vsp (base + argc))
        (vthen (at_stack base) (\<lambda>fv.
         vthen (at_stack (base + 1)) (\<lambda>handler.
         vnext (copy_vals (argc - 2) (base + 2) (base + 1)) (vnext (set_vsp (base + argc - 1))
         (vreads (\<lambda>s.
         vnext (vpush_frame (\<lambda>fr. fr\<lparr>ret_ip := ip, f_want := want, f_stack_base := base, protected := True,
           err_handler := Some handler, f_mark_sp := mark_sp s\<rparr>))
         (protected_call rec fv ((argc - 2) mod 256) base ip want)))))))))"

text \<open>The value of an error that is caught.\<close>

definition error_value :: "lua_error \<Rightarrow> lval vm" where
  "error_value e = (case e of Obj v \<Rightarrow> vok v | Msg m \<Rightarrow> vthen (vlift (intern (lit m))) (\<lambda>r. vok (VStr r)))"

datatype unwound = Resume nat | Control exec_result | Propagate

text \<open>\<open>false\<close> before the results of the handler, which was called with its argument at \<open>base\<close>.\<close>

definition handler_values :: "nat \<Rightarrow> exec_result \<Rightarrow> nat option vm" where
  "handler_values base r = (case r of
       Normal \<Rightarrow> vnext (put_stack base (VBool False)) (vok (Some 1))
     | Ret v \<Rightarrow> vnext (put_stack base (VBool False)) (vnext (put_stack (base + 1) v) (vok (Some 2)))
     | Ret2 a b \<Rightarrow>
         vnext (put_stack base (VBool False))
         (vnext (put_stack (base + 1) a) (vnext (put_stack (base + 2) b) (vok (Some 3))))
     | RetN n \<Rightarrow>
         vnext (vpush (VBool False)) (vreads (\<lambda>s. vthen (minus_ix (vsp s) (n + 1)) (\<lambda>start.
           vnext (vsets (\<lambda>s. s\<lparr>vstack := (\<lambda>j. if j = start then vstack s (vsp s - 1)
             else if start < j \<and> j < vsp s then vstack s (j - 1) else vstack s j)\<rparr>)) (vok (Some (n + 1))))))
     | Shell \<Rightarrow> vok None
     | Exit \<Rightarrow> vok None
     | YieldN _ \<Rightarrow> raise ''attempt to yield across a protected call''
     | _ \<Rightarrow> raise ''internal error: control flow from error handler'')"

text \<open>
  \<open>unwind_protected\<close>, looking for the innermost protected frame below \<open>i\<close> and at or above \<open>floor\<close>.
  An error in the handler goes on to the next protected frame.
\<close>

primrec unwind :: "vcalls \<Rightarrow> nat \<Rightarrow> lua_error \<Rightarrow> nat \<Rightarrow> unwound vm" where
  "unwind rec flr e 0 = vok Propagate"
| "unwind rec flr e (Suc i) = vreads (\<lambda>s.
     if i < flr then vok Propagate
     else if i \<ge> MAX_FRAMES then vpanic
     else let p = frames s i; base = f_stack_base p; want = f_want p in
       if \<not> protected p then unwind rec flr e i
       else vthen (error_value e) (\<lambda>v.
         let drop_to = vsets (\<lambda>s. s\<lparr>fsp := i, vsp := base\<rparr>) in
         vnext drop_to (vnext (vsets (\<lambda>s. s\<lparr>mark_sp := f_mark_sp p\<rparr>))
         (case err_handler p of
            Some handler \<Rightarrow>
              vnext (vpush v) (\<lambda>s. case rec (JCall handler 1) s of
                  (Throw e', s') \<Rightarrow> vnext drop_to (unwind rec flr e' i) s'
                | (Fine r, s') \<Rightarrow>
                    vthen (handler_values base r) (\<lambda>m. case m of
                        None \<Rightarrow> vok (Control r)
                      | Some m \<Rightarrow> vnext (settle base m want) (vok (Resume (ret_ip p)))) s'
                | (VPanic, s') \<Rightarrow> (VPanic, s')
                | (VFuel, s') \<Rightarrow> (VFuel, s'))
          | None \<Rightarrow>
              vnext (vpush (VBool False)) (vnext (vpush v)
              (let out_n = (if want = WANT_ALL then 2 else want) in
               vnext (if out_n < 2 then set_vsp (base + out_n) else push_nils (out_n - 2))
                 (vok (Resume (ret_ip p)))))))))"

section \<open>Coroutines\<close>

definition CO_DEAD :: u8 where "CO_DEAD = 0"
definition CO_SUSPENDED :: u8 where "CO_SUSPENDED = 1"
definition CO_RUNNING :: u8 where "CO_RUNNING = 2"
definition CO_NORMAL :: u8 where "CO_NORMAL = 3"

definition co_update :: "nat \<Rightarrow> (co_state \<Rightarrow> co_state) \<Rightarrow> unit vm" where
  "co_update i f = (if i \<ge> MAX_COS then vpanic else vsets (\<lambda>s. s\<lparr>cos := (cos s)(i := f (cos s i))\<rparr>))"

text \<open>\<open>if parent != 0 { s.cos[parent - 1].status = st }\<close>\<close>

definition mark_parent :: "nat \<Rightarrow> u8 \<Rightarrow> unit vm" where
  "mark_parent parent st = (if parent \<noteq> 0 then co_update (parent - 1) (\<lambda>c. c\<lparr>co_status := st\<rparr>) else vok ())"

definition co_create :: "lval \<Rightarrow> lval vm" where
  "co_create f =
     (if (case f of VFunc _ \<Rightarrow> True | VNative _ \<Rightarrow> True | VClosure _ \<Rightarrow> True | _ \<Rightarrow> False) then
        vreads (\<lambda>s. case find (\<lambda>i. co_status (cos s i) = CO_DEAD) [0..<MAX_COS] of
          Some i \<Rightarrow>
            vnext (vsets (\<lambda>s. s\<lparr>threads := (threads s)(i + 1 := empty_thread),
              cos := (cos s)(i := \<lparr>co_status = CO_SUSPENDED, co_func = f, co_ip = 0, co_want = 0,
                co_parent = 0, co_started = False\<rparr>)\<rparr>)) (vok (VCo (word_of_nat i)))
        | None \<Rightarrow> raise ''too many coroutines'')
      else raise ''coroutine.create expects a function'')"

definition collect_results :: "exec_result \<Rightarrow> lval list vm" where
  "collect_results r = (case r of
       Ret v \<Rightarrow> vok [v]
     | Ret2 a b \<Rightarrow> vok [a, b]
     | RetN n \<Rightarrow>
         if n > 32 then vpanic
         else vreads (\<lambda>s. vthen (minus_ix (vsp s) n) (\<lambda>base.
           vthen (read_vals n base) (\<lambda>vs. vnext (set_vsp base) (vok vs))))
     | _ \<Rightarrow> vok [])"

text \<open>
  What a resume runs on the coroutine's thread, once its arguments are there: the body from its
  start, or the code after the yield. An error of this part returns without switching back.
\<close>

definition co_prepare :: "nat \<Rightarrow> lval list \<Rightarrow> vjob vm" where
  "co_prepare i args = vreads (\<lambda>s. let c = cos s i; argc = length args in
     if \<not> co_started c then
       vnext (co_update i (\<lambda>c. c\<lparr>co_started := True\<rparr>))
       (vnext (push_all args)
       (vthen (func_of (co_func c)) (\<lambda>f. case f of
           Some (fi, ci) \<Rightarrow>
             vreads (\<lambda>s. vthen (minus_ix (vsp s) argc) (\<lambda>base.
             vnext (setup_func_frame fi argc base 0 RET_HALT WANT_ALL ci)
             (vthen (entry_of fi) (\<lambda>entry. vreads (\<lambda>s. vok (JRun entry (fsp s)))))))
         | None \<Rightarrow> vok (JCall (co_func c) argc))))
     else
       vnext (push_all args)
       (vreads (\<lambda>s. vthen (minus_ix (vsp s) argc) (\<lambda>base.
        vnext (normalize base (co_want c)) (vok (JRun (co_ip c) 0))))))"

text \<open>The values of a coroutine that has stopped, and its new status.\<close>

definition co_stopped :: "nat \<Rightarrow> exec_result \<Rightarrow> lval list vm" where
  "co_stopped i r = (case r of
       YieldN n \<Rightarrow>
         if n > 32 then vpanic
         else vreads (\<lambda>s. vthen (minus_ix (vsp s) n) (\<lambda>base.
           vthen (read_vals n base) (\<lambda>out.
           vnext (set_vsp base)
           (vnext (co_update i (\<lambda>c. c\<lparr>co_status := CO_SUSPENDED, co_ip := yield_ip s, co_want := yield_want s\<rparr>))
             (vok out)))))
     | r \<Rightarrow> vthen (collect_results r) (\<lambda>out.
         vnext (co_update i (\<lambda>c. c\<lparr>co_status := CO_DEAD\<rparr>)) (vok out)))"

definition co_outcome :: "vcalls \<Rightarrow> nat \<Rightarrow> vjob \<Rightarrow> (lval list + lua_error) vm" where
  "co_outcome rec i job = (\<lambda>s. case rec job s of
       (Throw e, s') \<Rightarrow> vnext (co_update i (\<lambda>c. c\<lparr>co_status := CO_DEAD\<rparr>)) (vok (Inr e)) s'
     | (Fine r, s') \<Rightarrow> vthen (co_stopped i r) (\<lambda>out. vok (Inl out)) s'
     | (VPanic, s') \<Rightarrow> (VPanic, s')
     | (VFuel, s') \<Rightarrow> (VFuel, s'))"

definition co_resume_value :: "vcalls \<Rightarrow> nat \<Rightarrow> nat \<Rightarrow> exec_result vm" where
  "co_resume_value rec i argc =
     (if i \<ge> MAX_COS then raise ''invalid coroutine''
      else if argc > 32 then vpanic
      else vreads (\<lambda>s. vthen (minus_ix (vsp s) argc) (\<lambda>base.
        vthen (read_vals argc base) (\<lambda>args. vnext (set_vsp base)
        (if co_status (cos s i) \<noteq> CO_SUSPENDED then
           vthen (vlift (intern (lit (if co_status (cos s i) = CO_DEAD then ''cannot resume dead coroutine''
             else ''cannot resume non-suspended coroutine'')))) (\<lambda>r.
           vnext (vpush (VBool False)) (vnext (vpush (VStr r)) (vok (RetN 2))))
         else
           let parent = current s in
           vnext (co_update i (\<lambda>c. c\<lparr>co_status := CO_RUNNING, co_parent := word_of_nat parent\<rparr>))
           (vnext (mark_parent parent CO_NORMAL)
           (vnext (vlift (swap_threads parent (i + 1)))
           (vthen (co_prepare i args) (\<lambda>job.
            vthen (co_outcome rec i job) (\<lambda>out.
            vnext (vlift (swap_threads (i + 1) parent))
            (vnext (mark_parent parent CO_RUNNING)
            (case out of
               Inr e \<Rightarrow> vthen (error_value e) (\<lambda>v. vnext (vpush (VBool False)) (vnext (vpush v) (vok (RetN 2))))
             | Inl vs \<Rightarrow> vnext (vpush (VBool True)) (vnext (push_all vs) (vok (RetN (length vs + 1))))))))))))))))"

definition co_wrap_call :: "vcalls \<Rightarrow> nat \<Rightarrow> nat \<Rightarrow> exec_result vm" where
  "co_wrap_call rec i argc =
     vthen (co_resume_value rec i argc) (\<lambda>r. case r of
         RetN n \<Rightarrow> vreads (\<lambda>s. vthen (minus_ix (vsp s) n) (\<lambda>base.
           vthen (at_stack base) (\<lambda>first.
           if first = VBool True then
             vthen (minus_ix n 1) (\<lambda>m.
             vnext (copy_vals m (base + 1) base) (vnext (set_vsp (base + m)) (result_from_stack base m)))
           else if n \<ge> 2 then vthen (at_stack (base + 1)) (\<lambda>e. throw (Obj e))
           else throw (Obj VNil))))
       | _ \<Rightarrow> raise ''internal error: bad resume result'')"

section \<open>Calling a value\<close>

definition call_iolines :: "host \<Rightarrow> u8 \<Rightarrow> exec_result vm" where
  "call_iolines h hid =
     vthen (read_line h hid 4096) (\<lambda>l. case l of
         None \<Rightarrow> vok (Ret VNil)
       | Some bs \<Rightarrow> vthen (vlift (intern bs)) (\<lambda>r. vok (Ret (VStr r))))"

definition no_args :: "nat \<Rightarrow> string \<Rightarrow> exec_result vm \<Rightarrow> exec_result vm" where
  "no_args argc msg m = (if argc \<noteq> 0 then raise msg else m)"

text \<open>A callable table receives itself as its first argument.\<close>

definition call_table :: "vcalls \<Rightarrow> lval \<Rightarrow> nat \<Rightarrow> nat \<Rightarrow> exec_result vm" where
  "call_table rec fv argc base =
     vthen (mm_of fv MM_CALL) (\<lambda>f. if f = VNil then raise ''attempt to call a non-function value''
       else if argc \<ge> 32 then raise ''too many arguments''
       else if base + argc \<ge> STACK_CAP then vpanic
       else vnext (vsets (\<lambda>s. s\<lparr>vstack := (\<lambda>j. if j = base then fv
           else if base < j \<and> j \<le> base + argc then vstack s (j - 1) else vstack s j), vsp := vsp s + 1\<rparr>))
         (in_mm (rec (JCall f (argc + 1)))))"

text \<open>The results of a call are moved down over its arguments.\<close>

definition place_results :: "nat \<Rightarrow> exec_result \<Rightarrow> exec_result vm" where
  "place_results base r = vnext
     (case (case r of RetN n \<Rightarrow> Some n | YieldN n \<Rightarrow> Some n | _ \<Rightarrow> None) of
        Some n \<Rightarrow> vreads (\<lambda>s. vthen (minus_ix (vsp s) n) (\<lambda>src.
          vnext (copy_vals n src base) (set_vsp (base + n))))
      | None \<Rightarrow> set_vsp base) (vok r)"

definition call :: "host \<Rightarrow> vcalls \<Rightarrow> lval \<Rightarrow> nat \<Rightarrow> exec_result vm" where
  "call h rec fv argc = vreads (\<lambda>s.
     if argc > vsp s then raise ''internal error: arg stack underflow''
     else if argc > 32 then vpanic
     else let base = vsp s - argc in
       vthen (read_vals argc base) (\<lambda>args.
       let done = (\<lambda>m. vthen m (place_results base)) in
       case fv of
         VNative n \<Rightarrow> done (h_native h rec n args)
       | VShell \<Rightarrow> done (no_args argc ''shell expects no arguments'' (vok Shell))
       | VExit \<Rightarrow> done (no_args argc ''exit expects no arguments'' (vok Exit))
       | VDhcp \<Rightarrow> done (no_args argc ''dhcp expects no arguments''
           (vthen (dhcp_now h) (\<lambda>ok. vok (Ret (VBool ok)))))
       | VLs \<Rightarrow> done (no_args argc ''ls expects no arguments'' (vnext ls_run (vok Normal)))
       | VFunc _ \<Rightarrow> done (call_value rec fv argc)
       | VClosure _ \<Rightarrow> done (call_value rec fv argc)
       | VWrapped i \<Rightarrow> done (co_wrap_call rec (unat i) argc)
       | VGmatch i \<Rightarrow> done (no_args argc ''gmatch iterator expects no arguments''
           (vthen (vlift (gmatch_advance (unat i))) (\<lambda>n. vok (if n = 0 then Ret VNil else RetN n))))
       | VIoLines i \<Rightarrow> done (no_args argc ''io.lines iterator expects no arguments'' (call_iolines h i))
       | VCo _ \<Rightarrow> raise ''attempt to call a thread value''
       | VNum n \<Rightarrow>
           if argc = 0 \<and> (n = 0x7FFFFFFFFFFFFFFF \<or> n = i64_min) then done (vok (Ret (VNum n)))
           else call_table rec fv argc base
       | _ \<Rightarrow> call_table rec fv argc base))"

section \<open>Instructions\<close>

definition go :: "nat \<Rightarrow> unit vm \<Rightarrow> flow vm" where
  "go ip m = vnext m (vok (GoTo ip))"

definition push_const :: "nat \<Rightarrow> unit vm" where
  "push_const n = vreads (\<lambda>s. if n \<ge> MAX_NODES then vpanic
     else case nodes s n of
         NNum k \<Rightarrow> vpush (VNum k) | NFloat f \<Rightarrow> vpush (VFloat f) | NStr r \<Rightarrow> vpush (VStr r)
       | NNil \<Rightarrow> vpush VNil | NEmpty \<Rightarrow> vpush VNil | NTrue \<Rightarrow> vpush (VBool True)
       | NFalse \<Rightarrow> vpush (VBool False)
       | _ \<Rightarrow> raise ''internal error: bad constant'')"

definition get_var :: "nat \<Rightarrow> unit vm" where
  "get_var n =
     vthen (node_name n) (\<lambda>name.
     vthen (vchecked (\<lambda>s. lookup s name)) (\<lambda>v. case v of
         None \<Rightarrow> raise ''undefined variable''
       | Some v \<Rightarrow> vpush v))"

text \<open>\<open>if !s.assign_local(name, v) { s.set_global(name, v) }\<close>\<close>

definition set_var :: "strref \<Rightarrow> lval \<Rightarrow> unit vm" where
  "set_var name v =
     vthen (vlift (assign_local name v)) (\<lambda>done. if done then vok () else vsets (set_global name v))"

definition pop_named :: "nat \<Rightarrow> (strref \<Rightarrow> lval \<Rightarrow> unit vm) \<Rightarrow> unit vm" where
  "pop_named n k = vthen vpop (\<lambda>v. vthen (node_name n) (\<lambda>name. k name v))"

text \<open>The names of a declaration with the values at \<open>base\<close>; \<open>i\<close> counts the names.\<close>

primrec declare_chain :: "nat \<Rightarrow> nat \<Rightarrow> nat \<Rightarrow> nat \<Rightarrow> nat \<Rightarrow> unit vm" where
  "declare_chain 0 n i count base = (\<lambda>s. (VFuel, s))"
| "declare_chain (Suc k) n i count base =
     (if n = NO_NODE then vok ()
      else vthen (node_name n) (\<lambda>name.
        vthen (if i < count then at_stack (base + i) else vok VNil) (\<lambda>v.
        vnext (vlift (declare_local name v))
        (vreads (\<lambda>s. declare_chain k (nxt s n) (i + 1) count base)))))"

definition do_declare :: "nat \<Rightarrow> nat \<Rightarrow> unit vm" where
  "do_declare first count = vreads (\<lambda>s. vthen (minus_ix (vsp s) count) (\<lambda>base.
     vnext (declare_chain (MAX_NODES + 1) first 0 count base) (set_vsp base)))"

definition vget :: "vcalls \<Rightarrow> lval \<Rightarrow> lval \<Rightarrow> lval vm" where
  "vget rec = tget CHAIN_FUEL (call_value rec)"

definition vset :: "vcalls \<Rightarrow> lval \<Rightarrow> lval \<Rightarrow> lval \<Rightarrow> unit vm" where
  "vset rec = tset CHAIN_FUEL (call_value rec)"

text \<open>The number of index targets of an assignment, and the assignment of the values.\<close>

primrec count_targets :: "nat \<Rightarrow> nat \<Rightarrow> nat vm" where
  "count_targets 0 n = (\<lambda>s. (VFuel, s))"
| "count_targets (Suc k) n =
     (if n = NO_NODE then vok 0
      else vreads (\<lambda>s. if n \<ge> MAX_NODES then vpanic
        else vthen (count_targets k (nxt s n)) (\<lambda>c.
          vok (case nodes s n of NIndex _ _ \<Rightarrow> c + 1 | _ \<Rightarrow> c))))"

primrec assign_targets :: "nat \<Rightarrow> vcalls \<Rightarrow> nat \<Rightarrow> nat \<Rightarrow> nat \<Rightarrow> nat \<Rightarrow> nat \<Rightarrow> unit vm" where
  "assign_targets 0 rec t i p count values = (\<lambda>s. (VFuel, s))"
| "assign_targets (Suc k) rec t i p count values =
     (if t = NO_NODE then vok ()
      else vthen (if i < count then at_stack (values + i) else vok VNil) (\<lambda>v.
        vreads (\<lambda>s. if t \<ge> MAX_NODES then vpanic
        else case nodes s t of
            NVar name \<Rightarrow>
              vnext (set_var name v) (vreads (\<lambda>s. assign_targets k rec (nxt s t) (i + 1) p count values))
          | NIndex _ _ \<Rightarrow>
              vthen (at_stack p) (\<lambda>base. vthen (at_stack (p + 1)) (\<lambda>key.
              vnext (vset rec base key v)
              (vreads (\<lambda>s. assign_targets k rec (nxt s t) (i + 1) (p + 2) count values))))
          | _ \<Rightarrow> raise ''invalid assignment target'')))"

definition do_assign :: "vcalls \<Rightarrow> nat \<Rightarrow> nat \<Rightarrow> unit vm" where
  "do_assign rec first count = vreads (\<lambda>s. vthen (minus_ix (vsp s) count) (\<lambda>values.
     vthen (count_targets (MAX_NODES + 1) first) (\<lambda>nidx.
     vthen (minus_ix values (2 * nidx)) (\<lambda>p.
     vnext (assign_targets (MAX_NODES + 1) rec first 0 p count values) (set_vsp p)))))"

text \<open>The cells a closure captures.\<close>

primrec capture :: "nat \<Rightarrow> nat \<Rightarrow> nat \<Rightarrow> func_def \<Rightarrow> unit vm" where
  "capture 0 i ci fd = vok ()"
| "capture (Suc n) i ci fd =
     (let name = up_names fd i in
      if i \<ge> MAX_UPVALS then vpanic
      else vthen (vlift (find_or_box_local_cell name)) (\<lambda>c.
        vthen (case c of Some c \<Rightarrow> vok c
          | None \<Rightarrow> vthen (vchecked (\<lambda>s. closure_up_cell s name)) (\<lambda>c.
              vok (case c of Some c \<Rightarrow> c | None \<Rightarrow> NO_CELL))) (\<lambda>cell.
        vnext (vsets (\<lambda>s. s\<lparr>closures := (closures s)(ci := (closures s ci)\<lparr>cl_ups :=
            (cl_ups (closures s ci))(i := \<lparr>up_name = name, up_cell = cell\<rparr>)\<rparr>)\<rparr>))
        (capture n (i + 1) ci fd))))"

definition make_closure :: "nat \<Rightarrow> unit vm" where
  "make_closure fi = vreads (\<lambda>s. if fi \<ge> MAX_FUNCS then vpanic
     else let fd = funcs s fi in
       vthen (vlift (alloc_closure fi)) (\<lambda>ci.
       vnext (capture (nup fd) 0 ci fd)
       (vnext (vsets (\<lambda>s. s\<lparr>closures := (closures s)(ci := (closures s ci)\<lparr>cl_nup := nup fd\<rparr>)\<rparr>))
         (vpush (VClosure ci)))))"

definition do_mark :: "unit vm" where
  "do_mark = vreads (\<lambda>s. if mark_sp s \<ge> MAX_FRAMES then raise ''call too complex''
     else vsets (\<lambda>s. s\<lparr>call_marks := (call_marks s)(mark_sp s := vsp s), mark_sp := mark_sp s + 1\<rparr>))"

text \<open>The base of a call and the number of its arguments.\<close>

definition call_layout :: "nat \<Rightarrow> (nat \<times> nat) vm" where
  "call_layout a = vreads (\<lambda>s.
     if a = WANT_ALL then
       (if mark_sp s = 0 then raise ''internal error: missing call mark''
        else if mark_sp s > MAX_FRAMES then vpanic
        else vnext (vsets (\<lambda>s. s\<lparr>mark_sp := mark_sp s - 1\<rparr>))
          (let base = call_marks s (mark_sp s - 1) in
           vthen (minus_ix (vsp s) (base + 1)) (\<lambda>argc. vok (base, argc))))
     else vthen (minus_ix (vsp s) (a + 1)) (\<lambda>base. vok (base, a)))"

text \<open>The call of a builtin or a callable table; a yield leaves the machine here.\<close>

definition call_other :: "vcalls \<Rightarrow> lval \<Rightarrow> nat \<Rightarrow> nat \<Rightarrow> nat \<Rightarrow> nat \<Rightarrow> flow vm" where
  "call_other rec fv base argc ip want =
     vnext (copy_vals argc (base + 1) base) (vnext (set_vsp (base + argc))
     (vthen (rec (JCall fv (argc mod 256))) (\<lambda>r. case r of
         YieldN _ \<Rightarrow> vnext (vsets (\<lambda>s. s\<lparr>yield_ip := ip, yield_want := want\<rparr>)) (vok (Stop r))
       | Shell \<Rightarrow> vok (Stop r)
       | Exit \<Rightarrow> vok (Stop r)
       | BreakOut \<Rightarrow> raise ''internal error: control flow from call''
       | GotoOut _ \<Rightarrow> raise ''internal error: control flow from call''
       | _ \<Rightarrow> vnext (push_result r) (go ip (normalize base want)))))"

definition do_call :: "vcalls \<Rightarrow> nat \<Rightarrow> nat \<Rightarrow> nat \<Rightarrow> flow vm" where
  "do_call rec a want ip =
     vthen (call_layout a) (\<lambda>(base, argc).
     vthen (at_stack base) (\<lambda>fv.
     vthen (func_of fv) (\<lambda>f. case f of
         Some (fi, ci) \<Rightarrow>
           vnext (setup_func_frame fi (argc mod 256) base 1 ip want ci)
             (vthen (entry_of fi) (\<lambda>entry. vok (GoTo entry)))
       | None \<Rightarrow>
           if fv = VNative 15 then do_pcall rec base argc ip want
           else if fv = VNative 26 then do_xpcall rec base argc ip want
           else call_other rec fv base argc ip want)))"

text \<open>The callee of a protected call returned: \<open>true\<close> before its results.\<close>

definition return_protected :: "flow vm" where
  "return_protected = top_frame (\<lambda>_ p. let pbase = f_stack_base p in
     vreads (\<lambda>s. vthen (minus_ix (vsp s) (pbase + 1)) (\<lambda>n.
     vnext (put_stack pbase (VBool True))
     (vnext (settle pbase (n + 1) (f_want p)) (go (ret_ip p) vpop_frame)))))"

definition do_return :: "nat \<Rightarrow> flow vm" where
  "do_return a = top_frame (\<lambda>_ fr. let base = f_stack_base fr in
     vreads (\<lambda>s. vthen (if a = WANT_ALL then minus_ix (vsp s) base else vok a) (\<lambda>n.
     vthen (minus_ix (vsp s) n) (\<lambda>src.
     vnext (copy_vals n src base)
     (vnext (settle base n (f_want fr))
     (vnext vpop_frame
     (if ret_ip fr = RET_HALT then
        vthen (result_from_stack base (if f_want fr = WANT_ALL then n else f_want fr)) (\<lambda>r. vok (Stop r))
      else if ret_ip fr = RET_PCALL then return_protected
      else vok (GoTo (ret_ip fr)))))))))"

definition do_stmt_check :: "host \<Rightarrow> nat \<Rightarrow> flow vm" where
  "do_stmt_check h ip =
     vthen vpop (\<lambda>v. case v of
         VExit \<Rightarrow> vok (Stop Exit)
       | VShell \<Rightarrow> vok (Stop Shell)
       | VDhcp \<Rightarrow> go ip (vnext (dhcp_now h) (vok ()))
       | VLs \<Rightarrow> go ip ls_run
       | _ \<Rightarrow> vok (GoTo ip))"

definition set_loop_var :: "bool \<Rightarrow> nat \<Rightarrow> lval \<Rightarrow> unit vm" where
  "set_loop_var cell var v =
     vthen (node_name var) (\<lambda>name. vlift (if cell then set_local_top_cell name v else set_local_top name v))"

definition for_prep :: "bool \<Rightarrow> nat \<Rightarrow> nat \<Rightarrow> nat \<Rightarrow> flow vm" where
  "for_prep cell var out_ip ip =
     vthen vpop (\<lambda>step. vthen vpop (\<lambda>limit. vthen vpop (\<lambda>start.
     top_frame (\<lambda>f _.
       let go_on = (\<lambda>a b c skip. vnext (set_ctrl f a b c)
             (if skip then vok (GoTo out_ip) else go ip (set_loop_var cell var a))) in
       case (start, limit, step) of
         (VNum a, VNum b, VNum c) \<Rightarrow>
           go_on (VNum a) (VNum b) (VNum c) (if 0 <=s c then b <s a else a <s b)
       | _ \<Rightarrow> (case (float_of start, float_of limit, float_of step) of
             (Some a, Some b, Some c) \<Rightarrow>
               go_on (VFloat a) (VFloat b) (VFloat c) (if f64_le 0 c then f64_lt b a else f64_lt a b)
           | _ \<Rightarrow> raise ''for loop bound must be a number'')))))"

definition for_loop :: "bool \<Rightarrow> nat \<Rightarrow> nat \<Rightarrow> nat \<Rightarrow> flow vm" where
  "for_loop cell var body_ip ip = top_frame (\<lambda>f fr.
     let again = (\<lambda>v. vnext (set_frame f (\<lambda>fr. fr\<lparr>ctrl := (ctrl fr)(0 := v)\<rparr>))
           (go body_ip (set_loop_var cell var v))) in
     case (ctrl fr 0, ctrl fr 1, ctrl fr 2) of
       (VNum cur, VNum lmt, VNum stp) \<Rightarrow>
         (let n = cur + stp in if (if 0 <=s stp then lmt <s n else n <s lmt) then vok (GoTo ip) else again (VNum n))
     | (VFloat cur, VFloat lmt, VFloat stp) \<Rightarrow>
         (let n = f64_add cur stp in
          if (if f64_le 0 stp then f64_lt lmt n else f64_lt n lmt) then vok (GoTo ip) else again (VFloat n))
     | _ \<Rightarrow> raise ''internal error: bad for control'')"

definition for_in_prep :: "unit vm" where
  "for_in_prep =
     vthen vpop (\<lambda>second. vthen vpop (\<lambda>first. top_frame (\<lambda>f _. case (first, second) of
         (VGmatch i, _) \<Rightarrow> set_ctrl f (VGmatch i) VNil VNil
       | (VIoLines i, _) \<Rightarrow> set_ctrl f (VIoLines i) VNil VNil
       | (VTable i, _) \<Rightarrow> set_ctrl f (VNum (word_of_nat i)) (VNum 0) VNil
       | (VNative n, VTable i) \<Rightarrow>
           if n = 3 then set_ctrl f (VNum (word_of_nat i)) (VNum 0) VNil
           else raise (quoting ''`for in` requires a table, pairs(t), or gmatch(...)'')
       | _ \<Rightarrow> raise (quoting ''`for in` requires a table, pairs(t), or gmatch(...)''))))"

definition for_in_next :: "host \<Rightarrow> nat \<Rightarrow> nat \<Rightarrow> flow vm" where
  "for_in_next h out_ip ip = top_frame (\<lambda>f fr. case (ctrl fr 0, ctrl fr 1) of
       (VGmatch i, _) \<Rightarrow>
         vthen (vlift (gmatch_advance (unat i))) (\<lambda>n. if n = 0 then vok (GoTo out_ip)
           else vreads (\<lambda>s. vthen (minus_ix (vsp s) n) (\<lambda>base.
             vnext (set_vsp (base + min n 2)) (go ip (push_nils (2 - min n 2))))))
     | (VIoLines i, _) \<Rightarrow>
         vthen (read_line h i STR_CAP) (\<lambda>l. case l of
             None \<Rightarrow> vok (GoTo out_ip)
           | Some bs \<Rightarrow> vthen (vlift (intern bs)) (\<lambda>r. go ip (vnext (vpush (VStr r)) (vpush VNil))))
     | (VNum t, VNum i) \<Rightarrow> vreads (\<lambda>s.
         if unat t \<ge> MAX_TABLES then vpanic
         else let tab = tbls s (unat t) in
           if unat i \<ge> t_len tab then vok (GoTo out_ip)
           else if unat i \<ge> TABLE_SLOTS then vpanic
           else case slots tab (unat i) of (k, v) \<Rightarrow>
             vnext (set_frame f (\<lambda>fr. fr\<lparr>ctrl := (ctrl fr)(2 := k)\<rparr>)) (go ip (vnext (vpush k) (vpush v))))
     | _ \<Rightarrow> raise ''internal error: bad for-in control'')"

text \<open>The next entry has moved to the current index when the current entry was removed.\<close>

definition for_in_advance :: "nat \<Rightarrow> flow vm" where
  "for_in_advance loop_ip = top_frame (\<lambda>f fr. case (ctrl fr 0, ctrl fr 1) of
       (VGmatch _, _) \<Rightarrow> vok (GoTo loop_ip)
     | (VIoLines _, _) \<Rightarrow> vok (GoTo loop_ip)
     | (VNum t, VNum i) \<Rightarrow> vreads (\<lambda>s.
         if unat t \<ge> MAX_TABLES then vpanic
         else let tab = tbls s (unat t) in
           if unat i < t_len tab \<and> val_eq (fst (slots tab (unat i))) (ctrl fr 2) then
             go loop_ip (set_frame f (\<lambda>fr. fr\<lparr>ctrl := (ctrl fr)(1 := VNum (i + 1))\<rparr>))
           else vok (GoTo loop_ip))
     | _ \<Rightarrow> raise ''internal error: bad for-in control'')"

primrec pop_frames :: "nat \<Rightarrow> unit vm" where
  "pop_frames 0 = vok ()"
| "pop_frames (Suc n) = vnext vpop_frame (pop_frames n)"

definition unop :: "vcalls \<Rightarrow> nat \<Rightarrow> lval \<Rightarrow> lval vm" where
  "unop rec a v = (case ast_op a of
       OpNot \<Rightarrow> vok (VBool (\<not> truthy v))
     | OpNeg \<Rightarrow> unm (call_value rec) v
     | _ \<Rightarrow> raise ''internal error: bad unary operator'')"

definition exec_instr :: "host \<Rightarrow> vcalls \<Rightarrow> instr \<Rightarrow> nat \<Rightarrow> flow vm" where
  "exec_instr h rec i ip = (let a = i_a i; b = i_b i in case i_op i of
       Halt \<Rightarrow> vok (Stop Normal)
     | PushConst \<Rightarrow> go ip (push_const a)
     | PushNil \<Rightarrow> go ip (vpush VNil)
     | PushInt \<Rightarrow> go ip (vpush (VNum (scast (word_of_nat a :: 16 word))))
     | GetVar \<Rightarrow> go ip (get_var a)
     | SetVar \<Rightarrow> go ip (pop_named a set_var)
     | SetGlobal \<Rightarrow> go ip (pop_named a (\<lambda>name v. vsets (set_global name v)))
     | SetLocalTop \<Rightarrow> go ip (pop_named a (\<lambda>name v. vlift (set_local_top name v)))
     | SetLocalTopCell \<Rightarrow> go ip (pop_named a (\<lambda>name v. vlift (set_local_top_cell name v)))
     | DeclareLocal \<Rightarrow> go ip (do_declare a b)
     | GetIndex \<Rightarrow> go ip (vthen vpop (\<lambda>key. vthen vpop (\<lambda>base. vthen (vget rec base key) vpush)))
     | SetIndex \<Rightarrow> go ip (vthen vpop (\<lambda>v. vthen vpop (\<lambda>key. vthen vpop (\<lambda>base. vset rec base key v))))
     | AssignMulti \<Rightarrow> go ip (do_assign rec a b)
     | NewTable \<Rightarrow> go ip (vthen new_table (\<lambda>t. vpush (VTable t)))
     | Dup \<Rightarrow> go ip (vthen vtop vpush)
     | Pop \<Rightarrow> go ip (vsets (\<lambda>s. s\<lparr>vsp := (vsp s + 2 ^ 32 - 1) mod 2 ^ 32\<rparr>))
     | BinOp \<Rightarrow> go ip (vthen vpop (\<lambda>y. vthen vpop (\<lambda>x. vthen (binop (call_value rec) (ast_op a) x y) vpush)))
     | UnOp \<Rightarrow> go ip (vthen vpop (\<lambda>v. vthen (unop rec a v) vpush))
     | Jump \<Rightarrow> vok (GoTo a)
     | JumpScopes \<Rightarrow> go a (pop_frames b)
     | JumpIfFalse \<Rightarrow> vthen vpop (\<lambda>v. vok (GoTo (if truthy v then ip else a)))
     | JumpIfFalseKeep \<Rightarrow> vthen vtop (\<lambda>v. if truthy v then vnext vpop (vok (GoTo ip)) else vok (GoTo a))
     | JumpIfTrueKeep \<Rightarrow> vthen vtop (\<lambda>v. if truthy v then vok (GoTo a) else vnext vpop (vok (GoTo ip)))
     | LoadFunc \<Rightarrow> go ip (vpush (VFunc a))
     | MakeClosure \<Rightarrow> go ip (make_closure a)
     | Mark \<Rightarrow> go ip do_mark
     | Call \<Rightarrow> do_call rec a b ip
     | Return \<Rightarrow> do_return a
     | Print \<Rightarrow> go ip (vthen vpop (\<lambda>v. vnext (tostring (call_value rec) v) (emit_bytes [10])))
     | StmtCheck \<Rightarrow> do_stmt_check h ip
     | PushScope \<Rightarrow> go ip (vlift push_frame)
     | PopScope \<Rightarrow> go ip vpop_frame
     | ForPrep \<Rightarrow> for_prep False b a ip
     | ForPrepCell \<Rightarrow> for_prep True b a ip
     | ForLoop \<Rightarrow> for_loop False b a ip
     | ForLoopCell \<Rightarrow> for_loop True b a ip
     | ForInPrep \<Rightarrow> go ip for_in_prep
     | ForInNext \<Rightarrow> for_in_next h a ip
     | ForInAdvance \<Rightarrow> for_in_advance a
     | Yield \<Rightarrow> raise ''attempt to yield from outside a coroutine'')"

text \<open>An instruction that does not stop the run counts as a step.\<close>

definition count_step :: "flow \<Rightarrow> flow vm" where
  "count_step fl = (case fl of
       Stop r \<Rightarrow> vok (Stop r)
     | GoTo ip \<Rightarrow> vnext (vsets (\<lambda>s. s\<lparr>steps := steps s + 1\<rparr>))
         (vreads (\<lambda>s. if steps s > word_of_nat MAX_STEPS then raise ''step limit exceeded'' else vok (GoTo ip))))"

definition run_at :: "host \<Rightarrow> vcalls \<Rightarrow> nat \<Rightarrow> nat \<Rightarrow> exec_result vm" where
  "run_at h rec ip flr = (\<lambda>s.
     if ip \<ge> ncode s then (Throw (Msg ''internal error: instruction pointer out of range''), s)
     else case vthen (exec_instr h rec (code s ip) (ip + 1)) count_step s of
         (Fine (GoTo ip'), s') \<Rightarrow> rec (JRun ip' flr) s'
       | (Fine (Stop r), s') \<Rightarrow> (Fine r, s')
       | (Throw e, s') \<Rightarrow>
           vthen (unwind rec flr e (fsp s')) (\<lambda>u. case u of
               Resume ip' \<Rightarrow> rec (JRun ip' flr)
             | Control r \<Rightarrow> vok r
             | Propagate \<Rightarrow> throw e) s'
       | (VPanic, s') \<Rightarrow> (VPanic, s')
       | (VFuel, s') \<Rightarrow> (VFuel, s'))"

primrec exec :: "host \<Rightarrow> nat \<Rightarrow> vcalls" where
  "exec h 0 j = (\<lambda>s. (VFuel, s))"
| "exec h (Suc k) j = (case j of JRun ip flr \<Rightarrow> run_at h (exec h k) ip flr
     | JCall fv argc \<Rightarrow> call h (exec h k) fv argc)"

section \<open>Entry points\<close>

definition root_frame :: "nat \<Rightarrow> unit vm" where
  "root_frame want = vreads (\<lambda>s. vpush_frame (\<lambda>fr. fr\<lparr>ret_ip := RET_HALT, f_want := want, f_stack_base := vsp s\<rparr>))"

definition exec_script :: "host \<Rightarrow> nat \<Rightarrow> nat \<Rightarrow> unit vm" where
  "exec_script h k entry =
     vnext (root_frame 0)
     (vthen (run (exec h k) entry) (\<lambda>r. case r of
         BreakOut \<Rightarrow> raise ''break outside loop''
       | GotoOut _ \<Rightarrow> raise ''unknown label''
       | _ \<Rightarrow> vok ()))"

end
