(* ===== verification/LuaTable.thy ===== *)
theory LuaTable
  imports LuaVm "HOL-Library.Multiset"
begin

text \<open>
  The natives of the \<open>table\<close> library (44 to 51) of \<^verbatim>\<open>lua/src/eval.rs\<close>, with the default order of
  \<open>table.sort\<close>. The library treats the slots of a table as an array: it moves and re-keys them by
  position. The lemmas give its contract for tables that are arrays, and for every table that
  \<open>table.sort\<close> leaves a sorted permutation of the values.
\<close>

section \<open>Arguments\<close>

text \<open>A float with a whole value: \<open>f.is_finite() && f == float_floor(f)\<close>.\<close>

definition whole :: "f64 \<Rightarrow> bool" where
  "whole f \<longleftrightarrow> is_finite f \<and> f64_eq f (float_floor f)"

definition whole_number :: "string \<Rightarrow> lval \<Rightarrow> i64 vm" where
  "whole_number msg v = (case v of
       VNum n \<Rightarrow> vok n
     | VFloat f \<Rightarrow> if whole f then vok (i64_of_f64 f) else raise msg
     | _ \<Rightarrow> raise msg)"

definition integer_index :: "lval \<Rightarrow> i64 vm" where
  "integer_index = whole_number ''string index must be an integer''"

definition to_integer_for_format :: "lval \<Rightarrow> i64 vm" where
  "to_integer_for_format = whole_number ''bad argument (number expected, got string)''"

definition table_arg :: "string \<Rightarrow> lval \<Rightarrow> nat vm" where
  "table_arg msg v = (case v of VTable tid \<Rightarrow> vok tid | _ \<Rightarrow> raise msg)"

definition the_table :: "nat \<Rightarrow> (table_rec \<Rightarrow> 'a vm) \<Rightarrow> 'a vm" where
  "the_table tid k = vreads (\<lambda>s. if tid \<ge> MAX_TABLES then vpanic else k (tbls s tid))"

definition change_table :: "nat \<Rightarrow> (table_rec \<Rightarrow> table_rec) \<Rightarrow> unit vm" where
  "change_table tid g = the_table tid (\<lambda>t. vsets (set_table tid (g t)))"

text \<open>An optional argument.\<close>

definition optional :: "lval list \<Rightarrow> nat \<Rightarrow> (lval \<Rightarrow> 'a vm) \<Rightarrow> 'a vm \<Rightarrow> 'a vm" where
  "optional args i k d = (if i < length args then k (args ! i) else d)"

definition num :: "nat \<Rightarrow> lval" where "num n = VNum (word_of_nat n)"

definition table_length :: "nat \<Rightarrow> i64 vm" where
  "table_length tid = the_table tid (\<lambda>t. vok (word_of_nat (t_len t)))"

section \<open>Insertion and removal\<close>

text \<open>The entry at position \<open>pos\<close>, counted from 1; the entries from there on move up and get new keys.\<close>

definition insert_slot :: "nat \<Rightarrow> lval \<Rightarrow> table_rec \<Rightarrow> table_rec" where
  "insert_slot pos v t = t\<lparr>slots := (\<lambda>j.
       if j < pos - 1 \<or> t_len t < j then slots t j
       else if j = pos - 1 then (num pos, v)
       else (num (j + 1), snd (slots t (j - 1)))),
     t_len := t_len t + 1\<rparr>"

definition table_insert :: "lval list \<Rightarrow> exec_result vm" where
  "table_insert args =
     (if length args < 2 \<or> length args > 3 then raise ''table.insert expects 2 or 3 arguments''
      else vthen (table_arg ''table.insert expects a table'' (args ! 0)) (\<lambda>tid.
      vthen (if length args = 2 then vthen (table_length tid) (\<lambda>n. vok (n + 1, args ! 1))
             else vthen (to_integer_for_format (args ! 1)) (\<lambda>p. vok (p, args ! 2))) (\<lambda>(p, v).
      the_table tid (\<lambda>t.
        if p <s 1 \<or> unat p > t_len t + 1 then raise ''wrong position for insert''
        else if t_len t \<ge> TABLE_SLOTS then raise ''table full''
        else vnext (change_table tid (insert_slot (unat p) v)) (vok Normal)))))"

text \<open>The entries above the position move down; the last slot is cleared.\<close>

definition remove_slot :: "nat \<Rightarrow> table_rec \<Rightarrow> table_rec" where
  "remove_slot pos t = t\<lparr>slots := (\<lambda>j.
       if j = t_len t - 1 then (VNil, VNil)
       else if pos - 1 \<le> j \<and> j < t_len t then (num (j + 1), snd (slots t (j + 1)))
       else slots t j),
     t_len := t_len t - 1\<rparr>"

definition table_remove :: "lval list \<Rightarrow> exec_result vm" where
  "table_remove args =
     (if length args < 1 \<or> length args > 2 then raise ''table.remove expects 1 or 2 arguments''
      else vthen (table_arg ''table.remove expects a table'' (args ! 0)) (\<lambda>tid.
      the_table tid (\<lambda>t.
        if t_len t = 0 then vok (Ret VNil)
        else vthen (optional args 1 to_integer_for_format (table_length tid)) (\<lambda>p.
          if unat p < 1 \<or> unat p > t_len t then raise ''position out of bounds''
          else if unat p > TABLE_SLOTS then vpanic
          else vnext (change_table tid (remove_slot (unat p))) (vok (Ret (snd (slots t (unat p - 1)))))))))"

section \<open>Packing and unpacking\<close>

text \<open>\<open>table.pack\<close>: the arguments and their number under the key \<open>n\<close>.\<close>

definition pack_slots :: "lval list \<Rightarrow> table_rec \<Rightarrow> table_rec" where
  "pack_slots vs t = t\<lparr>slots := (\<lambda>j. if j < length vs then (num (j + 1), vs ! j) else slots t j), t_len := length vs\<rparr>"

definition pack_count :: "strref \<Rightarrow> nat \<Rightarrow> table_rec \<Rightarrow> table_rec" where
  "pack_count key n t =
     (if t_len t < TABLE_SLOTS then t\<lparr>slots := (slots t)(t_len t := (VStr key, num n)), t_len := t_len t + 1\<rparr> else t)"

definition table_pack :: "lval list \<Rightarrow> exec_result vm" where
  "table_pack args =
     (if length args + 1 > TABLE_SLOTS then raise ''too many arguments''
      else vthen new_table (\<lambda>tid.
      vnext (change_table tid (pack_slots args))
      (vthen (vlift (intern (lit ''n''))) (\<lambda>key.
       vnext (change_table tid (pack_count key (length args))) (vok (Ret (VTable tid)))))))"

primrec push_items :: "nat \<Rightarrow> nat \<Rightarrow> nat \<Rightarrow> unit vm" where
  "push_items 0 tid k = vok ()"
| "push_items (Suc n) tid k =
     vthen (raw_get tid (num k)) (\<lambda>v. vnext (vpush v) (push_items n tid (k + 1)))"

text \<open>The part of the range \<open>i\<close> to \<open>j\<close> that lies in the table.\<close>

definition clip_low :: "i64 \<Rightarrow> i64" where "clip_low i = (if i <s 1 then 1 else i)"
definition clip_high :: "nat \<Rightarrow> i64 \<Rightarrow> i64" where
  "clip_high n j = (if word_of_nat n <s j then word_of_nat n else j)"

definition table_unpack :: "lval list \<Rightarrow> exec_result vm" where
  "table_unpack args =
     (if length args < 1 \<or> length args > 3 then raise ''table.unpack expects 1 to 3 arguments''
      else vthen (table_arg ''table.unpack expects a table'' (args ! 0)) (\<lambda>tid.
      the_table tid (\<lambda>t.
      vthen (optional args 1 to_integer_for_format (vok 1)) (\<lambda>i.
      vthen (optional args 2 to_integer_for_format (vok (word_of_nat (t_len t)))) (\<lambda>j.
        let ii = clip_low i; jj = clip_high (t_len t) j in
        if jj <s ii then vok Normal
        else let n = unat jj + 1 - unat ii in
          vnext (push_items n tid (unat ii)) (vok (RetN (n mod 256))))))))"

text \<open>\<open>table.create\<close> ignores the size.\<close>

definition table_create :: "lval list \<Rightarrow> exec_result vm" where
  "table_create args =
     (if length args < 1 \<or> length args > 2 then raise ''table.create expects 1 or 2 arguments''
      else vthen (to_integer_for_format (args ! 0)) (\<lambda>_. vthen new_table (\<lambda>tid. vok (Ret (VTable tid)))))"

section \<open>Concatenation\<close>

definition CONCAT_CAP :: nat where "CONCAT_CAP = 4096"

definition add_text :: "bytes \<Rightarrow> bytes \<Rightarrow> bytes vm" where
  "add_text out_text bs =
     (if length out_text + length bs > CONCAT_CAP then raise ''result too long'' else vok (out_text @ bs))"

definition item_bytes :: "lval \<Rightarrow> bytes vm" where
  "item_bytes v = (case v of
       VStr r \<Rightarrow> vchecked (\<lambda>s. str_bytes s r) | VNum n \<Rightarrow> vok (itoa n) | VFloat f \<Rightarrow> vok (fmt_float f)
     | _ \<Rightarrow> raise ''invalid value in table for concat'')"

primrec concat_items :: "nat \<Rightarrow> nat \<Rightarrow> nat \<Rightarrow> bool \<Rightarrow> bytes \<Rightarrow> bytes \<Rightarrow> bytes vm" where
  "concat_items 0 tid k sep_first sep out_text = vok out_text"
| "concat_items (Suc n) tid k sep_first sep out_text =
     vthen (raw_get tid (num k)) (\<lambda>v.
     if \<not> is_text v then raise ''invalid value in table for concat''
     else vthen (if sep_first \<and> sep \<noteq> [] then add_text out_text sep else vok out_text) (\<lambda>out_text.
       vthen (item_bytes v) (\<lambda>bs. vthen (add_text out_text bs) (concat_items n tid (k + 1) True sep))))"

definition str_arg :: "string \<Rightarrow> lval \<Rightarrow> bytes vm" where
  "str_arg msg v = (case v of VStr r \<Rightarrow> vchecked (\<lambda>s. str_bytes s r) | _ \<Rightarrow> raise msg)"

definition ret_str :: "bytes \<Rightarrow> exec_result vm" where
  "ret_str bs = vthen (vlift (intern bs)) (\<lambda>r. vok (Ret (VStr r)))"

definition table_concat :: "lval list \<Rightarrow> exec_result vm" where
  "table_concat args =
     (if length args < 1 \<or> length args > 4 then raise ''table.concat expects 1 to 4 arguments''
      else vthen (table_arg ''table.concat expects a table'' (args ! 0)) (\<lambda>tid.
      the_table tid (\<lambda>t.
      vthen (optional args 1 (str_arg ''table.concat expects a string separator'') (vok [])) (\<lambda>sep.
      vthen (optional args 2 to_integer_for_format (vok 1)) (\<lambda>i.
      vthen (optional args 3 to_integer_for_format (vok (word_of_nat (t_len t)))) (\<lambda>j.
        let ii = clip_low i; jj = clip_high (t_len t) j in
        if jj <s ii then ret_str []
        else vthen (concat_items (unat jj + 1 - unat ii) tid (unat ii) False sep []) ret_str))))))"

section \<open>Moving\<close>

text \<open>One element of \<open>table.move\<close>; the indices are of \<open>usize\<close> and wrap around.\<close>

definition move_read :: "bool \<Rightarrow> nat \<Rightarrow> u64 \<Rightarrow> lval vm" where
  "move_read down tid i = the_table tid (\<lambda>t.
     if down \<and> unat i \<ge> TABLE_SLOTS then vpanic
     else if unat i < t_len t then (if unat i \<ge> TABLE_SLOTS then vpanic else vok (snd (slots t (unat i))))
     else vok VNil)"

definition move_write :: "nat \<Rightarrow> u64 \<Rightarrow> lval \<Rightarrow> unit vm" where
  "move_write tid i v = the_table tid (\<lambda>t.
     if unat i \<ge> t_len t then
       if unat i < TABLE_SLOTS then
         vsets (set_table tid (t\<lparr>slots := (slots t)(unat i := (VNum (i + 1), v)), t_len := unat i + 1\<rparr>))
       else vok ()
     else if unat i \<ge> TABLE_SLOTS then vpanic
     else vsets (set_table tid (t\<lparr>slots := (slots t)(unat i := (fst (slots t (unat i)), v))\<rparr>)))"

primrec move_items :: "bool \<Rightarrow> nat \<Rightarrow> nat \<Rightarrow> u64 \<Rightarrow> u64 \<Rightarrow> nat list \<Rightarrow> unit vm" where
  "move_items down a1 a2 f t [] = vok ()"
| "move_items down a1 a2 f t (k # ks) =
     vthen (move_read down a1 (f + word_of_nat k - 1)) (\<lambda>v.
     vnext (move_write a2 (t + word_of_nat k - 1) v) (move_items down a1 a2 f t ks))"

definition table_move :: "lval list \<Rightarrow> exec_result vm" where
  "table_move args =
     (if length args < 4 \<or> length args > 5 then raise ''table.move expects 4 or 5 arguments''
      else vthen (table_arg ''table expected'' (args ! 0)) (\<lambda>a1.
      vthen (to_integer_for_format (args ! 1)) (\<lambda>f.
      vthen (to_integer_for_format (args ! 2)) (\<lambda>e.
      vthen (to_integer_for_format (args ! 3)) (\<lambda>t.
      vthen (optional args 4 (table_arg ''table expected'') (vok a1)) (\<lambda>a2.
        if e < f then vok (Ret (VTable a2))
        else let ks = [0..<unat (e - f + 1)]; down = (a1 = a2 \<and> f < t) in
          vnext (move_items down a1 a2 f t (if down then rev ks else ks)) (vok (Ret (VTable a2)))))))))"

section \<open>Sorting\<close>

definition type_rank :: "lval \<Rightarrow> nat" where
  "type_rank v = (case v of VNil \<Rightarrow> 0 | VBool _ \<Rightarrow> 1 | VNum _ \<Rightarrow> 2 | VFloat _ \<Rightarrow> 2 | VStr _ \<Rightarrow> 3 | VTable _ \<Rightarrow> 4
     | VCo _ \<Rightarrow> 6 | _ \<Rightarrow> 5)"

definition default_less :: "lua \<Rightarrow> lval \<Rightarrow> lval \<Rightarrow> bool option" where
  "default_less s a b =
     (if type_rank a \<noteq> type_rank b then ret (type_rank a < type_rank b)
      else case (a, b) of
        (VBool x, VBool y) \<Rightarrow> ret (\<not> x \<and> y)
      | (VNum x, VNum y) \<Rightarrow> ret (x <s y)
      | (VNum x, VFloat y) \<Rightarrow> ret (f64_lt (f64_of_i64 x) y)
      | (VFloat x, VNum y) \<Rightarrow> ret (f64_lt x (f64_of_i64 y))
      | (VFloat x, VFloat y) \<Rightarrow> ret (f64_lt x y)
      | (VStr x, VStr y) \<Rightarrow> do { bx \<leftarrow> str_bytes s x; by \<leftarrow> str_bytes s y; ret (ord_class.lexordp bx by) }
      | _ \<Rightarrow> ret False)"

definition enter_mm :: "unit vm" where
  "enter_mm = (\<lambda>s. if mm_depth s \<ge> MAX_MM_DEPTH then (Throw (Msg ''metamethod chain too long (possible loop)''), s)
     else (Fine (), s\<lparr>mm_depth := mm_depth s + 1\<rparr>))"

definition leaving_mm :: "'a vm \<Rightarrow> 'a vm" where
  "leaving_mm m = (\<lambda>s. case m s of (r, s') \<Rightarrow> (r, s'\<lparr>mm_depth := mm_depth s' - 1\<rparr>))"

text \<open>The answer of a comparator called with the two values.\<close>

definition compared :: "vcalls \<Rightarrow> lval \<Rightarrow> lval \<Rightarrow> lval \<Rightarrow> bool vm" where
  "compared rec c v w = vreads (\<lambda>s. let base = vsp s in
     vnext enter_mm (vnext (vpush v) (vnext (vpush w)
     (vthen (leaving_mm (call_value rec c 2)) (\<lambda>r.
      vthen (case r of Ret x \<Rightarrow> vok x | Ret2 x _ \<Rightarrow> vok x | RetN n \<Rightarrow> if n > 0 then at_stack base else vok VNil
              | _ \<Rightarrow> vok VNil) (\<lambda>x.
      vnext (set_vsp base) (vok (truthy x))))))))"

definition sort_less :: "vcalls \<Rightarrow> lval option \<Rightarrow> lval \<Rightarrow> lval \<Rightarrow> bool vm" where
  "sort_less rec cmp v w = (case cmp of Some c \<Rightarrow> compared rec c v w | None \<Rightarrow> vchecked (\<lambda>s. default_less s v w))"

definition slot_value :: "nat \<Rightarrow> nat \<Rightarrow> lval vm" where
  "slot_value tid i = the_table tid (\<lambda>t. if i < TABLE_SLOTS then vok (snd (slots t i)) else vpanic)"

definition put_value :: "nat \<Rightarrow> nat \<Rightarrow> lval \<Rightarrow> unit vm" where
  "put_value tid i v =
     (if i < TABLE_SLOTS then change_table tid (\<lambda>t. t\<lparr>slots := (slots t)(i := (fst (slots t i), v))\<rparr>) else vpanic)"

text \<open>The insertion sort: the value moves down past those it is less than.\<close>

primrec sift :: "vcalls \<Rightarrow> lval option \<Rightarrow> nat \<Rightarrow> lval \<Rightarrow> nat \<Rightarrow> unit vm" where
  "sift rec cmp tid v 0 = put_value tid 0 v"
| "sift rec cmp tid v (Suc j) =
     vthen (slot_value tid j) (\<lambda>w.
     vthen (sort_less rec cmp v w) (\<lambda>less.
       if less then vthen (slot_value tid j) (\<lambda>w. vnext (put_value tid (Suc j) w) (sift rec cmp tid v j))
       else put_value tid (Suc j) v))"

primrec sort_loop :: "vcalls \<Rightarrow> lval option \<Rightarrow> nat \<Rightarrow> nat list \<Rightarrow> unit vm" where
  "sort_loop rec cmp tid [] = vok ()"
| "sort_loop rec cmp tid (i # is) =
     vthen (slot_value tid i) (\<lambda>v. vnext (sift rec cmp tid v i) (sort_loop rec cmp tid is))"

definition rekey :: "nat \<Rightarrow> table_rec \<Rightarrow> table_rec" where
  "rekey n t = t\<lparr>slots := (\<lambda>j. if j < n then (num (j + 1), snd (slots t j)) else slots t j)\<rparr>"

definition table_sort :: "vcalls \<Rightarrow> lval list \<Rightarrow> exec_result vm" where
  "table_sort rec args =
     (if length args < 1 \<or> length args > 2 then raise ''table.sort expects 1 or 2 arguments''
      else vthen (table_arg ''table.sort expects a table'' (args ! 0)) (\<lambda>tid.
      the_table tid (\<lambda>t.
      vnext (sort_loop rec (if length args = 2 then Some (args ! 1) else None) tid [1..<t_len t])
      (if t_len t > TABLE_SLOTS then vpanic
       else vnext (change_table tid (rekey (t_len t))) (vok Normal)))))"


section \<open>The sorted order\<close>

definition ins :: "('a \<Rightarrow> 'a \<Rightarrow> bool) \<Rightarrow> 'a \<Rightarrow> 'a list \<Rightarrow> 'a list" where
  "ins lt v xs = rev (dropWhile (lt v) (rev xs)) @ v # rev (takeWhile (lt v) (rev xs))"

lemma ins_simps [simp]: "ins lt v [] = [v]" "ins lt v (xs @ [w]) = (if lt v w then ins lt v xs @ [w] else xs @ [w, v])"
  by (simp_all add: ins_def)

lemma mset_ins [simp]: "mset (ins lt v xs) = add_mset v (mset xs)"
  by (induction xs rule: rev_induct) simp_all

lemma set_ins [simp]: "set (ins lt v xs) = insert v (set xs)"
  by (metis mset_ins set_mset_add_mset_insert set_mset_mset)

lemma length_ins [simp]: "length (ins lt v xs) = Suc (length xs)"
  by (metis mset_ins size_add_mset size_mset)

text \<open>What the sort asks of a comparison: a strict weak order on the values of the table.\<close>

locale weak_order =
  fixes lt :: "'a \<Rightarrow> 'a \<Rightarrow> bool" and A :: "'a set"
  assumes asym: "x \<in> A \<Longrightarrow> y \<in> A \<Longrightarrow> lt x y \<Longrightarrow> \<not> lt y x"
    and neg_trans: "x \<in> A \<Longrightarrow> y \<in> A \<Longrightarrow> z \<in> A \<Longrightarrow> \<not> lt x y \<Longrightarrow> \<not> lt y z \<Longrightarrow> \<not> lt x z"
begin

abbreviation in_order :: "'a list \<Rightarrow> bool" where
  "in_order xs \<equiv> sorted_wrt (\<lambda>x y. \<not> lt y x) xs"

lemma in_order_ins:
  assumes "set xs \<subseteq> A" and "v \<in> A" and "in_order xs"
  shows "in_order (ins lt v xs)"
  using assms
proof (induction xs rule: rev_induct)
  case (snoc w xs)
  then have xs: "in_order xs" "set xs \<subseteq> A" "w \<in> A" "v \<in> A" "\<forall>x\<in>set xs. \<not> lt w x"
    by (auto simp: sorted_wrt_append)
  show ?case
  proof (cases "lt v w")
    case True
    with snoc.IH [OF xs(2,4,1)] xs asym [of v w] show ?thesis
      by (auto simp: sorted_wrt_append)
  next
    case False
    with xs neg_trans [of v w] show ?thesis
      by (auto simp: sorted_wrt_append)
  qed
qed simp

lemma in_order_sort:
  assumes "set xs \<subseteq> A" and "set ys \<subseteq> A" and "in_order xs"
  shows "in_order (foldl (\<lambda>zs v. ins lt v zs) xs ys)"
  using assms by (induction ys arbitrary: xs) (simp_all add: in_order_ins)

end

lemma mset_sort: "mset (foldl (\<lambda>zs v. ins lt v zs) xs ys) = mset xs + mset ys"
  by (induction ys arbitrary: xs) simp_all

text \<open>The default order on all values but floats.\<close>

definition less_in :: "lua \<Rightarrow> lval \<Rightarrow> lval \<Rightarrow> bool" where
  "less_in s v w \<longleftrightarrow> default_less s v w = Some True"

definition ordered :: "lua \<Rightarrow> lval \<Rightarrow> bool" where
  "ordered s v \<longleftrightarrow> (case v of VFloat _ \<Rightarrow> False | VStr r \<Rightarrow> str_bytes s r \<noteq> None | _ \<Rightarrow> True)"

text \<open>A key of the order: the rank, then a number, then bytes.\<close>

definition sort_key_of :: "lua \<Rightarrow> lval \<Rightarrow> nat \<times> int \<times> bytes" where
  "sort_key_of s v = (type_rank v, (case v of VBool b \<Rightarrow> of_bool b | VNum n \<Rightarrow> sint n | _ \<Rightarrow> 0),
     (case v of VStr r \<Rightarrow> the (str_bytes s r) | _ \<Rightarrow> []))"

definition key_less :: "nat \<times> int \<times> bytes \<Rightarrow> nat \<times> int \<times> bytes \<Rightarrow> bool" where
  "key_less = (\<lambda>(a, b, c) (a', b', c'). a < a' \<or> a = a' \<and> (b < b' \<or> b = b' \<and> ord_class.lexordp c c'))"

lemma default_less_key:
  assumes "ordered s v" and "ordered s w"
  shows "default_less s v w = Some (key_less (sort_key_of s v) (sort_key_of s w))"
  using assms
  by (cases v; cases w)
    (auto simp: default_less_def type_rank_def ordered_def key_less_def sort_key_of_def word_sless_alt)

lemma key_less_asym: "key_less x y \<Longrightarrow> \<not> key_less y x"
  by (auto simp: key_less_def dest: lexordp_antisym)

lemma key_less_trans: "key_less x y \<Longrightarrow> key_less y z \<Longrightarrow> key_less x z"
  by (auto simp: key_less_def intro: lexordp_trans)

lemma key_less_total: "\<not> key_less x y \<Longrightarrow> x = y \<or> key_less y x"
  using lexordp_linear by (auto simp: key_less_def split: prod.splits)

lemma key_less_neg_trans: "\<not> key_less x y \<Longrightarrow> \<not> key_less y z \<Longrightarrow> \<not> key_less x z"
  using key_less_trans [of y x z] key_less_total [of x y] by auto

interpretation default_order: weak_order "less_in s" "{v. ordered s v}" for s
  by unfold_locales (auto simp: less_in_def default_less_key dest: key_less_asym key_less_neg_trans)

section \<open>Sorting a table\<close>

definition vals :: "table_rec \<Rightarrow> nat \<Rightarrow> lval list" where
  "vals t n = map (\<lambda>i. snd (slots t i)) [0..<n]"

definition with_vals :: "lval list \<Rightarrow> table_rec \<Rightarrow> table_rec" where
  "with_vals xs t = t\<lparr>slots := (\<lambda>i. (fst (slots t i), if i < length xs then xs ! i else snd (slots t i)))\<rparr>"

lemma vals_simps [simp]: "vals t 0 = []" "vals t (Suc n) = vals t n @ [snd (slots t n)]" "length (vals t n) = n"
  by (simp_all add: vals_def)

lemma nth_vals [simp]: "i < n \<Longrightarrow> vals t n ! i = snd (slots t i)"
  by (simp add: vals_def)

lemma vals_with [simp]: "length xs = n \<Longrightarrow> vals (with_vals xs t) n = xs"
  by (simp add: vals_def with_vals_def list_eq_iff_nth_eq)

lemma with_vals_fields [simp]: "t_len (with_vals xs t) = t_len t" "mt (with_vals xs t) = mt t"
  by (simp_all add: with_vals_def)

lemma with_vals_twice: "length ys \<le> length xs \<Longrightarrow> with_vals xs (with_vals ys t) = with_vals xs t"
  by (auto simp: with_vals_def fun_eq_iff)

lemma with_vals_same: "with_vals (vals t n) t = t"
  by (cases t) (auto simp: with_vals_def fun_eq_iff)

lemma vals_split: "i \<le> n \<Longrightarrow> vals t n = vals t i @ map (\<lambda>k. snd (slots t k)) [i..<n]"
  by (induction n) (auto simp: le_Suc_eq)

lemma table_eqI: "(\<And>i. slots t i = slots u i) \<Longrightarrow> t_len t = t_len u \<Longrightarrow> mt t = mt u \<Longrightarrow> (t :: table_rec) = u"
  by (rule table_rec.equality) (simp_all add: fun_eq_iff)

lemma set_table_simps [simp]:
  "tbls (set_table tid t s) tid = t" "set_table tid t (set_table tid u s) = set_table tid t s"
  "set_table tid (tbls s tid) s = s" "vstack (set_table tid t s) = vstack s" "vsp (set_table tid t s) = vsp s"
  "str_bytes (set_table tid t s) r = str_bytes s r"
  by (simp_all add: set_table_def str_bytes_def)

lemma default_less_set_table [simp]: "default_less (set_table tid t s) v w = default_less s v w"
  by (simp add: default_less_def cong: if_cong lval.case_cong prod.case_cong)

lemma the_table_run: "tid < MAX_TABLES \<Longrightarrow> the_table tid k s = k (tbls s tid) s"
  by (simp add: the_table_def vm_simps)

lemma change_table_run: "tid < MAX_TABLES \<Longrightarrow> change_table tid g s = (Fine (), set_table tid (g (tbls s tid)) s)"
  by (simp add: change_table_def the_table_run vm_simps)

lemma sort_less_run:
  "ordered s v \<Longrightarrow> ordered s w \<Longrightarrow> sort_less rec None v w s = (Fine (less_in s v w), s)"
  by (simp add: sort_less_def vchecked_def default_less_key less_in_def)

lemma sift_run:
  assumes "tid < MAX_TABLES" and "j < TABLE_SLOTS" and "ordered s v" and "\<forall>x\<in>set (vals (tbls s tid) j). ordered s x"
  shows "sift rec None tid v j s =
    (Fine (), set_table tid (with_vals (ins (less_in s) v (vals (tbls s tid) j)) (tbls s tid)) s)"
  using assms
proof (induction j arbitrary: s)
  case 0
  then show ?case
    by (auto simp: put_value_def change_table_run with_vals_def fun_eq_iff intro!: arg_cong [where f = "\<lambda>t. set_table tid t s"])
next
  case (Suc j)
  let ?t = "tbls s tid" and ?w = "snd (slots (tbls s tid) j)"
  have w: "ordered s ?w"
    using Suc.prems by simp
  have head: "sift rec None tid v (Suc j) s = (if less_in s v ?w
      then vnext (put_value tid (Suc j) ?w) (sift rec None tid v j) s else put_value tid (Suc j) v s)"
    using Suc.prems w by (simp add: vm_simps slot_value_def the_table_run sort_less_run)
  show ?case
  proof (cases "less_in s v ?w")
    case True
    let ?t1 = "?t\<lparr>slots := (slots ?t)(Suc j := (fst (slots ?t (Suc j)), ?w))\<rparr>"
    let ?s1 = "set_table tid ?t1 s"
    have same: "vals ?t1 j = vals ?t j" "less_in ?s1 = less_in s" "ordered ?s1 = ordered s"
      by (simp_all add: vals_def less_in_def ordered_def fun_eq_iff split: lval.split)
    have "sift rec None tid v j ?s1 = (Fine (), set_table tid (with_vals (ins (less_in s) v (vals ?t j)) ?t1) ?s1)"
      using Suc.prems Suc.IH [of ?s1] same by simp
    moreover have "with_vals (ins (less_in s) v (vals ?t j)) ?t1 = with_vals (ins (less_in s) v (vals ?t j) @ [?w]) ?t"
      by (rule table_eqI) (auto simp: with_vals_def nth_append less_Suc_eq)
    ultimately show ?thesis
      using Suc.prems head True by (simp add: vm_simps put_value_def change_table_run)
  next
    case False
    have "?t\<lparr>slots := (slots ?t)(Suc j := (fst (slots ?t (Suc j)), v))\<rparr> = with_vals (vals ?t j @ [?w, v]) ?t"
      by (intro table_eqI) (auto simp: with_vals_def nth_append less_Suc_eq nth_Cons')
    with Suc.prems head False show ?thesis
      by (simp add: put_value_def change_table_run)
  qed
qed

lemma sort_loop_run:
  assumes "tid < MAX_TABLES" and "n \<le> TABLE_SLOTS" and "\<forall>x\<in>set (vals (tbls s tid) n). ordered s x" and "i \<le> n"
  shows "sort_loop rec None tid [i..<n] s = (Fine (), set_table tid (with_vals
    (foldl (\<lambda>zs v. ins (less_in s) v zs) (vals (tbls s tid) i) (map (\<lambda>k. snd (slots (tbls s tid) k)) [i..<n])) (tbls s tid)) s)"
  using assms
proof (induction "n - i" arbitrary: i s)
  case 0
  then have "i = n"
    by simp
  then show ?case
    by (simp add: vm_simps with_vals_same)
next
  case (Suc d)
  then have i: "i < n"
    by simp
  let ?t = "tbls s tid" and ?v = "snd (slots (tbls s tid) i)"
  let ?t1 = "with_vals (ins (less_in s) ?v (vals ?t i)) ?t"
  let ?s1 = "set_table tid ?t1 s"
  have ord: "\<forall>x\<in>set (vals ?t n). ordered s x"
    by (fact Suc.prems)
  have sub: "set (vals ?t i) \<subseteq> set (vals ?t n)" "?v \<in> set (vals ?t n)"
    using i by (auto simp: vals_def)
  have sift: "sift rec None tid ?v i s = (Fine (), ?s1)"
    using Suc.prems i ord sub by (intro sift_run) auto
  have rest: "snd (slots ?t1 k) = snd (slots ?t k)" if "k > i" for k
    using that by (simp add: with_vals_def)
  have vals1: "vals ?t1 (Suc i) = ins (less_in s) ?v (vals ?t i)"
    by (rule vals_with) simp
  have same: "less_in ?s1 = less_in s" "ordered ?s1 = ordered s"
    by (simp_all add: less_in_def ordered_def fun_eq_iff split: lval.split)
  have "vals ?t1 n = vals ?t1 (Suc i) @ map (\<lambda>k. snd (slots ?t1 k)) [Suc i..<n]"
    using i by (intro vals_split) simp
  then have "vals ?t1 n = ins (less_in s) ?v (vals ?t i) @ map (\<lambda>k. snd (slots ?t k)) [Suc i..<n]"
    using rest unfolding vals1 by simp
  moreover have "snd (slots ?t k) \<in> set (vals ?t n)" if "k < n" for k
    using that by (auto simp: vals_def)
  ultimately have "set (vals ?t1 n) \<subseteq> set (vals ?t n)"
    using sub by auto
  then have "\<forall>x\<in>set (vals (tbls ?s1 tid) n). ordered ?s1 x"
    using ord unfolding same set_table_simps by blast
  from Suc.hyps(1) [OF _ Suc.prems(1,2) this] Suc.hyps(2) i
  have "sort_loop rec None tid [Suc i..<n] ?s1 = (Fine (), set_table tid (with_vals
      (foldl (\<lambda>zs v. ins (less_in s) v zs) (vals ?t1 (Suc i)) (map (\<lambda>k. snd (slots ?t1 k)) [Suc i..<n])) ?t1) ?s1)"
    by (simp add: same del: vals_simps)
  moreover have "map (\<lambda>k. snd (slots ?t1 k)) [Suc i..<n] = map (\<lambda>k. snd (slots ?t k)) [Suc i..<n]"
    using rest by simp
  moreover have "length (foldl (\<lambda>zs v. ins (less_in s) v zs) zs ys) = length zs + length ys" for zs ys
    by (induction ys arbitrary: zs) simp_all
  ultimately have "sort_loop rec None tid [Suc i..<n] ?s1 = (Fine (), set_table tid (with_vals
      (foldl (\<lambda>zs v. ins (less_in s) v zs) (ins (less_in s) ?v (vals ?t i)) (map (\<lambda>k. snd (slots ?t k)) [Suc i..<n])) ?t) s)"
    by (simp add: vals1 with_vals_twice del: vals_simps)
  with sift i Suc.prems show ?case
    by (simp add: upt_conv_Cons vm_simps slot_value_def the_table_run)
qed

text \<open>
  C7. With the default order \<open>table.sort\<close> leaves the values of the table sorted: no later one is less than
  an earlier one, they are a permutation of the values before, and their keys are 1 to their number. It
  holds for all values but floats, mixed as they may be. The length of the table, its metatable and the
  slots beyond its length stay as they are, and so does the rest of the interpreter.
\<close>

theorem table_sort_sorts:
  assumes "tid < MAX_TABLES" and "t_len (tbls s tid) \<le> TABLE_SLOTS"
    and "\<forall>i<t_len (tbls s tid). ordered s (snd (slots (tbls s tid) i))"
  shows "\<exists>t. table_sort rec [VTable tid] s = (Fine Normal, set_table tid t s) \<and>
    t_len t = t_len (tbls s tid) \<and> mt t = mt (tbls s tid) \<and> (\<forall>i\<ge>t_len t. slots t i = slots (tbls s tid) i) \<and>
    mset (vals t (t_len t)) = mset (vals (tbls s tid) (t_len t)) \<and>
    sorted_wrt (\<lambda>v w. default_less s w v = Some False) (vals t (t_len t)) \<and>
    (\<forall>i<t_len t. fst (slots t i) = num (i + 1))"
proof -
  let ?t = "tbls s tid" and ?n = "t_len (tbls s tid)"
  have ord: "\<forall>x\<in>set (vals ?t ?n). ordered s x"
    using assms(3) by (auto simp: vals_def)
  let ?m = "min 1 ?n"
  define xs where "xs = foldl (\<lambda>zs v. ins (less_in s) v zs) (vals ?t ?m) (map (\<lambda>k. snd (slots ?t k)) [?m..<?n])"
  have split: "vals ?t ?n = vals ?t ?m @ map (\<lambda>k. snd (slots ?t k)) [?m..<?n]"
    by (intro vals_split) simp
  have "[1..<?n] = [?m..<?n]"
    by (cases ?n) auto
  then have loop: "sort_loop rec None tid [1..<?n] s = (Fine (), set_table tid (with_vals xs ?t) s)"
    unfolding xs_def using assms(1,2) ord by (simp add: sort_loop_run)
  have mset: "mset xs = mset (vals ?t ?n)"
    unfolding xs_def mset_sort using arg_cong [OF split, of mset] by simp
  then have len: "length xs = ?n" and set: "set xs = set (vals ?t ?n)"
    using mset_eq_length [OF mset] mset_eq_setD [OF mset] by simp_all
  have "\<forall>x\<in>set (vals ?t ?m) \<union> set (map (\<lambda>k. snd (slots ?t k)) [?m..<?n]). ordered s x"
    using ord arg_cong [OF split, of set] by (simp only: set_append)
  moreover have "default_order.in_order s (vals ?t ?m)"
    by (cases ?n) simp_all
  ultimately have "default_order.in_order s xs"
    unfolding xs_def by (intro default_order.in_order_sort) auto
  then have "sorted_wrt (\<lambda>v w. default_less s w v = Some False) xs"
    by (rule sorted_wrt_mono_rel [rotated]) (use ord set in \<open>auto simp: less_in_def default_less_key\<close>)
  moreover have "vals (rekey ?n (with_vals xs ?t)) ?n = xs"
    using len by (simp add: rekey_def with_vals_def vals_def list_eq_iff_nth_eq)
  moreover have "table_sort rec [VTable tid] s = (Fine Normal, set_table tid (rekey ?n (with_vals xs ?t)) s)"
    using assms(1,2) loop by (simp add: table_sort_def table_arg_def vm_simps the_table_run change_table_run)
  ultimately show ?thesis
    using mset len by (intro exI [of _ "rekey ?n (with_vals xs ?t)"]) (simp add: rekey_def with_vals_def)
qed

text \<open>A table of three strings and numbers, out of order.\<close>

definition unsorted :: lua where
  "unsorted = new_lua\<lparr>tbls := (\<lambda>_. \<lparr>slots = (\<lambda>i. (num (i + 1), [VNum 3, VBool True, VNum 2] ! i)), t_len = 3, mt = None\<rparr>)\<rparr>"

lemma table_sort_sorts_witness:
  "\<exists>t. table_sort (\<lambda>_. vpanic) [VTable 1] unsorted = (Fine Normal, set_table 1 t unsorted) \<and> t_len t = 3 \<and> mt t = None \<and>
    mset (vals t 3) = {#VNum 3, VBool True, VNum 2#} \<and>
    sorted_wrt (\<lambda>v w. default_less unsorted w v = Some False) (vals t 3)"
proof -
  have "vals (tbls unsorted 1) 3 = [VNum 3, VBool True, VNum 2]"
    by (simp add: unsorted_def vals_def numeral_3_eq_3)
  moreover have "t_len (tbls unsorted 1) = 3" "(1 :: nat) < MAX_TABLES" "3 \<le> TABLE_SLOTS"
    "\<forall>i<3. ordered unsorted (snd (slots (tbls unsorted 1) i))"
    by (auto simp: unsorted_def lua_caps ordered_def less_Suc_eq numeral_3_eq_3)
  moreover have "mt (tbls unsorted 1) = None"
    by (simp add: unsorted_def)
  ultimately show ?thesis
    using table_sort_sorts [of 1 unsorted "\<lambda>_. vpanic"] by auto
qed

section \<open>Arrays\<close>

definition is_array :: "table_rec \<Rightarrow> bool" where
  "is_array t \<longleftrightarrow> (\<forall>i<t_len t. fst (slots t i) = num (i + 1))"

definition items :: "table_rec \<Rightarrow> lval list" where "items t = vals t (t_len t)"

lemma nth_items: "i < t_len t \<Longrightarrow> items t ! i = snd (slots t i)" "length (items t) = t_len t"
  by (simp_all add: items_def)

lemma insert_slot_array:
  assumes "is_array t" and "1 \<le> pos" and "pos \<le> t_len t + 1"
  shows "is_array (insert_slot pos v t)" and "items (insert_slot pos v t) = take (pos - 1) (items t) @ v # drop (pos - 1) (items t)"
    and "t_len (insert_slot pos v t) = t_len t + 1"
proof -
  show "is_array (insert_slot pos v t)" "t_len (insert_slot pos v t) = t_len t + 1"
    using assms by (auto simp: is_array_def insert_slot_def)
  show "items (insert_slot pos v t) = take (pos - 1) (items t) @ v # drop (pos - 1) (items t)"
    using assms
    by (intro nth_equalityI) (auto simp: nth_items insert_slot_def nth_append nth_Cons' min_def)
qed

lemma remove_slot_array:
  assumes "is_array t" and "1 \<le> pos" and "pos \<le> t_len t"
  shows "is_array (remove_slot pos t)" and "items (remove_slot pos t) = take (pos - 1) (items t) @ drop pos (items t)"
    and "t_len (remove_slot pos t) = t_len t - 1"
proof -
  show "is_array (remove_slot pos t)" "t_len (remove_slot pos t) = t_len t - 1"
    using assms by (auto simp: is_array_def remove_slot_def)
  show "items (remove_slot pos t) = take (pos - 1) (items t) @ drop pos (items t)"
    using assms
    by (intro nth_equalityI) (auto simp: nth_items remove_slot_def nth_append min_def)
qed

lemma unat_pos: "n \<le> TABLE_SLOTS + 1 \<Longrightarrow> unat (word_of_nat n :: 64 word) = n"
  by (simp add: TABLE_SLOTS_def unat_of_nat)

lemma sint_pos: "n \<le> TABLE_SLOTS + 1 \<Longrightarrow> sint (word_of_nat n :: 64 word) = int n"
  by (simp add: TABLE_SLOTS_def signed_of_nat signed_take_bit_int_eq_self)

text \<open>
  C14. In a table that is an array, \<open>table.insert\<close> at a position puts the value there and moves the later
  ones up, and \<open>table.remove\<close> at that position gives the value back and restores the sequence; both
  leave an array.
\<close>

theorem table_insert_remove:
  assumes "tid < MAX_TABLES" and "is_array (tbls s tid)" and "1 \<le> pos" and "pos \<le> t_len (tbls s tid) + 1"
    and "t_len (tbls s tid) < TABLE_SLOTS"
  shows "\<exists>t u. table_insert [VTable tid, num pos, v] s = (Fine Normal, set_table tid t s) \<and> is_array t \<and>
    items t = take (pos - 1) (items (tbls s tid)) @ v # drop (pos - 1) (items (tbls s tid)) \<and>
    table_remove [VTable tid, num pos] (set_table tid t s) = (Fine (Ret v), set_table tid u s) \<and> is_array u \<and>
    items u = items (tbls s tid)"
proof -
  let ?t = "insert_slot pos v (tbls s tid)" and ?u = "remove_slot pos (insert_slot pos v (tbls s tid))"
  note t = insert_slot_array [OF assms(2-4), of v]
  note u = remove_slot_array [OF t(1) assms(3)]
  have pos: "unat (word_of_nat pos :: i64) = pos" "sint (word_of_nat pos :: i64) = int pos"
    using assms(4,5) by (simp_all add: unat_pos sint_pos)
  have "table_insert [VTable tid, num pos, v] s = (Fine Normal, set_table tid ?t s)"
    using assms pos by (simp add: table_insert_def table_arg_def vm_simps to_integer_for_format_def whole_number_def num_def
        the_table_run change_table_run word_sless_alt)
  moreover have "snd (slots ?t (pos - 1)) = v"
    using assms by (auto simp: insert_slot_def)
  then have "table_remove [VTable tid, num pos] (set_table tid ?t s) = (Fine (Ret v), set_table tid ?u s)"
    using assms pos t by (simp add: table_remove_def table_arg_def vm_simps to_integer_for_format_def whole_number_def num_def
        the_table_run change_table_run optional_def)
  moreover have "items ?u = items (tbls s tid)"
    using assms t u by (simp add: nth_items)
  ultimately show ?thesis
    using t u assms by (intro exI [of _ ?t] exI [of _ ?u]) simp
qed

lemma table_insert_remove_witness:
  "\<exists>t u. table_insert [VTable 0, num 2, VNil] unsorted = (Fine Normal, set_table 0 t unsorted) \<and>
    items t = [VNum 3, VNil, VBool True, VNum 2] \<and>
    table_remove [VTable 0, num 2] (set_table 0 t unsorted) = (Fine (Ret VNil), set_table 0 u unsorted) \<and>
    items u = [VNum 3, VBool True, VNum 2]"
proof -
  have "items (tbls unsorted 0) = [VNum 3, VBool True, VNum 2]"
    by (simp add: unsorted_def items_def vals_def numeral_3_eq_3)
  with table_insert_remove [of 0 unsorted 2 VNil] show ?thesis
    by (auto simp: unsorted_def lua_caps is_array_def)
qed

section \<open>Packing and unpacking\<close>

definition entry :: "table_rec \<Rightarrow> lval \<Rightarrow> lval" where
  "entry t k = (case slot_of t k of Some i \<Rightarrow> snd (slots t i) | None \<Rightarrow> VNil)"

lemma raw_get_entry: "tid < MAX_TABLES \<Longrightarrow> raw_get tid k s = (Fine (entry (tbls s tid) k), s)"
  by (simp add: raw_get_def vm_simps entry_def)

lemma push_items_run:
  assumes "tid < MAX_TABLES" and "vsp s + n \<le> STACK_CAP"
  shows "\<exists>vs. push_items n tid k s = (Fine (), s\<lparr>vstack := vs, vsp := vsp s + n\<rparr>) \<and> (\<forall>i<vsp s. vs i = vstack s i) \<and>
    (\<forall>j<n. vs (vsp s + j) = entry (tbls s tid) (num (k + j)))"
  using assms
proof (induction n arbitrary: s k)
  case 0
  have "s\<lparr>vstack := vstack s, vsp := vsp s + 0\<rparr> = s" by simp
  then show ?case
    by (intro exI [of _ "vstack s"]) (simp add: vm_simps)
next
  case (Suc n)
  let ?v = "entry (tbls s tid) (num k)"
  let ?s1 = "s\<lparr>vstack := (vstack s)(vsp s := ?v), vsp := vsp s + 1\<rparr>"
  obtain vs where vs: "push_items n tid (k + 1) ?s1 = (Fine (), ?s1\<lparr>vstack := vs, vsp := vsp ?s1 + n\<rparr>)"
    "\<forall>i<vsp ?s1. vs i = vstack ?s1 i" "\<forall>j<n. vs (vsp ?s1 + j) = entry (tbls ?s1 tid) (num (k + 1 + j))"
    using Suc.IH [of ?s1 "k + 1"] Suc.prems by auto
  have "push_items (Suc n) tid k s = (Fine (), s\<lparr>vstack := vs, vsp := vsp s + Suc n\<rparr>)"
    using Suc.prems vs(1) by (simp add: vm_simps raw_get_entry vpush_def vlift_def push_val_def)
  moreover have "vs (vsp s + j) = entry (tbls s tid) (num (k + j))" if "j < Suc n" for j
    using vs(2,3) that by (cases j) auto
  ultimately show ?case
    using vs(2) by (intro exI [of _ vs]) auto
qed

lemma num_eq: "a \<le> TABLE_SLOTS + 1 \<Longrightarrow> b \<le> TABLE_SLOTS + 1 \<Longrightarrow> num a = num b \<longleftrightarrow> a = b"
  by (metis num_def lval.inject(2) unat_pos)

lemma val_eq_num: "val_eq (num a) (num b) \<longleftrightarrow> num a = num b" "\<not> val_eq (VStr r) (num b)"
  by (simp_all add: val_eq_def num_def)

text \<open>The entries of a packed table, and none after the last.\<close>

lemma packed_entry:
  assumes "length vs < TABLE_SLOTS" and "1 \<le> k" and "k \<le> length vs + 1"
  shows "entry (pack_count key (length vs) (pack_slots vs t)) (num k) = (if k \<le> length vs then vs ! (k - 1) else VNil)"
proof -
  let ?t = "pack_count key (length vs) (pack_slots vs t)"
  have t: "t_len ?t = Suc (length vs)" "fst (slots ?t (length vs)) = VStr key"
    "i < length vs \<Longrightarrow> slots ?t i = (num (i + 1), vs ! i)" for i
    using assms(1) by (simp_all add: pack_count_def pack_slots_def)
  have hit: "val_eq (fst (slots ?t i)) (num k) \<longleftrightarrow> i < length vs \<and> i + 1 = k" if "i < t_len ?t" for i
    using that t assms by (cases "i < length vs") (auto simp: val_eq_num num_eq less_Suc_eq)
  show ?thesis
  proof (cases "k \<le> length vs")
    case True
    then have "slot_of ?t (num k) = Some (k - 1)"
      unfolding slot_of_def find_upt_Some using assms t(1) hit by auto
    with True assms t show ?thesis
      by (simp add: entry_def)
  next
    case False
    then have "slot_of ?t (num k) = None"
      unfolding slot_of_def find_None_iff using hit by auto
    with False show ?thesis
      by (simp add: entry_def)
  qed
qed

lemma intern_tables:
  "intern bs (s\<lparr>ntables := n, tbls := tb\<rparr>) = (fst (intern bs s), (snd (intern bs s))\<lparr>ntables := n, tbls := tb\<rparr>)"
proof -
  have "reg_matches (s\<lparr>ntables := n, tbls := tb\<rparr>) bs = reg_matches s bs"
    by (simp add: reg_matches_def fun_eq_iff)
  then show ?thesis
    by (simp add: intern_def Let_def cong: if_cong split: option.split)
qed

text \<open>
  C18. \<open>table.unpack\<close> after \<open>table.pack\<close> gives the values packed, but one more: the entry \<open>n\<close> counts as an
  element, so that a \<open>nil\<close> follows the values, for every number of values.
\<close>

theorem table_pack_unpack:
  assumes "length vs < TABLE_SLOTS" and "ntables s < MAX_TABLES" and "intern (lit ''n'') s = (Ok key, s1)"
    and "vsp s1 + length vs < STACK_CAP"
  shows "\<exists>s2 s3. table_pack vs s = (Fine (Ret (VTable (ntables s))), s2) \<and>
    table_unpack [VTable (ntables s)] s2 = (Fine (RetN (length vs + 1)), s3) \<and> vsp s3 = vsp s2 + length vs + 1 \<and>
    (\<forall>j<length vs. vstack s3 (vsp s2 + j) = vs ! j) \<and> vstack s3 (vsp s2 + length vs) = VNil"
proof -
  let ?tid = "ntables s" and ?empty = "\<lparr>slots = (\<lambda>_. (VNil, VNil)), t_len = 0, mt = None\<rparr>"
  let ?t = "pack_count key (length vs) (pack_slots vs ?empty)"
  let ?s2 = "s1\<lparr>tbls := (tbls s)(?tid := ?t), ntables := ?tid + 1\<rparr>"
  have pack: "table_pack vs s = (Fine (Ret (VTable ?tid)), ?s2)"
    using assms(1-3) by (simp add: table_pack_def new_table_def vm_simps change_table_run set_table_def vlift_def
        intern_tables fun_upd_def [symmetric])
  have len: "t_len ?t = length vs + 1"
    using assms(1) by (simp add: pack_count_def pack_slots_def)
  obtain st where st: "push_items (length vs + 1) ?tid 1 ?s2 = (Fine (), ?s2\<lparr>vstack := st, vsp := vsp ?s2 + (length vs + 1)\<rparr>)"
    "\<forall>j<length vs + 1. st (vsp ?s2 + j) = entry (tbls ?s2 ?tid) (num (1 + j))"
    using push_items_run [of ?tid ?s2 "length vs + 1" 1] assms by auto
  have "table_unpack [VTable ?tid] ?s2 = (Fine (RetN (length vs + 1)), ?s2\<lparr>vstack := st, vsp := vsp ?s2 + (length vs + 1)\<rparr>)"
    using assms len st(1) unat_pos [of "length vs + 1"] sint_pos [of "length vs + 1"]
    by (simp add: table_unpack_def table_arg_def vm_simps the_table_run optional_def clip_low_def clip_high_def
        word_sless_alt TABLE_SLOTS_def)
  then show ?thesis
    using pack st(2) assms(1) by (intro exI conjI) (auto simp: packed_entry)
qed

lemma table_pack_unpack_witness:
  "\<exists>s2 s3. table_pack [VNum 5, VNum 6] new_lua = (Fine (Ret (VTable 0)), s2) \<and>
    table_unpack [VTable 0] s2 = (Fine (RetN 3), s3) \<and> vstack s3 (vsp s2 + 2) = VNil"
proof -
  obtain key s1 where "intern (lit ''n'') new_lua = (Ok key, s1)" "vsp s1 = 0"
    by (simp add: intern_def new_lua_def lua_caps lit_def Let_def)
  moreover have "ntables new_lua = 0"
    by (simp add: new_lua_def)
  ultimately show ?thesis
    using table_pack_unpack [of "[VNum 5, VNum 6]" new_lua key s1]
    by (auto simp: lua_caps numeral_2_eq_2 numeral_3_eq_3)
qed

end
