(* ===== verification/LuaString.thy ===== *)
theory LuaString
  imports LuaTable LuaPattern
begin

text \<open>
  The natives of the \<open>string\<close> library of \<^verbatim>\<open>lua/src/eval.rs\<close> that work on whole strings and on
  patterns: 27 and 28, 30, 32 to 36, 39 to 41 and 43. Strings are copied out of the arena, changed and
  interned again; the theory \<open>LuaLaws\<close> says what string the result is.
\<close>

section \<open>Arguments and positions\<close>

definition strref_arg :: "string \<Rightarrow> lval \<Rightarrow> strref vm" where
  "strref_arg msg v = (case v of VStr r \<Rightarrow> vok r | _ \<Rightarrow> raise msg)"

definition bytes_of :: "strref \<Rightarrow> bytes vm" where
  "bytes_of r = vchecked (\<lambda>s. str_bytes s r)"

definition vslice :: "bytes \<Rightarrow> nat \<Rightarrow> nat \<Rightarrow> bytes vm" where
  "vslice bs a b = (case slice bs a b of None \<Rightarrow> vpanic | Some x \<Rightarrow> vok x)"

definition argc_between :: "nat \<Rightarrow> nat \<Rightarrow> string \<Rightarrow> lval list \<Rightarrow> 'a vm \<Rightarrow> 'a vm" where
  "argc_between lo hi msg args m = (if length args < lo \<or> length args > hi then raise msg else m)"

text \<open>An index from the end of the string when negative; \<open>len\<close> is of \<open>i64\<close>.\<close>

definition from_end :: "nat \<Rightarrow> i64 \<Rightarrow> i64" where
  "from_end len i = (if i <s 0 then word_of_nat len + i + 1 else i)"

text \<open>\<open>(start - 1) as usize\<close>, where the search starts.\<close>

definition start_index :: "nat \<Rightarrow> i64 \<Rightarrow> nat" where
  "start_index len init = unat (clip_low (from_end len init) - 1)"

section \<open>Bytes\<close>

definition byte_range :: "nat \<Rightarrow> i64 \<Rightarrow> i64 \<Rightarrow> nat \<times> nat" where
  "byte_range len i j =
     (let p = clip_low (from_end len i); q = clip_high len (from_end len j) in
      if q <s p then (0, 0) else (unat (p - 1), unat (q - p + 1)))"

definition string_byte :: "lval list \<Rightarrow> exec_result vm" where
  "string_byte args = argc_between 1 3 ''string.byte expects 1 to 3 arguments'' args
     (vthen (strref_arg ''string.byte expects a string'' (args ! 0)) (\<lambda>r.
      vthen (bytes_of r) (\<lambda>bs.
      vthen (optional args 1 integer_index (vok 1)) (\<lambda>i.
      vthen (optional args 2 integer_index (vok i)) (\<lambda>j.
        let (start, n) = byte_range (length bs) i j in
        if n = 0 then vok Normal
        else if start + n > length bs then vpanic
        else vnext (push_all (map (\<lambda>b. VNum (ucast b)) (take n (drop start bs)))) (vok (RetN (n mod 256))))))))"

primrec char_bytes :: "lval list \<Rightarrow> bytes vm" where
  "char_bytes [] = vok []"
| "char_bytes (v # vs) =
     vthen (integer_index v) (\<lambda>n.
     if n <s 0 \<or> 255 <s n then raise ''string.char value out of range''
     else vthen (char_bytes vs) (\<lambda>bs. vok (ucast n # bs)))"

definition string_char :: "lval list \<Rightarrow> exec_result vm" where
  "string_char args =
     (if length args > 256 then raise ''string.char expects at most 256 arguments''
      else vthen (char_bytes args) ret_str)"

section \<open>Copies\<close>

text \<open>A string, copied to a buffer of \<open>STR_CAP\<close> bytes, changed and interned.\<close>

definition copied :: "bytes \<Rightarrow> (bytes \<Rightarrow> 'a vm) \<Rightarrow> 'a vm" where
  "copied bs k = (if length bs > STR_CAP then raise ''string too long'' else k bs)"

definition string_len :: "lval list \<Rightarrow> exec_result vm" where
  "string_len args = argc_between 1 1 ''string.len expects 1 argument'' args
     (vthen (str_arg ''string.len expects a string'' (args ! 0)) (\<lambda>bs. vok (Ret (num (length bs)))))"

definition to_lower :: "u8 \<Rightarrow> u8" where "to_lower b = (if 65 \<le> b \<and> b \<le> 90 then b + 32 else b)"
definition to_upper :: "u8 \<Rightarrow> u8" where "to_upper b = (if 97 \<le> b \<and> b \<le> 122 then b - 32 else b)"

definition string_lower :: "lval list \<Rightarrow> exec_result vm" where
  "string_lower args = argc_between 1 1 ''string.lower expects 1 argument'' args
     (vthen (str_arg ''string.lower expects a string'' (args ! 0)) (\<lambda>bs. copied bs (\<lambda>bs. ret_str (map to_lower bs))))"

definition string_upper :: "lval list \<Rightarrow> exec_result vm" where
  "string_upper args = argc_between 1 1 ''string.upper expects 1 argument'' args
     (vthen (str_arg ''string.upper expects a string'' (args ! 0)) (\<lambda>bs. copied bs (\<lambda>bs. ret_str (map to_upper bs))))"

definition string_reverse :: "lval list \<Rightarrow> exec_result vm" where
  "string_reverse args = argc_between 1 1 ''string.reverse expects 1 argument'' args
     (vthen (str_arg ''string.reverse expects a string'' (args ! 0)) (\<lambda>bs. copied bs (\<lambda>bs. ret_str (rev bs))))"

definition string_sub :: "lval list \<Rightarrow> exec_result vm" where
  "string_sub args = argc_between 2 3 ''string.sub expects 2 or 3 arguments'' args
     (vthen (str_arg ''string.sub expects a string'' (args ! 0)) (\<lambda>bs. copied bs (\<lambda>bs.
      vthen (to_integer_for_format (args ! 1)) (\<lambda>i.
      vthen (optional args 2 to_integer_for_format (vok (-1))) (\<lambda>j.
        let ii = clip_low (from_end (length bs) i); jj = clip_high (length bs) (from_end (length bs) j) in
        if jj <s ii \<or> word_of_nat (length bs) <s ii then ret_str []
        else vthen (vslice bs (unat (ii - 1)) (unat jj)) ret_str)))))"

text \<open>The copies of \<open>string.rep\<close>, in a buffer of 4096 bytes.\<close>

definition add_rep :: "bytes \<Rightarrow> bytes \<Rightarrow> bytes vm" where
  "add_rep out_text bs =
     (if length out_text + length bs > CONCAT_CAP then raise ''string.rep result too long'' else vok (out_text @ bs))"

primrec rep_loop :: "nat \<Rightarrow> bool \<Rightarrow> bytes \<Rightarrow> bytes \<Rightarrow> bytes \<Rightarrow> bytes vm" where
  "rep_loop 0 later bs sep out_text = vok out_text"
| "rep_loop (Suc n) later bs sep out_text =
     vthen (if later \<and> sep \<noteq> [] then add_rep out_text sep else vok out_text) (\<lambda>out_text.
     vthen (add_rep out_text bs) (rep_loop n True bs sep))"

definition string_rep :: "lval list \<Rightarrow> exec_result vm" where
  "string_rep args = argc_between 2 3 ''string.rep expects 2 or 3 arguments'' args
     (vthen (str_arg ''string.rep expects a string'' (args ! 0)) (\<lambda>bs.
      vthen (to_integer_for_format (args ! 1)) (\<lambda>n.
      if n <s 0 then raise ''string.rep: bad count''
      else vthen (optional args 2 (str_arg ''string.rep expects a string separator'') (vok [])) (\<lambda>sep.
        vthen (rep_loop (unat n) False bs sep []) ret_str))))"

section \<open>Patterns\<close>

definition native_find :: "lval list \<Rightarrow> exec_result vm" where
  "native_find args = argc_between 2 4 ''string.find expects 2 to 4 arguments'' args
     (vthen (str_arg ''string.find expects a string subject'' (args ! 0)) (\<lambda>subject.
      vthen (str_arg ''string.find expects a string pattern'' (args ! 1)) (\<lambda>pattern.
      vthen (optional args 2 integer_index (vok 1)) (\<lambda>init.
        let plain = (length args \<ge> 4 \<and> truthy (args ! 3)); s0 = start_index (length subject) init in
        if s0 > length subject then vok (Ret VNil)
        else case string_find subject pattern s0 plain of
            None \<Rightarrow> vpanic
          | Some None \<Rightarrow> vok (Ret VNil)
          | Some (Some (a, b)) \<Rightarrow> vnext (vpush (num a)) (vnext (vpush (num b)) (vok (Ret2 (num a) (num b))))))))"

definition native_gmatch :: "lval list \<Rightarrow> exec_result vm" where
  "native_gmatch args = argc_between 2 3 ''string.gmatch expects 2 or 3 arguments'' args
     (vthen (strref_arg ''string.gmatch expects a string subject'' (args ! 0)) (\<lambda>subject.
      vthen (strref_arg ''string.gmatch expects a string pattern'' (args ! 1)) (\<lambda>pattern.
      vthen (optional args 2 integer_index (vok 1)) (\<lambda>init.
      vthen (bytes_of pattern) (\<lambda>pat.
        if \<not> valid_gmatch_pattern pat then raise ''malformed pattern (unfinished capture)''
        else vthen (bytes_of subject) (\<lambda>subj.
          vthen (vlift (alloc_gmatch subject pattern (start_index (length subj) init))) (\<lambda>gid. vok (Ret (VGmatch gid)))))))))"

primrec intern_spans :: "bytes \<Rightarrow> (nat \<times> nat) list \<Rightarrow> strref list vm" where
  "intern_spans subject [] = vok []"
| "intern_spans subject (c # cs) =
     vthen (vslice subject (fst c) (snd c)) (\<lambda>bs.
     vthen (vlift (intern bs)) (\<lambda>r. vthen (intern_spans subject cs) (\<lambda>rs. vok (r # rs))))"

definition string_match :: "lval list \<Rightarrow> exec_result vm" where
  "string_match args = argc_between 2 3 ''string.match expects 2 or 3 arguments'' args
     (vthen (strref_arg ''string.match expects a string subject'' (args ! 0)) (\<lambda>sr.
      vthen (strref_arg ''string.match expects a string pattern'' (args ! 1)) (\<lambda>pr.
      vthen (optional args 2 integer_index (vok 1)) (\<lambda>init.
      vthen (bytes_of pr) (\<lambda>pattern.
      if \<not> valid_gmatch_pattern pattern then raise ''malformed pattern (unfinished capture)''
      else vthen (bytes_of sr) (\<lambda>subject.
      if length subject > STR_CAP \<or> length pattern > STR_CAP then raise ''string too long''
      else case gm_find subject pattern (start_index (length subject) init) of
          None \<Rightarrow> vok (Ret VNil)
        | Some m \<Rightarrow>
            if length (m_caps m) \<le> 2 then
              vthen (intern_spans subject (if m_caps m = [] then [(m_start m, m_end m)] else m_caps m)) (\<lambda>rs. case rs of
                  [a, b] \<Rightarrow> vok (Ret2 (VStr a) (VStr b))
                | _ \<Rightarrow> vok (Ret (VStr (hd rs))))
            else vthen (vlift (push_captures (m_caps m) subject 0)) (\<lambda>n. vok (RetN n))))))))"

section \<open>Substitution\<close>

definition REPL_CAP :: nat where "REPL_CAP = 4096"

definition add_to :: "nat \<Rightarrow> bytes \<Rightarrow> bytes \<Rightarrow> bytes vm" where
  "add_to cap out_text bs =
     (if length out_text + length bs > cap then raise ''string.gsub result too long'' else vok (out_text @ bs))"

text \<open>A replacement string: \<open>%0\<close> is the match, \<open>%1\<close> to \<open>%9\<close> its captures, \<open>%%\<close> a percent sign.\<close>

fun expand :: "bytes \<Rightarrow> bytes \<Rightarrow> gmatch_match \<Rightarrow> bytes \<Rightarrow> bytes vm" where
  "expand [] subject m out_text = vok out_text"
| "expand (c # r) subject m out_text =
     (if c \<noteq> 37 then vthen (add_to REPL_CAP out_text [c]) (expand r subject m)
      else case r of
          [] \<Rightarrow> raise ''invalid capture index''
        | d # r' \<Rightarrow>
            if d = 37 then vthen (add_to REPL_CAP out_text [37]) (expand r' subject m)
            else if \<not> is_digit d then raise ''invalid capture index''
            else let i = unat (d - 48) in
              if i > length (m_caps m) then raise ''invalid capture index''
              else let span = (if i = 0 then (m_start m, m_end m) else m_caps m ! (i - 1)) in
                vthen (vslice subject (fst span) (snd span)) (\<lambda>bs.
                vthen (add_to REPL_CAP out_text bs) (expand r' subject m)))"

text \<open>The text a value stands for, none for \<open>nil\<close> and \<open>false\<close>.\<close>

definition value_text :: "caller \<Rightarrow> lval \<Rightarrow> bytes option vm" where
  "value_text c v =
     (if v = VNil \<or> v = VBool False then vok None
      else if is_text v then
        vthen (value_to_string c v) (\<lambda>sr. vthen (bytes_of sr) (\<lambda>bs. vthen (add_to REPL_CAP [] bs) (\<lambda>bs. vok (Some bs))))
      else raise ''invalid replacement value'')"

definition match_spans :: "gmatch_match \<Rightarrow> (nat \<times> nat) list" where
  "match_spans m = (if m_caps m = [] then [(m_start m, m_end m)] else m_caps m)"

text \<open>A replacement function, called with the captures or the match.\<close>

definition call_replacement :: "vcalls \<Rightarrow> lval \<Rightarrow> bytes \<Rightarrow> gmatch_match \<Rightarrow> bytes option vm" where
  "call_replacement rec repl subject m = vreads (\<lambda>s. let base = vsp s in
     vthen (vlift (push_captures (match_spans m) subject 0)) (\<lambda>n.
     vnext enter_mm
     (vthen (leaving_mm (call_value rec repl n)) (\<lambda>r.
      case r of
        Normal \<Rightarrow> vok None
      | Ret _ \<Rightarrow> vthen (at_stack base) (\<lambda>v. vnext (set_vsp base) (value_text (call_value rec) v))
      | Ret2 _ _ \<Rightarrow> vthen (at_stack base) (\<lambda>v. vnext (set_vsp base) (value_text (call_value rec) v))
      | RetN n \<Rightarrow> if n = 0 then vok None
          else vthen (at_stack base) (\<lambda>v. vnext (set_vsp base) (value_text (call_value rec) v))
      | _ \<Rightarrow> raise ''invalid replacement value''))))"

definition replacement :: "vcalls \<Rightarrow> lval \<Rightarrow> bytes \<Rightarrow> gmatch_match \<Rightarrow> bytes option vm" where
  "replacement rec repl subject m = (case repl of
       VStr rr \<Rightarrow> vthen (bytes_of rr) (\<lambda>rb. vthen (expand rb subject m []) (\<lambda>bs. vok (Some bs)))
     | VTable tid \<Rightarrow>
         vthen (vslice subject (fst (hd (match_spans m))) (snd (hd (match_spans m)))) (\<lambda>key.
         vthen (vlift (intern key)) (\<lambda>kr.
         vthen (raw_get tid (VStr kr)) (value_text (call_value rec))))
     | VFunc _ \<Rightarrow> call_replacement rec repl subject m
     | VClosure _ \<Rightarrow> call_replacement rec repl subject m
     | VNum _ \<Rightarrow> value_text (call_value rec) repl
     | VFloat _ \<Rightarrow> value_text (call_value rec) repl
     | _ \<Rightarrow> raise ''invalid replacement value'')"

text \<open>
  The loop: each round moves on in the subject, so that \<open>k\<close> rounds are enough when \<open>k\<close> is more than the
  length of what is left.
\<close>

primrec gsub_loop :: "nat \<Rightarrow> vcalls \<Rightarrow> lval \<Rightarrow> bytes \<Rightarrow> bytes \<Rightarrow> nat \<Rightarrow> nat \<Rightarrow> nat \<Rightarrow> bytes \<Rightarrow> (bytes \<times> nat \<times> nat) vm" where
  "gsub_loop 0 rec repl subject pattern max_n pos hits out_text = (\<lambda>s. (VFuel, s))"
| "gsub_loop (Suc k) rec repl subject pattern max_n pos hits out_text =
     (if \<not> (hits < max_n \<and> pos \<le> length subject) then vok (out_text, pos, hits)
      else case gm_find subject pattern pos of
          None \<Rightarrow> vok (out_text, pos, hits)
        | Some m \<Rightarrow>
            vthen (vslice subject pos (m_start m)) (\<lambda>prefix.
            vthen (add_to STR_CAP out_text prefix) (\<lambda>out_text.
            vthen (replacement rec repl subject m) (\<lambda>r.
            vthen (case r of Some bs \<Rightarrow> add_to STR_CAP out_text bs
                    | None \<Rightarrow> vthen (vslice subject (m_start m) (m_end m)) (add_to STR_CAP out_text)) (\<lambda>out_text.
            let hits = (if r = None then hits else hits + 1) in
            if m_end m > m_start m then gsub_loop k rec repl subject pattern max_n (m_end m) hits out_text
            else vthen (if m_start m < length subject then add_to STR_CAP out_text [subject ! m_start m] else vok out_text)
              (gsub_loop k rec repl subject pattern max_n (m_start m + 1) hits))))))"

definition string_gsub :: "vcalls \<Rightarrow> lval list \<Rightarrow> exec_result vm" where
  "string_gsub rec args = argc_between 3 4 ''string.gsub expects 3 or 4 arguments'' args
     (vthen (strref_arg ''string.gsub expects a string subject'' (args ! 0)) (\<lambda>sr.
      vthen (strref_arg ''string.gsub expects a string pattern'' (args ! 1)) (\<lambda>pr.
      vthen (optional args 3 to_integer_for_format (vok 0x7FFFFFFFFFFFFFFF)) (\<lambda>n.
      vthen (bytes_of sr) (\<lambda>subject.
      vthen (bytes_of pr) (\<lambda>pattern.
      if \<not> valid_gmatch_pattern pattern then raise ''malformed pattern (unfinished capture)''
      else if length subject > STR_CAP \<or> length pattern > STR_CAP then raise ''string too long''
      else vthen (gsub_loop (length subject + 2) rec (args ! 2) subject pattern (if n <s 0 then 0 else unat n) 0 0 [])
        (\<lambda>(out_text, pos, hits).
        vthen (add_to STR_CAP out_text (drop pos subject)) (\<lambda>out_text.
        vthen (vlift (intern out_text)) (\<lambda>r.
        vnext (vpush (VStr r)) (vnext (vpush (num hits)) (vok (Ret2 (VStr r) (num hits))))))))))))) "

end
