(* ===== verification/LuaPack.thy ===== *)
theory LuaPack
  imports LuaString
begin

text \<open>
  \<open>string.pack\<close>, \<open>string.packsize\<close> and \<open>string.unpack\<close> (natives 37, 38 and 42 of \<^verbatim>\<open>lua/src/eval.rs\<close>).
  A format is read into its options, which the three natives interpret. Positions are of \<open>usize\<close> and
  wrap around, so that the checks on them are those of the code. The theory \<open>LuaPacking\<close> proves that unpacking undoes
  packing, for every format and all values that its options can hold.
\<close>

section \<open>Formats\<close>

text \<open>The digits of a number, as a \<open>usize\<close>.\<close>

definition parse_fmt_num :: "bytes \<Rightarrow> u64 option \<times> bytes" where
  "parse_fmt_num fmt = (let ds = takeWhile is_digit fmt in
     (if ds = [] then None else Some (foldl (\<lambda>n d. n * 10 + ucast (d - 48)) 0 ds), dropWhile is_digit fmt))"

definition or_else :: "u64 option \<Rightarrow> u64 \<Rightarrow> u64" where
  "or_else n d = (case n of Some n \<Rightarrow> n | None \<Rightarrow> d)"

definition fmt_option_size :: "u8 \<Rightarrow> u64 option \<Rightarrow> u64" where
  "fmt_option_size c n =
     (if c = 98 \<or> c = 66 \<or> c = 120 then 1 else if c = 104 \<or> c = 72 then 2 else if c = 105 \<or> c = 73 then or_else n 4
      else if c \<in> {108, 76, 106, 74, 84, 100, 110} then 8 else if c = 102 then 4 else if c = 99 then or_else n 0 else 0)"

datatype pack_option =
    POrder bool | PMaxAlign u64 | PSkip | PZero | PAlign u64 | PInt nat bool | PSingle | PDouble
  | PChars u64 | PTerminated | PPrefixed u64

definition sized_int :: "u64 \<Rightarrow> bool \<Rightarrow> pack_option option" where
  "sized_int n with_minus = (if n < 1 \<or> n > 16 then None else Some (PInt (unat n) with_minus))"

text \<open>
  One option and the rest of the format; \<open>None\<close> is an invalid format. The size of \<open>s\<close> is checked by
  the natives.
\<close>

fun fmt_option :: "bytes \<Rightarrow> pack_option option \<times> bytes" where
  "fmt_option [] = (None, [])"
| "fmt_option (c # r) = (let (n, r') = parse_fmt_num r in
     if c = 60 \<or> c = 61 then (Some (POrder True), r)
     else if c = 62 then (Some (POrder False), r)
     else if c = 33 then (Some (PMaxAlign (if or_else n 0 > 0 then or_else n 0 else 16)), r')
     else if c = 32 then (Some PSkip, r)
     else if c = 120 then (Some PZero, r)
     else if c = 88 then (case r of [] \<Rightarrow> (None, [])
       | d # r \<Rightarrow> (let (n, r') = parse_fmt_num r in (Some (PAlign (fmt_option_size d n)), r')))
     else if c = 98 \<or> c = 66 then (Some (PInt 1 (c = 98)), r)
     else if c = 104 \<or> c = 72 then (Some (PInt 2 (c = 104)), r)
     else if c = 105 \<or> c = 73 then (sized_int (or_else n 4) (c = 105), r')
     else if c = 108 \<or> c = 76 then (Some (PInt 8 (c = 108)), r)
     else if c = 106 \<or> c = 74 then (Some (PInt 8 (c = 106)), r)
     else if c = 84 then (Some (PInt 8 False), r)
     else if c = 102 then (Some PSingle, r)
     else if c = 100 \<or> c = 110 then (Some PDouble, r)
     else if c = 99 then (if or_else n 0 < 1 then None else Some (PChars (or_else n 0)), r')
     else if c = 122 then (Some PTerminated, r)
     else if c = 115 then (Some (PPrefixed (if or_else n 0 = 0 then 8 else or_else n 0)), r')
     else (None, r))"

lemma fmt_option_shorter: "length (snd (fmt_option (c # r))) \<le> length r"
proof -
  have "length (snd (parse_fmt_num xs)) \<le> length xs" for xs
    by (simp add: parse_fmt_num_def Let_def length_dropWhile_le)
  then show ?thesis
    by (auto simp: split_def Let_def le_SucI split: list.split)
qed

text \<open>The options of a format, up to the first invalid one.\<close>

function fmt_options :: "bytes \<Rightarrow> pack_option option list" where
  "fmt_options [] = []"
| "fmt_options (c # r) = (case fmt_option (c # r) of
       (None, _) \<Rightarrow> [None]
     | (Some x, r') \<Rightarrow> Some x # fmt_options r')"
  by pat_completeness auto
termination
proof (relation "measure length")
  fix c :: u8 and r x y x2
  assume "(x, y) = fmt_option (c # r)"
  then have "length y \<le> length r"
    using fmt_option_shorter [of c r] by (metis snd_conv)
  then show "(y, c # r) \<in> measure length"
    by simp
qed simp

declare fmt_option.simps [simp del]

text \<open>The next position that is aligned for a size; the mask is right for powers of two.\<close>

definition align_pos :: "u64 \<Rightarrow> u64 \<Rightarrow> u64 \<Rightarrow> u64" where
  "align_pos p width align_max = (let a = min width align_max in
     if a \<le> 1 then p else if p AND (a - 1) = 0 then p else (p + a - 1) AND NOT (a - 1))"

section \<open>Single precision\<close>

text \<open>\<open>x as f32\<close>, rounded to the nearest with ties to even, and the exact \<open>x as f64\<close>.\<close>

definition f32_inf :: nat where "f32_inf = 0x7F800000"

definition f32_round :: "nat \<Rightarrow> nat \<Rightarrow> u32" where
  "f32_round n d =
     (if n = 0 then 0
      else let e = max (log2_ratio n d - 23) (- 149);
               m = (if e \<ge> 0 then round_half_even n (d * 2 ^ nat e) else round_half_even (n * 2 ^ nat (- e)) d) in
        word_of_nat (min (m + nat (e + 149) * 2 ^ 23) f32_inf))"

definition f32_of_f64 :: "f64 \<Rightarrow> u32" where
  "f32_of_f64 x =
     (if is_nan x then 0x7FC00000
      else (if f64_sign x then 0x80000000 else 0) OR
        (if is_inf x then word_of_nat f32_inf else f32_round (nat \<bar>f64_units x\<bar>) (2 ^ 1074)))"

definition f64_of_f32 :: "u32 \<Rightarrow> f64" where
  "f64_of_f32 x =
     (let neg = bit x 31; a = unat (take_bit 31 x); e = a div 2 ^ 23; m = a mod 2 ^ 23 in
      if a > f32_inf then f64_nan
      else if a = f32_inf then f64_infinite neg
      else f64_ratio neg (if e = 0 then m else (2 ^ 23 + m) * 2 ^ (e - 1)) (2 ^ 149))"

section \<open>Bytes of numbers\<close>

definition int_bytes :: "nat \<Rightarrow> u64 \<Rightarrow> bytes" where
  "int_bytes n v = map (\<lambda>k. ucast (drop_bit (8 * k) v)) [0..<n]"

definition in_order_of :: "bool \<Rightarrow> bytes \<Rightarrow> bytes" where
  "in_order_of little bs = (if little then bs else rev bs)"

text \<open>The shift of byte \<open>k\<close> is taken modulo 64.\<close>

primrec le_word :: "nat \<Rightarrow> bytes \<Rightarrow> u64" where
  "le_word k [] = 0"
| "le_word k (b # bs) = push_bit (8 * k mod 64) (ucast b) OR le_word (Suc k) bs"

definition read_int :: "bool \<Rightarrow> bool \<Rightarrow> bytes \<Rightarrow> i64" where
  "read_int little with_minus bs =
     (let v = le_word 0 (in_order_of little bs); n = length bs in
      if with_minus \<and> n < 8 \<and> bit v (8 * n - 1) then v OR NOT (mask (8 * n)) else v)"

section \<open>Packing\<close>

definition PACK_CAP :: nat where "PACK_CAP = 4096"

record packer =
  p_little :: bool
  p_align :: u64
  p_out :: bytes
  p_pos :: u64
  p_args :: "lval list"

definition new_packer :: "lval list \<Rightarrow> packer" where
  "new_packer vs = \<lparr>p_little = True, p_align = 1, p_out = replicate PACK_CAP 0, p_pos = 0, p_args = vs\<rparr>"

definition pack_align :: "u64 \<Rightarrow> packer \<Rightarrow> packer" where
  "pack_align n p = p\<lparr>p_pos := align_pos (p_pos p) n (p_align p)\<rparr>"

text \<open>\<open>n\<close> bytes at the position, checked against the end of the buffer.\<close>

definition pack_bytes :: "string \<Rightarrow> bytes \<Rightarrow> packer \<Rightarrow> packer vm" where
  "pack_bytes msg bs p =
     (let q = p_pos p + word_of_nat (length bs) in
      if unat q > length (p_out p) then raise msg
      else case put (p_out p) (unat (p_pos p)) (unat q) bs of
          None \<Rightarrow> vpanic
        | Some out_text \<Rightarrow> vok (p\<lparr>p_out := out_text, p_pos := q\<rparr>))"

definition write_int :: "nat \<Rightarrow> i64 \<Rightarrow> packer \<Rightarrow> packer vm" where
  "write_int n v p = pack_bytes ''result too long'' (in_order_of (p_little p) (int_bytes n v)) p"

definition pack_arg :: "packer \<Rightarrow> (lval \<Rightarrow> packer \<Rightarrow> packer vm) \<Rightarrow> packer vm" where
  "pack_arg p k = (case p_args p of [] \<Rightarrow> raise ''wrong number of arguments to string.pack''
     | v # vs \<Rightarrow> k v (p\<lparr>p_args := vs\<rparr>))"

definition float_arg :: "string \<Rightarrow> lval \<Rightarrow> f64 vm" where
  "float_arg msg v = (case float_of v of Some f \<Rightarrow> vok f | None \<Rightarrow> raise msg)"

text \<open>A string of a fixed size is cut or filled with zeros.\<close>

definition fixed :: "nat \<Rightarrow> bytes \<Rightarrow> bytes" where
  "fixed n bs = take n bs @ replicate (n - length bs) 0"

fun pack_item :: "pack_option \<Rightarrow> packer \<Rightarrow> packer vm" where
  "pack_item (POrder b) p = vok (p\<lparr>p_little := b\<rparr>)"
| "pack_item (PMaxAlign n) p = vok (p\<lparr>p_align := n\<rparr>)"
| "pack_item PSkip p = vok p"
| "pack_item PZero p = (if unat (p_pos p) \<ge> length (p_out p) then raise ''string.pack result too long''
     else pack_bytes ''string.pack result too long'' [0] p)"
| "pack_item (PAlign n) p = vok (pack_align n p)"
| "pack_item (PInt n with_minus) p = pack_arg p (\<lambda>v p.
     vthen (to_integer_for_format v) (\<lambda>i. write_int n i (pack_align (word_of_nat n) p)))"
| "pack_item PSingle p = pack_arg p (\<lambda>v p. vthen (float_arg ''number expected'' v) (\<lambda>f.
     pack_bytes ''result too long'' (in_order_of (p_little p) (int_bytes 4 (ucast (f32_of_f64 f)))) (pack_align 4 p)))"
| "pack_item PDouble p = pack_arg p (\<lambda>v p. vthen (float_arg ''number expected'' v) (\<lambda>f.
     pack_bytes ''result too long'' (in_order_of (p_little p) (int_bytes 8 f)) (pack_align 8 p)))"
| "pack_item (PChars n) p = pack_arg p (\<lambda>v p. vthen (str_arg ''string expected'' v) (\<lambda>bs.
     if unat (p_pos p + n) > length (p_out p) then raise ''result too long''
     else if unat n > length (p_out p) then vpanic
     else pack_bytes ''result too long'' (fixed (unat n) bs) p))"
| "pack_item PTerminated p = pack_arg p (\<lambda>v p. vthen (str_arg ''string expected'' v) (\<lambda>bs.
     pack_bytes ''result too long'' (bs @ [0]) p))"
| "pack_item (PPrefixed n) p = (if n > 16 then raise ''invalid format''
     else pack_arg p (\<lambda>v p. vthen (str_arg ''string expected'' v) (\<lambda>bs.
       vthen (write_int (unat n) (word_of_nat (length bs)) (pack_align n p)) (pack_bytes ''result too long'' bs))))"

primrec pack_items :: "pack_option option list \<Rightarrow> packer \<Rightarrow> packer vm" where
  "pack_items [] p = vok p"
| "pack_items (x # xs) p = (case x of None \<Rightarrow> raise ''invalid format''
     | Some x \<Rightarrow> vthen (pack_item x p) (pack_items xs))"

definition fmt_arg :: "bytes \<Rightarrow> 'a vm \<Rightarrow> 'a vm" where
  "fmt_arg fmt m = (if length fmt > STR_CAP then raise ''format string too long'' else m)"

definition string_pack :: "lval list \<Rightarrow> exec_result vm" where
  "string_pack args =
     (if args = [] then raise ''string.pack expects at least 1 argument''
      else vthen (str_arg ''string.pack expects a string format'' (args ! 0)) (\<lambda>fmt. fmt_arg fmt
       (vthen (pack_items (fmt_options fmt) (new_packer (tl args))) (\<lambda>p.
        vthen (vslice (p_out p) 0 (unat (p_pos p))) ret_str))))"

section \<open>Sizes\<close>

text \<open>The size so far and the largest alignment.\<close>

fun size_item :: "pack_option \<Rightarrow> u64 \<times> u64 \<Rightarrow> (u64 \<times> u64) vm" where
  "size_item (POrder b) (n, a) = vok (n, a)"
| "size_item (PMaxAlign m) (n, a) = vok (n, m)"
| "size_item PSkip (n, a) = vok (n, a)"
| "size_item PZero (n, a) = vok (n + 1, a)"
| "size_item (PAlign k) (n, a) = vok (align_pos n k a, a)"
| "size_item (PInt k with_minus) (n, a) = vok (align_pos n (word_of_nat k) a + word_of_nat k, a)"
| "size_item PSingle (n, a) = vok (align_pos n 4 a + 4, a)"
| "size_item PDouble (n, a) = vok (align_pos n 8 a + 8, a)"
| "size_item (PChars k) (n, a) = vok (n + k, a)"
| "size_item PTerminated (n, a) = raise ''variable-length format''"
| "size_item (PPrefixed k) (n, a) = raise ''variable-length format''"

primrec size_items :: "pack_option option list \<Rightarrow> u64 \<times> u64 \<Rightarrow> (u64 \<times> u64) vm" where
  "size_items [] na = vok na"
| "size_items (x # xs) na = (case x of None \<Rightarrow> raise ''invalid format''
     | Some x \<Rightarrow> vthen (size_item x na) (size_items xs))"

definition string_packsize :: "lval list \<Rightarrow> exec_result vm" where
  "string_packsize args = argc_between 1 1 ''string.packsize expects 1 argument'' args
     (vthen (str_arg ''string.packsize expects a string format'' (args ! 0)) (\<lambda>fmt. fmt_arg fmt
      (vthen (size_items (fmt_options fmt) (0, 1)) (\<lambda>(n, a). vok (Ret (VNum n))))))"

section \<open>Unpacking\<close>

record unpacker =
  u_little :: bool
  u_align :: u64
  u_pos :: u64
  u_results :: u8

definition out_of_string :: string where "out_of_string = ''string.unpack: out of string''"

definition unpack_align :: "u64 \<Rightarrow> unpacker \<Rightarrow> unpacker" where
  "unpack_align n u = u\<lparr>u_pos := align_pos (u_pos u) n (u_align u)\<rparr>"

text \<open>The next \<open>n\<close> bytes of the source.\<close>

definition unpack_bytes :: "bytes \<Rightarrow> u64 \<Rightarrow> unpacker \<Rightarrow> (bytes \<Rightarrow> unpacker \<Rightarrow> 'a vm) \<Rightarrow> 'a vm" where
  "unpack_bytes src n u k =
     (let q = u_pos u + n in
      if unat q > length src then raise out_of_string
      else vthen (vslice src (unat (u_pos u)) (unat q)) (\<lambda>bs. k bs (u\<lparr>u_pos := q\<rparr>)))"

definition unpacked :: "lval \<Rightarrow> unpacker \<Rightarrow> unpacker vm" where
  "unpacked v u = vnext (vpush v) (vok (u\<lparr>u_results := u_results u + 1\<rparr>))"

definition unpacked_str :: "bytes \<Rightarrow> unpacker \<Rightarrow> unpacker vm" where
  "unpacked_str bs u = vthen (vlift (intern bs)) (\<lambda>r. unpacked (VStr r) u)"

fun unpack_item :: "bytes \<Rightarrow> pack_option \<Rightarrow> unpacker \<Rightarrow> unpacker vm" where
  "unpack_item src (POrder b) u = vok (u\<lparr>u_little := b\<rparr>)"
| "unpack_item src (PMaxAlign n) u = vok (u\<lparr>u_align := n\<rparr>)"
| "unpack_item src PSkip u = vok u"
| "unpack_item src PZero u = (if unat (u_pos u) \<ge> length src then raise out_of_string
     else vok (u\<lparr>u_pos := u_pos u + 1\<rparr>))"
| "unpack_item src (PAlign n) u = vok (unpack_align n u)"
| "unpack_item src (PInt n with_minus) u = unpack_bytes src (word_of_nat n) (unpack_align (word_of_nat n) u)
     (\<lambda>bs u. unpacked (VNum (read_int (u_little u) with_minus bs)) u)"
| "unpack_item src PSingle u = unpack_bytes src 4 (unpack_align 4 u)
     (\<lambda>bs u. unpacked (VFloat (f64_of_f32 (ucast (le_word 0 (in_order_of (u_little u) bs))))) u)"
| "unpack_item src PDouble u = unpack_bytes src 8 (unpack_align 8 u)
     (\<lambda>bs u. unpacked (VFloat (le_word 0 (in_order_of (u_little u) bs))) u)"
| "unpack_item src (PChars n) u = unpack_bytes src n u unpacked_str"
| "unpack_item src PTerminated u =
     (let start = unat (u_pos u); end_at = start + length (takeWhile (\<lambda>b. b \<noteq> 0) (drop start src)) in
      vthen (vslice src start end_at) (\<lambda>bs.
        unpacked_str bs (u\<lparr>u_pos := word_of_nat (if end_at < length src then end_at + 1 else end_at)\<rparr>)))"
| "unpack_item src (PPrefixed n) u = (if n > 16 then raise ''invalid format''
     else unpack_bytes src n (unpack_align n u) (\<lambda>bs u.
       unpack_bytes src (le_word 0 (in_order_of (u_little u) bs)) u unpacked_str))"

primrec unpack_items :: "bytes \<Rightarrow> pack_option option list \<Rightarrow> unpacker \<Rightarrow> unpacker vm" where
  "unpack_items src [] u = vok u"
| "unpack_items src (x # xs) u = (case x of None \<Rightarrow> raise ''invalid format''
     | Some x \<Rightarrow> vthen (unpack_item src x u) (unpack_items src xs))"

definition string_unpack :: "lval list \<Rightarrow> exec_result vm" where
  "string_unpack args = argc_between 2 3 ''string.unpack expects 2 or 3 arguments'' args
     (vthen (str_arg ''string.unpack expects a string format'' (args ! 0)) (\<lambda>fmt.
      vthen (str_arg ''string.unpack expects a string'' (args ! 1)) (\<lambda>src.
      if length src > PACK_CAP then raise ''string too long''
      else vthen (optional args 2 to_integer_for_format (vok 1)) (\<lambda>i.
      if unat (i - 1) > length src then raise ''initial position out of string''
      else fmt_arg fmt
       (vthen (unpack_items src (fmt_options fmt) \<lparr>u_little = True, u_align = 1, u_pos = i - 1, u_results = 0\<rparr>) (\<lambda>u.
        vthen (unpacked (VNum (u_pos u + 1)) u) (\<lambda>u. vreads (\<lambda>s.
          if u_results u = 2 then
            vnext (set_vsp (vsp s - 2)) (vok (Ret2 (vstack s (vsp s - 2)) (vstack s (vsp s - 1))))
          else vok (RetN (unat (u_results u)))))))))))"

end
