(* ===== verification/LuaFormat.thy ===== *)
theory LuaFormat
  imports LuaPack
begin

text \<open>
  \<open>string.format\<close> (native 31 of \<^verbatim>\<open>lua/src/eval.rs\<close>). A format string is read into bytes and
  specifiers; each specifier renders one argument. The buffers are fixed (1024 bytes for a piece, 128 for
  a float, 80 for an integer) and not checked, so that large widths and precisions are panics.
\<close>

section \<open>Specifiers\<close>

definition F_LEFT :: u8 where "F_LEFT = 1"
definition F_PLUS :: u8 where "F_PLUS = 2"
definition F_SPACE :: u8 where "F_SPACE = 4"
definition F_ZERO :: u8 where "F_ZERO = 8"
definition F_HASH :: u8 where "F_HASH = 16"

record format_spec =
  f_flags :: u8
  f_width :: nat
  f_prec :: "nat option"
  f_type :: u8

definition flagged :: "format_spec \<Rightarrow> u8 \<Rightarrow> bool" where
  "flagged sp f \<longleftrightarrow> f_flags sp AND f \<noteq> 0"

definition flag_bit :: "u8 \<Rightarrow> u8 option" where
  "flag_bit c = map_of [(45, F_LEFT), (43, F_PLUS), (32, F_SPACE), (48, F_ZERO), (35, F_HASH)] c"

text \<open>A number of \<open>usize\<close>, with \<open>saturating_mul\<close> and \<open>saturating_add\<close>.\<close>

definition USIZE_MAX :: nat where "USIZE_MAX = 2 ^ 64 - 1"

definition saturating_num :: "bytes \<Rightarrow> nat" where
  "saturating_num ds = foldl (\<lambda>n d. min USIZE_MAX (min USIZE_MAX (n * 10) + unat (d - 48))) 0 ds"

definition format_types :: bytes where "format_types = lit ''sqcdiuoxXfeEgG''"

text \<open>A specifier after its \<open>%\<close>, and the rest.\<close>

definition parse_format_spec :: "bytes \<Rightarrow> string + format_spec \<times> bytes" where
  "parse_format_spec fmt =
     (let flags = takeWhile (\<lambda>c. flag_bit c \<noteq> None) fmt; r = drop (length flags) fmt;
          w = takeWhile is_digit r; r = drop (length w) r;
          dot = (r \<noteq> [] \<and> hd r = 46); p = (if dot then takeWhile is_digit (tl r) else []);
          r = (if dot then drop (length p) (tl r) else r) in
      case r of
        [] \<Rightarrow> Inl ''malformed format string''
      | ty # r' \<Rightarrow>
          if ty \<notin> set format_types then Inl ''invalid option in format string''
          else Inr (\<lparr>f_flags = foldl (\<lambda>f c. f OR the (flag_bit c)) 0 flags, f_width = saturating_num w,
            f_prec = (if dot then Some (saturating_num p) else None), f_type = ty\<rparr>, r'))"

section \<open>Layout\<close>

definition PIECE_CAP :: nat where "PIECE_CAP = 1024"

text \<open>Padding to the width; writing past the piece buffer panics.\<close>

definition apply_layout :: "bytes \<Rightarrow> bytes \<Rightarrow> bytes \<Rightarrow> format_spec \<Rightarrow> bool \<Rightarrow> bytes option" where
  "apply_layout sign prefix body sp allow_zero_pad =
     (let n = length sign + length prefix + length body; pad = f_width sp - n; left = flagged sp F_LEFT;
          zero = (\<not> left \<and> allow_zero_pad \<and> flagged sp F_ZERO \<and> f_prec sp = None) in
      if n + pad > PIECE_CAP then panic
      else if left then ret (sign @ prefix @ body @ replicate pad 32)
      else if zero then ret (sign @ prefix @ replicate pad 48 @ body)
      else ret (replicate pad 32 @ sign @ prefix @ body))"

definition sign_of :: "bool \<Rightarrow> format_spec \<Rightarrow> bytes" where
  "sign_of neg sp = (if neg then [45] else if flagged sp F_PLUS then [43] else if flagged sp F_SPACE then [32] else [])"

section \<open>Strings\<close>

definition quoted_char :: "u8 \<Rightarrow> bytes" where
  "quoted_char b =
     (if b = 92 then [92, 92] else if b = 34 then [92, 34] else if b = 10 then [92, 110] else if b = 13 then [92, 114]
      else if b = 9 then [92, 116] else if 32 \<le> b \<and> b \<le> 126 then [b]
      else [92, 48 + b div 100, 48 + (b mod 100) div 10, 48 + b mod 10])"

text \<open>Each character asks for room for four bytes.\<close>

primrec quote_loop :: "bytes \<Rightarrow> bytes \<Rightarrow> bytes option" where
  "quote_loop [] out_text = (if length out_text + 1 > PIECE_CAP then None else Some (out_text @ [34]))"
| "quote_loop (b # bs) out_text = (if length out_text + 4 > PIECE_CAP then None else quote_loop bs (out_text @ quoted_char b))"

definition quote_string :: "bytes \<Rightarrow> bytes option" where
  "quote_string bs = quote_loop bs [34]"

section \<open>Integers\<close>

definition radix_digit :: "bool \<Rightarrow> u64 \<Rightarrow> u8" where
  "radix_digit upper d = (if d < 10 then 48 + ucast d else (if upper then 65 else 97) + ucast (d - 10))"

text \<open>The digits of the loop \<open>mag % base\<close>, \<open>mag /= base\<close>, last digit first, reversed.\<close>

function radix_digits :: "bool \<Rightarrow> u64 \<Rightarrow> u64 \<Rightarrow> bytes \<Rightarrow> bytes" where
  "radix_digits upper base v acc =
     (if base \<le> 1 then acc
      else let acc = radix_digit upper (v mod base) # acc; v = v div base in
        if v = 0 then acc else radix_digits upper base v acc)"
  by pat_completeness auto
termination
proof (relation "measure (\<lambda>(upper, base, v, acc). unat v)")
  fix upper :: bool and base v y :: u64 and acc x :: bytes
  assume b: "\<not> base \<le> 1" and "x = radix_digit upper (v mod base) # acc" and y: "y = v div base" "y \<noteq> 0"
  have "unat y = unat v div unat base"
    using y by (simp add: unat_div)
  moreover have "unat y \<noteq> 0"
    using y(2) by (simp only: unat_eq_zero not_False_eq_True)
  moreover have "1 < unat base"
    using b by (simp add: word_le_nat_alt)
  moreover have "unat v \<noteq> 0"
    using \<open>unat y \<noteq> 0\<close> \<open>unat y = unat v div unat base\<close> by (intro notI) simp
  ultimately show "((upper, base, y, x), (upper, base, v, acc)) \<in> measure (\<lambda>(upper, base, v, acc). unat v)"
    by (simp add: div_less_dividend)
qed simp

declare radix_digits.simps [simp del]

definition BODY_CAP :: nat where "BODY_CAP = 80"

definition format_magnitude :: "format_spec \<Rightarrow> u64 \<Rightarrow> bool \<Rightarrow> u64 \<Rightarrow> bytes option" where
  "format_magnitude sp base neg mag =
     (let skip = (f_prec sp = Some 0 \<and> mag = 0);
          ds = (if skip then [] else radix_digits (f_type sp = 88) base mag []);
          prefix = (if flagged sp F_HASH \<and> \<not> skip then
             (if f_type sp = 111 then [48] else if f_type sp = 120 then [48, 120] else if f_type sp = 88 then [48, 88] else [])
             else []);
          zeros = (case f_prec sp of None \<Rightarrow> 0 | Some p \<Rightarrow> p - length ds) in
      if zeros + length ds > BODY_CAP then panic
      else apply_layout (sign_of neg sp) prefix (replicate zeros 48 @ ds) sp True)"

definition format_integer :: "lval \<Rightarrow> format_spec \<Rightarrow> u64 \<Rightarrow> bool \<Rightarrow> bytes vm" where
  "format_integer v sp base is_unsigned =
     vthen (to_integer_for_format v) (\<lambda>n.
       let neg = (\<not> is_unsigned \<and> n <s 0) in
       case format_magnitude sp base neg (if neg then - n else n) of None \<Rightarrow> vpanic | Some bs \<Rightarrow> vok bs)"

section \<open>Floats\<close>

definition FLOAT_CAP :: nat where "FLOAT_CAP = 128"

text \<open>\<open>{:.prec$e}\<close> of \<open>core::fmt\<close>: the digits of a positive double, and its decimal exponent.\<close>

definition exp_digits :: "nat \<Rightarrow> f64 \<Rightarrow> nat \<times> int" where
  "exp_digits prec x =
     (let n = nat \<bar>f64_units x\<bar>; e = dec_exponent 700 n (2 ^ 1074) 0;
          m = (if e \<le> int prec then round_half_even (n * 10 ^ nat (int prec - e)) (2 ^ 1074)
               else round_half_even n (2 ^ 1074 * 10 ^ nat (e - int prec))) in
      if m = 10 ^ (prec + 1) then (10 ^ prec, e + 1) else (m, e))"

text \<open>
  The text comes in pieces, of which the digits after a bound that depends on the binary exponent are
  zeros, 64 at a time. A piece that does not fit the buffer ends the text.
\<close>

definition max_digits :: "f64 \<Rightarrow> nat" where
  "max_digits x =
     (let b = f64_abs x div 2 ^ 52; m = f64_abs x mod 2 ^ 52;
          e = (if b = 0 then - 1075 else if m = 0 then int b - 1077 else int b - 1076) in
      nat (21 + ((if e < 0 then - 12 else 5) * e) div 16))"

fun zero_pieces :: "nat \<Rightarrow> bytes list" where
  "zero_pieces n = (if n > 64 then replicate 64 48 # zero_pieces (n - 64) else if n = 0 then [] else [replicate n 48])"

declare zero_pieces.simps [simp del]

definition exp_pieces :: "bool \<Rightarrow> nat \<Rightarrow> f64 \<Rightarrow> bytes list" where
  "exp_pieces upper prec x =
     (let sign = (if f64_sign x then [[45]] else []); marker = (if upper then 69 else 101 :: u8) in
      if is_nan x then [lit ''NaN'']
      else if is_inf x then sign @ [lit ''inf'']
      else if f64_abs x = 0 then
        sign @ (if prec = 0 then [[48, marker, 48]] else [[48, 46]] @ zero_pieces prec @ [[marker, 48]])
      else let k = min prec (max_digits x - 1); (m, e) = exp_digits k x; ds = dec_str m in
        sign @ [take 1 ds] @ (if prec = 0 then [] else [[46], drop 1 ds] @ zero_pieces (prec - k)) @
        [if e < 0 then [marker, 45] else [marker], dec_str (nat \<bar>e\<bar>)])"

fun written :: "bytes \<Rightarrow> bytes list \<Rightarrow> bytes" where
  "written out_text [] = out_text"
| "written out_text (b # bs) = (if length out_text + length b > FLOAT_CAP then out_text else written (out_text @ b) bs)"

text \<open>An explicit sign and at least two digits in the exponent.\<close>

definition normalize_exponent :: "bytes \<Rightarrow> bytes option" where
  "normalize_exponent t =
     (let not_e = (\<lambda>b. b \<noteq> 101 \<and> b \<noteq> 69); pre = takeWhile not_e t; r = dropWhile not_e t in
      if r = [] then Some t
      else let post = tl r; post = (if post \<noteq> [] \<and> is_digit (hd post) then 43 # post else post);
               nd = length (takeWhile is_digit (drop 1 post)); more = 2 - nd;
               t' = pre @ [hd r] @ take 1 post @ replicate more 48 @ drop 1 post in
        if length t' > FLOAT_CAP then None else Some t')"

definition u64_of_f64 :: "f64 \<Rightarrow> u64" where
  "u64_of_f64 x = (if is_nan x \<or> f64_sign x then 0 else if is_inf x then - 1
     else word_of_nat (min (2 ^ 64 - 1) (nat \<bar>f64_units x\<bar> div 2 ^ 1074)))"

text \<open>\<open>prec as u32\<close> cuts the precision where it scales; the digits of the fraction are not padded with it.\<close>

definition format_fixed :: "f64 \<Rightarrow> nat \<Rightarrow> bytes option" where
  "format_fixed f prec =
     (if is_nan f then Some (lit ''nan'')
      else if is_inf f then Some (if f64_sign f then lit ''-inf'' else lit ''inf'')
      else let neg = (f64_sign f \<and> f64_abs f \<noteq> 0); v = (if neg then f64_neg f else f);
               factor = pow10_u32 (prec mod 2 ^ 32);
               v = (if prec > 0 then f64_div (float_round (f64_mul v factor)) factor else float_round v);
               ip = float_trunc v; fp = u64_of_f64 (float_round (f64_mul (f64_sub v ip) factor));
               ds = dec_str (unat fp);
               t = (if neg then [45] else []) @ itoa (i64_of_f64 ip) @
                 (if prec > 0 then 46 # replicate (prec - length ds) 48 @ ds else []) in
        if length t > FLOAT_CAP then panic else ret t)"

definition float_text :: "u8 \<Rightarrow> f64 \<Rightarrow> nat \<Rightarrow> bytes option" where
  "float_text ty f prec =
     (if ty = 102 then format_fixed f prec
      else if ty = 101 \<or> ty = 69 then normalize_exponent (written [] (exp_pieces (ty = 69) prec f))
      else ret (if ty = 71 then map (\<lambda>b. if 97 \<le> b \<and> b \<le> 122 then b - 97 + 65 else b) (fmt_float f) else fmt_float f))"

definition format_float :: "lval \<Rightarrow> format_spec \<Rightarrow> bytes vm" where
  "format_float v sp =
     vthen (float_arg ''bad argument (number expected, got string)'' v) (\<lambda>f.
       case float_text (f_type sp) f (case f_prec sp of None \<Rightarrow> 6 | Some p \<Rightarrow> p) of
         None \<Rightarrow> vpanic
       | Some t \<Rightarrow>
           (let neg = (t \<noteq> [] \<and> hd t = 45) in
            case apply_layout (sign_of neg sp) [] (if neg then tl t else t) (sp\<lparr>f_prec := None\<rparr>) True of
              None \<Rightarrow> vpanic | Some bs \<Rightarrow> vok bs))"

section \<open>The native\<close>

definition laid_out :: "bytes \<Rightarrow> format_spec \<Rightarrow> bytes vm" where
  "laid_out body sp = (case apply_layout [] [] body sp False of None \<Rightarrow> vpanic | Some bs \<Rightarrow> vok bs)"

definition format_value :: "caller \<Rightarrow> format_spec \<Rightarrow> lval \<Rightarrow> bytes vm" where
  "format_value c sp v = (let ty = f_type sp in
     if ty = 115 then
       vthen (value_to_string c v) (\<lambda>sr. vthen (bytes_of sr) (\<lambda>bs.
         laid_out (case f_prec sp of None \<Rightarrow> bs | Some p \<Rightarrow> take p bs) sp))
     else if ty = 113 then
       vthen (str_arg ''bad argument #2 (string expected)'' v) (\<lambda>bs.
         case quote_string bs of None \<Rightarrow> raise ''string.format result too long'' | Some q \<Rightarrow> laid_out q sp)
     else if ty = 99 then
       vthen (to_integer_for_format v) (\<lambda>n.
         if n <s 0 \<or> 255 <s n then raise ''bad argument (value out of range)'' else laid_out [ucast n] sp)
     else if ty = 100 \<or> ty = 105 then format_integer v sp 10 False
     else if ty = 117 then format_integer v sp 10 True
     else if ty = 111 then format_integer v sp 8 True
     else if ty = 120 \<or> ty = 88 then format_integer v sp 16 True
     else format_float v sp)"

datatype format_part = FByte u8 | FSpec format_spec | FBad string

fun read_part :: "bytes \<Rightarrow> format_part \<times> bytes" where
  "read_part [] = (FBad ''malformed format string'', [])"
| "read_part (c # r) =
     (if c \<noteq> 37 then (FByte c, r)
      else case r of
          [] \<Rightarrow> (FBad ''malformed format string'', [])
        | d # r' \<Rightarrow>
            if d = 37 then (FByte 37, r')
            else (case parse_format_spec r of Inl msg \<Rightarrow> (FBad msg, []) | Inr (sp, r'') \<Rightarrow> (FSpec sp, r'')))"

lemma parse_format_spec_shorter: "parse_format_spec fmt = Inr (sp, r) \<Longrightarrow> length r < length fmt"
  by (auto simp: parse_format_spec_def Let_def split: list.splits if_splits dest!: arg_cong [where f = length])

lemma read_part_shorter: "length (snd (read_part (c # r))) \<le> length r"
  by (auto split: list.split sum.split dest!: parse_format_spec_shorter)

function format_parts :: "bytes \<Rightarrow> format_part list" where
  "format_parts [] = []"
| "format_parts (c # r) = (case read_part (c # r) of (x, r') \<Rightarrow> x # format_parts r')"
  by pat_completeness auto
termination
proof (relation "measure length")
  fix c :: u8 and r x y
  assume "(x, y) = read_part (c # r)"
  then have "length y \<le> length r"
    using read_part_shorter [of c r] by (metis snd_conv)
  then show "(y, c # r) \<in> measure length"
    by simp
qed simp

declare read_part.simps [simp del]

definition add_piece :: "bytes \<Rightarrow> bytes \<Rightarrow> bytes vm" where
  "add_piece out_text bs =
     (if length out_text + length bs > PIECE_CAP then raise ''string.format result too long'' else vok (out_text @ bs))"

primrec format_loop :: "caller \<Rightarrow> format_part list \<Rightarrow> lval list \<Rightarrow> bytes \<Rightarrow> (bytes \<times> lval list) vm" where
  "format_loop c [] vs out_text = vok (out_text, vs)"
| "format_loop c (x # xs) vs out_text = (case x of
       FByte b \<Rightarrow> vthen (add_piece out_text [b]) (format_loop c xs vs)
     | FBad msg \<Rightarrow> raise msg
     | FSpec sp \<Rightarrow> (case vs of
         [] \<Rightarrow> raise ''not enough arguments for string.format''
       | v # vs \<Rightarrow> vthen (format_value c sp v) (\<lambda>bs. vthen (add_piece out_text bs) (format_loop c xs vs))))"

definition string_format :: "caller \<Rightarrow> lval list \<Rightarrow> exec_result vm" where
  "string_format c args =
     (if args = [] then raise ''string.format expects at least 1 argument''
      else vthen (str_arg ''string.format expects a string format'' (args ! 0)) (\<lambda>fmt.
      if length fmt > 1024 then raise ''string.format format string too long''
      else vthen (format_loop c (format_parts fmt) (tl args) []) (\<lambda>(out_text, vs).
        if vs \<noteq> [] then raise ''too many arguments for string.format'' else ret_str out_text)))"

end
