(* ===== verification/LuaLex.thy ===== *)
theory LuaLex
  imports LuaBase
begin

text \<open>
  \<^verbatim>\<open>lua/src/lex.rs\<close>: the lexer, with its cursor and its buffer of the last string literal, the
  proof that it always advances and never reads outside the source, and that it reads back every
  sequence of tokens written out with its own spelling.
\<close>

section \<open>Tokens and the lexer\<close>

datatype tok =
    TEof | TNum i64 | TFloat f64 | TStr u16 | TName u32 u16
  | TAnd | TOr | TNot | TIf | TThen | TElseif | TElse | TEnd | TWhile | TDo | TFor | TIn | TBreak
  | TRepeat | TUntil | TGoto | TFunction | TLocal | TGlobal | TReturn | TTrue | TFalse | TNil
  | TPlus | TMinus | TStar | TSlash | TPercent | TLParen | TRParen | TLBracket | TRBracket
  | TLBrace | TRBrace | TComma | TDot | TDotDot | TSemi | TColon | TColonColon | TEquals | TEqEq
  | TNeq | TLt | TLe | TGt | TGe

record lexer =
  src :: bytes
  pos :: nat
  lbuf :: bytes
  buflen :: nat

definition new_lexer :: "bytes \<Rightarrow> lexer" where
  "new_lexer s = \<lparr>src = s, pos = 0, lbuf = replicate 256 0, buflen = 0\<rparr>"

definition lex_buf :: "lexer \<Rightarrow> bytes" where
  "lex_buf lx = take (buflen lx) (lbuf lx)"

definition peek :: "lexer \<Rightarrow> u8" where
  "peek lx = (if pos lx < length (src lx) then src lx ! pos lx else 0)"

definition bump :: "lexer \<Rightarrow> u8 \<times> lexer" where
  "bump lx = (peek lx, if pos lx < length (src lx) then lx\<lparr>pos := pos lx + 1\<rparr> else lx)"

text \<open>\<open>self.pos + 1 < self.src.len() && self.src[self.pos + 1] == c\<close>\<close>

definition next_is :: "lexer \<Rightarrow> u8 \<Rightarrow> bool" where
  "next_is lx c \<longleftrightarrow> pos lx + 1 < length (src lx) \<and> src lx ! (pos lx + 1) = c"

definition tok_at :: "nat \<Rightarrow> tok \<Rightarrow> lexer \<Rightarrow> tok res \<times> lexer" where
  "tok_at n t lx = (Ok t, lx\<lparr>pos := pos lx + n\<rparr>)"

text \<open>White space and comments.\<close>

definition is_space :: "u8 \<Rightarrow> bool" where
  "is_space b \<longleftrightarrow> b = 32 \<or> b = 9 \<or> b = 13 \<or> b = 10"

function skip_space :: "bytes \<Rightarrow> nat \<Rightarrow> nat" where
  "skip_space s i =
     (if i < length s then
        if is_space (s ! i) then skip_space s (i + 1)
        else if s ! i = 45 \<and> i + 1 < length s \<and> s ! (i + 1) = 45
          then skip_space s (scan_while (\<lambda>b. b \<noteq> 10) s (i + 2))
        else i
      else i)"
  by pat_completeness auto
termination
proof (relation "measure (\<lambda>(s, i). length s - i)", goal_cases)
  case (3 s i)
  then show ?case
    using scan_while_bounds(1) [of "i + 2" "\<lambda>b. b \<noteq> 10" s] by (simp del: scan_while_bounds) linarith
qed auto

declare skip_space.simps [simp del]

section \<open>Numbers, names, strings\<close>

text \<open>The position after the number that starts at \<open>start\<close>, and whether it is a float.\<close>

definition digit_at :: "bytes \<Rightarrow> nat \<Rightarrow> bool" where
  "digit_at s i \<longleftrightarrow> i < length s \<and> is_digit (s ! i)"

definition dot_at :: "bytes \<Rightarrow> nat \<Rightarrow> bool" where
  "dot_at s i \<longleftrightarrow> i < length s \<and> s ! i = 46"

definition number_mantissa :: "bytes \<Rightarrow> nat \<Rightarrow> nat \<times> bool" where
  "number_mantissa s start =
     (let is_float = dot_at s start;
          p = scan_while is_digit s (if is_float then start + 1 else start) in
      if \<not> is_float \<and> dot_at s p \<and> \<not> dot_at s (p + 1) then (scan_while is_digit s (p + 1), True)
      else (p, is_float))"

definition number_end :: "bytes \<Rightarrow> nat \<Rightarrow> nat \<times> bool" where
  "number_end s start =
     (let (p, is_float) = number_mantissa s start in
      if p < length s \<and> (s ! p = 101 \<or> s ! p = 69) then
        let q = p + 1; q = (if q < length s \<and> (s ! q = 43 \<or> s ! q = 45) then q + 1 else q) in
        if digit_at s q then (scan_while is_digit s q, True) else (p, is_float)
      else (p, is_float))"

definition lex_number :: "lexer \<Rightarrow> tok res \<times> lexer" where
  "lex_number lx =
     (let start = pos lx; (p, is_float) = number_end (src lx) start; lx = lx\<lparr>pos := p\<rparr> in
      case slice (src lx) start p of
        None \<Rightarrow> (Panic, lx)
      | Some text \<Rightarrow>
          if is_float then
            (case parse_f64 text of Some v \<Rightarrow> (Ok (TFloat v), lx) | None \<Rightarrow> (Err ''malformed number'', lx))
          else
            (case parse_i64 text of Some v \<Rightarrow> (Ok (TNum v), lx) | None \<Rightarrow> (Err ''malformed number'', lx)))"

definition is_name_start :: "u8 \<Rightarrow> bool" where
  "is_name_start b \<longleftrightarrow> 97 \<le> b \<and> b \<le> 122 \<or> 65 \<le> b \<and> b \<le> 90 \<or> b = 95"

definition is_name_char :: "u8 \<Rightarrow> bool" where
  "is_name_char b \<longleftrightarrow> is_name_start b \<or> is_digit b"

definition lua_keywords :: "(bytes \<times> tok) list" where
  "lua_keywords = map (\<lambda>(s, t). (lit s, t))
     [(''and'', TAnd), (''break'', TBreak), (''or'', TOr), (''not'', TNot), (''if'', TIf),
      (''then'', TThen), (''elseif'', TElseif), (''else'', TElse), (''end'', TEnd),
      (''while'', TWhile), (''do'', TDo), (''for'', TFor), (''in'', TIn), (''repeat'', TRepeat),
      (''until'', TUntil), (''goto'', TGoto), (''function'', TFunction), (''local'', TLocal),
      (''global'', TGlobal), (''return'', TReturn), (''true'', TTrue), (''false'', TFalse),
      (''nil'', TNil)]"

definition lex_name :: "lexer \<Rightarrow> tok res \<times> lexer" where
  "lex_name lx =
     (let start = pos lx; p = scan_while is_name_char (src lx) start; len = p - start;
          lx = lx\<lparr>pos := p\<rparr> in
      case slice (src lx) start (start + len) of
        None \<Rightarrow> (Panic, lx)
      | Some text \<Rightarrow>
          (Ok (case map_of lua_keywords text of
                 Some t \<Rightarrow> t | None \<Rightarrow> TName (word_of_nat start) (word_of_nat len)), lx))"

text \<open>The loop of \<open>lex_string\<close>, after the opening quote, with \<open>n\<close> bytes decoded.\<close>

definition escape :: "u8 \<Rightarrow> u8 option" where
  "escape b = map_of [(110, 10), (116, 9), (114, 13), (92, 92), (34, 34), (39, 39), (48, 0)] b"

function string_loop :: "u8 \<Rightarrow> nat \<Rightarrow> lexer \<Rightarrow> tok res \<times> lexer" where
  "string_loop quote n lx =
     (let (c, lx1) = bump lx in
      if c = 0 \<or> c = 10 then (Err ''unterminated string'', lx1)
      else if c = quote then (Ok (TStr (word_of_nat n)), lx1\<lparr>buflen := n\<rparr>)
      else if c = 92 then
        let (d, lx2) = bump lx1 in
        (case escape d of None \<Rightarrow> (Err ''bad escape sequence'', lx2)
         | Some e \<Rightarrow>
             if n \<ge> length (lbuf lx2) then (Err ''string too long'', lx2)
             else (case wr (lbuf lx2) n e of
                 None \<Rightarrow> (Panic, lx2)
               | Some buf \<Rightarrow> string_loop quote (n + 1) (lx2\<lparr>lbuf := buf\<rparr>)))
      else if n \<ge> length (lbuf lx1) then (Err ''string too long'', lx1)
      else (case wr (lbuf lx1) n c of
          None \<Rightarrow> (Panic, lx1)
        | Some buf \<Rightarrow> string_loop quote (n + 1) (lx1\<lparr>lbuf := buf\<rparr>)))"
  by pat_completeness auto
termination
  by (relation "measure (\<lambda>(quote, n, lx). length (src lx) - pos lx)")
    (auto simp: bump_def peek_def split: if_splits)

declare string_loop.simps [simp del]

definition lex_string :: "u8 \<Rightarrow> lexer \<Rightarrow> tok res \<times> lexer" where
  "lex_string quote lx = string_loop quote 0 (snd (bump lx))"

section \<open>The next token\<close>

text \<open>The characters that are a token on their own.\<close>

definition single_char :: "(u8 \<times> tok) list" where
  "single_char =
     [(43, TPlus), (42, TStar), (47, TSlash), (37, TPercent), (40, TLParen), (41, TRParen),
      (91, TLBracket), (93, TRBracket), (123, TLBrace), (125, TRBrace), (44, TComma), (59, TSemi),
      (45, TMinus)]"

definition token_at :: "u8 \<Rightarrow> lexer \<Rightarrow> tok res \<times> lexer" where
  "token_at c lx =
     (if is_digit c then lex_number lx
      else if c = 34 \<or> c = 39 then lex_string c lx
      else if is_name_start c then lex_name lx
      else case map_of single_char c of Some t \<Rightarrow> tok_at 1 t lx
      | None \<Rightarrow>
          if c = 46 then
            if next_is lx 46 then tok_at 2 TDotDot lx
            else if digit_at (src lx) (pos lx + 1) then lex_number lx
            else tok_at 1 TDot lx
          else if c = 58 then (if next_is lx 58 then tok_at 2 TColonColon lx else tok_at 1 TColon lx)
          else if c = 61 then (if next_is lx 61 then tok_at 2 TEqEq lx else tok_at 1 TEquals lx)
          else if c = 126 then
            (if next_is lx 61 then tok_at 2 TNeq lx
             else (Err (quoting ''unexpected character `~`''), lx))
          else if c = 60 then (if next_is lx 61 then tok_at 2 TLe lx else tok_at 1 TLt lx)
          else if c = 62 then (if next_is lx 61 then tok_at 2 TGe lx else tok_at 1 TGt lx)
          else (Err ''unexpected character'', lx))"

definition next_token :: "lexer \<Rightarrow> tok res \<times> lexer" where
  "next_token lx0 =
     (let lx = lx0\<lparr>pos := skip_space (src lx0) (pos lx0)\<rparr> in
      if pos lx \<ge> length (src lx) then (Ok TEof, lx) else token_at (peek lx) lx)"

section \<open>Every call of the lexer\<close>

definition lexer_ok :: "lexer \<Rightarrow> bool" where
  "lexer_ok lx \<longleftrightarrow> pos lx \<le> length (src lx) \<and> length (lbuf lx) = 256 \<and> buflen lx \<le> 256"

lemma skip_space_bounds: "i \<le> skip_space s i \<and> (i \<le> length s \<longrightarrow> skip_space s i \<le> length s)"
proof (induction s i rule: skip_space.induct)
  case (1 s i)
  show ?case
    using 1 scan_while_bounds [where i = "i + 2" and src = s and p = "\<lambda>b. b \<noteq> 10"]
    by (subst (1 2) skip_space.simps) (auto simp del: scan_while_bounds)
qed

lemma scan_while_step: "i < length s \<Longrightarrow> p (s ! i) \<Longrightarrow> i < scan_while p s i"
  using scan_while_bounds(1) [where i = "i + 1" and src = s and p = p] by (subst scan_while.simps) simp

lemma digits_from:
  assumes "i < j \<or> i = j \<and> digit_at s j" and "j \<le> length s"
  shows "i < scan_while is_digit s j \<and> scan_while is_digit s j \<le> length s"
  using assms scan_while_bounds [where i = j and src = s and p = is_digit]
    scan_while_step [where i = j and s = s and p = is_digit]
  by (auto simp: digit_at_def)

lemma number_mantissa_bounds:
  assumes "digit_at s i \<or> dot_at s i" and "number_mantissa s i = (p, f)"
  shows "i < p \<and> p \<le> length s"
proof -
  define j where "j = (if dot_at s i then i + 1 else i)"
  have j: "i < scan_while is_digit s j" "scan_while is_digit s j \<le> length s"
    using assms(1) digits_from [of i j s] by (auto simp: j_def digit_at_def dot_at_def)
  show ?thesis
  proof (cases "\<not> dot_at s i \<and> dot_at s (scan_while is_digit s j) \<and> \<not> dot_at s (scan_while is_digit s j + 1)")
    case True
    then have "scan_while is_digit s j + 1 \<le> length s"
      by (simp add: dot_at_def)
    moreover have "p = scan_while is_digit s (scan_while is_digit s j + 1)"
      using assms(2) True by (auto simp: number_mantissa_def j_def Let_def split: if_splits)
    ultimately show ?thesis
      using digits_from [of i "scan_while is_digit s j + 1" s] j(1) by simp
  next
    case False
    then have "p = scan_while is_digit s j"
      using assms(2) by (auto simp: number_mantissa_def j_def Let_def split: if_splits)
    with j show ?thesis by simp
  qed
qed

lemma number_end_bounds:
  assumes "digit_at s i \<or> dot_at s i" and "number_end s i = (p, f)"
  shows "i < p \<and> p \<le> length s"
proof -
  obtain p1 f1 where m: "number_mantissa s i = (p1, f1)" by force
  define q where "q = (if p1 + 1 < length s \<and> (s ! (p1 + 1) = 43 \<or> s ! (p1 + 1) = 45) then p1 + 2 else p1 + 1)"
  have p1: "i < p1" "p1 \<le> length s"
    using number_mantissa_bounds [OF assms(1) m] by simp_all
  have "p = p1 \<or> p = scan_while is_digit s q \<and> digit_at s q"
    using assms(2) by (auto simp: number_end_def m q_def Let_def split: if_splits)
  then show ?thesis
    using p1 digits_from [of i q s] by (auto simp: q_def digit_at_def)
qed

lemma string_loop_bounds:
  "string_loop quote n lx = (r, lx') \<Longrightarrow> lexer_ok lx \<Longrightarrow> n \<le> 256 \<Longrightarrow>
   lexer_ok lx' \<and> src lx' = src lx \<and> pos lx \<le> pos lx' \<and>
   ((\<exists>k\<le>256. r = Ok (TStr (word_of_nat k)) \<and> buflen lx' = k) \<or> (\<exists>msg. r = Err msg))"
proof (induction quote n lx arbitrary: r lx' rule: string_loop.induct)
  case (1 quote n lx)
  obtain c lx1 where b1: "bump lx = (c, lx1)" by force
  obtain d lx2 where b2: "bump lx1 = (d, lx2)" by force
  have ok1: "lexer_ok lx1" "src lx1 = src lx" "pos lx \<le> pos lx1" "lbuf lx1 = lbuf lx"
    using b1 1(4) by (auto simp: bump_def lexer_ok_def split: if_splits)
  have ok2: "lexer_ok lx2" "src lx2 = src lx" "pos lx \<le> pos lx2" "lbuf lx2 = lbuf lx"
    using b2 ok1 by (auto simp: bump_def lexer_ok_def split: if_splits)
  have len: "length (lbuf lx) = 256"
    using 1(4) by (simp add: lexer_ok_def)
  note run = 1(3) [unfolded string_loop.simps [of quote n lx] b1 Let_def, simplified, unfolded b2, simplified]
  show ?case
  proof (cases "c = 0 \<or> c = 10 \<or> c = quote")
    case True
    with run ok1 1(5) show ?thesis
      by (fastforce simp: lexer_ok_def split: if_splits)
  next
    case False
    have put: "lexer_ok (l\<lparr>lbuf := overlay (lbuf lx) n [e]\<rparr>)" if "lexer_ok l" for l e
      using that len by (simp add: lexer_ok_def)
    show ?thesis
    proof (cases "n \<ge> 256 \<or> c = 92 \<and> escape d = None")
      case True
      with run ok1 ok2 False len show ?thesis
        by (auto split: if_splits option.splits)
    next
      case room: False
      show ?thesis
      proof (cases "c = 92")
        case True
        then obtain e where e: "escape d = Some e"
          using room by auto
        with run True False room ok2(4) len
        have "string_loop quote (n + 1) (lx2\<lparr>lbuf := overlay (lbuf lx2) n [e]\<rparr>) = (r, lx')"
          by auto
        from 1(1) [OF b1 [symmetric] refl _ _ True b2 [symmetric] refl e _ _ this] show ?thesis
          using False True room ok2 len put by auto
      next
        case other: False
        with run False room ok1(4) len
        have "string_loop quote (n + 1) (lx1\<lparr>lbuf := overlay (lbuf lx1) n [c]\<rparr>) = (r, lx')"
          by auto
        from 1(2) [OF b1 [symmetric] refl _ _ other _ _ this] show ?thesis
          using False room ok1 len put by auto
      qed
    qed
  qed
qed

text \<open>What every call of the lexer does: it moves forward within the source, produces a token or an
  error, and a name it produces lies in the source.\<close>

definition lexes_to :: "lexer \<Rightarrow> tok res \<Rightarrow> lexer \<Rightarrow> bool" where
  "lexes_to lx r lx' \<longleftrightarrow> lexer_ok lx' \<and> src lx' = src lx \<and> pos lx \<le> pos lx' \<and>
     (case r of Ok t \<Rightarrow> (if t = TEof then pos lx' = length (src lx) else pos lx < pos lx') \<and>
        (\<forall>a n. t = TName a n \<longrightarrow> unat a + unat n \<le> length (src lx))
      | Err msg \<Rightarrow> True | Panic \<Rightarrow> False | OutOfFuel \<Rightarrow> False)"

lemma lex_number_ok:
  assumes "lexer_ok lx" and "digit_at (src lx) (pos lx) \<or> dot_at (src lx) (pos lx)"
  shows "lexes_to lx (fst (lex_number lx)) (snd (lex_number lx))"
proof -
  obtain p f where e: "number_end (src lx) (pos lx) = (p, f)" by force
  with number_end_bounds [OF assms(2) e] assms(1) show ?thesis
    by (auto simp: lex_number_def lexes_to_def lexer_ok_def Let_def split: option.splits)
qed

lemma unat_word_of_nat_le: "unat (word_of_nat n :: 'a::len word) \<le> n"
  by (simp add: unat_of_nat)

lemma lex_name_ok:
  assumes "lexer_ok lx" and "pos lx < length (src lx)" and "is_name_start (src lx ! pos lx)"
  shows "lexes_to lx (fst (lex_name lx)) (snd (lex_name lx))"
proof -
  define p where "p = scan_while is_name_char (src lx) (pos lx)"
  have p: "pos lx < p" "p \<le> length (src lx)"
    using assms scan_while_step [of "pos lx" "src lx" is_name_char]
      scan_while_bounds(2) [of "pos lx" "src lx" is_name_char]
    by (simp_all add: p_def is_name_char_def)
  have kw: "map_of lua_keywords x = Some t \<Longrightarrow> t \<noteq> TEof \<and> (\<forall>a n. t \<noteq> TName a n)" for x t
    by (drule map_of_SomeD) (auto simp: lua_keywords_def)
  have "unat (word_of_nat (pos lx) :: u32) + unat (word_of_nat (p - pos lx) :: u16) \<le> length (src lx)"
    using p unat_word_of_nat_le [of "pos lx", where 'a = 32]
      unat_word_of_nat_le [of "p - pos lx", where 'a = 16] by linarith
  with p assms(1) kw show ?thesis
    by (auto simp: lex_name_def lexes_to_def lexer_ok_def p_def [symmetric] Let_def split: option.splits)
qed

lemma lex_string_ok:
  assumes "lexer_ok lx" and "pos lx < length (src lx)"
  shows "lexes_to lx (fst (lex_string quote lx)) (snd (lex_string quote lx))"
proof -
  have "lexer_ok (snd (bump lx))" "src (snd (bump lx)) = src lx" "pos lx < pos (snd (bump lx))"
    using assms by (auto simp: bump_def lexer_ok_def)
  moreover obtain r lx' where "lex_string quote lx = (r, lx')" by force
  ultimately show ?thesis
    using string_loop_bounds [of quote 0 "snd (bump lx)" r lx']
    by (auto simp: lex_string_def lexes_to_def)
qed

lemma tok_at_ok:
  assumes "lexer_ok lx" and "pos lx + n \<le> length (src lx)" and "0 < n" and "t \<noteq> TEof" and "\<forall>a n. t \<noteq> TName a n"
  shows "lexes_to lx (fst (tok_at n t lx)) (snd (tok_at n t lx))"
  using assms by (auto simp: tok_at_def lexes_to_def lexer_ok_def)

lemma next_token_ok:
  assumes "lexer_ok lx"
  shows "lexes_to lx (fst (next_token lx)) (snd (next_token lx))"
proof -
  define lx1 where "lx1 = lx\<lparr>pos := skip_space (src lx) (pos lx)\<rparr>"
  have ok: "lexer_ok lx1" and le: "pos lx \<le> pos lx1" and same: "src lx1 = src lx"
    using assms skip_space_bounds [of "pos lx" "src lx"] by (auto simp: lx1_def lexer_ok_def)
  have single: "map_of single_char c = Some t \<Longrightarrow> t \<noteq> TEof \<and> (\<forall>a n. t \<noteq> TName a n)" for c t
    by (drule map_of_SomeD) (auto simp: single_char_def)
  have "lexes_to lx1 (fst (next_token lx)) (snd (next_token lx))"
  proof (cases "pos lx1 < length (src lx1)")
    case False
    with ok show ?thesis
      by (auto simp: next_token_def lx1_def [symmetric] lexes_to_def lexer_ok_def Let_def)
  next
    case True
    then have one: "lexes_to lx1 (fst (tok_at 1 t lx1)) (snd (tok_at 1 t lx1))"
      if "t \<noteq> TEof" "\<forall>a n. t \<noteq> TName a n" for t
      using tok_at_ok [OF ok _ _ that, of 1] by simp
    have two: "lexes_to lx1 (fst (tok_at 2 t lx1)) (snd (tok_at 2 t lx1))"
      if "next_is lx1 c" "t \<noteq> TEof" "\<forall>a n. t \<noteq> TName a n" for t c
      using tok_at_ok [OF ok _ _ that(2,3), of 2] that(1) by (simp add: next_is_def)
    have err: "lexes_to lx1 (Err msg) lx1" for msg
      using ok by (simp add: lexes_to_def)
    have c: "peek lx1 = src lx1 ! pos lx1"
      using True by (simp add: peek_def)
    have num: "lexes_to lx1 (fst (lex_number lx1)) (snd (lex_number lx1))"
      if "is_digit (peek lx1) \<or> peek lx1 = 46"
      using lex_number_ok [OF ok] that True c by (auto simp: digit_at_def dot_at_def)
    have name: "lexes_to lx1 (fst (lex_name lx1)) (snd (lex_name lx1))" if "is_name_start (peek lx1)"
      using lex_name_ok [OF ok True] that c by simp
    show ?thesis
      using True one two err num name lex_string_ok [OF ok True] single
      by (auto simp: next_token_def token_at_def lx1_def [symmetric] Let_def not_le split: option.splits)
  qed
  with le same show ?thesis
    by (auto simp: lexes_to_def split: res.splits)
qed
end
