(* ===== verification/LuaText.thy ===== *)
theory LuaText
  imports LuaLex
begin

text \<open>
  Lua program text as a sequence of lexemes: the lexer of \<^verbatim>\<open>lua/src/lex.rs\<close> inverts the
  spelling of reserved words, symbols, integers, names and strings, and reads every source to its
  end.
\<close>

section \<open>Lexemes and their spelling\<close>

text \<open>
  A program text as its sequence of lexemes: reserved words and symbols by their token, numbers,
  names and strings by their value. \<open>spell\<close> writes one down, \<open>text_of\<close> a sequence with a space
  after each, and \<open>lex_all\<close> reads a text to the end.
\<close>

datatype lexeme = LSym tok | LNum nat | LName bytes | LStr bytes

text \<open>The spelling of the reserved words and of the symbols, by the language and not by the lexer's own table.\<close>

definition reserved_words :: "(tok \<times> bytes) list" where
  "reserved_words = map (\<lambda>(t, s). (t, lit s))
     [(TAnd, ''and''), (TOr, ''or''), (TNot, ''not''), (TIf, ''if''), (TThen, ''then''), (TElseif, ''elseif''),
      (TElse, ''else''), (TEnd, ''end''), (TWhile, ''while''), (TDo, ''do''), (TFor, ''for''), (TIn, ''in''),
      (TBreak, ''break''), (TRepeat, ''repeat''), (TUntil, ''until''), (TGoto, ''goto''),
      (TFunction, ''function''), (TLocal, ''local''), (TGlobal, ''global''), (TReturn, ''return''),
      (TTrue, ''true''), (TFalse, ''false''), (TNil, ''nil'')]"

definition symbols :: "(bytes \<times> tok) list" where
  "symbols = map (\<lambda>(s, t). (lit s, t))
     [(''+'', TPlus), (''-'', TMinus), (''*'', TStar), (''/'', TSlash), (''%'', TPercent),
      (''('', TLParen), ('')'', TRParen), (''['', TLBracket), ('']'', TRBracket), (''{'', TLBrace),
      (''}'', TRBrace), ('','', TComma), ('';'', TSemi), (''.'', TDot), (''..'', TDotDot),
      ('':'', TColon), (''::'', TColonColon), (''='', TEquals), (''=='', TEqEq), (''~='', TNeq),
      (''<'', TLt), (''<='', TLe), (''>'', TGt), (''>='', TGe)]"

definition spell_escapes :: "(u8 \<times> u8) list" where
  "spell_escapes = [(10, 110), (9, 116), (13, 114), (92, 92), (34, 34), (0, 48)]"

definition spell_char :: "u8 \<Rightarrow> bytes" where
  "spell_char b =
     (case map_of spell_escapes b of
        Some e \<Rightarrow> [92, e] | None \<Rightarrow> [b])"

definition spell :: "lexeme \<Rightarrow> bytes" where
  "spell l = (case l of
       LSym t \<Rightarrow> (case map_of (reserved_words @ map prod.swap symbols) t of Some s \<Rightarrow> s | None \<Rightarrow> [])
     | LNum n \<Rightarrow> dec_str n
     | LName s \<Rightarrow> s
     | LStr s \<Rightarrow> [34] @ concat (map spell_char s) @ [34])"

definition lexeme_ok :: "lexeme \<Rightarrow> bool" where
  "lexeme_ok l \<longleftrightarrow> (case l of
       LSym t \<Rightarrow> t \<in> fst ` set reserved_words \<union> snd ` set symbols
     | LNum n \<Rightarrow> n < 2 ^ 63
     | LName s \<Rightarrow> s \<noteq> [] \<and> is_name_start (hd s) \<and> list_all is_name_char s \<and>
         s \<notin> snd ` set reserved_words \<and> length s < 2 ^ 16
     | LStr s \<Rightarrow> length s \<le> 256)"

definition text_of :: "lexeme list \<Rightarrow> bytes" where
  "text_of ls = concat (map (\<lambda>l. spell l @ [32]) ls)"

definition lexeme_of :: "tok \<Rightarrow> lexer \<Rightarrow> lexeme" where
  "lexeme_of t lx = (case t of
       TNum v \<Rightarrow> LNum (unat v)
     | TName a n \<Rightarrow> LName (seg (src lx) (unat a) (unat a + unat n))
     | TStr _ \<Rightarrow> LStr (lex_buf lx)
     | _ \<Rightarrow> LSym t)"

primrec lex_list :: "nat \<Rightarrow> lexer \<Rightarrow> lexeme list res" where
  "lex_list 0 lx = OutOfFuel"
| "lex_list (Suc k) lx =
     (case next_token lx of
        (Ok t, lx') \<Rightarrow>
          if t = TEof then Ok []
          else (case lex_list k lx' of Ok ls \<Rightarrow> Ok (lexeme_of t lx' # ls) | r \<Rightarrow> r)
      | (r, lx') \<Rightarrow> pass_on r)"

definition lex_all :: "bytes \<Rightarrow> lexeme list res" where
  "lex_all s = lex_list (length s + 1) (new_lexer s)"

text \<open>The rest of the source, at the cursor.\<close>

lemma rest_Cons:
  "drop i s = c # r \<Longrightarrow> i < length s \<and> s ! i = c \<and> drop (Suc i) s = r"
  by (metis drop_eq_Nil2 list.discI not_le nth_via_drop drop_Suc tl_drop list.sel(3))

lemma rest_append: "drop i s = xs @ r \<Longrightarrow> drop (i + length xs) s = r"
  by (metis add.commute append_eq_conv_conj drop_drop)

lemma seg_rest: "drop i s = xs @ r \<Longrightarrow> seg s i (i + length xs) = xs"
  by (simp add: seg_def)

lemma scan_rest:
  assumes "drop i s = xs @ c # r" and "list_all p xs" and "\<not> p c"
  shows "scan_while p s i = i + length xs"
proof -
  have "takeWhile p (drop i s) = xs"
    using assms by (simp add: takeWhile_append2 list_all_iff)
  then show ?thesis
    by (simp add: scan_while_eq)
qed

lemma skip_none:
  assumes "drop i s = c # r" and "\<not> is_space c" and "c = 45 \<longrightarrow> r = [] \<or> hd r \<noteq> 45"
  shows "skip_space s i = i"
proof -
  note h = rest_Cons [OF assms(1)]
  have "\<not> (s ! i = 45 \<and> i + 1 < length s \<and> s ! (i + 1) = 45)"
    using h assms(3) by (metis Suc_eq_plus1 hd_drop_conv_nth drop_eq_Nil2 not_le)
  with h assms(2) show ?thesis
    by (subst skip_space.simps) auto
qed

lemma skip_one:
  assumes "drop i s = 32 # r"
  shows "skip_space s i = skip_space s (i + 1)"
  using rest_Cons [OF assms] by (subst skip_space.simps) (simp add: is_space_def)

lemma skip_end: "length s \<le> i \<Longrightarrow> skip_space s i = i"
  by (subst skip_space.simps) simp

text \<open>One lexeme, with the cursor at its first character.\<close>

definition reads_back :: "lexer \<Rightarrow> lexeme \<Rightarrow> bytes \<Rightarrow> tok res \<times> lexer \<Rightarrow> bool" where
  "reads_back lx l r res \<longleftrightarrow> (\<exists>t lx'. res = (Ok t, lx') \<and> t \<noteq> TEof \<and> lexeme_of t lx' = l \<and>
     src lx' = src lx \<and> drop (pos lx') (src lx') = 32 # r)"

lemma digit_class: "is_digit b \<Longrightarrow> \<not> is_space b \<and> b \<noteq> 45 \<and> b \<noteq> 34 \<and> b \<noteq> 39 \<and> b \<noteq> 46 \<and> \<not> is_name_start b"
  by (auto simp: is_digit_def is_space_def is_name_start_def word_le_nat_alt)

lemma name_class:
  "is_name_start b \<Longrightarrow> \<not> is_space b \<and> b \<noteq> 45 \<and> b \<noteq> 34 \<and> b \<noteq> 39 \<and> b \<noteq> 46 \<and> \<not> is_digit b"
  by (auto simp: is_digit_def is_space_def is_name_start_def word_le_nat_alt)

lemma space_class: "\<not> is_digit 32" "\<not> is_name_char 32"
  by (simp_all add: is_digit_def is_name_char_def is_name_start_def)

lemma dec_str_all_digits: "list_all is_digit (dec_str n)"
  using dec_str_digits by (auto simp: list_all_iff is_digit_def word_le_nat_alt)

lemma next_token_at:
  assumes "drop (pos lx) (src lx) = c # r" and "\<not> is_space c" and "c = 45 \<longrightarrow> r = [] \<or> hd r \<noteq> 45"
  shows "lx\<lparr>pos := skip_space (src lx) (pos lx)\<rparr> = lx" and "peek lx = c" and "pos lx < length (src lx)"
    and "next_token lx = token_at c lx"
  using skip_none [OF assms] rest_Cons [OF assms(1)] by (simp_all add: peek_def next_token_def)

lemma reads_number:
  assumes rest: "drop (pos lx) (src lx) = dec_str n @ 32 # r" and "n < 2 ^ 63"
  shows "reads_back lx (LNum n) r (next_token lx)"
proof -
  obtain c ds where ds: "dec_str n = c # ds"
    by (cases "dec_str n") auto
  have dig: "is_digit c" "list_all is_digit (dec_str n)"
    using dec_str_all_digits [of n] ds by simp_all
  have at: "drop (pos lx) (src lx) = c # ds @ 32 # r"
    using rest ds by simp
  note tok = next_token_at [OF at] digit_class [OF dig(1)]
  define e where "e = pos lx + length (dec_str n)"
  have stop: "drop e (src lx) = 32 # r"
    using rest_append [OF rest] by (simp add: e_def)
  have fin: "e < length (src lx)" "src lx ! e = 32"
    using rest_Cons [OF stop] by simp_all
  have "scan_while is_digit (src lx) (pos lx) = e"
    using scan_rest [OF rest dig(2) space_class(1)] by (simp add: e_def)
  moreover have "\<not> dot_at (src lx) (pos lx)" "\<not> dot_at (src lx) e"
    using rest_Cons [OF at] tok fin by (simp_all add: dot_at_def)
  ultimately have "number_mantissa (src lx) (pos lx) = (e, False)"
    by (simp add: number_mantissa_def)
  with fin have "number_end (src lx) (pos lx) = (e, False)"
    by (simp add: number_end_def)
  moreover have "parse_i64 (seg (src lx) (pos lx) e) = Some (word_of_nat n)"
    using seg_rest [OF rest] assms(2) dec_str_all_digits by (simp add: e_def parse_i64_def dec_str_value)
  moreover have "unat (word_of_nat n :: i64) = n"
    using assms(2) by (simp add: unat_of_nat)
  ultimately show ?thesis
    using tok dig(1) stop fin(1)
    by (simp add: reads_back_def next_token_def token_at_def lex_number_def lexeme_of_def Let_def e_def)
qed

lemma reads_name:
  assumes rest: "drop (pos lx) (src lx) = s @ 32 # r" and "s \<noteq> []" and "is_name_start (hd s)"
    and all: "list_all is_name_char s"
  shows "next_token lx = (Ok (case map_of lua_keywords s of
      Some t \<Rightarrow> t | None \<Rightarrow> TName (word_of_nat (pos lx)) (word_of_nat (length s))),
    lx\<lparr>pos := pos lx + length s\<rparr>)"
proof -
  have at: "drop (pos lx) (src lx) = hd s # tl s @ 32 # r"
    using assms(1,2) by simp
  have "scan_while is_name_char (src lx) (pos lx) = pos lx + length s"
    using scan_rest [OF rest all space_class(2)] .
  moreover have "pos lx + length s \<le> length (src lx)"
    using rest_Cons [OF rest_append [OF rest]] by simp
  moreover note next_token_at [OF at] name_class [OF assms(3)] seg_rest [OF rest]
  ultimately show ?thesis
    using assms(3) by (cases "map_of lua_keywords s") (simp_all add: token_at_def lex_name_def Let_def)
qed

lemma reserved_are_keywords: "(t, s) \<in> set reserved_words \<longleftrightarrow> (s, t) \<in> set lua_keywords"
proof -
  have "list_all (\<lambda>(t, s). (s, t) \<in> set lua_keywords) reserved_words"
    "list_all (\<lambda>(s, t). (t, s) \<in> set reserved_words) lua_keywords"
    by (simp_all add: reserved_words_def lua_keywords_def)
  then show ?thesis
    by (auto simp: list_all_iff)
qed

lemma reads_keyword:
  assumes rest: "drop (pos lx) (src lx) = s @ 32 # r" and kw: "(s, t) \<in> set lua_keywords"
  shows "reads_back lx (LSym t) r (next_token lx)"
proof -
  have "distinct (map fst lua_keywords)"
    by (simp add: lua_keywords_def lit_def)
  then have map: "map_of lua_keywords s = Some t"
    using kw by simp
  have "s \<noteq> [] \<and> is_name_start (hd s) \<and> list_all is_name_char s \<and> t \<noteq> TEof \<and> lexeme_of t lx' = LSym t" for lx'
    using kw by (auto simp: lua_keywords_def lit_def is_name_start_def is_name_char_def lexeme_of_def)
  then show ?thesis
    using reads_name [OF rest] map rest_append [OF rest] by (simp add: reads_back_def)
qed

lemma reads_identifier:
  assumes rest: "drop (pos lx) (src lx) = s @ 32 # r" and ok: "lexeme_ok (LName s)"
    and "length (src lx) < 2 ^ 32"
  shows "reads_back lx (LName s) r (next_token lx)"
proof -
  have s: "s \<noteq> []" "is_name_start (hd s)" "list_all is_name_char s" "length s < 2 ^ 16"
    "map_of lua_keywords s = None"
    using ok reserved_are_keywords [of _ s] by (force simp: lexeme_ok_def map_of_eq_None_iff)+
  have "pos lx < length (src lx)"
    using rest by (metis append_is_Nil_conv drop_eq_Nil2 list.discI not_le)
  then have "unat (word_of_nat (pos lx) :: u32) = pos lx" "unat (word_of_nat (length s) :: u16) = length s"
    using assms(3) s(4) by (simp_all add: unat_of_nat)
  then show ?thesis
    using reads_name [OF rest s(1-3)] s(5) rest_append [OF rest] seg_rest [OF rest]
    by (simp add: reads_back_def lexeme_of_def)
qed

lemma symbols_eq:
  "symbols = [([43], TPlus), ([45], TMinus), ([42], TStar), ([47], TSlash), ([37], TPercent),
     ([40], TLParen), ([41], TRParen), ([91], TLBracket), ([93], TRBracket), ([123], TLBrace),
     ([125], TRBrace), ([44], TComma), ([59], TSemi), ([46], TDot), ([46, 46], TDotDot),
     ([58], TColon), ([58, 58], TColonColon), ([61], TEquals), ([61, 61], TEqEq), ([126, 61], TNeq),
     ([60], TLt), ([60, 61], TLe), ([62], TGt), ([62, 61], TGe)]"
  by (simp add: symbols_def lit_def)

lemma token_at_symbols:
  assumes "\<And>d. next_is lx d \<longleftrightarrow> d = x"
  shows "\<forall>(s, t) \<in> set symbols. (if length s = 2 then x = s ! 1 else x = 32 \<and> \<not> digit_at (src lx) (pos lx + 1)) \<longrightarrow>
    token_at (hd s) lx = tok_at (length s) t lx"
  by (simp add: symbols_eq token_at_def is_digit_def is_name_start_def single_char_def assms)
    (simp add: numeral_2_eq_2)

lemma symbols_shape:
  "\<forall>(s, t) \<in> set symbols. s \<noteq> [] \<and> \<not> is_space (hd s) \<and> (hd s = 45 \<longrightarrow> tl s = []) \<and>
     (length s = 1 \<or> length s = 2) \<and> t \<noteq> TEof \<and> lexeme_of t lx' = LSym t"
  by (simp add: symbols_eq is_space_def lexeme_of_def)

lemma reads_symbol:
  assumes rest: "drop (pos lx) (src lx) = s @ 32 # r" and kw: "(s, t) \<in> set symbols"
  shows "reads_back lx (LSym t) r (next_token lx)"
proof -
  have s: "s \<noteq> [] \<and> \<not> is_space (hd s) \<and> (hd s = 45 \<longrightarrow> tl s = []) \<and> (length s = 1 \<or> length s = 2) \<and>
      t \<noteq> TEof \<and> lexeme_of t lx' = LSym t" for lx'
    using symbols_shape kw by blast
  have at: "drop (pos lx) (src lx) = hd s # tl s @ 32 # r"
    using rest s by simp
  obtain d u where d: "tl s @ 32 # r = d # u" "d = (if length s = 2 then s ! 1 else 32)"
    using s by (cases s; cases "tl s") auto
  have at2: "drop (Suc (pos lx)) (src lx) = d # u"
    using rest_Cons [OF at] d by simp
  have "next_is lx e \<longleftrightarrow> e = d" for e
    using rest_Cons [OF at2] by (auto simp: next_is_def)
  from bspec [OF token_at_symbols [OF this] kw] have "token_at (hd s) lx = tok_at (length s) t lx"
    using s d(2) rest_Cons [OF at2] by (auto simp: digit_at_def is_digit_def)
  moreover have "next_token lx = token_at (hd s) lx"
    using s by (intro next_token_at [OF at]) auto
  ultimately show ?thesis
    using s rest_append [OF rest] by (simp add: reads_back_def tok_at_def)
qed

lemma bump_rest: "drop (pos lx) (src lx) = c # r \<Longrightarrow> bump lx = (c, lx\<lparr>pos := pos lx + 1\<rparr>)"
  by (drule rest_Cons) (simp add: bump_def peek_def)

lemma string_char:
  assumes rest: "drop (pos lx) (src lx) = spell_char b @ r" and "n < 256" and "length (lbuf lx) = 256"
  shows "string_loop 34 n lx =
    string_loop 34 (n + 1) (lx\<lparr>pos := pos lx + length (spell_char b), lbuf := overlay (lbuf lx) n [b]\<rparr>)"
proof (cases "map_of spell_escapes b")
  case None
  then have "b \<noteq> 10 \<and> b \<noteq> 92 \<and> b \<noteq> 34 \<and> b \<noteq> 0" and sp: "spell_char b = [b]"
    by (auto simp: spell_char_def spell_escapes_def split: if_splits)
  moreover have "bump lx = (b, lx\<lparr>pos := pos lx + 1\<rparr>)"
    using rest sp by (simp add: bump_rest)
  ultimately show ?thesis
    using assms(2,3) by (subst string_loop.simps) simp
next
  case (Some e)
  then have sp: "spell_char b = [92, e]"
    by (simp add: spell_char_def)
  have esc: "escape e = Some b"
    using Some by (auto simp: escape_def spell_escapes_def split: if_splits)
  have b1: "bump lx = (92, lx\<lparr>pos := pos lx + 1\<rparr>)"
    using rest sp by (simp add: bump_rest)
  have "drop (Suc (pos lx)) (src lx) = e # r"
    using rest sp rest_Cons by fastforce
  then have "bump (lx\<lparr>pos := pos lx + 1\<rparr>) = (e, lx\<lparr>pos := pos lx + 2\<rparr>)"
    using bump_rest [of "lx\<lparr>pos := pos lx + 1\<rparr>"] by simp
  with b1 esc sp assms(2,3) show ?thesis
    by (subst string_loop.simps) simp
qed

lemma string_rest:
  "drop (pos lx) (src lx) = concat (map spell_char s) @ 34 # r \<Longrightarrow> n + length s \<le> 256 \<Longrightarrow>
   length (lbuf lx) = 256 \<Longrightarrow>
   \<exists>lx'. string_loop 34 n lx = (Ok (TStr (word_of_nat (n + length s))), lx') \<and> src lx' = src lx \<and>
     drop (pos lx') (src lx) = r \<and> buflen lx' = n + length s \<and>
     take (n + length s) (lbuf lx') = take n (lbuf lx) @ s"
proof (induction s arbitrary: n lx)
  case Nil
  then have at: "drop (pos lx) (src lx) = 34 # r"
    by simp
  then have "bump lx = (34, lx\<lparr>pos := pos lx + 1\<rparr>)" "drop (Suc (pos lx)) (src lx) = r"
    using rest_Cons [OF at] by (simp_all add: bump_rest)
  then show ?case
    by (subst string_loop.simps) simp
next
  case (Cons b s)
  let ?lx = "lx\<lparr>pos := pos lx + length (spell_char b), lbuf := overlay (lbuf lx) n [b]\<rparr>"
  have "drop (pos ?lx) (src ?lx) = concat (map spell_char s) @ 34 # r"
    using rest_append [of "pos lx" "src lx" "spell_char b"] Cons.prems(1) by simp
  from Cons.IH [OF this, of "n + 1"] Cons.prems(2,3)
  obtain lx' where "string_loop 34 (n + 1) ?lx = (Ok (TStr (word_of_nat (n + 1 + length s))), lx')"
    "src lx' = src lx" "drop (pos lx') (src lx) = r" "buflen lx' = n + 1 + length s"
    "take (n + 1 + length s) (lbuf lx') = take (n + 1) (overlay (lbuf lx) n [b]) @ s"
    by auto
  moreover have "take (n + 1) (overlay (lbuf lx) n [b]) = take n (lbuf lx) @ [b]"
    using Cons.prems(2,3) by (simp add: overlay_def)
  moreover have "string_loop 34 n lx = string_loop 34 (n + 1) ?lx"
    using string_char [of lx b "concat (map spell_char s) @ 34 # r" n] Cons.prems by simp
  ultimately show ?case
    by simp
qed

lemma reads_string:
  assumes rest: "drop (pos lx) (src lx) = spell (LStr s) @ 32 # r" and "length s \<le> 256"
    and "length (lbuf lx) = 256"
  shows "reads_back lx (LStr s) r (next_token lx)"
proof -
  have at: "drop (pos lx) (src lx) = 34 # concat (map spell_char s) @ 34 # 32 # r"
    using rest by (simp add: spell_def)
  have "next_token lx = lex_string 34 lx"
    using next_token_at(4) [OF at] by (simp add: is_space_def token_at_def is_digit_def)
  moreover have "snd (bump lx) = lx\<lparr>pos := pos lx + 1\<rparr>"
    using bump_rest [OF at] by simp
  moreover have "drop (Suc (pos lx)) (src lx) = concat (map spell_char s) @ 34 # 32 # r"
    using rest_Cons [OF at] by simp
  ultimately show ?thesis
    using string_rest [of "lx\<lparr>pos := pos lx + 1\<rparr>" s "32 # r" 0] assms(2,3)
    by (auto simp: lex_string_def reads_back_def lexeme_of_def lex_buf_def)
qed

lemma reads_lexeme:
  assumes rest: "drop (pos lx) (src lx) = spell l @ 32 # r" and ok: "lexeme_ok l"
    and "lexer_ok lx" and "length (src lx) < 2 ^ 32"
  shows "reads_back lx l r (next_token lx)"
proof (cases l)
  case (LSym t)
  have d: "distinct (map fst (reserved_words @ map prod.swap symbols))"
    by (simp add: reserved_words_def symbols_def)
  obtain s where s: "(t, s) \<in> set (reserved_words @ map prod.swap symbols)"
    using ok LSym by (force simp: lexeme_ok_def)
  then have "spell l = s"
    using map_of_is_SomeI [OF d] by (simp add: spell_def LSym)
  with rest s show ?thesis
    using reads_keyword reads_symbol LSym reserved_are_keywords by auto
next
  case (LNum n)
  with assms show ?thesis by (simp add: reads_number spell_def lexeme_ok_def)
next
  case (LName s)
  with assms show ?thesis by (simp add: reads_identifier spell_def)
next
  case (LStr s)
  with assms show ?thesis by (simp add: reads_string lexeme_ok_def lexer_ok_def)
qed

text \<open>A space before the lexeme changes nothing.\<close>

lemma next_token_space:
  assumes "drop (pos lx) (src lx) = 32 # r"
  shows "next_token lx = next_token (lx\<lparr>pos := pos lx + 1\<rparr>)"
  using skip_one [OF assms] by (simp add: next_token_def)

lemma lex_list_text:
  assumes "list_all lexeme_ok ls" and "lexer_ok lx" and "length (src lx) < 2 ^ 32" and "length ls < k"
    and "drop (pos lx) (src lx) = text_of ls \<or> drop (pos lx) (src lx) = 32 # text_of ls"
  shows "lex_list k lx = Ok ls"
  using assms
proof (induction ls arbitrary: k lx)
  case Nil
  then have "pos lx = length (src lx) \<or> drop (pos lx) (src lx) = [32]"
    by (auto simp: text_of_def lexer_ok_def)
  then have "skip_space (src lx) (pos lx) = length (src lx)"
  proof
    assume at: "drop (pos lx) (src lx) = [32]"
    then have "length (src lx) = pos lx + 1"
      by (metis Nat.le_diff_conv2 One_nat_def diff_add_inverse drop_eq_Nil2 le_add_diff_inverse length_drop
          list.size(3,4) nat_le_linear not_Cons_self2 plus_1_eq_Suc Suc_eq_plus1)
    with skip_one [OF at] show ?thesis
      by (simp add: skip_end)
  qed (simp add: skip_end)
  then show ?case
    using Nil.prems(4) by (cases k) (simp_all add: next_token_def)
next
  case (Cons l ls)
  have sp: "text_of (l # ls) = spell l @ 32 # text_of ls"
    by (simp add: text_of_def)
  obtain k' where k: "k = Suc k'"
    using Cons.prems(4) by (cases k) auto
  obtain lx0 where lx0: "next_token lx = next_token lx0" "lexer_ok lx0" "src lx0 = src lx"
    "drop (pos lx0) (src lx0) = text_of (l # ls)"
  proof (cases "drop (pos lx) (src lx) = text_of (l # ls)")
    case True
    with that Cons.prems(2) show ?thesis by blast
  next
    case False
    then have at: "drop (pos lx) (src lx) = 32 # text_of (l # ls)"
      using Cons.prems(5) by blast
    then show ?thesis
      using that [of "lx\<lparr>pos := pos lx + 1\<rparr>"] next_token_space [OF at] rest_Cons [OF at] Cons.prems(2)
      by (simp add: lexer_ok_def)
  qed
  then have "reads_back lx0 l (text_of ls) (next_token lx)"
    using reads_lexeme [of lx0 l "text_of ls"] Cons.prems(1,3) sp by simp
  then obtain t lx' where t: "next_token lx = (Ok t, lx')" "t \<noteq> TEof" "lexeme_of t lx' = l"
    "src lx' = src lx" "drop (pos lx') (src lx') = 32 # text_of ls"
    using lx0(3) by (auto simp: reads_back_def)
  have "lexer_ok lx'"
    using next_token_ok [OF Cons.prems(2)] t(1) by (simp add: lexes_to_def)
  then have "lex_list k' lx' = Ok ls"
    using Cons.prems t k by (intro Cons.IH) simp_all
  with t k show ?case
    by simp
qed

lemma new_lexer_ok: "lexer_ok (new_lexer s)"
  by (simp add: lexer_ok_def new_lexer_def)

lemma lex_list_total:
  assumes "lexer_ok lx" and "length (src lx) - pos lx < k"
  shows "(\<exists>ls. lex_list k lx = Ok ls \<and> length ls \<le> length (src lx) - pos lx) \<or> (\<exists>msg. lex_list k lx = Err msg)"
  using assms
proof (induction k arbitrary: lx)
  case (Suc k)
  obtain r lx' where nt: "next_token lx = (r, lx')" by force
  have lx: "lexes_to lx r lx'"
    using next_token_ok [OF Suc.prems(1)] nt by simp
  show ?case
  proof (cases "\<exists>t. r = Ok t \<and> t \<noteq> TEof")
    case True
    then obtain t where t: "r = Ok t" "t \<noteq> TEof" by blast
    then have le: "lexer_ok lx'" "length (src lx') - pos lx' < k" "length (src lx') - pos lx' < length (src lx) - pos lx"
      using lx Suc.prems by (auto simp: lexes_to_def lexer_ok_def)
    from Suc.IH [OF le(1,2)] nt t le(3) show ?thesis
      by (auto split: res.splits)
  next
    case False
    with nt lx show ?thesis
      by (auto simp: lexes_to_def split: res.splits)
  qed
qed simp

text \<open>C20. The lexer reads every source to its end: whatever the bytes, it stops with at most one lexeme
  per byte, or with an error, and it never panics: no write of a decoded character falls outside the
  256-byte string buffer, and no slice of a number or a name outside the source.\<close>

theorem lex_all_total:
  "(\<exists>ls. lex_all s = Ok ls \<and> length ls \<le> length s) \<or> (\<exists>msg. lex_all s = Err msg)"
  using lex_list_total [OF new_lexer_ok, of s "length s + 1"] by (simp add: lex_all_def new_lexer_def)

text \<open>C19. What is written is what is read: for every sequence of reserved words, symbols, integers
  below \<open>2^63\<close>, names and strings of at most 256 bytes of any value, written out with a space
  after each (strings between double quotes with the escapes of the language), the lexer yields
  exactly that sequence.\<close>

theorem lex_roundtrip:
  assumes "list_all lexeme_ok ls" and "length (text_of ls) < 2 ^ 32"
  shows "lex_all (text_of ls) = Ok ls"
proof -
  have "length ls \<le> length (text_of ls)" for ls
    by (induction ls) (auto simp: text_of_def)
  then have "length ls < length (text_of ls) + 1"
    by (simp add: less_Suc_eq_le)
  then show ?thesis
    unfolding lex_all_def using assms
    by (intro lex_list_text) (simp_all add: new_lexer_ok, simp_all add: new_lexer_def)
qed

lemma lex_roundtrip_witness:
  "let ls = [LSym TLocal, LName (lit ''x1''), LSym TEquals, LStr [34, 10, 0, 92], LSym TDotDot, LNum 42] in
   lex_all (text_of ls) = Ok ls"
  unfolding Let_def
  by (rule lex_roundtrip)
    (simp_all add: lexeme_ok_def lit_def is_name_start_def is_name_char_def is_digit_def reserved_words_def
      symbols_eq text_of_def spell_def spell_char_def spell_escapes_def dec_str_step dec_str_small)
end
