(* ===== verification/LuaParse.thy ===== *)
theory LuaParse
  imports LuaText LuaState
begin

text \<open>
  \<^verbatim>\<open>lua/src/parse.rs\<close>: the recursive-descent parser, which builds the syntax nodes in the
  interpreter's memory. Each grammar function is a definition that takes the recursive calls as
  the parameter \<open>rec\<close>, a dispatcher over the datatype \<open>job\<close> of the calls that recur (the loops
  among them); \<open>parse\<close> ties the knot with one unit of fuel per recursive call. Every recursive
  call is made after at least one token has been consumed, so that the number of bytes left is
  enough fuel.
\<close>

section \<open>The parser's state\<close>

definition MAX_SCOPES :: nat where "MAX_SCOPES = 16"
definition MAX_LABELS_PER_SCOPE :: nat where "MAX_LABELS_PER_SCOPE = 8"
definition MAX_GOTOS_PER_SCOPE :: nat where "MAX_GOTOS_PER_SCOPE = 8"
definition MAX_RESOLVED_LOCALS :: nat where "MAX_RESOLVED_LOCALS = 64"
definition MAX_FUNC_SCOPES :: nat where "MAX_FUNC_SCOPES = 8"

lemmas parse_caps = MAX_SCOPES_def MAX_LABELS_PER_SCOPE_def MAX_GOTOS_PER_SCOPE_def
  MAX_RESOLVED_LOCALS_def MAX_FUNC_SCOPES_def

record local_rec =
  lr_name :: strref
  lr_func :: nat
  decl_node :: nat
  captured :: bool

record func_scope =
  ups :: "nat \<Rightarrow> strref"
  nups :: nat

record scope =
  labels :: "nat \<Rightarrow> strref \<times> nat"
  nlabels :: nat
  gotos :: "nat \<Rightarrow> nat \<times> strref"
  ngotos :: nat

definition empty_func_scope :: func_scope where
  "empty_func_scope = \<lparr>ups = (\<lambda>_. 0), nups = 0\<rparr>"

definition empty_scope :: scope where
  "empty_scope = \<lparr>labels = (\<lambda>_. (0, 0)), nlabels = 0, gotos = (\<lambda>_. (0, 0)), ngotos = 0\<rparr>"

record parser =
  lex :: lexer
  cur :: tok
  loop_depth :: nat
  scopes :: "nat \<Rightarrow> scope"
  n_scopes :: nat
  plocals :: "nat \<Rightarrow> local_rec"
  nlocals :: nat
  pfuncs :: "nat \<Rightarrow> func_scope"
  nfuncs :: nat
  st :: lua

type_synonym 'a parse = "(parser, 'a) step"

text \<open>\<open>next_token().unwrap_or(Tok::Eof)\<close>\<close>

definition new_parser :: "bytes \<Rightarrow> lua \<Rightarrow> parser" where
  "new_parser s l =
     (let (r, lx) = next_token (new_lexer s) in
      \<lparr>lex = lx, cur = (case r of Ok t \<Rightarrow> t | _ \<Rightarrow> TEof), loop_depth = 0,
       scopes = (\<lambda>_. empty_scope), n_scopes = 0,
       plocals = (\<lambda>_. \<lparr>lr_name = 0, lr_func = 0, decl_node = NO_NODE, captured = False\<rparr>), nlocals = 0,
       pfuncs = (\<lambda>_. empty_func_scope), nfuncs = 1, st = l\<rparr>)"

definition on_state :: "(lua, 'a) step \<Rightarrow> 'a parse" where
  "on_state m = (\<lambda>p. case m (st p) of (r, s) \<Rightarrow> (r, p\<lparr>st := s\<rparr>))"

section \<open>Lexical scope and capture analysis\<close>

definition func_level :: "parser \<Rightarrow> nat" where
  "func_level p = nfuncs p - 1"

definition declare_local_rec :: "strref \<Rightarrow> nat \<Rightarrow> nat parse" where
  "declare_local_rec name node = (\<lambda>p.
     if nlocals p \<ge> MAX_RESOLVED_LOCALS then (Err ''too many locals'', p)
     else (Ok (nlocals p), p\<lparr>plocals := (plocals p)(nlocals p :=
            \<lparr>lr_name = name, lr_func = func_level p, decl_node = node, captured = False\<rparr>),
          nlocals := nlocals p + 1\<rparr>))"

definition add_up :: "strref \<Rightarrow> nat \<Rightarrow> unit parse" where
  "add_up name level = (\<lambda>p.
     if level \<ge> MAX_FUNC_SCOPES then (Panic, p)
     else let fs = pfuncs p level in
       if \<exists>i\<in>{0..<nups fs}. ups fs i = name then (Ok (), p)
       else if nups fs \<ge> MAX_UPVALS then (Err ''too many upvalues'', p)
       else (Ok (), p\<lparr>pfuncs := (pfuncs p)(level :=
              fs\<lparr>ups := (ups fs)(nups fs := name), nups := nups fs + 1\<rparr>)\<rparr>))"

definition cell_variant :: "node \<Rightarrow> node" where
  "cell_variant n = (case n of
       NFor a b c d e \<Rightarrow> NForCell a b c d e | NForIn a b c d \<Rightarrow> NForInCell a b c d | _ \<Rightarrow> n)"

definition mark_captured :: "nat \<Rightarrow> unit parse" where
  "mark_captured i = (\<lambda>p.
     let l = plocals p i in
     if captured l then (Ok (), p)
     else let p = p\<lparr>plocals := (plocals p)(i := l\<lparr>captured := True\<rparr>)\<rparr>; node = decl_node l in
       if node = NO_NODE then (Ok (), p)
       else if node \<ge> MAX_NODES then (Panic, p)
       else (Ok (), p\<lparr>st := (st p)\<lparr>nodes := (nodes (st p))(node := cell_variant (nodes (st p) node))\<rparr>\<rparr>))"

text \<open>The innermost record of a name: the last one below \<open>n\<close>.\<close>

primrec last_local :: "parser \<Rightarrow> strref \<Rightarrow> nat \<Rightarrow> nat option" where
  "last_local p name 0 = None"
| "last_local p name (Suc i) = (if lr_name (plocals p i) = name then Some i else last_local p name i)"

primrec add_ups :: "strref \<Rightarrow> nat list \<Rightarrow> unit parse" where
  "add_ups name [] = ok ()"
| "add_ups name (lvl # lvls) = andnext (add_up name lvl) (add_ups name lvls)"

definition resolve_name :: "strref \<Rightarrow> unit parse" where
  "resolve_name name = reads (\<lambda>p.
     case last_local p name (nlocals p) of
       None \<Rightarrow> ok ()
     | Some i \<Rightarrow>
         let lf = lr_func (plocals p i) in
         if lf = func_level p then ok ()
         else andnext (mark_captured i) (add_ups name [lf + 1 ..< nfuncs p]))"

section \<open>Tokens\<close>

definition advance :: "unit parse" where
  "advance = (\<lambda>p. case next_token (lex p) of
       (Ok t, lx) \<Rightarrow> (Ok (), p\<lparr>lex := lx, cur := t\<rparr>)
     | (r, lx) \<Rightarrow> (pass_on r, p\<lparr>lex := lx\<rparr>))"

definition expect :: "tok \<Rightarrow> string \<Rightarrow> unit parse" where
  "expect t msg = reads (\<lambda>p. if cur p = t then advance else fail msg)"

text \<open>\<open>let _ = self.advance();\<close>: an error of the lexer is dropped.\<close>

definition opt_semi :: "unit parse" where
  "opt_semi = reads (\<lambda>p. if cur p = TSemi then (\<lambda>p. (Ok (), snd (advance p))) else ok ())"

text \<open>\<open>self.state.intern(&self.lex.src()[off as usize..][..len as usize])\<close>\<close>

definition intern_name :: "u32 \<Rightarrow> u16 \<Rightarrow> strref parse" where
  "intern_name off len = reads (\<lambda>p.
     let a = unat off; n = unat len in
     when_panics (a + n > length (src (lex p))) (on_state (intern (seg (src (lex p)) a (a + n)))))"

definition expect_name :: "strref parse" where
  "expect_name = reads (\<lambda>p. case cur p of
       TName off len \<Rightarrow> andthen (intern_name off len) (\<lambda>r. andnext advance (ok r))
     | _ \<Rightarrow> fail ''expected identifier'')"

definition alloc :: "node \<Rightarrow> nat parse" where
  "alloc n = on_state (alloc_node n)"

definition set_next :: "nat \<Rightarrow> nat \<Rightarrow> unit parse" where
  "set_next i v = (\<lambda>p.
     if i \<ge> MAX_NODES then (Panic, p) else (Ok (), p\<lparr>st := (st p)\<lparr>nxt := (nxt (st p))(i := v)\<rparr>\<rparr>))"

definition get_node :: "nat \<Rightarrow> node parse" where
  "get_node i = (\<lambda>p. if i \<ge> MAX_NODES then (Panic, p) else (Ok (nodes (st p) i), p))"

definition get_next :: "nat \<Rightarrow> nat parse" where
  "get_next i = (\<lambda>p. if i \<ge> MAX_NODES then (Panic, p) else (Ok (nxt (st p) i), p))"

definition var_name :: "node \<Rightarrow> strref" where
  "var_name n = (case n of NVar r \<Rightarrow> r | _ \<Rightarrow> 0)"

section \<open>Labels and gotos\<close>

definition label_in :: "scope \<Rightarrow> strref \<Rightarrow> nat option" where
  "label_in sc name =
     map_option (\<lambda>i. snd (labels sc i)) (find (\<lambda>i. fst (labels sc i) = name) [0..<nlabels sc])"

primrec find_label_below :: "parser \<Rightarrow> strref \<Rightarrow> nat \<Rightarrow> nat option" where
  "find_label_below p name 0 = None"
| "find_label_below p name (Suc s) =
     (case label_in (scopes p s) name of Some t \<Rightarrow> Some t | None \<Rightarrow> find_label_below p name s)"

definition find_label :: "parser \<Rightarrow> strref \<Rightarrow> nat \<Rightarrow> nat option" where
  "find_label p name innermost = find_label_below p name (innermost + 1)"

definition add_label :: "strref \<Rightarrow> nat \<Rightarrow> scope \<Rightarrow> scope" where
  "add_label name node sc = sc\<lparr>labels := (labels sc)(nlabels sc := (name, node)), nlabels := nlabels sc + 1\<rparr>"

definition add_goto :: "nat \<Rightarrow> strref \<Rightarrow> scope \<Rightarrow> scope" where
  "add_goto node name sc = sc\<lparr>gotos := (gotos sc)(ngotos sc := (node, name)), ngotos := ngotos sc + 1\<rparr>"

definition record_label :: "strref \<Rightarrow> nat \<Rightarrow> unit parse" where
  "record_label name node = (\<lambda>p.
     if n_scopes p = 0 \<or> n_scopes p > MAX_SCOPES then (Panic, p)
     else let s = n_scopes p - 1 in
       if nlabels (scopes p s) \<ge> MAX_LABELS_PER_SCOPE then (Err ''too many labels'', p)
       else (Ok (), p\<lparr>scopes := (scopes p)(s := add_label name node (scopes p s))\<rparr>))"

definition record_goto :: "nat \<Rightarrow> strref \<Rightarrow> unit parse" where
  "record_goto node name = (\<lambda>p.
     if n_scopes p = 0 \<or> n_scopes p > MAX_SCOPES then (Panic, p)
     else let s = n_scopes p - 1 in
       if ngotos (scopes p s) \<ge> MAX_GOTOS_PER_SCOPE then (Err ''too many gotos'', p)
       else (Ok (), p\<lparr>scopes := (scopes p)(s := add_goto node name (scopes p s))\<rparr>))"

text \<open>The loop of \<open>resolve_scope\<close> over a copy of the innermost scope's gotos.\<close>

fun resolve_gotos :: "nat \<Rightarrow> (nat \<times> strref) list \<Rightarrow> unit parse" where
  "resolve_gotos s [] = ok ()"
| "resolve_gotos s ((gn, name) # gs) = andnext (\<lambda>p.
     case find_label p name s of
       Some target \<Rightarrow>
         if gn \<ge> MAX_NODES then (Panic, p)
         else (Ok (), p\<lparr>st := (st p)\<lparr>nodes := (nodes (st p))(gn := NGoto target)\<rparr>\<rparr>)
     | None \<Rightarrow>
         if s = 0 then (Err ''unknown label'', p)
         else if ngotos (scopes p (s - 1)) \<ge> MAX_GOTOS_PER_SCOPE then (Err ''too many gotos'', p)
         else (Ok (), p\<lparr>scopes := (scopes p)(s - 1 := add_goto gn name (scopes p (s - 1)))\<rparr>))
     (resolve_gotos s gs)"

definition resolve_scope :: "unit parse" where
  "resolve_scope = reads (\<lambda>p.
     when_panics (n_scopes p = 0 \<or> n_scopes p > MAX_SCOPES)
       (let s = n_scopes p - 1 in
        andnext (resolve_gotos s (map (gotos (scopes p s)) [0..<ngotos (scopes p s)]))
          (sets (\<lambda>p. p\<lparr>n_scopes := n_scopes p - 1\<rparr>))))"

section \<open>Recursive calls\<close>

datatype job =
    JStats nat nat | JExpr | JUnary | JConcat | JOrRest nat | JAndRest nat | JCmpRest nat
  | JAddRest nat | JMulRest nat | JSuffix nat | JFields nat nat nat | JArgs nat nat | JIfTail
  | JTargets nat

type_synonym calls = "job \<Rightarrow> nat parse"

section \<open>Blocks and functions\<close>

definition parse_block :: "calls \<Rightarrow> nat parse" where
  "parse_block rec = reads (\<lambda>p.
     if n_scopes p \<ge> MAX_SCOPES then fail ''script too complex''
     else let local_mark = nlocals p in
       andnext (sets (\<lambda>p. p\<lparr>scopes := (scopes p)(n_scopes p := empty_scope), n_scopes := n_scopes p + 1\<rparr>))
       (andthen (rec (JStats NO_NODE NO_NODE)) (\<lambda>first.
        andnext (sets (\<lambda>p. p\<lparr>nlocals := local_mark\<rparr>))
        (andnext resolve_scope (ok first)))))"

text \<open>
  The parameter loop, with the count wrapping at 256 as its \<open>u8\<close> does. Every round allocates a
  node, so \<open>MAX_NODES + 1\<close> rounds are never exceeded.
\<close>

primrec params_loop :: "nat \<Rightarrow> nat \<Rightarrow> nat \<Rightarrow> (nat \<times> nat) parse" where
  "params_loop 0 first n = (\<lambda>p. (OutOfFuel, p))"
| "params_loop (Suc k) first n =
     andthen expect_name (\<lambda>name.
     andthen (alloc (NVar name)) (\<lambda>name_node.
     let first = (if n = 0 then name_node else first); n = (n + 1) mod 256 in
     reads (\<lambda>p. if cur p = TComma then andnext advance (params_loop k first n) else ok (first, n))))"

definition parse_params :: "(nat \<times> nat) parse" where
  "parse_params = reads (\<lambda>p.
     if cur p = TRParen then andnext advance (ok (0, 0))
     else andthen (params_loop (MAX_NODES + 1) 0 0) (\<lambda>r.
       andnext (expect TRParen (quoting ''expected `)` after parameters'')) (ok r)))"

text \<open>The parameters become locals of the function; \<open>ps\<close> is the first of their nodes.\<close>

primrec declare_params :: "nat \<Rightarrow> nat list \<Rightarrow> unit parse" where
  "declare_params ps [] = ok ()"
| "declare_params ps (i # is) =
     andthen (get_node (ps + i)) (\<lambda>n.
     andthen (declare_local_rec (var_name n) NO_NODE) (\<lambda>_. declare_params ps is))"

definition parse_func_body :: "calls \<Rightarrow> nat parse" where
  "parse_func_body rec =
     andnext (expect TLParen (quoting ''expected `(` after `function`''))
     (reads (\<lambda>p0.
       if nfuncs p0 \<ge> MAX_FUNC_SCOPES then fail ''too many nested functions''
       else let func_mark = nlocals p0 in
         andnext (sets (\<lambda>p. p\<lparr>pfuncs := (pfuncs p)(nfuncs p := empty_func_scope), nfuncs := nfuncs p + 1\<rparr>))
         (andthen parse_params (\<lambda>(ps, np).
          andnext (declare_params ps [0..<np])
          (reads (\<lambda>p. let saved_loop = loop_depth p; saved_scopes = n_scopes p in
             andnext (sets (\<lambda>p. p\<lparr>loop_depth := 0, n_scopes := 0\<rparr>))
             (andthen (parse_block rec) (\<lambda>body.
              andnext (sets (\<lambda>p. p\<lparr>n_scopes := saved_scopes, loop_depth := saved_loop\<rparr>))
              (andnext (expect TEnd (quoting ''expected `end` to close function''))
               (reads (\<lambda>p. let fs = pfuncs p (nfuncs p - 1) in
                  andnext (sets (\<lambda>p. p\<lparr>nfuncs := nfuncs p - 1, nlocals := func_mark\<rparr>))
                    (on_state (alloc_func ps np body (map (ups fs) [0..<nups fs]))))))))))))))"

section \<open>Expressions\<close>

definition parse_arg_list :: "calls \<Rightarrow> nat parse" where
  "parse_arg_list rec = reads (\<lambda>p.
     if cur p = TRParen then andnext advance (ok NO_NODE)
     else andthen (rec (JArgs NO_NODE NO_NODE)) (\<lambda>first.
       andnext (expect TRParen (quoting ''expected `)`'')) (ok first)))"

text \<open>A node is appended to the chain that ends in \<open>prev\<close>; the head of the chain is the result.\<close>

definition chain :: "nat \<Rightarrow> nat \<Rightarrow> nat \<Rightarrow> nat parse" where
  "chain first prev node =
     (if prev \<noteq> NO_NODE then andnext (set_next prev node) (ok first) else ok node)"

definition parse_table_lit :: "calls \<Rightarrow> nat parse" where
  "parse_table_lit rec =
     andnext advance
     (reads (\<lambda>p.
       andthen (if cur p \<noteq> TRBrace then rec (JFields NO_NODE NO_NODE 0) else ok NO_NODE) (\<lambda>first.
       andnext (expect TRBrace (quoting ''expected `}` in table literal''))
       (alloc (NTableLit first)))))"

text \<open>The token a primary expression starts with.\<close>

definition parse_atom :: "calls \<Rightarrow> nat parse" where
  "parse_atom rec = reads (\<lambda>p. case cur p of
       TNum v \<Rightarrow> andnext advance (alloc (NNum v))
     | TFloat v \<Rightarrow> andnext advance (alloc (NFloat v))
     | TStr _ \<Rightarrow> andthen (on_state (intern (lex_buf (lex p)))) (\<lambda>r. andnext advance (alloc (NStr r)))
     | TTrue \<Rightarrow> andnext advance (alloc NTrue)
     | TFalse \<Rightarrow> andnext advance (alloc NFalse)
     | TNil \<Rightarrow> andnext advance (alloc NNil)
     | TName off len \<Rightarrow>
         andthen (intern_name off len) (\<lambda>r.
         andnext advance (andnext (resolve_name r) (alloc (NVar r))))
     | TLParen \<Rightarrow>
         andnext advance (andthen (rec JExpr) (\<lambda>e. andnext (expect TRParen (quoting ''expected `)`'')) (ok e)))
     | TLBrace \<Rightarrow> parse_table_lit rec
     | TFunction \<Rightarrow> andnext advance (andthen (parse_func_body rec) (\<lambda>fi. alloc (NFuncLit fi)))
     | _ \<Rightarrow> fail ''unexpected token in expression'')"

text \<open>A method call after its parenthesis: the receiver becomes the first argument.\<close>

definition method_call :: "calls \<Rightarrow> nat \<Rightarrow> nat \<Rightarrow> nat parse" where
  "method_call rec node method =
     andthen (parse_arg_list rec) (\<lambda>args.
     andthen (alloc (NArg node)) (\<lambda>recv_arg.
     andnext (if args \<noteq> NO_NODE then set_next recv_arg args else ok ())
     (andthen (alloc (NCall method recv_arg)) (\<lambda>node. rec (JSuffix node)))))"

text \<open>One round of the suffix loop: indexing, method calls, calls.\<close>

definition parse_suffix :: "calls \<Rightarrow> nat \<Rightarrow> nat parse" where
  "parse_suffix rec node = reads (\<lambda>p. case cur p of
       TDot \<Rightarrow>
         andnext advance (reads (\<lambda>p. case cur p of
           TName off len \<Rightarrow>
             andthen (intern_name off len) (\<lambda>name.
             andnext advance
             (andthen (alloc (NStr name)) (\<lambda>key.
              andthen (alloc (NIndex node key)) (\<lambda>node. rec (JSuffix node)))))
         | _ \<Rightarrow> fail (quoting ''expected name after `.`'')))
     | TColon \<Rightarrow>
         andnext advance (reads (\<lambda>p. case cur p of
           TName off len \<Rightarrow>
             andthen (intern_name off len) (\<lambda>name.
             andnext advance
             (andthen (alloc (NStr name)) (\<lambda>key.
              andthen (alloc (NIndex node key)) (\<lambda>method.
              andnext (expect TLParen (quoting ''expected `(` after method name''))
              (method_call rec node method)))))
         | _ \<Rightarrow> fail (quoting ''expected name after `:`'')))
     | TLBracket \<Rightarrow>
         andnext advance
         (andthen (rec JExpr) (\<lambda>key.
          andnext (expect TRBracket (quoting ''expected `]`''))
          (andthen (alloc (NIndex node key)) (\<lambda>node. rec (JSuffix node)))))
     | TLParen \<Rightarrow>
         andnext advance
         (andthen (parse_arg_list rec) (\<lambda>first_arg.
          andthen (alloc (NCall node first_arg)) (\<lambda>node. rec (JSuffix node))))
     | _ \<Rightarrow> ok node)"

definition parse_primary :: "calls \<Rightarrow> nat parse" where
  "parse_primary rec = andthen (parse_atom rec) (\<lambda>node. rec (JSuffix node))"

definition parse_unary :: "calls \<Rightarrow> nat parse" where
  "parse_unary rec = reads (\<lambda>p.
     if cur p = TNot then andnext advance (andthen (rec JUnary) (\<lambda>x. alloc (NUn OpNot x)))
     else if cur p = TMinus then andnext advance (andthen (rec JUnary) (\<lambda>x. alloc (NUn OpNeg x)))
     else parse_primary rec)"

text \<open>
  A left-associative level: \<open>rest_of\<close> is its loop, with the operators of the level, the parser of
  the level below, and the job of the next round.
\<close>

definition rest_of :: "(tok \<times> binop) list \<Rightarrow> nat parse \<Rightarrow> (nat \<Rightarrow> nat parse) \<Rightarrow> nat \<Rightarrow> nat parse" where
  "rest_of ops operand again l = reads (\<lambda>p. case map_of ops (cur p) of
       None \<Rightarrow> ok l
     | Some op \<Rightarrow>
         andnext advance
         (andthen operand (\<lambda>r. andthen (alloc (NBin op l r)) (\<lambda>l. again l))))"

definition mul_ops :: "(tok \<times> binop) list" where
  "mul_ops = [(TStar, OpMul), (TSlash, OpDiv), (TPercent, OpMod)]"

definition parse_mul_rest :: "calls \<Rightarrow> nat \<Rightarrow> nat parse" where
  "parse_mul_rest rec = rest_of mul_ops (parse_unary rec) (\<lambda>l. rec (JMulRest l))"

definition parse_muldiv :: "calls \<Rightarrow> nat parse" where
  "parse_muldiv rec = andthen (parse_unary rec) (parse_mul_rest rec)"

definition add_ops :: "(tok \<times> binop) list" where
  "add_ops = [(TPlus, OpAdd), (TMinus, OpSub)]"

definition parse_add_rest :: "calls \<Rightarrow> nat \<Rightarrow> nat parse" where
  "parse_add_rest rec = rest_of add_ops (parse_muldiv rec) (\<lambda>l. rec (JAddRest l))"

definition parse_addsub :: "calls \<Rightarrow> nat parse" where
  "parse_addsub rec = andthen (parse_muldiv rec) (parse_add_rest rec)"

definition parse_concat :: "calls \<Rightarrow> nat parse" where
  "parse_concat rec = andthen (parse_addsub rec) (\<lambda>l. reads (\<lambda>p.
     if cur p = TDotDot then
       andnext advance (andthen (rec JConcat) (\<lambda>r. alloc (NBin OpConcat l r)))
     else ok l))"

definition cmp_ops :: "(tok \<times> binop) list" where
  "cmp_ops = [(TEqEq, OpEq), (TNeq, OpNe), (TLt, OpLt), (TLe, OpLe), (TGt, OpGt), (TGe, OpGe)]"

definition parse_cmp_rest :: "calls \<Rightarrow> nat \<Rightarrow> nat parse" where
  "parse_cmp_rest rec = rest_of cmp_ops (parse_concat rec) (\<lambda>l. rec (JCmpRest l))"

definition parse_cmp :: "calls \<Rightarrow> nat parse" where
  "parse_cmp rec = andthen (parse_concat rec) (parse_cmp_rest rec)"

definition parse_and_rest :: "calls \<Rightarrow> nat \<Rightarrow> nat parse" where
  "parse_and_rest rec = rest_of [(TAnd, OpAnd)] (parse_cmp rec) (\<lambda>l. rec (JAndRest l))"

definition parse_and :: "calls \<Rightarrow> nat parse" where
  "parse_and rec = andthen (parse_cmp rec) (parse_and_rest rec)"

definition parse_or_rest :: "calls \<Rightarrow> nat \<Rightarrow> nat parse" where
  "parse_or_rest rec = rest_of [(TOr, OpOr)] (parse_and rec) (\<lambda>l. rec (JOrRest l))"

definition parse_or :: "calls \<Rightarrow> nat parse" where
  "parse_or rec = andthen (parse_and rec) (parse_or_rest rec)"

definition parse_expr :: "calls \<Rightarrow> nat parse" where
  "parse_expr rec = parse_or rec"

text \<open>The loops of \<open>parse_arg_list\<close> and \<open>parse_table_lit\<close>.\<close>

definition parse_args :: "calls \<Rightarrow> nat \<Rightarrow> nat \<Rightarrow> nat parse" where
  "parse_args rec first prev =
     andthen (parse_expr rec) (\<lambda>a.
     andthen (alloc (NArg a)) (\<lambda>arg.
     andthen (chain first prev arg) (\<lambda>first.
     reads (\<lambda>p. if cur p = TComma then andnext advance (rec (JArgs first arg)) else ok first))))"

text \<open>One field of a table literal: its key and value nodes and the next ordinal.\<close>

definition parse_field :: "calls \<Rightarrow> nat \<Rightarrow> (nat \<times> nat \<times> nat) parse" where
  "parse_field rec ordinal = reads (\<lambda>p. case cur p of
       TLBracket \<Rightarrow>
         andnext advance
         (andthen (rec JExpr) (\<lambda>k.
          andnext (expect TRBracket (quoting ''expected `]`''))
          (andnext (expect TEquals (quoting ''expected `=` after `[expr]` key''))
           (andthen (rec JExpr) (\<lambda>v. ok (k, v, ordinal))))))
     | TName off len \<Rightarrow>
         andthen (intern_name off len) (\<lambda>name.
         andnext advance
         (reads (\<lambda>p. if cur p = TEquals then
              andnext advance
              (andthen (alloc (NStr name)) (\<lambda>k.
               andthen (rec JExpr) (\<lambda>v. ok (k, v, ordinal))))
            else
              andthen (alloc (NNum (word_of_nat (ordinal + 1)))) (\<lambda>k.
              andthen (alloc (NVar name)) (\<lambda>v. ok (k, v, ordinal + 1))))))
     | _ \<Rightarrow>
         andthen (alloc (NNum (word_of_nat (ordinal + 1)))) (\<lambda>k.
         andthen (parse_expr rec) (\<lambda>v. ok (k, v, ordinal + 1))))"

definition parse_fields :: "calls \<Rightarrow> nat \<Rightarrow> nat \<Rightarrow> nat \<Rightarrow> nat parse" where
  "parse_fields rec first prev ordinal =
     andthen (parse_field rec ordinal) (\<lambda>(k, v, ordinal).
     andthen (alloc (NField k v)) (\<lambda>field.
     andthen (chain first prev field) (\<lambda>first.
     reads (\<lambda>p. if cur p = TComma then andnext advance (rec (JFields first field ordinal)) else ok first))))"

section \<open>Statements\<close>

definition block_end :: "tok \<Rightarrow> bool" where
  "block_end t \<longleftrightarrow> t \<in> {TEof, TEnd, TElse, TElseif, TUntil}"

definition at_block_end :: "parser \<Rightarrow> bool" where
  "at_block_end p \<longleftrightarrow> block_end (cur p) \<or> cur p = TSemi"

definition enter_loop :: "unit parse" where
  "enter_loop = sets (\<lambda>p. p\<lparr>loop_depth := loop_depth p + 1\<rparr>)"

definition leave_loop :: "unit parse" where
  "leave_loop = sets (\<lambda>p. p\<lparr>loop_depth := loop_depth p - 1\<rparr>)"

text \<open>\<open>self.loop_depth += 1; let body = self.parse_block()?; self.loop_depth -= 1;\<close>\<close>

definition parse_loop_body :: "calls \<Rightarrow> nat parse" where
  "parse_loop_body rec =
     andnext enter_loop (andthen (parse_block rec) (\<lambda>body. andnext leave_loop (ok body)))"

definition parse_local_function :: "calls \<Rightarrow> nat parse" where
  "parse_local_function rec =
     andnext advance
     (andthen expect_name (\<lambda>name.
      andnext (declare_local_rec name NO_NODE)
      (andthen (parse_func_body rec) (\<lambda>fi.
       andthen (alloc (NVar name)) (\<lambda>name_node. alloc (NLocalFunc name_node fi))))))"

text \<open>The further names of a \<open>local\<close>; \<open>k\<close> is how many more are allowed before the error.\<close>

primrec local_names :: "nat \<Rightarrow> nat \<Rightarrow> unit parse" where
  "local_names 0 prev = fail ''too many locals''"
| "local_names (Suc k) prev = reads (\<lambda>p.
     if cur p = TComma then
       andnext advance
       (andthen expect_name (\<lambda>name.
        andthen (alloc (NVar name)) (\<lambda>node.
        andnext (set_next prev node) (local_names k node))))
     else ok ())"

text \<open>
  The names of the chain from \<open>np\<close> are declared with their statement node. Each round declares a
  local, so \<open>MAX_RESOLVED_LOCALS + 1\<close> rounds are never exceeded.
\<close>

primrec declare_names :: "nat \<Rightarrow> nat \<Rightarrow> nat \<Rightarrow> unit parse" where
  "declare_names 0 node np = (\<lambda>p. (OutOfFuel, p))"
| "declare_names (Suc k) node np =
     (if np = NO_NODE then ok ()
      else andthen (get_node np) (\<lambda>n.
        andnext (declare_local_rec (var_name n) node)
        (andthen (get_next np) (\<lambda>np. declare_names k node np))))"

definition parse_local :: "calls \<Rightarrow> nat parse" where
  "parse_local rec =
     andnext advance
     (reads (\<lambda>p. if cur p = TFunction then parse_local_function rec
       else
         andthen expect_name (\<lambda>name.
         andthen (alloc (NVar name)) (\<lambda>first.
         andnext (local_names (MAX_LOCALS - 1) first)
         (andnext (expect TEquals (quoting ''expected `=` in local declaration''))
          (andthen (parse_expr rec) (\<lambda>v.
           andnext opt_semi
           (andthen (alloc (NLocalDecl first v)) (\<lambda>node.
            andnext (declare_names (MAX_RESOLVED_LOCALS + 1) node first) (ok node)))))))))) "

definition parse_global :: "calls \<Rightarrow> nat parse" where
  "parse_global rec =
     andnext advance
     (andthen expect_name (\<lambda>name. reads (\<lambda>p.
      andthen (if cur p = TEquals then andnext advance (parse_expr rec) else ok NO_NODE) (\<lambda>v.
      andnext opt_semi
      (andthen (alloc (NVar name)) (\<lambda>name_node. alloc (NGlobalDecl name_node v)))))))"

definition parse_function_stat :: "calls \<Rightarrow> nat parse" where
  "parse_function_stat rec =
     andnext advance
     (andthen expect_name (\<lambda>name.
      andthen (parse_func_body rec) (\<lambda>fi.
      andthen (alloc (NVar name)) (\<lambda>name_node.
      andthen (alloc (NFuncLit fi)) (\<lambda>fl. alloc (NAssign name_node fl))))))"

definition parse_if_tail :: "calls \<Rightarrow> nat parse" where
  "parse_if_tail rec = reads (\<lambda>p. case cur p of
       TEnd \<Rightarrow> andnext advance (ok NO_NODE)
     | TElse \<Rightarrow>
         andnext advance
         (andthen (parse_block rec) (\<lambda>b.
          andnext (expect TEnd (quoting ''expected `end` after else'')) (ok b)))
     | TElseif \<Rightarrow>
         andnext advance
         (andthen (parse_expr rec) (\<lambda>c.
          andnext (expect TThen (quoting ''expected `then`''))
          (andthen (parse_block rec) (\<lambda>t.
           andthen (rec JIfTail) (\<lambda>tail. alloc (NIf c t tail))))))
     | _ \<Rightarrow> fail (quoting ''expected `end`, `else`, or `elseif`''))"

definition parse_if :: "calls \<Rightarrow> nat parse" where
  "parse_if rec =
     andnext advance
     (andthen (parse_expr rec) (\<lambda>cond.
      andnext (expect TThen (quoting ''expected `then`''))
      (andthen (parse_block rec) (\<lambda>then_b.
       andthen (parse_if_tail rec) (\<lambda>els. alloc (NIf cond then_b els))))))"

definition parse_while :: "calls \<Rightarrow> nat parse" where
  "parse_while rec =
     andnext advance
     (andthen (parse_expr rec) (\<lambda>cond.
      andnext (expect TDo (quoting ''expected `do`''))
      (andthen (parse_loop_body rec) (\<lambda>body.
       andnext (expect TEnd (quoting ''expected `end` to close while''))
       (alloc (NWhile cond body))))))"

text \<open>The end of both \<open>for\<close> statements: the records of the loop variables learn their statement
  node, and go out of scope.\<close>

definition set_decl :: "nat \<Rightarrow> nat \<Rightarrow> unit parse" where
  "set_decl r node = sets (\<lambda>p. p\<lparr>plocals := (plocals p)(r := (plocals p r)\<lparr>decl_node := node\<rparr>)\<rparr>)"

definition numeric_loop :: "calls \<Rightarrow> strref \<Rightarrow> nat \<Rightarrow> nat \<Rightarrow> nat \<Rightarrow> nat \<Rightarrow> nat parse" where
  "numeric_loop rec name name_node start limit step = reads (\<lambda>p. let mark = nlocals p in
     andthen (declare_local_rec name NO_NODE) (\<lambda>r.
     andthen (parse_loop_body rec) (\<lambda>body.
     andnext (expect TEnd (quoting ''expected `end` to close for''))
     (reads (\<lambda>p.
       andthen (alloc (if captured (plocals p r) then NForCell name_node start limit step body
                       else NFor name_node start limit step body)) (\<lambda>node.
       andnext (set_decl r node) (andnext (sets (\<lambda>p. p\<lparr>nlocals := mark\<rparr>)) (ok node))))))))"

definition for_step :: "calls \<Rightarrow> nat parse" where
  "for_step rec = reads (\<lambda>p. if cur p = TComma then andnext advance (parse_expr rec) else ok NO_NODE)"

definition parse_numeric_for :: "calls \<Rightarrow> strref \<Rightarrow> nat \<Rightarrow> nat parse" where
  "parse_numeric_for rec name name_node =
     andnext advance
     (andthen (parse_expr rec) (\<lambda>start.
      andnext (expect TComma (quoting ''expected `,` in for statement''))
      (andthen (parse_expr rec) (\<lambda>limit.
       andthen (for_step rec) (\<lambda>step.
       andnext (expect TDo (quoting ''expected `do`''))
         (numeric_loop rec name name_node start limit step))))))"

definition generic_loop :: "calls \<Rightarrow> strref \<Rightarrow> nat \<Rightarrow> nat \<Rightarrow> nat \<Rightarrow> nat parse" where
  "generic_loop rec name name_node vnode tbl = reads (\<lambda>p. let mark = nlocals p in
     andthen (declare_local_rec name NO_NODE) (\<lambda>r.
     andthen (if vnode \<noteq> NO_NODE
              then andthen (get_node vnode) (\<lambda>n. declare_local_rec (var_name n) NO_NODE)
              else ok r) (\<lambda>vr.
     andthen (parse_loop_body rec) (\<lambda>body.
     andnext (expect TEnd (quoting ''expected `end` to close for''))
     (reads (\<lambda>p.
       andthen (alloc (if captured (plocals p r) \<or> captured (plocals p vr)
                       then NForInCell name_node vnode tbl body
                       else NForIn name_node vnode tbl body)) (\<lambda>node.
       andnext (set_decl r node) (andnext (set_decl vr node)
       (andnext (sets (\<lambda>p. p\<lparr>nlocals := mark\<rparr>)) (ok node))))))))))"

definition second_name :: "nat parse" where
  "second_name = reads (\<lambda>p. if cur p = TComma
     then andnext advance (andthen expect_name (\<lambda>vname. alloc (NVar vname))) else ok NO_NODE)"

definition parse_generic_for :: "calls \<Rightarrow> strref \<Rightarrow> nat \<Rightarrow> nat parse" where
  "parse_generic_for rec name name_node =
     andthen second_name (\<lambda>vnode.
     andnext (expect TIn (quoting ''expected `in` in for statement''))
     (andthen (parse_expr rec) (\<lambda>tbl.
      andnext (expect TDo (quoting ''expected `do`''))
        (generic_loop rec name name_node vnode tbl))))"

definition parse_for :: "calls \<Rightarrow> nat parse" where
  "parse_for rec =
     andnext advance
     (andthen expect_name (\<lambda>name.
      andthen (alloc (NVar name)) (\<lambda>name_node. reads (\<lambda>p.
      if cur p = TEquals then parse_numeric_for rec name name_node
      else parse_generic_for rec name name_node))))"

definition parse_repeat :: "calls \<Rightarrow> nat parse" where
  "parse_repeat rec =
     andnext advance
     (andthen (parse_loop_body rec) (\<lambda>body.
      andnext (expect TUntil (quoting ''expected `until` to close repeat''))
      (andthen (parse_expr rec) (\<lambda>cond. alloc (NRepeat body cond)))))"

definition parse_label :: "nat parse" where
  "parse_label =
     andnext advance
     (andthen expect_name (\<lambda>name.
      andnext (expect TColonColon (quoting ''expected `::` after label name''))
      (andthen (alloc (NLabel name)) (\<lambda>node. andnext (record_label name node) (ok node)))))"

definition parse_goto :: "nat parse" where
  "parse_goto =
     andnext advance
     (andthen expect_name (\<lambda>name.
      andthen (alloc (NGoto 0)) (\<lambda>node. andnext (record_goto node name) (ok node))))"

definition parse_break :: "nat parse" where
  "parse_break =
     andnext advance
     (reads (\<lambda>p. if loop_depth p = 0 then fail ''break outside loop''
       else andnext opt_semi (alloc NBreak)))"

definition parse_return :: "calls \<Rightarrow> nat parse" where
  "parse_return rec =
     andnext advance
     (reads (\<lambda>p.
       andthen (if at_block_end p then ok NO_NODE else parse_expr rec) (\<lambda>v.
       andnext opt_semi (alloc (NReturn v)))))"

definition is_assign_target :: "node \<Rightarrow> bool" where
  "is_assign_target n \<longleftrightarrow> (case n of NVar _ \<Rightarrow> True | NIndex _ _ \<Rightarrow> True | _ \<Rightarrow> False)"

definition check_target :: "nat \<Rightarrow> unit parse" where
  "check_target i =
     andthen (get_node i) (\<lambda>n. if is_assign_target n then ok () else fail ''invalid assignment target'')"

text \<open>The further targets of an assignment; the value of the job is not used.\<close>

definition parse_targets :: "calls \<Rightarrow> nat \<Rightarrow> nat parse" where
  "parse_targets rec prev = reads (\<lambda>p.
     if cur p = TComma then
       andnext advance
       (andthen (parse_expr rec) (\<lambda>t.
        andnext (check_target t) (andnext (set_next prev t) (rec (JTargets t)))))
     else ok prev)"

definition parse_assignment_from :: "calls \<Rightarrow> nat \<Rightarrow> nat parse" where
  "parse_assignment_from rec first =
     andnext (check_target first)
     (andnext (parse_targets rec first)
     (andnext (expect TEquals (quoting ''expected `=` in assignment''))
     (andthen (parse_expr rec) (\<lambda>v.
      andnext opt_semi (alloc (NAssign first v))))))"

definition parse_expr_stat :: "calls \<Rightarrow> nat parse" where
  "parse_expr_stat rec =
     andthen (parse_expr rec) (\<lambda>e. reads (\<lambda>p.
     if cur p = TEquals \<or> cur p = TComma then parse_assignment_from rec e
     else andnext opt_semi (alloc (NCallStmt e))))"

definition parse_stat :: "calls \<Rightarrow> nat parse" where
  "parse_stat rec = reads (\<lambda>p. case cur p of
       TLocal \<Rightarrow> parse_local rec
     | TGlobal \<Rightarrow> parse_global rec
     | TFunction \<Rightarrow> parse_function_stat rec
     | TIf \<Rightarrow> parse_if rec
     | TWhile \<Rightarrow> parse_while rec
     | TFor \<Rightarrow> parse_for rec
     | TRepeat \<Rightarrow> parse_repeat rec
     | TColonColon \<Rightarrow> parse_label
     | TGoto \<Rightarrow> parse_goto
     | TBreak \<Rightarrow> parse_break
     | TReturn \<Rightarrow> parse_return rec
     | _ \<Rightarrow> parse_expr_stat rec)"

text \<open>One round of the statement loop of a block.\<close>

definition parse_stats :: "calls \<Rightarrow> nat \<Rightarrow> nat \<Rightarrow> nat parse" where
  "parse_stats rec first prev = reads (\<lambda>p.
     if block_end (cur p) then ok first
     else andthen (parse_stat rec) (\<lambda>s.
       andthen (chain first prev s) (\<lambda>first. rec (JStats first s))))"

section \<open>The parser\<close>

definition parse_job :: "calls \<Rightarrow> calls" where
  "parse_job rec j = (case j of
       JStats first prev \<Rightarrow> parse_stats rec first prev
     | JExpr \<Rightarrow> parse_expr rec
     | JUnary \<Rightarrow> parse_unary rec
     | JConcat \<Rightarrow> parse_concat rec
     | JOrRest l \<Rightarrow> parse_or_rest rec l
     | JAndRest l \<Rightarrow> parse_and_rest rec l
     | JCmpRest l \<Rightarrow> parse_cmp_rest rec l
     | JAddRest l \<Rightarrow> parse_add_rest rec l
     | JMulRest l \<Rightarrow> parse_mul_rest rec l
     | JSuffix node \<Rightarrow> parse_suffix rec node
     | JFields first prev ordinal \<Rightarrow> parse_fields rec first prev ordinal
     | JArgs first prev \<Rightarrow> parse_args rec first prev
     | JIfTail \<Rightarrow> parse_if_tail rec
     | JTargets prev \<Rightarrow> parse_targets rec prev)"

primrec parse :: "nat \<Rightarrow> calls" where
  "parse 0 j = (\<lambda>p. (OutOfFuel, p))"
| "parse (Suc k) j = parse_job (parse k) j"

definition parse_script :: "nat \<Rightarrow> nat parse" where
  "parse_script k =
     andthen (parse_block (parse k)) (\<lambda>first. reads (\<lambda>p.
       if cur p \<noteq> TEof then fail ''unexpected token after script'' else ok first))"

text \<open>A whole source, with fuel for every byte.\<close>

definition parse_source :: "bytes \<Rightarrow> lua \<Rightarrow> nat res \<times> lua" where
  "parse_source s l =
     (case parse_script (length s + 2) (new_parser s l) of (r, p) \<Rightarrow> (r, st p))"

end
