(* ===== verification/LuaRun.thy ===== *)
theory LuaRun
  imports LuaVm LuaParse
begin

text \<open>
  The ways into the interpreter: the registration of the builtins, \<^verbatim>\<open>LuaState::run\<close> of
  \<^verbatim>\<open>lua/src/lib.rs\<close>, \<^verbatim>\<open>exec_chunk\<close> (\<^verbatim>\<open>dofile\<close>) and the evaluation of one line of the
  read-eval-print loop, \<^verbatim>\<open>run_repl_once\<close> of \<^verbatim>\<open>lua/src/vm.rs\<close>.
\<close>

section \<open>Builtins\<close>

text \<open>\<open>m.unwrap()\<close>: an error is a panic.\<close>

definition unwrap :: "'a vm \<Rightarrow> 'a vm" where
  "unwrap m = (\<lambda>s. case m s of (Throw _, s') \<Rightarrow> (VPanic, s') | r \<Rightarrow> r)"

definition intern_lit :: "string \<Rightarrow> strref vm" where
  "intern_lit name = unwrap (vlift (intern (lit name)))"

primrec register_globals :: "(string \<times> lval) list \<Rightarrow> unit vm" where
  "register_globals [] = vok ()"
| "register_globals (e # es) =
     vthen (intern_lit (fst e)) (\<lambda>name. vnext (vsets (set_global name (snd e))) (register_globals es))"

primrec register_fields :: "caller \<Rightarrow> nat \<Rightarrow> (string \<times> lval) list \<Rightarrow> unit vm" where
  "register_fields cv tid [] = vok ()"
| "register_fields cv tid (e # es) =
     vthen (intern_lit (fst e)) (\<lambda>name.
     vnext (unwrap (tset CHAIN_FUEL cv (VTable tid) (VStr name) (snd e))) (register_fields cv tid es))"

definition register_library :: "caller \<Rightarrow> string \<Rightarrow> (string \<times> lval) list \<Rightarrow> unit vm" where
  "register_library cv lib es =
     vthen (intern_lit lib) (\<lambda>name.
     vthen (unwrap new_table) (\<lambda>tid.
     vnext (register_fields cv tid es) (vsets (set_global name (VTable tid)))))"

definition first_globals :: "(string \<times> lval) list" where
  "first_globals = [(''print'', VNative 0), (''fetch'', VNative 1), (''shell'', VShell), (''dhcp'', VDhcp),
     (''dofile'', VNative 2), (''exit'', VExit), (''ls'', VLs), (''cd'', VNative 75)]"

definition base_globals :: "(string \<times> lval) list" where
  "base_globals = [(''next'', VNative 3), (''pairs'', VNative 4), (''rawequal'', VNative 5),
     (''rawget'', VNative 6), (''rawlen'', VNative 7), (''rawset'', VNative 8), (''select'', VNative 9),
     (''setmetatable'', VNative 10), (''tonumber'', VNative 11), (''tostring'', VNative 12),
     (''type'', VNative 13)]"

definition error_globals :: "(string \<times> lval) list" where
  "error_globals = [(''warn'', VNative 14), (''pcall'', VNative 15), (''error'', VNative 16),
     (''assert'', VNative 25), (''xpcall'', VNative 26)]"

definition libraries :: "(string \<times> (string \<times> lval) list) list" where
  "libraries = [
     (''coroutine'', [(''create'', VNative 17), (''resume'', VNative 18), (''yield'', VNative 19),
       (''status'', VNative 20), (''wrap'', VNative 21), (''isyieldable'', VNative 22),
       (''running'', VNative 23), (''close'', VNative 24)]),
     (''string'', [(''byte'', VNative 27), (''char'', VNative 28), (''dump'', VNative 29),
       (''find'', VNative 30), (''format'', VNative 31), (''gmatch'', VNative 32), (''gsub'', VNative 33),
       (''len'', VNative 34), (''lower'', VNative 35), (''match'', VNative 36), (''pack'', VNative 37),
       (''packsize'', VNative 38), (''rep'', VNative 39), (''reverse'', VNative 40), (''sub'', VNative 41),
       (''unpack'', VNative 42), (''upper'', VNative 43)]),
     (''table'', [(''concat'', VNative 44), (''create'', VNative 45), (''insert'', VNative 46),
       (''move'', VNative 47), (''pack'', VNative 48), (''remove'', VNative 49), (''sort'', VNative 50),
       (''unpack'', VNative 51)]),
     (''math'', [(''ceil'', VNative 52), (''floor'', VNative 53), (''random'', VNative 56),
       (''randomseed'', VNative 57), (''tointeger'', VNative 58), (''type'', VNative 59),
       (''maxinteger'', VNum 0x7FFFFFFFFFFFFFFF), (''mininteger'', VNum i64_min)]),
     (''io'', [(''close'', VNative 60), (''flush'', VNative 61), (''input'', VNative 62),
       (''lines'', VNative 63), (''open'', VNative 64), (''output'', VNative 65), (''read'', VNative 66),
       (''tmpfile'', VNative 67), (''type'', VNative 68), (''write'', VNative 69)]),
     (''os'', [(''exit'', VNative 72), (''remove'', VNative 73), (''rename'', VNative 74)])]"

primrec register_libraries :: "caller \<Rightarrow> (string \<times> (string \<times> lval) list) list \<Rightarrow> unit vm" where
  "register_libraries cv [] = vok ()"
| "register_libraries cv (l # ls) =
     vnext (register_library cv (fst l) (snd l)) (register_libraries cv ls)"

text \<open>The entry \<open>/disks\<close> of \<open>ls\<close>: errors are ignored.\<close>

definition ignore :: "unit vm \<Rightarrow> unit vm" where
  "ignore m = (\<lambda>s. case m s of (Throw _, s') \<Rightarrow> (Fine (), s') | r \<Rightarrow> r)"

definition register_disks :: "unit vm" where
  "register_disks = ignore (vthen (vlift (intern (lit ''/disks''))) (\<lambda>name. vlift (record_fetch_ref name 0)))"

text \<open>The version string is interned before its name.\<close>

definition register_version :: "unit vm" where
  "register_version =
     vthen (intern_lit ''Lua 5.5'') (\<lambda>v. vthen (intern_lit ''_VERSION'') (\<lambda>name. vsets (set_global name (VStr v))))"

definition register_builtins :: "caller \<Rightarrow> unit vm" where
  "register_builtins cv =
     vnext (register_globals first_globals)
     (vnext register_disks
     (vnext (register_globals base_globals)
     (vnext register_version
     (vnext (register_globals error_globals) (register_libraries cv libraries)))))"

section \<open>Scripts\<close>

text \<open>\<open>LuaState::run\<close> and \<open>exec_chunk\<close>; \<open>k\<close> bounds the run.\<close>

definition run_source :: "host \<Rightarrow> nat \<Rightarrow> bytes \<Rightarrow> unit vm" where
  "run_source h k source =
     vnext (vsets lua_reset)
     (vnext (register_builtins (call_value (exec h k)))
     (vthen (vlift (parse_source source)) (\<lambda>first.
      vthen (vlift (compile first)) (\<lambda>entry. exec_script h k entry))))"

definition DOFILE_CAP :: nat where "DOFILE_CAP = 4096"

text \<open>The loader writes into a buffer of \<open>DOFILE_CAP\<close> bytes.\<close>

definition load_chunk :: "host \<Rightarrow> bytes \<Rightarrow> bytes vm" where
  "load_chunk h name = vreads (\<lambda>s. case load_cb s of
       None \<Rightarrow> raise ''dofile not available (no file loader)''
     | Some f \<Rightarrow> vnext host_called (case h_load h (host_calls s) f name of
           None \<Rightarrow> raise ''cannot open file''
         | Some bs \<Rightarrow> if length bs > DOFILE_CAP then raise ''file too large'' else vok bs))"

definition chunk_value :: "exec_result \<Rightarrow> lval vm" where
  "chunk_value r = (case r of
       Normal \<Rightarrow> vok VNil
     | Ret v \<Rightarrow> vok v
     | Ret2 a _ \<Rightarrow> vok a
     | RetN n \<Rightarrow>
         if n = 0 then vok VNil
         else vreads (\<lambda>s. vthen (minus_ix (vsp s) n) (\<lambda>base. vthen (at_stack base) (\<lambda>v. vnext (set_vsp base) (vok v))))
     | Shell \<Rightarrow> vok VShell
     | Exit \<Rightarrow> vok VExit
     | YieldN _ \<Rightarrow> raise ''attempt to yield across a dofile boundary''
     | BreakOut \<Rightarrow> raise ''break outside loop''
     | GotoOut _ \<Rightarrow> raise ''unknown label'')"

definition exec_chunk :: "host \<Rightarrow> vcalls \<Rightarrow> bytes \<Rightarrow> lval vm" where
  "exec_chunk h rec name =
     vthen (load_chunk h name) (\<lambda>source.
     vthen (vlift (parse_source source)) (\<lambda>first.
     vthen (vlift (compile first)) (\<lambda>entry.
     vnext (root_frame 1) (vthen (run rec entry) chunk_value))))"

section \<open>A line of the read-eval-print loop\<close>

definition is_expr_start :: "tok res \<Rightarrow> bool" where
  "is_expr_start r = (case r of
       Ok t \<Rightarrow> (case t of TName _ _ \<Rightarrow> True | TNum _ \<Rightarrow> True | TFloat _ \<Rightarrow> True | TStr _ \<Rightarrow> True
         | TLParen \<Rightarrow> True | TTrue \<Rightarrow> True | TFalse \<Rightarrow> True | TNil \<Rightarrow> True | TDot \<Rightarrow> True
         | TMinus \<Rightarrow> True | TNot \<Rightarrow> True | _ \<Rightarrow> False)
     | _ \<Rightarrow> False)"

text \<open>The expression at the start of the line, or the assignment it begins.\<close>

definition parse_line :: "bytes \<Rightarrow> lua \<Rightarrow> (nat \<times> bool) res \<times> lua" where
  "parse_line line l =
     (let rec = parse (length line + 2) in
      case andthen (parse_expr rec) (\<lambda>e. reads (\<lambda>p.
          if cur p = TEquals \<or> cur p = TComma
          then andthen (parse_assignment_from rec e) (\<lambda>n. ok (n, True))
          else ok (e, False))) (new_parser line l)
      of (r, p) \<Rightarrow> (r, st p))"

text \<open>The code of the line's expression; functions in it are queued and not compiled.\<close>

definition compile_line :: "nat \<Rightarrow> lua \<Rightarrow> nat res \<times> lua" where
  "compile_line e l =
     (case andnext (compile_job (MAX_NODES + 2) (CExpr e WANT_ALL))
         (andnext (emit Return WANT_ALL 0) (ok (ncode l))) (new_compiler l)
      of (r, c) \<Rightarrow> (r, cst c))"

primrec print_results :: "caller \<Rightarrow> nat \<Rightarrow> nat \<Rightarrow> unit vm" where
  "print_results cv 0 i = vok ()"
| "print_results cv (Suc n) i =
     vnext (if i > 0 then emit_bytes [9] else vok ())
     (vthen (at_stack i) (\<lambda>v. vnext (tostring cv v) (print_results cv n (i + 1))))"

definition show_results :: "host \<Rightarrow> caller \<Rightarrow> nat \<Rightarrow> exec_result vm" where
  "show_results h cv n =
     vthen (if n \<ge> 1 then at_stack 0 else vok VNil) (\<lambda>first. case first of
         VExit \<Rightarrow> vnext (set_vsp 0) (vok Exit)
       | VShell \<Rightarrow> vnext (set_vsp 0) (vok Shell)
       | VDhcp \<Rightarrow> vthen (dhcp_now h) (\<lambda>ok. vnext (tostring cv (VBool ok))
           (vnext (emit_bytes [10]) (vnext (set_vsp 0) (vok Normal))))
       | VLs \<Rightarrow> vnext ls_run (vnext (set_vsp 0) (vok Normal))
       | _ \<Rightarrow> vnext (if n = 0 then tostring cv VNil else print_results cv n 0)
           (vnext (emit_bytes [10]) (vnext (set_vsp 0) (vok Normal))))"

text \<open>The line is the expression \<open>n\<close>: its code is run in a frame of its own and its values are printed.\<close>

definition run_line_value :: "host \<Rightarrow> nat \<Rightarrow> nat \<Rightarrow> exec_result vm" where
  "run_line_value h k n =
     vthen (vlift (compile_line n)) (\<lambda>entry.
     vnext (vpush_frame (\<lambda>fr. fr\<lparr>ret_ip := RET_HALT, f_want := WANT_ALL, f_stack_base := 0\<rparr>))
     (vthen (run (exec h k) entry) (\<lambda>r.
      show_results h (call_value (exec h k)) (result_count r))))"

definition run_line_expr :: "host \<Rightarrow> nat \<Rightarrow> bytes \<Rightarrow> exec_result vm" where
  "run_line_expr h k line =
     vthen (vlift (parse_line line)) (\<lambda>(n, assignment).
     if assignment then
       vthen (vlift (compile n)) (\<lambda>entry. vnext (exec_script h k entry) (vok Normal))
     else run_line_value h k n)"

definition run_repl_once :: "host \<Rightarrow> nat \<Rightarrow> bytes \<Rightarrow> exec_result vm" where
  "run_repl_once h k line =
     vnext (vsets (\<lambda>s. s\<lparr>steps := 0, vsp := 0, fsp := 0, mark_sp := 0\<rparr>))
     (if is_expr_start (fst (next_token (new_lexer line))) then run_line_expr h k line
      else vthen (vlift (parse_source line)) (\<lambda>first.
        vthen (vlift (compile first)) (\<lambda>entry. vnext (exec_script h k entry) (vok Normal))))"

end
