(* ===== verification/LuaNative.thy ===== *)
theory LuaNative
  imports LuaFormat LuaRun
begin

text \<open>
  The basic natives of \<^verbatim>\<open>lua/src/eval.rs\<close> (0, 3 to 14, 16, 25), the fallback of protected calls (15, 26),
  the \<open>coroutine\<close> (17 to 24) and \<open>math\<close> (52 to 59) libraries, and the table of all natives modelled, which
  closes the machine of \<^theory_text>\<open>LuaVm\<close> but for the natives that talk to the host.
\<close>

section \<open>Output and conversion\<close>

primrec print_args :: "caller \<Rightarrow> bool \<Rightarrow> lval list \<Rightarrow> unit vm" where
  "print_args c later [] = vok ()"
| "print_args c later (v # vs) =
     vnext (if later then emit_bytes [9] else vok ()) (vnext (tostring c v) (print_args c True vs))"

definition native_print :: "caller \<Rightarrow> lval list \<Rightarrow> exec_result vm" where
  "native_print c args = vnext (print_args c False args) (vnext (emit_bytes [10]) (vok Normal))"

definition native_tonumber :: "lval list \<Rightarrow> exec_result vm" where
  "native_tonumber args = argc_between 1 2 ''tonumber expects 1 or 2 arguments'' args
     (if length args = 1 \<or> args ! 1 = VNil then
        (case args ! 0 of
           VNum n \<Rightarrow> vok (Ret (VNum n))
         | VFloat f \<Rightarrow> vok (Ret (VFloat f))
         | VStr r \<Rightarrow> vthen (bytes_of r) (\<lambda>bs. vok (Ret (case str_to_number bs of Some v \<Rightarrow> v | None \<Rightarrow> VNil)))
         | _ \<Rightarrow> vok (Ret VNil))
      else vthen (whole_number ''tonumber base must be an integer'' (args ! 1)) (\<lambda>base.
        if base <s 2 \<or> 36 <s base then raise ''tonumber base out of range''
        else vthen (str_arg ''tonumber expects a string with a base'' (args ! 0)) (\<lambda>bs.
          vok (Ret (case str_to_base bs (sint base) of Some n \<Rightarrow> VNum n | None \<Rightarrow> VNil)))))"

definition native_tostring :: "caller \<Rightarrow> lval list \<Rightarrow> exec_result vm" where
  "native_tostring c args = argc_between 1 1 ''tostring expects 1 argument'' args
     (vthen (value_to_string c (args ! 0)) (\<lambda>r. vok (Ret (VStr r))))"

definition native_type :: "lval list \<Rightarrow> exec_result vm" where
  "native_type args = argc_between 1 1 ''type expects 1 argument'' args (ret_str (type_name (args ! 0)))"

text \<open>\<open>warn\<close>: the control messages count only alone; the arguments are checked even when warnings are off.\<close>

primrec tostring_all :: "caller \<Rightarrow> lval list \<Rightarrow> unit vm" where
  "tostring_all c [] = vok ()"
| "tostring_all c (v # vs) = vnext (tostring c v) (tostring_all c vs)"

definition warn_control :: "lval list \<Rightarrow> bool vm" where
  "warn_control args = (case args of
       [VStr r] \<Rightarrow> vthen (bytes_of r) (\<lambda>bs.
         if bs = lit ''@on'' then vnext (vsets (\<lambda>s. s\<lparr>warn_on := True\<rparr>)) (vok True)
         else if bs = lit ''@off'' then vnext (vsets (\<lambda>s. s\<lparr>warn_on := False\<rparr>)) (vok True)
         else vok False)
     | _ \<Rightarrow> vok False)"

definition native_warn :: "caller \<Rightarrow> lval list \<Rightarrow> exec_result vm" where
  "native_warn c args =
     (if args = [] then raise ''warn expects at least 1 argument''
      else vthen (warn_control args) (\<lambda>control.
        if \<not> list_all is_text args then raise ''warn expects string arguments''
        else vreads (\<lambda>s. vnext (if \<not> control \<and> warn_on s then
            vnext (emit_bytes (lit ''Lua warning: '')) (vnext (tostring_all c args) (emit_bytes [10]))
          else vok ()) (vok Normal))))"

section \<open>Tables\<close>

definition native_next :: "lval list \<Rightarrow> exec_result vm" where
  "native_next args = argc_between 1 2 ''next expects 1 or 2 arguments'' args
     (vthen (table_arg ''next expects a table'' (args ! 0)) (\<lambda>tid.
      the_table tid (\<lambda>t.
        case (if length args = 1 \<or> args ! 1 = VNil then Some 0 else map_option Suc (slot_of t (args ! 1))) of
          None \<Rightarrow> raise (quoting ''invalid key to `next`'')
        | Some i \<Rightarrow> vok (if i \<ge> t_len t then Ret VNil else Ret2 (fst (slots t i)) (snd (slots t i))))))"

definition native_pairs :: "vcalls \<Rightarrow> lval list \<Rightarrow> exec_result vm" where
  "native_pairs rec args = argc_between 1 1 ''pairs expects 1 argument'' args
     (vthen (table_arg ''pairs expects a table'' (args ! 0)) (\<lambda>tid.
      vthen (mt_lookup tid MM_PAIRS) (\<lambda>f.
        if f \<noteq> VNil then vnext (vpush (args ! 0)) (in_mm (call_value rec f 1))
        else vok (Ret2 (VNative 3) (VTable tid)))))"

definition native_rawequal :: "lval list \<Rightarrow> exec_result vm" where
  "native_rawequal args = argc_between 2 2 ''rawequal expects 2 arguments'' args
     (vok (Ret (VBool (val_eq (args ! 0) (args ! 1)))))"

definition native_rawget :: "lval list \<Rightarrow> exec_result vm" where
  "native_rawget args = argc_between 2 2 ''rawget expects 2 arguments'' args
     (vthen (table_arg ''rawget expects a table'' (args ! 0)) (\<lambda>tid. vthen (raw_get tid (args ! 1)) (\<lambda>v. vok (Ret v))))"

definition native_rawset :: "lval list \<Rightarrow> exec_result vm" where
  "native_rawset args = argc_between 3 3 ''rawset expects 3 arguments'' args
     (vthen (table_arg ''rawset expects a table'' (args ! 0)) (\<lambda>tid.
      vnext (raw_set tid (args ! 1) (args ! 2)) (vok (Ret (args ! 0)))))"

text \<open>The length of the run of keys 1, 2, and so on; \<open>k\<close> bounds the rounds by the slots of a table.\<close>

primrec border :: "nat \<Rightarrow> nat \<Rightarrow> nat \<Rightarrow> nat vm" where
  "border 0 tid n = vok n"
| "border (Suc k) tid n =
     vthen (raw_get tid (num (n + 1))) (\<lambda>v.
       if v = VNil then vok n else if n + 1 \<ge> TABLE_SLOTS then vok (n + 1) else border k tid (n + 1))"

definition native_rawlen :: "lval list \<Rightarrow> exec_result vm" where
  "native_rawlen args = argc_between 1 1 ''rawlen expects 1 argument'' args
     (case args ! 0 of
        VStr r \<Rightarrow> vthen (bytes_of r) (\<lambda>bs. vok (Ret (num (length bs))))
      | VTable tid \<Rightarrow> vthen (border TABLE_SLOTS tid 0) (\<lambda>n. vok (Ret (num n)))
      | _ \<Rightarrow> raise ''rawlen expects a table or a string'')"

definition native_setmetatable :: "lval list \<Rightarrow> exec_result vm" where
  "native_setmetatable args = argc_between 2 2 ''setmetatable expects 2 arguments'' args
     (vthen (table_arg ''setmetatable expects a table'' (args ! 0)) (\<lambda>tid.
      vthen (case args ! 1 of VNil \<Rightarrow> vok None | VTable m \<Rightarrow> vok (Some m)
             | _ \<Rightarrow> raise ''setmetatable expects a table or nil'') (\<lambda>new_mt.
      the_table tid (\<lambda>t.
      vnext (case mt t of None \<Rightarrow> vok ()
             | Some m \<Rightarrow> vthen (vlift (intern (lit ''__metatable''))) (\<lambda>name.
                 vthen (raw_get m (VStr name)) (\<lambda>v.
                 if v \<noteq> VNil then raise ''cannot change a protected metatable'' else vok ())))
      (vnext (change_table tid (\<lambda>t. t\<lparr>mt := new_mt\<rparr>)) (vok (Ret (args ! 0))))))))"

definition native_select :: "lval list \<Rightarrow> exec_result vm" where
  "native_select args =
     (if args = [] then raise ''select expects at least 1 argument''
      else vthen (case args ! 0 of VStr r \<Rightarrow> vthen (bytes_of r) (\<lambda>bs. vok (bs = lit ''#'')) | _ \<Rightarrow> vok False) (\<lambda>all.
        if all then vok (Ret (num (length args - 1)))
        else vthen (whole_number ''select index must be an integer'' (args ! 0)) (\<lambda>i.
          let nargs = word_of_nat (length args);
              i = (if i <s 0 then i + nargs else if nargs <s i then nargs else i) in
          if i <s 1 then raise ''select index out of range''
          else vnext (push_all (drop (unat i) args)) (vok (RetN (length args - unat i))))))"

section \<open>Errors\<close>

definition native_error :: "lval list \<Rightarrow> exec_result vm" where
  "native_error args =
     (if length args > 2 then raise ''error expects at most 2 arguments''
      else vnext (optional args 1 (whole_number ''error level must be an integer'') (vok 0))
        (throw (Obj (if args = [] then VNil else args ! 0))))"

definition native_assert :: "lval list \<Rightarrow> exec_result vm" where
  "native_assert args =
     (if args = [] then raise ''assert expects at least 1 argument''
      else if truthy (args ! 0) then vok (RetN (length args))
      else vthen (if length args \<ge> 2 then vok (args ! 1)
                  else vthen (vlift (intern (lit ''assertion failed!''))) (\<lambda>r. vok (VStr r))) (\<lambda>v. throw (Obj v)))"

text \<open>\<open>b\<close> before the results of a call, in the fallback of \<open>pcall\<close> and \<open>xpcall\<close>.\<close>

definition rotate_in :: "bool \<Rightarrow> nat \<Rightarrow> exec_result vm" where
  "rotate_in b n = vnext (vpush (VBool b)) (vreads (\<lambda>s. vthen (minus_ix (vsp s) (n + 1)) (\<lambda>start.
     vnext (vsets (\<lambda>s. s\<lparr>vstack := (\<lambda>j. if j = start then vstack s (vsp s - 1)
       else if start < j \<and> j < vsp s then vstack s (j - 1) else vstack s j)\<rparr>)) (vok (RetN ((n + 1) mod 256))))))"

definition prefixed :: "bool \<Rightarrow> exec_result \<Rightarrow> exec_result vm" where
  "prefixed b r = (case r of
       Normal \<Rightarrow> vok (Ret (VBool b))
     | Ret v \<Rightarrow> vok (Ret2 (VBool b) v)
     | Ret2 x y \<Rightarrow> vnext (vpush x) (vnext (vpush y) (rotate_in b 2))
     | RetN n \<Rightarrow> rotate_in b n
     | Shell \<Rightarrow> vok Shell
     | Exit \<Rightarrow> vok Exit
     | YieldN _ \<Rightarrow> raise ''attempt to yield across a protected call''
     | BreakOut \<Rightarrow> raise ''break outside loop''
     | GotoOut _ \<Rightarrow> raise ''goto outside function'')"

text \<open>The stacks go back to where they were before the arguments when the call fails.\<close>

definition guarded :: "vcalls \<Rightarrow> lval \<Rightarrow> nat \<Rightarrow> nat \<Rightarrow> (lval \<Rightarrow> exec_result vm) \<Rightarrow> exec_result vm" where
  "guarded rec f argc nargs failed = (\<lambda>s. case rec (JCall f argc) s of
       (Fine r, s') \<Rightarrow> prefixed True r s'
     | (Throw e, s') \<Rightarrow> vnext (vsets (\<lambda>t. t\<lparr>vsp := vsp s - nargs, fsp := fsp s, mark_sp := mark_sp s\<rparr>))
         (vthen (error_value e) failed) s'
     | (VPanic, s') \<Rightarrow> (VPanic, s')
     | (VFuel, s') \<Rightarrow> (VFuel, s'))"

definition native_pcall :: "vcalls \<Rightarrow> lval list \<Rightarrow> exec_result vm" where
  "native_pcall rec args =
     (if args = [] then raise ''pcall expects at least 1 argument''
      else guarded rec (args ! 0) (length args - 1) (length args) (\<lambda>v. vok (Ret2 (VBool False) v)))"

definition native_xpcall :: "vcalls \<Rightarrow> lval list \<Rightarrow> exec_result vm" where
  "native_xpcall rec args =
     (if length args < 2 then raise ''xpcall expects at least 2 arguments''
      else guarded rec (args ! 0) (length args - 2) (length args) (\<lambda>v.
        vnext (vpush v) (vthen (rec (JCall (args ! 1) 1)) (prefixed False))))"

section \<open>Coroutines\<close>

definition co_arg :: "string \<Rightarrow> lval \<Rightarrow> nat vm" where
  "co_arg msg v = (case v of VCo i \<Rightarrow> vok (unat i) | _ \<Rightarrow> raise msg)"

definition the_status :: "nat \<Rightarrow> (u8 \<Rightarrow> 'a vm) \<Rightarrow> 'a vm" where
  "the_status i k = vreads (\<lambda>s. if i \<ge> MAX_COS then vpanic else k (co_status (cos s i)))"

definition native_resume :: "vcalls \<Rightarrow> lval list \<Rightarrow> exec_result vm" where
  "native_resume rec args =
     (if args = [] then raise ''coroutine.resume expects at least 1 argument''
      else vthen (co_arg ''coroutine.resume expects a coroutine'' (args ! 0)) (\<lambda>i. co_resume_value rec i (length args - 1)))"

definition native_yield :: "lval list \<Rightarrow> exec_result vm" where
  "native_yield args = vreads (\<lambda>s.
     if current s = 0 then raise ''attempt to yield from outside a coroutine''
     else vnext (push_all args) (vok (YieldN (length args))))"

definition native_status :: "lval list \<Rightarrow> exec_result vm" where
  "native_status args = argc_between 1 1 ''coroutine.status expects 1 argument'' args
     (vthen (co_arg ''coroutine.status expects a coroutine'' (args ! 0)) (\<lambda>i.
      the_status i (\<lambda>st. ret_str (if st = CO_SUSPENDED then lit ''suspended'' else if st = CO_RUNNING then lit ''running''
        else if st = CO_NORMAL then lit ''normal'' else lit ''dead''))))"

definition native_wrap :: "lval list \<Rightarrow> exec_result vm" where
  "native_wrap args = argc_between 1 1 ''coroutine.wrap expects 1 argument'' args
     (case args ! 0 of VCo i \<Rightarrow> vok (Ret (VWrapped i)) | _ \<Rightarrow> raise ''coroutine.wrap expects a coroutine'')"

definition native_isyieldable :: "lval list \<Rightarrow> exec_result vm" where
  "native_isyieldable args = argc_between 0 0 ''coroutine.isyieldable expects no arguments'' args
     (vreads (\<lambda>s. vok (Ret (VBool (current s \<noteq> 0)))))"

definition native_running :: "lval list \<Rightarrow> exec_result vm" where
  "native_running args = argc_between 0 0 ''coroutine.running expects no arguments'' args
     (vreads (\<lambda>s. vok (if current s = 0 then Ret2 VNil (VBool True) else Ret2 (VCo (word_of_nat (current s - 1))) (VBool False))))"

definition native_co_close :: "lval list \<Rightarrow> exec_result vm" where
  "native_co_close args = argc_between 1 1 ''coroutine.close expects 1 argument'' args
     (vthen (co_arg ''coroutine.close expects a coroutine'' (args ! 0)) (\<lambda>i.
      the_status i (\<lambda>st.
        if st = CO_DEAD then vok (Ret (VBool True))
        else if st = CO_SUSPENDED then vnext (co_update i (\<lambda>c. c\<lparr>co_status := CO_DEAD\<rparr>)) (vok (Ret (VBool True)))
        else raise ''cannot close a running coroutine'')))"

section \<open>Mathematics\<close>

definition in_i64 :: "f64 \<Rightarrow> bool" where
  "in_i64 f \<longleftrightarrow> f64_le (f64_of_i64 i64_min) f \<and> f64_le f (f64_of_i64 0x7FFFFFFFFFFFFFFF)"

definition integer_or_float :: "f64 \<Rightarrow> exec_result vm" where
  "integer_or_float f = vok (Ret (if is_finite f \<and> in_i64 f \<and> f64_eq f (f64_of_i64 (i64_of_f64 f))
     then VNum (i64_of_f64 f) else VFloat f))"

definition math_ceil :: "lval list \<Rightarrow> exec_result vm" where
  "math_ceil args = argc_between 1 1 ''math.ceil expects 1 argument'' args
     (vthen (float_arg ''math.ceil expects a number'' (args ! 0)) (\<lambda>f. integer_or_float (ceil_f64 f)))"

definition math_floor :: "lval list \<Rightarrow> exec_result vm" where
  "math_floor args = argc_between 1 1 ''math.floor expects 1 argument'' args
     (vthen (float_arg ''math.floor expects a number'' (args ! 0)) (\<lambda>f. integer_or_float (floor_f64 f)))"

definition draw :: "u64 \<Rightarrow> u64 vm" where
  "draw n = (\<lambda>s. case next_random_int n s of (x, s') \<Rightarrow> (Fine x, s'))"

text \<open>\<open>next_random_int(width) % width\<close>: a remainder by zero is a panic.\<close>

definition random_in :: "i64 \<Rightarrow> u64 \<Rightarrow> exec_result vm" where
  "random_in m width = vthen (draw width) (\<lambda>x. if width = 0 then vpanic else vok (Ret (VNum (x mod width + m))))"

definition math_random :: "lval list \<Rightarrow> exec_result vm" where
  "math_random args = (case args of
       [] \<Rightarrow> (\<lambda>s. case next_random s of (x, s') \<Rightarrow> (Fine (Ret (VFloat x)), s'))
     | [a] \<Rightarrow> vthen (to_integer_for_format a) (\<lambda>m.
         if m <s 1 then raise ''math.random: interval is empty'' else random_in 1 m)
     | [a, b] \<Rightarrow> vthen (to_integer_for_format a) (\<lambda>m. vthen (to_integer_for_format b) (\<lambda>n.
         if n <s m then raise ''math.random: interval is empty'' else random_in m (n - m + 1)))
     | _ \<Rightarrow> raise ''math.random expects 0 to 2 arguments'')"

definition math_randomseed :: "lval list \<Rightarrow> exec_result vm" where
  "math_randomseed args = argc_between 1 2 ''math.randomseed expects 1 or 2 arguments'' args
     (vthen (case args ! 0 of VNum n \<Rightarrow> vok n | VFloat f \<Rightarrow> vok f | _ \<Rightarrow> raise ''math.randomseed expects a number'') (\<lambda>seed.
      vnext (vsets (\<lambda>s. s\<lparr>rng_state := (if seed = 0 then 1 else seed)\<rparr>)) (vok Normal)))"

definition math_tointeger :: "lval list \<Rightarrow> exec_result vm" where
  "math_tointeger args = argc_between 1 1 ''math.tointeger expects 1 argument'' args
     (vok (Ret (case args ! 0 of
          VNum n \<Rightarrow> VNum n
        | VFloat f \<Rightarrow> if whole f \<and> in_i64 f then VNum (i64_of_f64 f) else VNil
        | _ \<Rightarrow> VNil)))"

definition math_type :: "lval list \<Rightarrow> exec_result vm" where
  "math_type args = argc_between 1 1 ''math.type expects 1 argument'' args
     (case args ! 0 of VNum _ \<Rightarrow> ret_str (lit ''integer'') | VFloat _ \<Rightarrow> ret_str (lit ''float'') | _ \<Rightarrow> vok (Ret VNil))"

section \<open>The table of natives\<close>

text \<open>\<open>core::str::from_utf8\<close>: the well-formed byte sequences of Unicode.\<close>

fun utf8_valid :: "bytes \<Rightarrow> bool" where
  "utf8_valid [] \<longleftrightarrow> True"
| "utf8_valid (b # r) \<longleftrightarrow>
     (if b < 0x80 then utf8_valid r
      else let tail = (\<lambda>lo hi n. length r \<ge> n \<and> between lo hi (hd r) \<and> list_all (between 0x80 0xBF) (take (n - 1) (tl r))) in
        if between 0xC2 0xDF b then tail 0x80 0xBF 1 \<and> utf8_valid (drop 1 r)
        else if b = 0xE0 then tail 0xA0 0xBF 2 \<and> utf8_valid (drop 2 r)
        else if b = 0xED then tail 0x80 0x9F 2 \<and> utf8_valid (drop 2 r)
        else if between 0xE1 0xEF b then tail 0x80 0xBF 2 \<and> utf8_valid (drop 2 r)
        else if b = 0xF0 then tail 0x90 0xBF 3 \<and> utf8_valid (drop 3 r)
        else if b = 0xF4 then tail 0x80 0x8F 3 \<and> utf8_valid (drop 3 r)
        else if between 0xF1 0xF3 b then tail 0x80 0xBF 3 \<and> utf8_valid (drop 3 r)
        else False)"

text \<open>\<open>dofile\<close> runs the chunk of a file.\<close>

definition native_dofile :: "host \<Rightarrow> vcalls \<Rightarrow> lval list \<Rightarrow> exec_result vm" where
  "native_dofile h rec args = argc_between 1 1 ''dofile expects 1 argument'' args
     (vthen (str_arg ''dofile expects a string filename'' (args ! 0)) (\<lambda>name.
      if length name \<ge> 128 then raise ''dofile filename too long''
      else if \<not> utf8_valid name then raise ''dofile filename must be ASCII''
      else vthen (exec_chunk h rec name) (\<lambda>v. vok (Ret v))))"

definition natives :: "host \<Rightarrow> vcalls \<Rightarrow> u8 \<Rightarrow> lval list \<Rightarrow> exec_result vm" where
  "natives h rec i args = (let c = call_value rec; n = unat i in
     if n = 0 then native_print c args else if n = 2 then native_dofile h rec args
     else if n = 3 then native_next args else if n = 4 then native_pairs rec args
     else if n = 5 then native_rawequal args else if n = 6 then native_rawget args
     else if n = 7 then native_rawlen args else if n = 8 then native_rawset args
     else if n = 9 then native_select args else if n = 10 then native_setmetatable args
     else if n = 11 then native_tonumber args else if n = 12 then native_tostring c args
     else if n = 13 then native_type args else if n = 14 then native_warn c args
     else if n = 15 then native_pcall rec args else if n = 16 then native_error args
     else if n = 17 then argc_between 1 1 ''coroutine.create expects 1 argument'' args
       (vthen (co_create (args ! 0)) (\<lambda>v. vok (Ret v)))
     else if n = 18 then native_resume rec args else if n = 19 then native_yield args
     else if n = 20 then native_status args else if n = 21 then native_wrap args
     else if n = 22 then native_isyieldable args else if n = 23 then native_running args
     else if n = 24 then native_co_close args else if n = 25 then native_assert args
     else if n = 26 then native_xpcall rec args else if n = 27 then string_byte args
     else if n = 28 then string_char args else if n = 30 then native_find args
     else if n = 31 then string_format c args
     else if n = 32 then native_gmatch args else if n = 33 then string_gsub rec args
     else if n = 34 then string_len args else if n = 35 then string_lower args
     else if n = 36 then string_match args else if n = 37 then string_pack args
     else if n = 38 then string_packsize args else if n = 39 then string_rep args
     else if n = 40 then string_reverse args else if n = 41 then string_sub args
     else if n = 42 then string_unpack args else if n = 43 then string_upper args else if n = 44 then table_concat args
     else if n = 45 then table_create args else if n = 46 then table_insert args
     else if n = 47 then table_move args else if n = 48 then table_pack args
     else if n = 49 then table_remove args else if n = 50 then table_sort rec args
     else if n = 51 then table_unpack args else if n = 52 then math_ceil args
     else if n = 53 then math_floor args
     else if n = 54 then argc_between 0 0 ''math.maxinteger expects no arguments'' args (vok (Ret (VNum 0x7FFFFFFFFFFFFFFF)))
     else if n = 55 then argc_between 0 0 ''math.mininteger expects no arguments'' args (vok (Ret (VNum i64_min)))
     else if n = 56 then math_random args else if n = 57 then math_randomseed args
     else if n = 58 then math_tointeger args else if n = 59 then math_type args
     else h_native h rec i args)"

text \<open>A host with the natives of the interpreter; its own ones are those not modelled.\<close>

definition with_natives :: "host \<Rightarrow> host" where
  "with_natives h = h\<lparr>h_native := natives h\<rparr>"

end
