(* ===== verification/LuaRepl.thy ===== *)
theory LuaRepl
  imports LuaHelp LuaNative
begin

text \<open>
  The interactive shell, \<^verbatim>\<open>lua/src/repl.rs\<close>: the decoder of escape sequences, the line editor with its
  history and completion, the test for a complete chunk, the shell commands and the loop. What the editor
  writes goes to the console of the interpreter, as every front end passes the same device to both; the
  keys to come are a list, in which the polls without a key are left out. \<^verbatim>\<open>line[..len]\<close>, \<^verbatim>\<open>acc[..acc_len]\<close>
  and the drafts are lists; the bytes beyond their lengths are never read.
\<close>

section \<open>Keys\<close>

definition KEY_UP :: u8 where "KEY_UP = 0x80"
definition KEY_DOWN :: u8 where "KEY_DOWN = 0x81"
definition KEY_RIGHT :: u8 where "KEY_RIGHT = 0x82"
definition KEY_LEFT :: u8 where "KEY_LEFT = 0x83"
definition KEY_HOME :: u8 where "KEY_HOME = 0x84"
definition KEY_END :: u8 where "KEY_END = 0x85"
definition KEY_DELETE :: u8 where "KEY_DELETE = 0x86"

definition map_escape :: "bytes \<Rightarrow> u8 option" where
  "map_escape seq =
     (case seq of
        [e, m, c] \<Rightarrow>
          if e = 27 \<and> m = 79 then
            (if c = 65 then Some KEY_UP else if c = 66 then Some KEY_DOWN else if c = 67 then Some KEY_RIGHT
             else if c = 68 then Some KEY_LEFT else None)
          else if e = 27 \<and> m = 91 then
            (if c = 65 then Some KEY_UP else if c = 66 then Some KEY_DOWN else if c = 67 then Some KEY_RIGHT
             else if c = 68 then Some KEY_LEFT else if c = 72 then Some KEY_HOME else if c = 70 then Some KEY_END
             else None)
          else None
      | [e, m, c, d] \<Rightarrow>
          if e = 27 \<and> m = 91 \<and> d = 126 then
            (if c = 49 \<or> c = 55 then Some KEY_HOME else if c = 52 \<or> c = 56 then Some KEY_END
             else if c = 51 then Some KEY_DELETE else None)
          else None
      | _ \<Rightarrow> None)"

definition is_escape_prefix :: "bytes \<Rightarrow> bool" where
  "is_escape_prefix seq \<longleftrightarrow> seq \<noteq> [] \<and> hd seq = 27 \<and>
     (length seq = 1 \<or>
      (seq ! 1 = 91 \<or> seq ! 1 = 79) \<and>
      (length seq < 3 \<or> (last seq \<noteq> 126 \<and> \<not> (65 \<le> last seq \<and> last seq \<le> 90) \<and> \<not> (97 \<le> last seq \<and> last seq \<le> 122))))"

definition ESC_CAP :: nat where "ESC_CAP = 8"

text \<open>The bytes of a sequence so far, \<^verbatim>\<open>buf[..n]\<close>, and the key that one more byte completes.\<close>

definition feed :: "u8 \<Rightarrow> bytes \<Rightarrow> bytes \<times> u8 option" where
  "feed b e =
     (if e = [] then (if b = 27 then ([b], None) else ([], Some b))
      else if length e \<ge> ESC_CAP then ([], None)
      else case map_escape (e @ [b]) of
          Some k \<Rightarrow> ([], Some k)
        | None \<Rightarrow> if is_escape_prefix (e @ [b]) then (e @ [b], None) else ([], None))"

section \<open>The line editor\<close>

definition LINE_CAP :: nat where "LINE_CAP = 256"
definition CHUNK_CAP :: nat where "CHUNK_CAP = 512"
definition HIST_MAX :: nat where "HIST_MAX = 12"
definition HIST_CAP :: nat where "HIST_CAP = 512"

record editor =
  ed_acc :: bytes
  ed_line :: bytes
  ed_pos :: nat
  ed_shown :: nat
  ed_hist :: "bytes list"
  ed_hist_pos :: nat
  ed_draft_acc :: bytes
  ed_draft_line :: bytes

definition new_editor :: editor where
  "new_editor = \<lparr>ed_acc = [], ed_line = [], ed_pos = 0, ed_shown = 0, ed_hist = [], ed_hist_pos = 0,
     ed_draft_acc = [], ed_draft_line = []\<rparr>"

definition prompt :: "editor \<Rightarrow> bytes" where
  "prompt e = (if ed_acc e = [] then lit ''> '' else lit ''>> '')"

definition CLEAR :: bytes where "CLEAR = [27, 91, 72, 27, 91, 50, 74]"

definition redraw_line :: "bytes \<Rightarrow> editor \<Rightarrow> editor \<times> bytes" where
  "redraw_line pr e =
     (let len = length (ed_line e) in
      (e\<lparr>ed_shown := len\<rparr>,
       [13] @ replicate (max (ed_shown e) len + length pr) 32 @ [13] @ pr @ ed_line e @ replicate (len - ed_pos e) 8))"

definition cut_at :: "nat \<Rightarrow> editor \<Rightarrow> editor" where
  "cut_at i e = e\<lparr>ed_line := take i (ed_line e) @ drop (i + 1) (ed_line e), ed_pos := i\<rparr>"

text \<open>Characters typed or completed at the cursor: they are printed with the tail shifted behind them.\<close>

definition put_in :: "bytes \<Rightarrow> editor \<Rightarrow> editor \<times> bytes" where
  "put_in cs e =
     (let i = ed_pos e; tail = drop i (ed_line e); l = take i (ed_line e) @ cs @ tail in
      (e\<lparr>ed_line := l, ed_pos := i + length cs, ed_shown := length l\<rparr>, cs @ tail @ replicate (length tail) 8))"

definition edit_key :: "u8 \<Rightarrow> editor \<Rightarrow> editor \<times> bytes" where
  "edit_key k e =
     (let i = ed_pos e; len = length (ed_line e) in
      if k = KEY_LEFT then (if i > 0 then (e\<lparr>ed_pos := i - 1\<rparr>, [8]) else (e, []))
      else if k = KEY_RIGHT then (if i < len then (e\<lparr>ed_pos := i + 1\<rparr>, [ed_line e ! i]) else (e, []))
      else if k = KEY_HOME then redraw_line (prompt e) (e\<lparr>ed_pos := 0\<rparr>)
      else if k = KEY_END then redraw_line (prompt e) (e\<lparr>ed_pos := len\<rparr>)
      else if k = KEY_DELETE then (if i < len then redraw_line (prompt e) (cut_at i e) else (e, []))
      else if k = 0x7F \<or> k = 8 then (if i > 0 then redraw_line (prompt e) (cut_at (i - 1) e) else (e, []))
      else if k = 0x0C then (case redraw_line (prompt e) e of (e', out_text) \<Rightarrow> (e', CLEAR @ out_text))
      else if 0x20 \<le> k \<and> k < 0x7F \<and> len < LINE_CAP then put_in [k] e
      else (e, []))"

section \<open>History\<close>

text \<open>An entry is an array padded with zeros: it is read up to its first zero.\<close>

definition entry_text :: "bytes \<Rightarrow> bytes" where
  "entry_text en = takeWhile (\<lambda>b. b \<noteq> 0) en"

definition record_history :: "bytes \<Rightarrow> bytes list \<Rightarrow> bytes list" where
  "record_history content hist =
     (if content = [] \<or> length content > HIST_CAP then hist
      else if hist \<noteq> [] \<and> entry_text (last hist) = content then hist
      else (if length hist \<ge> HIST_MAX then tl hist else hist) @ [content])"

definition load_entry :: "bytes \<Rightarrow> editor \<Rightarrow> editor" where
  "load_entry en e =
     (let bs = entry_text en; tail = rev (takeWhile (\<lambda>b. b \<noteq> 10) (rev bs));
          pre = take (length bs - length tail) bs; l = take LINE_CAP tail in
      e\<lparr>ed_acc := take CHUNK_CAP pre, ed_line := l, ed_pos := length l\<rparr>)"

function render_acc :: "bool \<Rightarrow> bytes \<Rightarrow> bytes" where
  "render_acc first a =
     (if a = [] then []
      else let seg = takeWhile (\<lambda>b. b \<noteq> 10) a in
        (if first then lit ''> '' else lit ''>> '') @ seg @ [10] @ render_acc False (drop (length seg + 1) a))"
  by pat_completeness auto
termination
  by (relation "measure (\<lambda>(first, a). length a)") auto

declare render_acc.simps [simp del]

definition render_recalled :: "editor \<Rightarrow> editor \<times> bytes" where
  "render_recalled e =
     (if ed_acc e = [] then redraw_line (lit ''> '') e
      else (e\<lparr>ed_shown := length (ed_line e)\<rparr>, [10] @ render_acc True (ed_acc e) @ lit ''>> '' @ ed_line e))"

definition key_up :: "editor \<Rightarrow> editor \<times> bytes" where
  "key_up e =
     (let e1 = (if ed_hist_pos e = length (ed_hist e)
                then e\<lparr>ed_draft_acc := ed_acc e, ed_draft_line := ed_line e\<rparr> else e);
          i = ed_hist_pos e - 1 in
      if ed_hist e = [] then (e, [])
      else if ed_hist_pos e > 0 then render_recalled (load_entry (ed_hist e ! i) (e1\<lparr>ed_hist_pos := i\<rparr>))
      else (e1, []))"

definition key_down :: "editor \<Rightarrow> editor \<times> bytes" where
  "key_down e =
     (let i = ed_hist_pos e + 1; e1 = e\<lparr>ed_hist_pos := i\<rparr> in
      if ed_hist_pos e < length (ed_hist e) then
        render_recalled (if i = length (ed_hist e)
          then e1\<lparr>ed_acc := ed_draft_acc e, ed_line := ed_draft_line e, ed_pos := length (ed_draft_line e)\<rparr>
          else load_entry (ed_hist e ! i) e1)
      else (e, []))"

section \<open>Completion\<close>

definition is_ident :: "u8 \<Rightarrow> bool" where
  "is_ident b \<longleftrightarrow> (48 \<le> b \<and> b \<le> 57) \<or> (65 \<le> b \<and> b \<le> 90) \<or> (97 \<le> b \<and> b \<le> 122) \<or> b = 95"

definition has_prefix :: "bytes \<Rightarrow> bytes \<Rightarrow> bool" where
  "has_prefix t p \<longleftrightarrow> take (length p) t = p"

definition word_before :: "editor \<Rightarrow> bytes" where
  "word_before e = rev (takeWhile is_ident (rev (take (ed_pos e) (ed_line e))))"

definition or_question :: "bytes \<Rightarrow> bytes" where
  "or_question s = (if utf8_valid s then s else [63])"

definition complete_word :: "bytes list \<Rightarrow> editor \<Rightarrow> editor \<times> bytes" where
  "complete_word names e =
     (let word = word_before e; found = take 64 (filter (\<lambda>n. has_prefix n word) names);
          help = has_prefix (lit ''help'') word in
      if found = [] \<and> \<not> help then (e, [])
      else if length found = 1 \<and> \<not> help \<or> found = [] \<and> help then
        (let name = (if help then lit ''help'' else hd found); suffix = drop (length word) name in
         if suffix \<noteq> [] \<and> length (ed_line e) + length suffix \<le> LINE_CAP then put_in suffix e else (e, []))
      else (case redraw_line (prompt e) e of (e', out_text) \<Rightarrow>
        (e', [10] @ lit ''Completions:'' @ [10] @ concat (map (\<lambda>n. lit ''  '' @ or_question n @ [10]) found) @
          (if help then lit ''  help'' @ [10] else []) @ out_text)))"

definition global_names :: "lua \<Rightarrow> bytes list option" where
  "global_names s = those (map (\<lambda>g. str_bytes s (g_name (globals s g))) [0..<nglobals s])"

definition complete_key :: "editor \<Rightarrow> editor vm" where
  "complete_key e = vthen (vchecked global_names) (\<lambda>names.
     case complete_word names e of (e', out_text) \<Rightarrow> vnext (emit_bytes out_text) (vok e'))"

section \<open>Complete chunks\<close>

definition depth_of :: "tok \<Rightarrow> int" where
  "depth_of t = (if t \<in> {TIf, TWhile, TFor, TFunction, TRepeat} then 1 else if t \<in> {TEnd, TUntil} then - 1 else 0)"

definition delims_of :: "tok \<Rightarrow> int" where
  "delims_of t = (if t \<in> {TLParen, TLBracket, TLBrace} then 1 else if t \<in> {TRParen, TRBracket, TRBrace} then - 1 else 0)"

definition awaits_more :: "tok option \<Rightarrow> bool" where
  "awaits_more t \<longleftrightarrow> t \<in> Some ` {TPlus, TMinus, TStar, TSlash, TPercent, TEquals, TComma, TDotDot, TSemi, TAnd, TOr, TNot,
     TLt, TLe, TGt, TGe, TEqEq, TNeq}"

primrec complete_loop :: "nat \<Rightarrow> lexer \<Rightarrow> int \<Rightarrow> int \<Rightarrow> tok option \<Rightarrow> bool" where
  "complete_loop 0 lx depth delims final = False"
| "complete_loop (Suc n) lx depth delims final =
     (case next_token lx of
        (Ok t, lx') \<Rightarrow>
          if t \<noteq> TEof then complete_loop n lx' (depth + depth_of t) (delims + delims_of t) (Some t)
          else if depth > 0 \<or> delims > 0 then False
          else if depth < 0 \<or> delims < 0 then True
          else \<not> awaits_more final
      | _ \<Rightarrow> False)"

text \<open>Every token takes a byte, so that the calls given are enough.\<close>

definition is_complete :: "bytes \<Rightarrow> bool" where
  "is_complete s = complete_loop (length s + 1) (new_lexer s) 0 0 None"

section \<open>Shell commands\<close>

definition blank :: "u8 \<Rightarrow> bool" where
  "blank b \<longleftrightarrow> b = 32 \<or> b = 9"

definition trim :: "bytes \<Rightarrow> bytes" where
  "trim b = rev (dropWhile blank (rev (dropWhile blank b)))"

text \<open>\<^verbatim>\<open>str::trim\<close> for the text of the help, which is ASCII.\<close>

definition trim_space :: "bytes \<Rightarrow> bytes" where
  "trim_space b = (let sp = (\<lambda>c. c = 32 \<or> (9 \<le> c \<and> c \<le> 13)) in rev (dropWhile sp (rev (dropWhile sp b))))"

definition is_example :: "bytes \<Rightarrow> bool" where
  "is_example l \<longleftrightarrow> has_prefix (trim_space l) (lit ''Example:'')"

definition described :: "bytes list \<Rightarrow> bytes" where
  "described ls = concat (map (\<lambda>t. t @ [10]) (filter (\<lambda>t. t \<noteq> []) (map trim_space ls)))"

definition print_detail :: "bytes list \<Rightarrow> bytes" where
  "print_detail detail =
     (case take 16 detail of
        [] \<Rightarrow> []
      | usage # r \<Rightarrow>
          let desc = described (takeWhile (\<lambda>l. \<not> is_example l) r) in
          lit ''Usage: '' @ trim_space usage @ [10, 10] @ desc @
          (case dropWhile (\<lambda>l. \<not> is_example l) r of
             [] \<Rightarrow> []
           | ex # later \<Rightarrow> (if desc \<noteq> [] then [10] else []) @ lit ''Example: '' @ trim_space (drop 8 (trim_space ex)) @ [10] @
               described later))"

definition general_help :: bytes where
  "general_help =
     (let width = Max (set (map (length \<circ> fst) HELP_COMMANDS)) in
      lit ''Commands:'' @ [10] @
      concat (map (\<lambda>(name, short, detail). lit ''  '' @ name @ replicate (width + 1 - length name) 32 @ short @ [10]) HELP_COMMANDS) @
      [10] @ quoted ''Type '' ''help <cmd>'' @ lit '' for details on a command.'' @ [10] @
      lit ''Editing: Up/Down history, Left/Right/Home/End cursor, Tab completes,'' @ [10] @
      lit ''Ctrl-C cancels the line, Ctrl-L clears, `>> ` continues multi-line input.'' @ [10])"

definition help_for :: "bytes \<Rightarrow> bytes" where
  "help_for sub =
     (if sub = [] then general_help
      else case filter (\<lambda>(name, short, detail). name = sub) HELP_COMMANDS of
          [] \<Rightarrow> lit ''Unknown command: '' @ or_question sub @ [10]
        | es \<Rightarrow> concat (map (\<lambda>(name, short, detail). print_detail detail) es))"

definition set_cwd :: "bytes \<Rightarrow> unit vm" where
  "set_cwd path = vsets (\<lambda>s. s\<lparr>cwd := take 32 (path @ replicate 32 0), cwd_len := min 32 (length path)\<rparr>)"

text \<open>The host is told of the directory; its answer is not used.\<close>

definition tell_cd :: "unit vm" where
  "tell_cd = vreads (\<lambda>s. if cd_cb s = None then vok () else host_called)"

definition parent_dir :: "bytes \<Rightarrow> bytes" where
  "parent_dir cw =
     (let pre = rev (dropWhile (\<lambda>b. b \<noteq> 47) (rev cw)) in
      if length pre \<le> 1 then [47] else butlast pre)"

definition cd_up :: "unit vm" where
  "cd_up = vreads (\<lambda>s.
     if cwd_len s > 32 then vpanic
     else let cw = take (cwd_len s) (cwd s) in
       vnext (if cw = [47] then vok () else set_cwd (parent_dir cw)) tell_cd)"

definition cd_to :: "bytes \<Rightarrow> unit vm" where
  "cd_to path =
     (if path = lit ''..'' then cd_up
      else if path = lit ''/'' \<or> path = lit ''/disks'' \<or> path = lit ''disks''
        then vnext (set_cwd (if path = lit ''disks'' then lit ''/disks'' else path)) tell_cd
      else emit_bytes (lit ''cd: no such directory'' @ [10]))"

definition cd_home :: "unit vm" where
  "cd_home = vnext (vsets (\<lambda>s. s\<lparr>cwd := (cwd s)[0 := 47], cwd_len := 1\<rparr>)) tell_cd"

definition handle_repl_cmd :: "bytes \<Rightarrow> bool vm" where
  "handle_repl_cmd l =
     (let t = trim l; handled = (\<lambda>m. vnext m (vok True)) in
      if t = lit ''cd'' then handled cd_home
      else if has_prefix t (lit ''cd '') then handled (cd_to (trim (drop 3 t)))
      else if t = lit ''clear'' then handled (emit_bytes CLEAR)
      else if l = lit ''help'' then handled (emit_bytes general_help)
      else if has_prefix l (lit ''help '') then handled (emit_bytes (help_for (trim (drop 5 l))))
      else vok False)"

section \<open>The loop\<close>

text \<open>A line that begins with a \<open>local\<close> declaration of variables becomes a declaration of globals.\<close>

definition is_local_var :: "bytes \<Rightarrow> bool" where
  "is_local_var l =
     (let t = dropWhile blank l; r = dropWhile blank (dropWhile is_ident (drop 6 t)) in
      length l \<ge> 7 \<and> has_prefix t (lit ''local '') \<and> r \<noteq> [] \<and> (hd r = 61 \<or> hd r = 44))"

definition line_of_chunk :: "bytes \<Rightarrow> bytes" where
  "line_of_chunk l =
     (let ws = takeWhile blank l; t = dropWhile blank l in
      ws @ (if is_local_var l then lit ''global '' @ drop 6 t else t) @ [10])"

definition is_cd :: "bytes \<Rightarrow> bool" where
  "is_cd chunk =
     (let t = trim (rev (dropWhile (\<lambda>b. b = 10 \<or> b = 13) (rev chunk))) in
      t = lit ''cd'' \<or> has_prefix t (lit ''cd '') \<or> has_prefix t (lit ''cd'' @ [9]))"

datatype turn = Stay | Reprompt | Leave

definition run_chunk :: "host \<Rightarrow> nat \<Rightarrow> bytes \<Rightarrow> turn vm" where
  "run_chunk h k content = (\<lambda>s. case run_repl_once h k content s of
       (Fine Exit, s') \<Rightarrow> (Fine Leave, s')
     | (Fine Shell, s') \<Rightarrow> vnext (emit_bytes ([10] @ lit ''(nested shell not supported)'' @ [10, 10])) (vok Reprompt) s'
     | (Fine _, s') \<Rightarrow> (Fine Reprompt, s')
     | (Throw e, s') \<Rightarrow> vnext (emit_bytes (lit ''Lua error: '')) (vnext (emit_error e) (vnext (emit_bytes [10]) (vok Reprompt))) s'
     | (VPanic, s') \<Rightarrow> (VPanic, s')
     | (VFuel, s') \<Rightarrow> (VFuel, s'))"

definition submit :: "host \<Rightarrow> nat \<Rightarrow> bytes \<Rightarrow> turn vm" where
  "submit h k content = vthen (handle_repl_cmd content) (\<lambda>handled. if handled then vok Reprompt else run_chunk h k content)"

definition chunk_content :: "bytes \<Rightarrow> bytes" where
  "chunk_content chunk = rev (dropWhile (\<lambda>b. b = 10) (rev chunk))"

definition next_chunk :: "editor \<Rightarrow> bytes" where
  "next_chunk e = take CHUNK_CAP (ed_acc e @ line_of_chunk (ed_line e))"

definition fresh_line :: "editor \<Rightarrow> editor" where
  "fresh_line e = e\<lparr>ed_acc := [], ed_line := [], ed_pos := 0, ed_shown := 0, ed_hist_pos := length (ed_hist e),
     ed_draft_acc := [], ed_draft_line := []\<rparr>"

definition key_enter :: "host \<Rightarrow> nat \<Rightarrow> editor \<Rightarrow> (editor \<times> turn) vm" where
  "key_enter h k e = vnext (emit_bytes [10])
     (if ed_acc e = [] \<and> ed_line e = [] then vok (e, Reprompt)
      else let chunk = next_chunk e; content = chunk_content chunk in
        if is_cd chunk \<or> is_complete chunk then
          if content = [] then vok (fresh_line e, Reprompt)
          else vthen (submit h k content) (\<lambda>t. vok (fresh_line (e\<lparr>ed_hist := record_history content (ed_hist e)\<rparr>), t))
        else vnext (emit_bytes (lit ''>> '')) (vok (e\<lparr>ed_acc := chunk, ed_line := [], ed_pos := 0, ed_shown := 0\<rparr>, Stay)))"

definition key_cancel :: "editor \<Rightarrow> (editor \<times> turn) vm" where
  "key_cancel e = (if ed_acc e \<noteq> [] \<or> ed_line e \<noteq> [] then vnext (emit_bytes (lit ''^C'' @ [10])) (vok (fresh_line e, Reprompt))
     else vok (e, Reprompt))"

definition repl_key :: "host \<Rightarrow> nat \<Rightarrow> u8 \<Rightarrow> editor \<Rightarrow> (editor \<times> turn) vm" where
  "repl_key h k key e =
     (let write = (\<lambda>(e', out_text). vnext (emit_bytes out_text) (vok (e', Stay))) in
      if key = 13 \<or> key = 10 then key_enter h k e
      else if key = KEY_UP then write (key_up e)
      else if key = KEY_DOWN then write (key_down e)
      else if key = 3 then key_cancel e
      else if key = 9 then vthen (complete_key e) (\<lambda>e'. vok (e', Stay))
      else write (edit_key key e))"

text \<open>The prompt shows the top of the working directory.\<close>

definition prompt_dir :: "bytes \<Rightarrow> bytes" where
  "prompt_dir cw =
     (let t = (if cw \<noteq> [] \<and> hd cw = 47 then tl cw else cw); top = takeWhile (\<lambda>b. b \<noteq> 47) t in
      if cw = [47] \<or> top = [] \<or> \<not> utf8_valid top then [47] else top)"

definition show_prompt :: "unit vm" where
  "show_prompt = vreads (\<lambda>s. if cwd_len s > length (cwd s) then vpanic
     else emit_bytes (prompt_dir (take (cwd_len s) (cwd s)) @ lit '' > ''))"

text \<open>The session over the keys to come; without one it waits, with the editor as it is.\<close>

primrec repl_keys :: "host \<Rightarrow> nat \<Rightarrow> bytes \<Rightarrow> editor \<Rightarrow> editor vm" where
  "repl_keys h k [] e = vok e"
| "repl_keys h k (key # keys) e = vthen (repl_key h k key e) (\<lambda>(e', t). case t of
       Stay \<Rightarrow> repl_keys h k keys e'
     | Reprompt \<Rightarrow> vnext show_prompt (repl_keys h k keys e')
     | Leave \<Rightarrow> vnext (emit_bytes [10]) (vok e'))"

definition repl_loop :: "host \<Rightarrow> nat \<Rightarrow> bytes \<Rightarrow> editor vm" where
  "repl_loop h k keys = vnext (emit_bytes ([10] @ quoted ''Lua Shell (type '' ''exit'' @ lit '' to return)'' @ [10]))
     (vnext show_prompt (repl_keys h k keys new_editor))"

end
