(* ===== verification/LuaFuel.thy ===== *)
theory LuaFuel
  imports LuaRun
begin

text \<open>
  The fuel of the machine: a run that returns with some fuel returns the same with more, so that the
  fuel stands for the run of \<^verbatim>\<open>lua/src/vm.rs\<close> itself. The definitions are monotone in the nested runs
  they are given; the natives of the host are asked to be.
\<close>

section \<open>Results known with less fuel\<close>

definition le_fuel :: "'a vm \<Rightarrow> 'a vm \<Rightarrow> bool" where
  "le_fuel m m' \<longleftrightarrow> (\<forall>s. fst (m s) = VFuel \<or> m' s = m s)"

definition calls_under :: "vcalls \<Rightarrow> vcalls \<Rightarrow> bool" where
  "calls_under rec rec' \<longleftrightarrow> (\<forall>j. le_fuel (rec j) (rec' j))"

definition caller_under :: "caller \<Rightarrow> caller \<Rightarrow> bool" where
  "caller_under c c' \<longleftrightarrow> (\<forall>f n. le_fuel (c f n) (c' f n))"

named_theorems mono_rules

lemma under_refl [mono_rules]: "le_fuel m m"
  by (simp add: le_fuel_def)

lemma under_vthen [mono_rules]:
  "le_fuel m m' \<Longrightarrow> (\<And>x. le_fuel (k x) (k' x)) \<Longrightarrow> le_fuel (vthen m k) (vthen m' k')"
  unfolding le_fuel_def vthen_apply
  by (auto split: prod.splits vres.splits) (metis fst_conv vres.distinct prod.inject vres.inject)+

lemma under_vnext [mono_rules]: "le_fuel m m' \<Longrightarrow> le_fuel k k' \<Longrightarrow> le_fuel (vnext m k) (vnext m' k')"
  unfolding vnext_def by (rule under_vthen)

lemma under_vreads [mono_rules]: "(\<And>s. le_fuel (k s) (k' s)) \<Longrightarrow> le_fuel (vreads k) (vreads k')"
  by (simp add: le_fuel_def vreads_def)

lemma under_in_mm [mono_rules]: "le_fuel m m' \<Longrightarrow> le_fuel (in_mm m) (in_mm m')"
  unfolding le_fuel_def in_mm_def by (auto split: prod.splits) (metis fst_conv prod.inject)+

lemma under_if [mono_rules]: "(b \<Longrightarrow> le_fuel m m') \<Longrightarrow> (\<not> b \<Longrightarrow> le_fuel k k') \<Longrightarrow> le_fuel (if b then m else k) (if b then m' else k')"
  by simp

lemma under_let [mono_rules]: "(\<And>x. le_fuel (k x) (k' x)) \<Longrightarrow> le_fuel (let x = a in k x) (let x = a in k' x)"
  by simp

lemma under_cases [mono_rules]:
  "le_fuel a a' \<Longrightarrow> (\<And>x. le_fuel (b x) (b' x)) \<Longrightarrow> le_fuel (case ov of None \<Rightarrow> a | Some x \<Rightarrow> b x) (case ov of None \<Rightarrow> a' | Some x \<Rightarrow> b' x)"
  "(\<And>x y. le_fuel (p x y) (p' x y)) \<Longrightarrow> le_fuel (case pv of (x, y) \<Rightarrow> p x y) (case pv of (x, y) \<Rightarrow> p' x y)"
  by (auto split: option.splits prod.splits)


lemma under_lval [mono_rules]:
  assumes "le_fuel f1 g1" and "\<And>x. le_fuel (f2 x) (g2 x)" and "\<And>x. le_fuel (f3 x) (g3 x)" and "\<And>x. le_fuel (f4 x) (g4 x)"
    and "\<And>x. le_fuel (f5 x) (g5 x)" and "\<And>x. le_fuel (f6 x) (g6 x)" and "\<And>x. le_fuel (f7 x) (g7 x)"
    and "\<And>x. le_fuel (f8 x) (g8 x)" and "le_fuel f9 g9" and "le_fuel f10 g10" and "le_fuel f11 g11" and "le_fuel f12 g12"
    and "\<And>x. le_fuel (f13 x) (g13 x)" and "\<And>x. le_fuel (f14 x) (g14 x)" and "\<And>x. le_fuel (f15 x) (g15 x)"
    and "\<And>x. le_fuel (f16 x) (g16 x)" and "\<And>x. le_fuel (f17 x) (g17 x)"
  shows "le_fuel (case_lval f1 f2 f3 f4 f5 f6 f7 f8 f9 f10 f11 f12 f13 f14 f15 f16 f17 v)
    (case_lval g1 g2 g3 g4 g5 g6 g7 g8 g9 g10 g11 g12 g13 g14 g15 g16 g17 v)"
  using assms by (cases v) simp_all

lemma under_result [mono_rules]:
  assumes "le_fuel f1 g1" and "\<And>x. le_fuel (f2 x) (g2 x)" and "\<And>x y. le_fuel (f3 x y) (g3 x y)" and "\<And>x. le_fuel (f4 x) (g4 x)"
    and "le_fuel f5 g5" and "\<And>x. le_fuel (f6 x) (g6 x)" and "le_fuel f7 g7" and "le_fuel f8 g8" and "\<And>x. le_fuel (f9 x) (g9 x)"
  shows "le_fuel (case_exec_result f1 f2 f3 f4 f5 f6 f7 f8 f9 v) (case_exec_result g1 g2 g3 g4 g5 g6 g7 g8 g9 v)"
  using assms by (cases v) simp_all

lemma under_flow [mono_rules]:
  "(\<And>x. le_fuel (f x) (f' x)) \<Longrightarrow> (\<And>x. le_fuel (g x) (g' x)) \<Longrightarrow> le_fuel (case_flow f g v) (case_flow f' g' v)"
  by (cases v) simp_all

lemma under_unwound [mono_rules]:
  "(\<And>x. le_fuel (f x) (f' x)) \<Longrightarrow> (\<And>x. le_fuel (g x) (g' x)) \<Longrightarrow> le_fuel k k' \<Longrightarrow>
    le_fuel (case_unwound f g k v) (case_unwound f' g' k' v)"
  by (cases v) simp_all

lemma under_sum [mono_rules]:
  "(\<And>x. le_fuel (f x) (f' x)) \<Longrightarrow> (\<And>x. le_fuel (g x) (g' x)) \<Longrightarrow> le_fuel (case_sum f g v) (case_sum f' g' v)"
  by (cases v) simp_all

lemma under_binop [mono_rules]:
  assumes "le_fuel f1 g1" "le_fuel f2 g2" "le_fuel f3 g3" "le_fuel f4 g4" "le_fuel f5 g5" "le_fuel f6 g6" "le_fuel f7 g7" "le_fuel f8 g8"
    "le_fuel f9 g9" "le_fuel f10 g10" "le_fuel f11 g11" "le_fuel f12 g12" "le_fuel f13 g13" "le_fuel f14 g14" "le_fuel f15 g15" "le_fuel f16 g16"
  shows "le_fuel (case_binop f1 f2 f3 f4 f5 f6 f7 f8 f9 f10 f11 f12 f13 f14 f15 f16 op)
    (case_binop g1 g2 g3 g4 g5 g6 g7 g8 g9 g10 g11 g12 g13 g14 g15 g16 op)"
  using assms by (cases op) simp_all

lemma under_node [mono_rules]:
  assumes "le_fuel k k'" and "\<And>x. le_fuel (f x) (f' x)" and "\<And>a b. le_fuel (g a b) (g' a b)"
  shows "le_fuel (case nd of NVar x \<Rightarrow> f x | NIndex a b \<Rightarrow> g a b | _ \<Rightarrow> k) (case nd of NVar x \<Rightarrow> f' x | NIndex a b \<Rightarrow> g' a b | _ \<Rightarrow> k')"
  using assms by (cases nd) simp_all

section \<open>Operators\<close>

lemma nested_mono:
  assumes less: "caller_under c c'"
  shows "le_fuel (c f n) (c' f n)"
  using less by (simp add: caller_under_def)

lemma call_mm_mono:
  assumes less: "caller_under c c'"
  shows "le_fuel (call_mm c f args) (call_mm c' f args)"
  unfolding call_mm_def Let_def by (intro mono_rules nested_mono [OF less])

lemma eq_values_mono:
  assumes less: "caller_under c c'"
  shows "le_fuel (eq_values c a b) (eq_values c' a b)"
  unfolding eq_values_def by (intro mono_rules call_mm_mono [OF less])

lemma unm_mono:
  assumes less: "caller_under c c'"
  shows "le_fuel (unm c v) (unm c' v)"
  unfolding unm_def by (intro mono_rules call_mm_mono [OF less])

lemma tget_mono:
  assumes less: "caller_under c c'"
  shows "le_fuel (tget n c t k) (tget n c' t k)"
proof (induction n arbitrary: t k)
  case (Suc n)
  show ?case
    unfolding tget.simps by (intro mono_rules call_mm_mono [OF less] Suc)
qed (simp add: le_fuel_def)

lemma tset_mono:
  assumes less: "caller_under c c'"
  shows "le_fuel (tset n c t k v) (tset n c' t k v)"
proof (induction n arbitrary: t k)
  case (Suc n)
  show ?case
    unfolding tset.simps by (intro mono_rules call_mm_mono [OF less] Suc)
qed (simp add: le_fuel_def)

lemma dispatch_mm_mono:
  assumes less: "caller_under c c'"
  shows "le_fuel (dispatch_mm c a b i msg) (dispatch_mm c' a b i msg)"
  unfolding dispatch_mm_def by (intro mono_rules call_mm_mono [OF less])

lemma arith_mono:
  assumes less: "caller_under c c'"
  shows "le_fuel (arith c op a b) (arith c' op a b)"
  unfolding arith_def by (intro mono_rules dispatch_mm_mono [OF less])

lemma compare_mm_mono:
  assumes less: "caller_under c c'"
  shows "le_fuel (compare_mm c lt a b) (compare_mm c' lt a b)"
  unfolding compare_mm_def by (intro mono_rules call_mm_mono [OF less])

lemma compare_mono:
  assumes less: "caller_under c c'"
  shows "le_fuel (compare c lt a b) (compare c' lt a b)"
  unfolding compare_def by (intro mono_rules compare_mm_mono [OF less])

lemma concat_op_mono:
  assumes less: "caller_under c c'"
  shows "le_fuel (concat_op c a b) (concat_op c' a b)"
  unfolding concat_op_def by (intro mono_rules dispatch_mm_mono [OF less])

lemma binop_mono:
  assumes less: "caller_under c c'"
  shows "le_fuel (LuaValue.binop c op a b) (LuaValue.binop c' op a b)"
  unfolding binop_def by (intro mono_rules eq_values_mono [OF less] compare_mono [OF less] concat_op_mono [OF less] arith_mono [OF less])

lemma tostring_mm_mono:
  assumes less: "caller_under c c'"
  shows "le_fuel (tostring_mm c v) (tostring_mm c' v)"
  unfolding tostring_mm_def by (intro mono_rules call_mm_mono [OF less])

lemma tostring_mono:
  assumes less: "caller_under c c'"
  shows "le_fuel (tostring c v) (tostring c' v)"
  unfolding tostring_def by (intro mono_rules tostring_mm_mono [OF less])

section \<open>The machine\<close>

definition native_mono :: "host \<Rightarrow> bool" where
  "native_mono h \<longleftrightarrow> (\<forall>rec rec' n args. calls_under rec rec' \<longrightarrow> le_fuel (h_native h rec n args) (h_native h rec' n args))"

definition less_fuel :: "host \<Rightarrow> vcalls \<Rightarrow> vcalls \<Rightarrow> bool" where
  "less_fuel h rec rec' \<longleftrightarrow> calls_under rec rec' \<and> native_mono h"

lemma recursive_mono:
  assumes fuel: "less_fuel h rec rec'"
  shows "le_fuel (rec j) (rec' j)"
  using fuel by (simp add: less_fuel_def calls_under_def)

lemma run_mono:
  assumes fuel: "less_fuel h rec rec'"
  shows "le_fuel (run rec entry) (run rec' entry)"
  unfolding run_def by (intro mono_rules recursive_mono [OF fuel])

lemma call_value_mono:
  assumes fuel: "less_fuel h rec rec'"
  shows "le_fuel (call_value rec f n) (call_value rec' f n)"
  unfolding call_value_def by (intro mono_rules run_mono [OF fuel] recursive_mono [OF fuel])

lemma caller_mono:
  assumes fuel: "less_fuel h rec rec'"
  shows "caller_under (call_value rec) (call_value rec')"
  unfolding caller_under_def by (intro allI call_value_mono [OF fuel])

lemma protected_call_mono:
  assumes fuel: "less_fuel h rec rec'"
  shows "le_fuel (protected_call rec fv argc base ip want) (protected_call rec' fv argc base ip want)"
  unfolding protected_call_def by (intro mono_rules recursive_mono [OF fuel])

lemma do_pcall_mono:
  assumes fuel: "less_fuel h rec rec'"
  shows "le_fuel (do_pcall rec base argc ip want) (do_pcall rec' base argc ip want)"
  unfolding do_pcall_def by (intro mono_rules protected_call_mono [OF fuel])

lemma do_xpcall_mono:
  assumes fuel: "less_fuel h rec rec'"
  shows "le_fuel (do_xpcall rec base argc ip want) (do_xpcall rec' base argc ip want)"
  unfolding do_xpcall_def by (intro mono_rules protected_call_mono [OF fuel])

lemma co_outcome_mono:
  assumes fuel: "less_fuel h rec rec'"
  shows "le_fuel (co_outcome rec i job) (co_outcome rec' i job)"
  unfolding le_fuel_def
proof
  fix s :: lua
  show "fst (co_outcome rec i job s) = VFuel \<or> co_outcome rec' i job s = co_outcome rec i job s"
    using recursive_mono [OF fuel, of job, unfolded le_fuel_def, rule_format, of s]
    by (cases "rec job s"; cases "fst (rec job s)") (auto simp: co_outcome_def)
qed

lemma co_resume_value_mono:
  assumes fuel: "less_fuel h rec rec'"
  shows "le_fuel (co_resume_value rec i argc) (co_resume_value rec' i argc)"
  unfolding co_resume_value_def Let_def by (intro mono_rules co_outcome_mono [OF fuel])

lemma co_wrap_call_mono:
  assumes fuel: "less_fuel h rec rec'"
  shows "le_fuel (co_wrap_call rec i argc) (co_wrap_call rec' i argc)"
  unfolding co_wrap_call_def by (intro mono_rules co_resume_value_mono [OF fuel])

lemma call_table_mono:
  assumes fuel: "less_fuel h rec rec'"
  shows "le_fuel (call_table rec fv argc base) (call_table rec' fv argc base)"
  unfolding call_table_def by (intro mono_rules recursive_mono [OF fuel])

lemma natives_mono:
  assumes fuel: "less_fuel h rec rec'"
  shows "le_fuel (h_native h rec n args) (h_native h rec' n args)"
  using fuel by (simp add: less_fuel_def native_mono_def)

lemma no_args_mono:
  "le_fuel m m' \<Longrightarrow> le_fuel (no_args argc msg m) (no_args argc msg m')"
  unfolding no_args_def by (intro mono_rules)

lemma call_mono:
  assumes fuel: "less_fuel h rec rec'"
  shows "le_fuel (call h rec fv argc) (call h rec' fv argc)"
  unfolding call_def Let_def
  by (intro mono_rules natives_mono [OF fuel] call_value_mono [OF fuel] co_wrap_call_mono [OF fuel] no_args_mono call_table_mono [OF fuel])

lemma assign_targets_mono:
  assumes fuel: "less_fuel h rec rec'"
  shows "le_fuel (assign_targets k rec t i p count values) (assign_targets k rec' t i p count values)"
proof (induction k arbitrary: t i p)
  case (Suc k)
  show ?case
    unfolding assign_targets.simps vset_def by (intro mono_rules Suc tset_mono [OF caller_mono [OF fuel]])
qed (simp add: le_fuel_def)

lemma do_assign_mono:
  assumes fuel: "less_fuel h rec rec'"
  shows "le_fuel (do_assign rec first count) (do_assign rec' first count)"
  unfolding do_assign_def by (intro mono_rules assign_targets_mono [OF fuel])

lemma call_other_mono:
  assumes fuel: "less_fuel h rec rec'"
  shows "le_fuel (call_other rec fv base argc ip want) (call_other rec' fv base argc ip want)"
  unfolding call_other_def by (intro mono_rules recursive_mono [OF fuel])

lemma do_call_mono:
  assumes fuel: "less_fuel h rec rec'"
  shows "le_fuel (do_call rec a want ip) (do_call rec' a want ip)"
  unfolding do_call_def by (intro mono_rules do_pcall_mono [OF fuel] do_xpcall_mono [OF fuel] call_other_mono [OF fuel])

lemma unop_mono:
  assumes fuel: "less_fuel h rec rec'"
  shows "le_fuel (unop rec a v) (unop rec' a v)"
  unfolding unop_def by (intro mono_rules unm_mono [OF caller_mono [OF fuel]])

lemma go_mono:
  "le_fuel m m' \<Longrightarrow> le_fuel (go ip m) (go ip m')"
  unfolding go_def by (intro mono_rules)

lemma exec_instr_mono:
  assumes fuel: "less_fuel h rec rec'"
  shows "le_fuel (exec_instr h rec i ip) (exec_instr h rec' i ip)"
  unfolding exec_instr_def Let_def vget_def vset_def
  by (cases "i_op i") (simp_all, (intro mono_rules go_mono tget_mono [OF caller_mono [OF fuel]] tset_mono [OF caller_mono [OF fuel]] do_assign_mono [OF fuel] binop_mono [OF caller_mono [OF fuel]] unop_mono [OF fuel] do_call_mono [OF fuel] tostring_mono [OF caller_mono [OF fuel]])+)

lemma unwind_mono:
  assumes fuel: "less_fuel h rec rec'"
  shows "le_fuel (unwind rec flr e i) (unwind rec' flr e i)"
proof (induction i arbitrary: e)
  case (Suc i)
  have handler: "le_fuel (\<lambda>s. case rec (JCall f 1) s of
        (Throw e', s') \<Rightarrow> vnext d (unwind rec flr e' i) s'
      | (Fine r, s') \<Rightarrow> k r s' | (VPanic, s') \<Rightarrow> (VPanic, s') | (VFuel, s') \<Rightarrow> (VFuel, s'))
    (\<lambda>s. case rec' (JCall f 1) s of
        (Throw e', s') \<Rightarrow> vnext d (unwind rec' flr e' i) s'
      | (Fine r, s') \<Rightarrow> k r s' | (VPanic, s') \<Rightarrow> (VPanic, s') | (VFuel, s') \<Rightarrow> (VFuel, s'))"
    for f d and k :: "exec_result \<Rightarrow> unwound vm"
    unfolding le_fuel_def
  proof
    fix s :: lua
    have "le_fuel (vnext d (unwind rec flr e' i)) (vnext d (unwind rec' flr e' i))" for e'
      by (intro mono_rules Suc)
    then show "fst (case rec (JCall f 1) s of
        (Throw e', s') \<Rightarrow> vnext d (unwind rec flr e' i) s'
      | (Fine r, s') \<Rightarrow> k r s' | (VPanic, s') \<Rightarrow> (VPanic, s') | (VFuel, s') \<Rightarrow> (VFuel, s')) = VFuel \<or>
      (case rec' (JCall f 1) s of
        (Throw e', s') \<Rightarrow> vnext d (unwind rec' flr e' i) s'
      | (Fine r, s') \<Rightarrow> k r s' | (VPanic, s') \<Rightarrow> (VPanic, s') | (VFuel, s') \<Rightarrow> (VFuel, s')) =
      (case rec (JCall f 1) s of
        (Throw e', s') \<Rightarrow> vnext d (unwind rec flr e' i) s'
      | (Fine r, s') \<Rightarrow> k r s' | (VPanic, s') \<Rightarrow> (VPanic, s') | (VFuel, s') \<Rightarrow> (VFuel, s'))"
      using recursive_mono [OF fuel, of "JCall f 1", unfolded le_fuel_def, rule_format, of s]
      by (cases "rec (JCall f 1) s"; cases "fst (rec (JCall f 1) s)") (auto simp: le_fuel_def)
  qed
  show ?case
    unfolding unwind.simps Let_def by (intro mono_rules Suc handler)
qed (simp add: mono_rules)

text \<open>One instruction and what it leads to.\<close>

lemma run_at_mono:
  assumes fuel: "less_fuel h rec rec'"
  shows "le_fuel (run_at h rec ip flr) (run_at h rec' ip flr)"
  unfolding le_fuel_def
proof
  fix s :: lua
  let ?m = "vthen (exec_instr h rec (code s ip) (ip + 1)) count_step"
  let ?m' = "vthen (exec_instr h rec' (code s ip) (ip + 1)) count_step"
  have instr: "le_fuel ?m ?m'"
    by (intro mono_rules exec_instr_mono [OF fuel])
  have caught: "le_fuel
      (vthen (unwind rec flr e i) (\<lambda>u. case u of Resume ip' \<Rightarrow> rec (JRun ip' flr) | Control r \<Rightarrow> vok r | Propagate \<Rightarrow> throw e))
      (vthen (unwind rec' flr e i) (\<lambda>u. case u of Resume ip' \<Rightarrow> rec' (JRun ip' flr) | Control r \<Rightarrow> vok r | Propagate \<Rightarrow> throw e))"
    for e i
    by (intro mono_rules unwind_mono [OF fuel] recursive_mono [OF fuel])
  show "fst (run_at h rec ip flr s) = VFuel \<or> run_at h rec' ip flr s = run_at h rec ip flr s"
  proof (cases "?m s")
    case (Pair r s')
    with instr have "r = VFuel \<or> ?m' s = (r, s')"
      unfolding le_fuel_def by (metis fst_conv)
    then show ?thesis
      using Pair caught recursive_mono [OF fuel]
      by (cases r) (auto simp: run_at_def le_fuel_def split: flow.splits)
  qed
qed

lemma exec_Suc_mono:
  assumes "native_mono h"
  shows "calls_under (exec h k) (exec h (Suc k))"
proof (induction k)
  case 0
  then show ?case
    by (simp add: calls_under_def le_fuel_def)
next
  case (Suc k)
  then have fuel: "less_fuel h (exec h k) (exec h (Suc k))"
    using assms unfolding less_fuel_def by blast
  have "le_fuel (exec h (Suc k) j) (exec h (Suc (Suc k)) j)" for j
    using run_at_mono [OF fuel] call_mono [OF fuel] by (cases j) (simp_all only: exec.simps vjob.case)
  then show ?case
    unfolding calls_under_def by (rule allI)
qed

text \<open>
  The result of a run does not depend on the fuel: what the machine returns with some fuel, a
  value, an error or a panic, and the state it leaves, it returns with any larger fuel. The natives of
  the host have to pass on a nested call that has run out of fuel.
\<close>

theorem exec_fuel_independent:
  assumes "native_mono h" and "k \<le> k'" and "exec h k j s = (r, s')" and "r \<noteq> VFuel"
  shows "exec h k' j s = (r, s')"
  using assms(2)
proof (induction k' rule: dec_induct)
  case (step m)
  have "fst (exec h m j s) = VFuel \<or> exec h (Suc m) j s = exec h m j s"
    using exec_Suc_mono [OF assms(1), of m] by (simp only: calls_under_def le_fuel_def)
  then show ?case
    using step.IH assms(4) by simp
qed (rule assms(3))

text \<open>A host whose natives call their first argument, and the one instruction \<open>Halt\<close>.\<close>

definition sample_host :: host where
  "sample_host = \<lparr>h_setup = (\<lambda>_ _. None), h_values = (\<lambda>_ _. undefined), h_info = (\<lambda>_ _. []),
     h_read = (\<lambda>_ _ _. None), h_load = (\<lambda>_ _ _. None), h_native = (\<lambda>rec n args. rec (JCall (hd args) 0))\<rparr>"

lemma sample_host_mono: "native_mono sample_host"
  by (simp add: native_mono_def sample_host_def calls_under_def)

definition halting :: lua where
  "halting = new_lua\<lparr>code := (\<lambda>_. \<lparr>i_op = Halt, i_a = 0, i_b = 0\<rparr>), ncode := 1\<rparr>"

lemma exec_fuel_independent_witness: "exec sample_host 7 (JRun 0 0) halting = (Fine Normal, halting)"
  by (rule exec_fuel_independent [OF sample_host_mono, of 1])
    (simp_all add: halting_def run_at_def exec_instr_def vm_simps count_step_def)

end
