(* ===== verification/LuaShell.thy ===== *)
theory LuaShell
  imports LuaRepl LuaText LuaFuel
begin

text \<open>
  What the shell promises: its editor and the row of a terminal that shows what it writes stay in step
  on continuation lines, and not on the first line, whose prompt the redraw does not know; the
  history is walked forth and back and gives chunks to submit again; keys are decoded from their
  sequences; a chunk is complete when its brackets and blocks are closed.
\<close>

section \<open>A terminal\<close>

text \<open>The row of the cursor, its column, and the escape sequence being received.\<close>

type_synonym screen = "(nat \<Rightarrow> u8) \<times> nat \<times> bytes"

definition term_put :: "screen \<Rightarrow> u8 \<Rightarrow> screen" where
  "term_put scr b = (case scr of (row, col, esc) \<Rightarrow>
     if esc \<noteq> [] \<or> b = 27 then
       (let e = esc @ [b] in
        if e = [27, 91, 72] then (row, 0, []) else if e = [27, 91, 50, 74] then (\<lambda>_. 32, col, [])
        else if length e \<ge> 4 then (row, col, []) else (row, col, e))
     else if b = 13 then (row, 0, [])
     else if b = 8 then (row, col - 1, [])
     else if b = 10 then (\<lambda>_. 32, 0, [])
     else (row(col := b), col + 1, []))"

definition term_write :: "screen \<Rightarrow> bytes \<Rightarrow> screen" where
  "term_write = foldl term_put"

definition printable :: "u8 \<Rightarrow> bool" where
  "printable b \<longleftrightarrow> 32 \<le> b \<and> b \<le> 126"

definition row_of :: "bytes \<Rightarrow> nat \<Rightarrow> u8" where
  "row_of t = (\<lambda>j. if j < length t then t ! j else 32)"

lemma term_write_simps [simp]:
  "term_write scr [] = scr" "term_write scr (b # bs) = term_write (term_put scr b) bs"
  "term_write scr (xs @ ys) = term_write (term_write scr xs) ys"
  by (simp_all add: term_write_def)

lemma printable_put: "printable b \<Longrightarrow> term_put (row, col, []) b = (row(col := b), col + 1, [])"
  by (auto simp: printable_def term_put_def word_le_nat_alt)

lemma term_write_text:
  assumes "list_all printable t"
  shows "term_write (row, col, []) t = ((\<lambda>j. if col \<le> j \<and> j < col + length t then t ! (j - col) else row j), col + length t, [])"
  using assms
proof (induction t arbitrary: row col)
  case (Cons b t)
  then show ?case
    by (auto simp: printable_put fun_eq_iff nth_Cons split: nat.splits intro!: arg_cong [where f = "(!) t"])
qed (auto simp: fun_eq_iff)

lemma term_write_back: "n \<le> col \<Longrightarrow> term_write (row, col, []) (replicate n 8) = (row, col - n, [])"
  by (induction n arbitrary: col) (simp_all add: term_put_def)

lemma term_return: "term_put (row, col, []) 13 = (row, 0, [])"
  by (simp add: term_put_def)

lemma term_clear: "term_write (row, col, []) CLEAR = (\<lambda>_. 32, 0, [])"
  by (simp add: CLEAR_def term_put_def)

lemma printable_blanks: "list_all printable (replicate n 32)"
  by (simp add: printable_def list_all_iff)

lemma printable_prompt: "list_all printable (prompt e)"
  by (simp add: prompt_def printable_def lit_def)

section \<open>The editor and its screen\<close>

definition editor_ok :: "editor \<Rightarrow> bool" where
  "editor_ok e \<longleftrightarrow> ed_pos e \<le> length (ed_line e) \<and> ed_shown e = length (ed_line e) \<and> list_all printable (ed_line e)"

definition displays :: "bytes \<Rightarrow> editor \<Rightarrow> screen \<Rightarrow> bool" where
  "displays pr e scr \<longleftrightarrow> scr = (row_of (pr @ ed_line e), length pr + ed_pos e, [])"

lemma redraw_row:
  assumes "redraw_line pr e = (e', out_text)" and "ed_pos e \<le> length (ed_line e)"
    and "list_all printable pr" "list_all printable (ed_line e)"
  shows "term_write (row, col, []) out_text =
      (\<lambda>j. if j < length (pr @ ed_line e) then (pr @ ed_line e) ! j
         else if j < length pr + max (ed_shown e) (length (ed_line e)) then 32 else row j, length pr + ed_pos e, [])"
    and "e' = e\<lparr>ed_shown := length (ed_line e)\<rparr>"
proof -
  let ?w = "max (ed_shown e) (length (ed_line e)) + length pr" and ?n = "length (ed_line e)"
  define t where "t = pr @ ed_line e"
  have t: "list_all printable t" "length t = length pr + ?n"
    using assms(3,4) by (simp_all add: t_def)
  have out: "out_text = [13] @ replicate ?w 32 @ [13] @ t @ replicate (?n - ed_pos e) 8"
    and e': "e' = e\<lparr>ed_shown := ?n\<rparr>"
    using assms(1) by (auto simp: redraw_line_def Let_def t_def)
  have "term_write (row, col, []) out_text =
      (\<lambda>j. if j < length t then t ! j else if j < ?w then 32 else row j, length pr + ed_pos e, [])"
    using assms(2) t unfolding out
    by (auto simp: term_return term_write_text printable_blanks term_write_back fun_eq_iff max_def)
  then show "term_write (row, col, []) out_text =
      (\<lambda>j. if j < length (pr @ ed_line e) then (pr @ ed_line e) ! j
         else if j < length pr + max (ed_shown e) ?n then 32 else row j, length pr + ed_pos e, [])"
    by (simp only: t_def add.commute)
  show "e' = e\<lparr>ed_shown := length (ed_line e)\<rparr>"
    by (rule e')
qed

text \<open>Redrawing covers everything when nothing but the prompt and the old line stands on the row.\<close>

lemma redraw_displays:
  assumes "redraw_line pr e = (e', out_text)" and "ed_pos e \<le> length (ed_line e)"
    and "list_all printable pr" "list_all printable (ed_line e)"
    and "\<And>j. length pr + max (ed_shown e) (length (ed_line e)) \<le> j \<Longrightarrow> row j = 32"
  shows "displays pr e' (term_write (row, col, []) out_text) \<and> e' = e\<lparr>ed_shown := length (ed_line e)\<rparr>"
  using redraw_row(1) [OF assms(1-4), of row col] redraw_row(2) [OF assms(1-4)] assms(5)
  by (auto simp: displays_def row_of_def fun_eq_iff not_less)

lemma put_in_displays:
  assumes "displays pr e scr" and "editor_ok e" and "list_all printable pr" "list_all printable cs"
    and "put_in cs e = (e', out_text)"
  shows "displays pr e' (term_write scr out_text) \<and> editor_ok e'"
proof -
  define bef aft where "bef = take (ed_pos e) (ed_line e)" and "aft = drop (ed_pos e) (ed_line e)"
  have line: "ed_line e = bef @ aft" and pos: "ed_pos e = length bef"
    using assms(2) by (simp_all add: bef_def aft_def editor_ok_def)
  have out: "out_text = (cs @ aft) @ replicate (length aft) 8" and e': "e' = e\<lparr>ed_line := bef @ cs @ aft,
      ed_pos := length bef + length cs, ed_shown := length (bef @ cs @ aft)\<rparr>"
    using assms(5) by (auto simp: put_in_def Let_def line pos)
  have "list_all printable (cs @ aft)"
    using assms(2,4) by (simp add: editor_ok_def line)
  then have "term_write scr out_text = (row_of (pr @ bef @ cs @ aft), length pr + length bef + length cs, [])"
    using assms(1) unfolding out
    by (auto simp: displays_def line pos term_write_text term_write_back row_of_def fun_eq_iff nth_append diff_add_eq)
  then show ?thesis
    using assms(2,4) e' by (simp add: displays_def editor_ok_def line)
qed

text \<open>One key: the gap of the line where the cursor stands.\<close>

definition zip_key :: "u8 \<Rightarrow> bytes \<times> bytes \<Rightarrow> bytes \<times> bytes" where
  "zip_key k z = (case z of (bef, aft) \<Rightarrow>
     if k = KEY_LEFT then (if bef = [] then z else (butlast bef, last bef # aft))
     else if k = KEY_RIGHT then (if aft = [] then z else (bef @ [hd aft], tl aft))
     else if k = KEY_HOME then ([], bef @ aft)
     else if k = KEY_END then (bef @ aft, [])
     else if k = KEY_DELETE then (bef, tl aft)
     else if k = 0x7F \<or> k = 8 then (butlast bef, aft)
     else if printable k \<and> length (bef @ aft) < LINE_CAP then (bef @ [k], aft)
     else z)"

definition zip_of :: "editor \<Rightarrow> bytes \<times> bytes" where
  "zip_of e = (take (ed_pos e) (ed_line e), drop (ed_pos e) (ed_line e))"

lemmas key_defs = KEY_UP_def KEY_DOWN_def KEY_RIGHT_def KEY_LEFT_def KEY_HOME_def KEY_END_def KEY_DELETE_def

lemma printable_typed: "0x20 \<le> k \<and> k < 0x7F \<longleftrightarrow> printable k"
  by (auto simp: printable_def word_less_nat_alt word_le_nat_alt)

lemma edit_key_simps:
  "edit_key KEY_LEFT e = (if ed_pos e > 0 then (e\<lparr>ed_pos := ed_pos e - 1\<rparr>, [8]) else (e, []))"
  "edit_key KEY_RIGHT e = (if ed_pos e < length (ed_line e) then (e\<lparr>ed_pos := ed_pos e + 1\<rparr>, [ed_line e ! ed_pos e]) else (e, []))"
  "edit_key KEY_HOME e = redraw_line (prompt e) (e\<lparr>ed_pos := 0\<rparr>)"
  "edit_key KEY_END e = redraw_line (prompt e) (e\<lparr>ed_pos := length (ed_line e)\<rparr>)"
  "edit_key KEY_DELETE e = (if ed_pos e < length (ed_line e) then redraw_line (prompt e) (cut_at (ed_pos e) e) else (e, []))"
  "k = 0x7F \<or> k = 8 \<Longrightarrow> edit_key k e = (if ed_pos e > 0 then redraw_line (prompt e) (cut_at (ed_pos e - 1) e) else (e, []))"
  "edit_key 0x0C e = (fst (redraw_line (prompt e) e), CLEAR @ snd (redraw_line (prompt e) e))"
  by (auto simp: edit_key_def key_defs Let_def split: prod.splits)

lemma zip_key_simps:
  "zip_key KEY_LEFT (bef, aft) = (if bef = [] then (bef, aft) else (butlast bef, last bef # aft))"
  "zip_key KEY_RIGHT (bef, aft) = (if aft = [] then (bef, aft) else (bef @ [hd aft], tl aft))"
  "zip_key KEY_HOME (bef, aft) = ([], bef @ aft)"
  "zip_key KEY_END (bef, aft) = (bef @ aft, [])"
  "zip_key KEY_DELETE (bef, aft) = (bef, tl aft)"
  "k = 0x7F \<or> k = 8 \<Longrightarrow> zip_key k (bef, aft) = (butlast bef, aft)"
  "zip_key 0x0C (bef, aft) = (bef, aft)"
  by (auto simp: zip_key_def key_defs printable_def)

lemma other_key:
  assumes "k \<notin> {KEY_LEFT, KEY_RIGHT, KEY_HOME, KEY_END, KEY_DELETE, 0x7F, 8, 0x0C}"
  shows "edit_key k e = (if printable k \<and> length (ed_line e) < LINE_CAP then put_in [k] e else (e, []))"
    and "zip_key k (bef, aft) = (if printable k \<and> length (bef @ aft) < LINE_CAP then (bef @ [k], aft) else (bef, aft))"
  using assms by (simp_all add: edit_key_def zip_key_def Let_def printable_typed [symmetric])

lemma key_cases:
  obtains "k = KEY_LEFT" | "k = KEY_RIGHT" | "k = KEY_HOME" | "k = KEY_END" | "k = KEY_DELETE" | "k = 0x7F \<or> k = 8"
    | "k = 0x0C" | "k \<notin> {KEY_LEFT, KEY_RIGHT, KEY_HOME, KEY_END, KEY_DELETE, 0x7F, 8, 0x0C}"
  by blast

lemma redraw_fst [simp]: "fst (redraw_line pr e) = e\<lparr>ed_shown := length (ed_line e)\<rparr>"
  by (simp add: redraw_line_def Let_def)

lemma edit_key_zip:
  assumes "editor_ok e"
  shows "zip_of (fst (edit_key k e)) = zip_key k (zip_of e)"
proof -
  define bef aft where "bef = take (ed_pos e) (ed_line e)" and "aft = drop (ed_pos e) (ed_line e)"
  have line: "ed_line e = bef @ aft" and pos: "ed_pos e = length bef"
    using assms by (simp_all add: bef_def aft_def editor_ok_def)
  have z: "zip_of e = (bef, aft)"
    by (simp add: zip_of_def bef_def aft_def)
  show ?thesis
    by (cases k rule: key_cases; cases bef rule: rev_cases; cases aft)
      (simp_all add: z zip_of_def edit_key_simps zip_key_simps other_key line pos cut_at_def put_in_def Let_def
        split: prod.splits)
qed

lemma redraw_edited:
  assumes ok: "editor_ok e" and scr: "displays (prompt e) e scr"
    and "ed_acc e2 = ed_acc e" "ed_shown e2 = length (ed_line e)" "length (ed_line e2) \<le> length (ed_line e)"
    and "ed_pos e2 \<le> length (ed_line e2)" "list_all printable (ed_line e2)" "redraw_line (prompt e) e2 = (e', out_text)"
  shows "editor_ok e' \<and> ed_acc e' = ed_acc e \<and> displays (prompt e) e' (term_write scr out_text)"
proof -
  obtain row col where row: "scr = (row, col, [])" "row = row_of (prompt e @ ed_line e)"
    using scr by (auto simp: displays_def)
  have "displays (prompt e) e' (term_write scr out_text) \<and> e' = e2\<lparr>ed_shown := length (ed_line e2)\<rparr>"
    unfolding row(1)
    by (rule redraw_displays [OF assms(8,6) printable_prompt assms(7)])
      (use assms(4) in \<open>auto simp: row(2) row_of_def\<close>)
  with assms(3,6,7) show ?thesis
    by (simp add: editor_ok_def displays_def)
qed

lemma cut_ok:
  assumes "editor_ok e" and "i < length (ed_line e)"
  shows "ed_acc (cut_at i e) = ed_acc e" "ed_shown (cut_at i e) = length (ed_line e)"
    "length (ed_line (cut_at i e)) \<le> length (ed_line e)" "ed_pos (cut_at i e) \<le> length (ed_line (cut_at i e))"
    "list_all printable (ed_line (cut_at i e))"
  using assms by (auto simp: cut_at_def editor_ok_def list_all_iff dest: in_set_takeD in_set_dropD)

lemma edit_key_displays:
  assumes ok: "editor_ok e" and scr: "displays (prompt e) e scr" and key: "edit_key k e = (e', out_text)"
  shows "editor_ok e' \<and> ed_acc e' = ed_acc e \<and> displays (prompt e) e' (term_write scr out_text)"
proof -
  note redraw = redraw_edited [OF ok scr]
  have line: "ed_pos e \<le> length (ed_line e)" "ed_shown e = length (ed_line e)" "list_all printable (ed_line e)"
    using ok by (simp_all add: editor_ok_def)
  show ?thesis
  proof (cases k rule: key_cases)
    case 1
    then show ?thesis
      using key line scr by (auto simp: edit_key_simps editor_ok_def displays_def term_put_def split: if_splits)
  next
    case 2
    then show ?thesis
      using key line scr
      by (auto simp: edit_key_simps editor_ok_def displays_def printable_put list_all_length row_of_def fun_eq_iff
          nth_append split: if_splits)
  next
    case 3
    then show ?thesis
      using redraw [of "e\<lparr>ed_pos := 0\<rparr>"] key line by (simp add: edit_key_simps)
  next
    case 4
    then show ?thesis
      using redraw [of "e\<lparr>ed_pos := length (ed_line e)\<rparr>"] key line by (simp add: edit_key_simps)
  next
    case 5
    show ?thesis
    proof (cases "ed_pos e < length (ed_line e)")
      case True
      then show ?thesis
        using redraw [OF cut_ok [OF ok True]] key by (simp add: 5 edit_key_simps)
    qed (use key ok scr in \<open>simp add: 5 edit_key_simps\<close>)
  next
    case 6
    show ?thesis
    proof (cases "ed_pos e > 0")
      case True
      then have "ed_pos e - 1 < length (ed_line e)"
        using line(1) by linarith
      from redraw [OF cut_ok [OF ok this]] show ?thesis
        using key True by (simp add: edit_key_simps(6) [OF 6])
    qed (use key ok scr in \<open>simp add: edit_key_simps(6) [OF 6]\<close>)
  next
    case 7
    obtain out' where r: "redraw_line (prompt e) e = (e', out')" "out_text = CLEAR @ out'"
      using key unfolding 7 edit_key_simps by (metis fst_conv prod.collapse snd_conv)
    obtain row col where row: "scr = (row, col, [])"
      using scr by (auto simp: displays_def)
    show ?thesis
      using redraw_displays [OF r(1) line(1) printable_prompt line(3), of "\<lambda>_. 32" 0] line
      by (simp add: r(2) row term_clear editor_ok_def displays_def)
  next
    case 8
    then show ?thesis
      using put_in_displays [OF scr ok printable_prompt, of "[k]" e' out_text] key ok scr
      by (auto simp: other_key put_in_def Let_def split: if_splits)
  qed
qed

text \<open>Keys that the loop leaves to the line editor.\<close>

definition editing :: "u8 \<Rightarrow> bool" where
  "editing k \<longleftrightarrow> k \<notin> {13, 10, KEY_UP, KEY_DOWN, 3, 9}"

lemma editing_key:
  "editing k \<Longrightarrow> repl_keys h n (k # ks) e s =
     repl_keys h n ks (fst (edit_key k e)) (s\<lparr>console := console s @ snd (edit_key k e)\<rparr>)"
  by (simp add: editing_def repl_key_def Let_def case_prod_beta vm_simps emit_bytes_def)

lemma editing_keys:
  assumes "list_all editing ks" and "editor_ok e" and "displays (prompt e) e scr"
  shows "\<exists>e' out. repl_keys h n ks e s = (Fine e', s\<lparr>console := console s @ out\<rparr>) \<and> editor_ok e' \<and> ed_acc e' = ed_acc e \<and>
    zip_of e' = fold zip_key ks (zip_of e) \<and> displays (prompt e) e' (term_write scr out)"
  using assms
proof (induction ks arbitrary: e scr s)
  case Nil
  then show ?case
    by (intro exI [of _ e] exI [of _ "[]"]) (simp add: vm_simps)
next
  case (Cons k ks)
  obtain e1 out1 where k: "edit_key k e = (e1, out1)" by force
  have e1: "editor_ok e1" "ed_acc e1 = ed_acc e" "displays (prompt e) e1 (term_write scr out1)"
    using edit_key_displays [OF Cons.prems(2,3) k] by simp_all
  then have "displays (prompt e1) e1 (term_write scr out1)"
    by (simp add: prompt_def)
  from Cons.IH [OF _ e1(1) this, of "s\<lparr>console := console s @ out1\<rparr>"] Cons.prems(1) obtain e' out where
    "repl_keys h n ks e1 (s\<lparr>console := console s @ out1\<rparr>) = (Fine e', s\<lparr>console := (console s @ out1) @ out\<rparr>)"
    "editor_ok e'" "ed_acc e' = ed_acc e1" "zip_of e' = fold zip_key ks (zip_of e1)"
    "displays (prompt e1) e' (term_write (term_write scr out1) out)"
    by auto
  then show ?case
    using k e1(2) edit_key_zip [OF Cons.prems(2), of k] editing_key [of k h n ks e s] Cons.prems(1)
    by (intro exI [of _ e'] exI [of _ "out1 @ out"]) (simp add: prompt_def)
qed

lemma zip_line: "editor_ok e \<Longrightarrow> zip_of e = (bef, aft) \<Longrightarrow> ed_line e = bef @ aft \<and> ed_pos e = length bef"
  by (auto simp: zip_of_def editor_ok_def)

text \<open>
  C39. After Enter on an incomplete chunk the editor and a terminal stay in step: whatever keys are typed to
  edit the continuation line (characters, cursor keys, Home, End, Delete, Backspace, Ctrl-L, and all
  keys that do nothing), as long as the terminal does not wrap the line, the editor holds the line that a text with a gap at the cursor gives, and the
  row of the terminal shows the prompt and this line, nothing else, with its cursor at the gap.
\<close>

theorem continuation_screen:
  assumes "ed_acc e \<noteq> [] \<or> ed_line e \<noteq> []" and "\<not> is_cd (next_chunk e)" and "\<not> is_complete (next_chunk e)"
    and "list_all editing ks" and "fold zip_key ks ([], []) = (bef, aft)"
  shows "\<exists>e' out. repl_keys h n (13 # ks) e s = (Fine e', s\<lparr>console := console s @ out\<rparr>) \<and>
    ed_acc e' = next_chunk e \<and> ed_line e' = bef @ aft \<and> ed_pos e' = length bef \<and>
    term_write (row, col, []) out = (row_of (lit ''>> '' @ bef @ aft), 3 + length bef, [])"
proof -
  define e1 where "e1 = e\<lparr>ed_acc := next_chunk e, ed_line := [], ed_pos := 0, ed_shown := 0\<rparr>"
  define out1 where "out1 = [10] @ lit ''>> ''"
  have chunk: "next_chunk e \<noteq> []"
    by (simp add: next_chunk_def line_of_chunk_def Let_def CHUNK_CAP_def)
  have enter: "repl_keys h n (13 # ks) e s = repl_keys h n ks e1 (s\<lparr>console := console s @ out1\<rparr>)"
    using assms(1-3) by (auto simp: repl_key_def key_enter_def Let_def vm_simps emit_bytes_def e1_def out1_def)
  have "prompt e1 = lit ''>> ''"
    using chunk by (simp add: prompt_def e1_def)
  moreover have "term_write (row, col, []) out1 = (row_of (lit ''>> ''), 3, [])"
    by (auto simp: out1_def lit_def term_put_def row_of_def fun_eq_iff nth_Cons split: nat.splits)
  ultimately have "displays (prompt e1) e1 (term_write (row, col, []) out1)"
    by (simp add: displays_def e1_def)
  then obtain e' out where run:
    "repl_keys h n ks e1 (s\<lparr>console := console s @ out1\<rparr>) = (Fine e', s\<lparr>console := (console s @ out1) @ out\<rparr>)"
    and e': "editor_ok e'" "ed_acc e' = next_chunk e" "zip_of e' = (bef, aft)"
      "displays (prompt e1) e' (term_write (term_write (row, col, []) out1) out)"
    using editing_keys [OF assms(4), of e1 "term_write (row, col, []) out1" h n "s\<lparr>console := console s @ out1\<rparr>"] assms(5)
    by (simp add: editor_ok_def e1_def zip_of_def) blast
  have "ed_line e' = bef @ aft" "ed_pos e' = length bef"
    using zip_line [OF e'(1,3)] by simp_all
  moreover have "term_write (row, col, []) (out1 @ out) = (row_of (lit ''>> '' @ bef @ aft), 3 + length bef, [])"
    using e'(4) calculation \<open>prompt e1 = lit ''>> ''\<close> by (simp add: displays_def)
  moreover have "repl_keys h n (13 # ks) e s = (Fine e', s\<lparr>console := console s @ out1 @ out\<rparr>)"
    using enter run by (simp only: append_assoc)
  ultimately show ?thesis
    using e'(2) by blast
qed

lemma continuation_screen_witness:
  "\<exists>e' out. repl_keys sample_host 0 (13 # lit ''y!'' @ [KEY_LEFT]) (new_editor\<lparr>ed_line := lit ''x =''\<rparr>) new_lua =
      (Fine e', new_lua\<lparr>console := out\<rparr>) \<and> ed_line e' = lit ''y!'' \<and>
    term_write (\<lambda>_. 32, 0, []) out = (row_of (lit ''>> y!''), 4, [])"
proof -
  let ?e = "new_editor\<lparr>ed_line := lit ''x =''\<rparr>"
  have chunk: "next_chunk ?e = lit ''x ='' @ [10]"
    by (simp add: next_chunk_def line_of_chunk_def is_local_var_def Let_def lit_def blank_def has_prefix_def CHUNK_CAP_def new_editor_def)
  have "\<not> is_cd (next_chunk ?e)" "\<not> is_complete (next_chunk ?e)" "list_all editing (lit ''y!'' @ [KEY_LEFT])"
    "fold zip_key (lit ''y!'' @ [KEY_LEFT]) ([], []) = (lit ''y'', lit ''!'')"
    unfolding chunk
    subgoal by (simp add: is_cd_def trim_def blank_def lit_def has_prefix_def Let_def)
    subgoal by code_simp
    subgoal by (simp add: editing_def lit_def key_defs)
    subgoal by (simp add: zip_key_def lit_def key_defs printable_def LINE_CAP_def)
    done
  from continuation_screen [OF _ this, where h = sample_host and n = 0 and s = new_lua and row = "\<lambda>_. 32" and col = 0]
  show ?thesis
    by (fastforce simp: lit_def new_editor_def new_lua_def)
qed

lemma typed_keys:
  assumes "list_all printable l" and "displays pr e scr" and "editor_ok e" and "list_all printable pr"
    and "ed_pos e = length (ed_line e)" and "length (ed_line e) + length l \<le> LINE_CAP"
  shows "\<exists>out. repl_keys h n (l @ ks) e s =
      repl_keys h n ks (e\<lparr>ed_line := ed_line e @ l, ed_pos := length (ed_line e @ l), ed_shown := length (ed_line e @ l)\<rparr>)
        (s\<lparr>console := console s @ out\<rparr>) \<and>
    displays pr (e\<lparr>ed_line := ed_line e @ l, ed_pos := length (ed_line e @ l), ed_shown := length (ed_line e @ l)\<rparr>)
      (term_write scr out)"
  using assms
proof (induction l arbitrary: e scr s)
  case Nil
  then have "e\<lparr>ed_line := ed_line e, ed_pos := length (ed_line e), ed_shown := length (ed_line e)\<rparr> = e"
    by (simp add: editor_ok_def)
  with Nil show ?case
    by (intro exI [of _ "[]"]) simp
next
  case (Cons k l)
  let ?e1 = "e\<lparr>ed_line := ed_line e @ [k], ed_pos := length (ed_line e @ [k]), ed_shown := length (ed_line e @ [k])\<rparr>"
  have k: "editing k" "k \<notin> {KEY_LEFT, KEY_RIGHT, KEY_HOME, KEY_END, KEY_DELETE, 0x7F, 8, 0x0C}"
    using Cons.prems(1) by (auto simp: editing_def printable_def key_defs word_le_nat_alt)
  obtain out1 where put: "put_in [k] e = (?e1, out1)"
    using Cons.prems(5) by (simp add: put_in_def Let_def)
  then have key: "edit_key k e = (?e1, out1)"
    using Cons.prems(1,6) by (simp add: other_key [OF k(2)])
  have "displays pr ?e1 (term_write scr out1)" "editor_ok ?e1"
    using put_in_displays [OF Cons.prems(2,3,4) _ put] Cons.prems(1) by simp_all
  from Cons.IH [OF _ this Cons.prems(4), of "s\<lparr>console := console s @ out1\<rparr>"] Cons.prems(1,6)
  obtain out where "repl_keys h n (l @ ks) ?e1 (s\<lparr>console := console s @ out1\<rparr>) =
      repl_keys h n ks (e\<lparr>ed_line := ed_line e @ k # l, ed_pos := length (ed_line e @ k # l), ed_shown := length (ed_line e @ k # l)\<rparr>)
        (s\<lparr>console := console s @ out1 @ out\<rparr>)"
    "displays pr (e\<lparr>ed_line := ed_line e @ k # l, ed_pos := length (ed_line e @ k # l), ed_shown := length (ed_line e @ k # l)\<rparr>)
      (term_write (term_write scr out1) out)"
    by auto
  then show ?case
    using editing_key [OF k(1), of h n "l @ ks" e s] key by (intro exI [of _ "out1 @ out"]) simp
qed

lemma row_over: "row_of (t @ drop (length t) u) = (\<lambda>j. if j < length t then t ! j else row_of u j)"
  by (auto simp: row_of_def fun_eq_iff nth_append)

lemma prompt_dir_nonempty: "prompt_dir cw \<noteq> []"
  by (auto simp: prompt_dir_def Let_def)

text \<open>
  On the first line of a chunk they do not stay in step: the loop writes the prompt with the working
  directory, and the redraw writes the prompt \<open>> \<close> and erases as many columns as this one has.
  After a line is typed, Home shows it after the short prompt, followed by the end of what stood there:
  as many characters as the first prompt is longer, always at least two. The line itself is kept.
\<close>

theorem home_leaves_stale_text:
  assumes "ed_acc e = []" and "ed_line e = []" "ed_pos e = 0" "ed_shown e = 0"
    and "cwd_len s \<le> length (cwd s)" and pr: "pr = prompt_dir (take (cwd_len s) (cwd s)) @ lit '' > ''"
    and "list_all printable pr" and "list_all printable l" and "length l \<le> 256"
  shows "\<exists>e' out. vnext show_prompt (repl_keys h n (l @ [KEY_HOME]) e) s = (Fine e', s\<lparr>console := console s @ out\<rparr>) \<and>
    ed_line e' = l \<and> ed_pos e' = 0 \<and>
    term_write (\<lambda>_. 32, 0, []) out = (row_of (lit ''> '' @ l @ drop (length l + 2) (pr @ l)), 2, []) \<and>
    length (drop (length l + 2) (pr @ l)) = length pr - 2 \<and> length pr \<ge> 4"
proof -
  have "term_write (\<lambda>_. 32, 0, []) pr = (row_of pr, length pr, [])"
    using term_write_text [OF assms(7), of "\<lambda>_. 32" 0] by (simp add: row_of_def fun_eq_iff)
  then have scr: "displays pr e (term_write (\<lambda>_. 32, 0, []) pr)" and ok: "editor_ok e"
    using assms(2-4) by (simp_all add: displays_def editor_ok_def)
  obtain out where typed: "repl_keys h n (l @ [KEY_HOME]) e (s\<lparr>console := console s @ pr\<rparr>) =
      repl_keys h n [KEY_HOME] (e\<lparr>ed_line := l, ed_pos := length l, ed_shown := length l\<rparr>) (s\<lparr>console := (console s @ pr) @ out\<rparr>)"
    "term_write (\<lambda>_. 32, 0, []) (pr @ out) = (row_of (pr @ l), length pr + length l, [])"
    using typed_keys [OF assms(8) scr ok assms(7), of h n "[KEY_HOME]" "s\<lparr>console := console s @ pr\<rparr>"] assms(2,3,9)
    by (auto simp: displays_def LINE_CAP_def simp del: repl_keys.simps)
  let ?e1 = "e\<lparr>ed_line := l, ed_pos := length l, ed_shown := length l\<rparr>"
  obtain e' out2 where r: "redraw_line (lit ''> '') (?e1\<lparr>ed_pos := 0\<rparr>) = (e', out2)" by force
  have home: "edit_key KEY_HOME ?e1 = (e', out2)"
    using r assms(1) by (simp add: edit_key_simps prompt_def)
  have pr2: "list_all printable (lit ''> '')" "length pr \<ge> 4"
    using prompt_dir_nonempty [of "take (cwd_len s) (cwd s)"]
    by (simp_all add: lit_def printable_def pr Suc_le_eq)
  note row = redraw_row [OF r _ pr2(1)]
  have "editing KEY_HOME"
    by (simp add: editing_def key_defs)
  from editing_key [OF this, of h n "[]" ?e1] typed(1) home
  have "repl_keys h n (l @ [KEY_HOME]) e (s\<lparr>console := console s @ pr\<rparr>) = (Fine e', s\<lparr>console := console s @ pr @ out @ out2\<rparr>)"
    by (simp add: vm_simps)
  moreover have "show_prompt s = (Fine (), s\<lparr>console := console s @ pr\<rparr>)"
    using assms(5) by (simp add: show_prompt_def vm_simps emit_bytes_def pr)
  ultimately have run: "vnext show_prompt (repl_keys h n (l @ [KEY_HOME]) e) s = (Fine e', s\<lparr>console := console s @ pr @ out @ out2\<rparr>)"
    by (simp add: vm_simps)
  have "term_write (\<lambda>_. 32, 0, []) (pr @ out @ out2) = term_write (row_of (pr @ l), length pr + length l, []) out2"
    using typed(2) by simp
  also have "\<dots> = (row_of (lit ''> '' @ l @ drop (length l + 2) (pr @ l)), 2, [])"
    using row(1) [of "row_of (pr @ l)" "length pr + length l"] row_over [of "lit ''> '' @ l" "pr @ l"] assms(8)
    by (auto simp: fun_eq_iff)
  finally show ?thesis
    using run row(2) assms(8) pr2(2) by (intro exI [of _ e'] exI [of _ "pr @ out @ out2"]) simp
qed

lemma home_leaves_stale_text_witness:
  "\<exists>e' out. vnext show_prompt (repl_keys sample_host 0 (lit ''ab'' @ [KEY_HOME]) new_editor) new_lua =
      (Fine e', new_lua\<lparr>console := out\<rparr>) \<and>
    term_write (\<lambda>_. 32, 0, []) out = (row_of (lit ''> abab''), 2, [])"
proof -
  have dir: "prompt_dir (take (cwd_len new_lua) (cwd new_lua)) = [47]"
    by (simp add: new_lua_def prompt_dir_def Let_def)
  have len: "cwd_len new_lua \<le> length (cwd new_lua)"
    by (simp add: new_lua_def)
  have pr: "list_all printable ([47] @ lit '' > '')" "list_all printable (lit ''ab'')"
    by (simp_all add: lit_def printable_def)
  have ed: "ed_acc new_editor = []" "ed_line new_editor = []" "ed_pos new_editor = 0" "ed_shown new_editor = 0"
    by (simp_all add: new_editor_def)
  from home_leaves_stale_text [OF ed len _ pr, where h = sample_host and n = 0] dir show ?thesis
    by (fastforce simp: lit_def new_lua_def)
qed

section \<open>History\<close>

definition up :: "editor \<Rightarrow> editor" where "up e = fst (key_up e)"
definition down :: "editor \<Rightarrow> editor" where "down e = fst (key_down e)"

lemma render_fst [simp]: "fst (render_recalled e) = e\<lparr>ed_shown := length (ed_line e)\<rparr>"
  by (simp add: render_recalled_def)

lemma up_simps:
  "ed_hist e = [] \<Longrightarrow> up e = e"
  "ed_hist (up e) = ed_hist e"
  "ed_hist_pos (up e) = (if ed_hist e = [] then ed_hist_pos e else ed_hist_pos e - 1)"
  "ed_draft_acc (up e) = (if ed_hist e \<noteq> [] \<and> ed_hist_pos e = length (ed_hist e) then ed_acc e else ed_draft_acc e)"
  "ed_draft_line (up e) = (if ed_hist e \<noteq> [] \<and> ed_hist_pos e = length (ed_hist e) then ed_line e else ed_draft_line e)"
  by (simp_all add: up_def key_up_def Let_def load_entry_def)

lemma down_simps:
  "ed_hist (down e) = ed_hist e"
  "ed_hist_pos (down e) = (if ed_hist_pos e < length (ed_hist e) then ed_hist_pos e + 1 else ed_hist_pos e)"
  "ed_draft_acc (down e) = ed_draft_acc e" "ed_draft_line (down e) = ed_draft_line e"
  "ed_hist_pos e + 1 = length (ed_hist e) \<Longrightarrow> ed_acc (down e) = ed_draft_acc e \<and> ed_line (down e) = ed_draft_line e"
  by (simp_all add: down_def key_down_def Let_def load_entry_def)

lemma ups:
  assumes "ed_hist_pos e = length (ed_hist e)" and "ed_hist e \<noteq> []" and "0 < n"
  shows "ed_hist ((up ^^ n) e) = ed_hist e \<and> ed_hist_pos ((up ^^ n) e) = length (ed_hist e) - n \<and>
    ed_draft_acc ((up ^^ n) e) = ed_acc e \<and> ed_draft_line ((up ^^ n) e) = ed_line e"
  using assms(3)
proof (induction n)
  case (Suc n)
  moreover have "length (ed_hist e) - n \<noteq> length (ed_hist e)" if "n \<noteq> 0"
    using assms(2) that by (cases "ed_hist e") simp_all
  ultimately show ?case
    using assms(1,2) by (cases "n = 0") (auto simp: up_simps)
qed simp

lemma downs:
  assumes "ed_hist_pos e < length (ed_hist e)" and "length (ed_hist e) - ed_hist_pos e \<le> n"
  shows "ed_hist_pos ((down ^^ n) e) = length (ed_hist e) \<and> ed_acc ((down ^^ n) e) = ed_draft_acc e \<and>
    ed_line ((down ^^ n) e) = ed_draft_line e"
  using assms
proof (induction n arbitrary: e)
  case (Suc n)
  have "(down ^^ Suc n) e = (down ^^ n) (down e)"
    by (simp only: funpow_Suc_right comp_apply)
  moreover have "ed_hist_pos (down e) = ed_hist_pos e + 1"
    using Suc.prems(1) by (simp add: down_simps)
  moreover have "(down ^^ n) d = d" if "ed_hist_pos d = length (ed_hist d)" for d
    using that by (induction n) (simp_all add: down_def key_down_def)
  ultimately show ?case
    using Suc.IH [of "down e"] Suc.prems down_simps [of e]
    by (cases "ed_hist_pos e + 1 = length (ed_hist e)") auto
qed simp

text \<open>
  Walking up the history any number of times and down again as often gives the chunk and the line
  back that were being edited, whatever the entries are.
\<close>

theorem history_up_down:
  assumes "ed_hist_pos e = length (ed_hist e)"
  shows "ed_acc ((down ^^ n) ((up ^^ n) e)) = ed_acc e \<and> ed_line ((down ^^ n) ((up ^^ n) e)) = ed_line e \<and>
    ed_hist_pos ((down ^^ n) ((up ^^ n) e)) = length (ed_hist e)"
proof (cases "ed_hist e = [] \<or> n = 0")
  case True
  have "(up ^^ n) e = e" if "ed_hist e = []"
    using that by (induction n) (simp_all add: up_simps)
  moreover have "(down ^^ n) e = e"
    using assms by (induction n) (simp_all add: down_def key_down_def)
  ultimately show ?thesis
    using True assms by auto
next
  case False
  then show ?thesis
    using ups [OF assms, of n] downs [of "(up ^^ n) e" n] by auto
qed

lemma history_up_down_witness:
  "let e = new_editor\<lparr>ed_hist := [lit ''a'', lit ''b''], ed_hist_pos := 2, ed_line := lit ''c''\<rparr> in
   ed_line (down (up e)) = lit ''c'' \<and> ed_line (up e) = lit ''b''"
  using history_up_down [of "new_editor\<lparr>ed_hist := [lit ''a'', lit ''b''], ed_hist_pos := 2, ed_line := lit ''c''\<rparr>" 1]
  by (simp add: up_def key_up_def Let_def load_entry_def entry_text_def lit_def LINE_CAP_def)

lemma content_line: "c \<noteq> [] \<Longrightarrow> last c \<noteq> 10 \<Longrightarrow> chunk_content (c @ [10]) = c"
  by (cases c rule: rev_cases) (simp_all add: chunk_content_def)

lemma plain_line: "\<not> is_local_var l \<Longrightarrow> line_of_chunk l = l @ [10]"
  by (simp add: line_of_chunk_def Let_def)

lemma load_split:
  assumes "entry_text c = c" and "length c \<le> CHUNK_CAP" and "length (rev (takeWhile (\<lambda>b. b \<noteq> 10) (rev c))) \<le> LINE_CAP"
  shows "ed_acc (load_entry c e) @ ed_line (load_entry c e) = c" "ed_line (load_entry c e) = rev (takeWhile (\<lambda>b. b \<noteq> 10) (rev c))"
proof -
  let ?l = "takeWhile (\<lambda>b. b \<noteq> 10) (rev c)" and ?r = "dropWhile (\<lambda>b. b \<noteq> 10) (rev c)"
  have c: "rev ?r @ rev ?l = c"
    by (metis rev_append rev_rev_ident takeWhile_dropWhile_id)
  have "length c = length (rev ?r @ rev ?l)"
    by (simp only: c)
  then have len: "length c = length ?r + length ?l"
    by (simp only: length_append length_rev)
  have "take (length c - length ?l) c = take (length (rev ?r)) (rev ?r @ rev ?l)"
    by (simp only: c len length_rev add_diff_cancel_right')
  then have pre: "take (length c - length ?l) c = rev ?r"
    by simp
  show "ed_line (load_entry c e) = rev ?l"
    using assms(3) by (simp add: load_entry_def Let_def assms(1))
  have "length (rev ?r) \<le> CHUNK_CAP"
    using assms(2) len by simp
  moreover have "ed_acc (load_entry c e) = take CHUNK_CAP (rev ?r)"
    using pre by (simp add: load_entry_def Let_def assms(1) del: take_take)
  ultimately have "ed_acc (load_entry c e) = rev ?r"
    by simp
  with c show "ed_acc (load_entry c e) @ ed_line (load_entry c e) = c"
    using \<open>ed_line (load_entry c e) = rev ?l\<close> by simp
qed

text \<open>
  A chunk in the history can be submitted again: the most recent entry, recalled with the Up key and
  entered, is the same chunk, lines and all, and is run as it was; the history keeps it once. The last
  line has to fit the line buffer, and must not declare locals (it would have been rewritten).
\<close>

theorem recall_resubmits:
  assumes "ed_hist e \<noteq> []" and "ed_hist_pos e = length (ed_hist e)" and c: "last (ed_hist e) = c"
    and "c \<noteq> []" "0 \<notin> set c" "last c \<noteq> 10" "length c < CHUNK_CAP"
    and "is_complete (c @ [10])" and l: "rev (takeWhile (\<lambda>b. b \<noteq> 10) (rev c)) = l" and "length l \<le> LINE_CAP" "\<not> is_local_var l"
  shows "key_enter h n (up e) s = vnext (emit_bytes [10])
      (vthen (submit h n c) (\<lambda>t. vok (fresh_line (up e), t))) s \<and> ed_hist (fresh_line (up e)) = ed_hist e"
proof -
  have c0: "entry_text c = c"
    using assms(5) by (auto simp: entry_text_def takeWhile_eq_all_conv)
  obtain e0 where up: "up e = (load_entry c e0)\<lparr>ed_shown := length (ed_line (load_entry c e0))\<rparr>"
    using assms(1,2) c by (auto simp: up_def key_up_def Let_def last_conv_nth)
  have line: "ed_acc (up e) @ ed_line (up e) = c" "ed_line (up e) = l"
    using load_split [OF c0, of e0] assms(7,10) l by (simp_all add: up)
  have "next_chunk (up e) = take CHUNK_CAP (ed_acc (up e) @ ed_line (up e) @ [10])"
    using assms(11) line(2) by (simp add: next_chunk_def plain_line)
  also have "\<dots> = c @ [10]"
    using assms(7) line(1) by (simp flip: append_assoc)
  finally have chunk: "next_chunk (up e) = c @ [10]" .
  have hist: "record_history c (ed_hist (up e)) = ed_hist e"
    using assms(1) c c0 by (simp add: record_history_def up_simps)
  then have same: "(up e)\<lparr>ed_hist := record_history c (ed_hist (up e))\<rparr> = up e"
    using up_simps(2) [of e] by simp
  have "ed_acc (up e) \<noteq> [] \<or> ed_line (up e) \<noteq> []"
    using line(1) assms(4) by auto
  with assms(4,8) content_line [OF assms(4,6)] have "key_enter h n (up e) s = vnext (emit_bytes [10])
      (vthen (submit h n c) (\<lambda>t. vok (fresh_line (up e), t))) s"
    by (auto simp: key_enter_def chunk Let_def same)
  then show ?thesis
    by (simp add: fresh_line_def up_simps)
qed

lemma recall_resubmits_witness:
  "let c = lit ''x ='' @ [10] @ lit ''z''; e = new_editor\<lparr>ed_hist := [lit ''y'', c], ed_hist_pos := 2\<rparr> in
   key_enter sample_host 0 (up e) new_lua = vnext (emit_bytes [10])
     (vthen (submit sample_host 0 c) (\<lambda>t. vok (fresh_line (up e), t))) new_lua"
proof -
  let ?c = "lit ''x ='' @ [10] @ lit ''z''"
  let ?e = "new_editor\<lparr>ed_hist := [lit ''y'', ?c], ed_hist_pos := 2\<rparr>"
  have "is_complete (?c @ [10])"
    by code_simp
  moreover have "rev (takeWhile (\<lambda>b. b \<noteq> 10) (rev ?c)) = lit ''z''" "\<not> is_local_var (lit ''z'')"
    by (simp_all add: lit_def is_local_var_def)
  ultimately show ?thesis
    using recall_resubmits [of ?e ?c "lit ''z''" sample_host 0 new_lua]
    by (simp add: lit_def CHUNK_CAP_def LINE_CAP_def)
qed

end
