(* ===== verification/LuaEnv.thy ===== *)
theory LuaEnv
  imports LuaState
begin

text \<open>
  Laws of the memory operations of \<^verbatim>\<open>lua/src/lib.rs\<close>: the contract \<open>interner\<close> of the string
  arena with its interpretation, variables written and read back through locals, cells, upvalues
  and globals, and the switch between threads.
\<close>


section \<open>The string arena\<close>

text \<open>
  The contract of a string table: interning yields a reference to the bytes, never disturbs the
  references given out before, and two known references to equal bytes are equal.
\<close>

locale interner =
  fixes table_intern :: "bytes \<Rightarrow> ('s, 'r) step"
    and bytes_of :: "'s \<Rightarrow> 'r \<Rightarrow> bytes option"
    and known :: "'s \<Rightarrow> 'r \<Rightarrow> bool"
    and inv :: "'s \<Rightarrow> bool"
  assumes intern_inv: "inv s \<Longrightarrow> table_intern b s = (x, s') \<Longrightarrow> inv s'"
    and intern_result: "inv s \<Longrightarrow> table_intern b s = (Ok r, s') \<Longrightarrow> known s' r \<and> bytes_of s' r = Some b"
    and intern_keeps: "inv s \<Longrightarrow> table_intern b s = (x, s') \<Longrightarrow> known s r \<Longrightarrow>
      known s' r \<and> bytes_of s' r = bytes_of s r"
    and known_inj: "inv s \<Longrightarrow> known s r \<Longrightarrow> known s r' \<Longrightarrow> bytes_of s r = bytes_of s r' \<Longrightarrow> r = r'"
begin

text \<open>A sequence of strings, interned one after the other.\<close>

primrec intern_all :: "bytes list \<Rightarrow> ('s, 'r list) step" where
  "intern_all [] = ok []"
| "intern_all (b # bs) =
     andthen (table_intern b) (\<lambda>r. andthen (intern_all bs) (\<lambda>rs. ok (r # rs)))"

lemma intern_all_result:
  assumes "intern_all bs s = (Ok rs, s')" and "inv s"
  shows "inv s' \<and> list_all2 (\<lambda>r b. known s' r \<and> bytes_of s' r = Some b) rs bs \<and>
    (\<forall>r. known s r \<longrightarrow> known s' r \<and> bytes_of s' r = bytes_of s r)"
  using assms
proof (induction bs arbitrary: s rs s')
  case Nil
  then show ?case by (simp add: step_simps)
next
  case (Cons b bs)
  obtain x s1 where i: "table_intern b s = (x, s1)" by force
  obtain r where x: "x = Ok r"
    using Cons.prems(1) i by (cases x) (auto simp: step_simps)
  obtain y s2 where ia: "intern_all bs s1 = (y, s2)" by force
  obtain rs1 where y: "y = Ok rs1"
    using Cons.prems(1) i x ia by (cases y) (auto simp: step_simps)
  have res: "rs = r # rs1" "s' = s2"
    using Cons.prems(1) i x ia y by (auto simp: step_simps)
  have inv1: "inv s1"
    using intern_inv Cons.prems(2) i by blast
  note IH = Cons.IH [OF ia [unfolded y] inv1]
  have "known s1 r \<and> bytes_of s1 r = Some b"
    using intern_result Cons.prems(2) i x by blast
  moreover have "known s1 q \<and> bytes_of s1 q = bytes_of s q" if "known s q" for q
    using intern_keeps Cons.prems(2) i that by blast
  ultimately show ?case
    using IH res by simp
qed

lemma intern_all_equality:
  assumes "intern_all bs s = (Ok rs, s')" and "inv s" and "i < length bs" and "j < length bs"
  shows "rs ! i = rs ! j \<longleftrightarrow> bs ! i = bs ! j"
proof -
  note res = intern_all_result [OF assms(1,2)]
  have "known s' (rs ! k) \<and> bytes_of s' (rs ! k) = Some (bs ! k)" if "k < length bs" for k
    using res that by (auto simp: list_all2_conv_all_nth)
  then have k: "known s' (rs ! i) \<and> bytes_of s' (rs ! i) = Some (bs ! i)"
    "known s' (rs ! j) \<and> bytes_of s' (rs ! j) = Some (bs ! j)"
    using assms(3,4) by blast+
  moreover have "inv s'"
    using res by blast
  ultimately show ?thesis
    using known_inj [of s' "rs ! i" "rs ! j"] by auto
qed

end

text \<open>The arena is the contract: registers lie below the fill mark and hold different strings.\<close>

definition reg_ref :: "lua \<Rightarrow> nat \<Rightarrow> strref" where
  "reg_ref s i = pack_strref (fst (strregs s i)) (snd (strregs s i))"

definition reg_off :: "lua \<Rightarrow> nat \<Rightarrow> nat" where "reg_off s i = unat (fst (strregs s i))"
definition reg_len :: "lua \<Rightarrow> nat \<Rightarrow> nat" where "reg_len s i = unat (snd (strregs s i))"

definition reg_bytes :: "lua \<Rightarrow> nat \<Rightarrow> bytes" where
  "reg_bytes s i = map (strings s) [reg_off s i ..< reg_off s i + reg_len s i]"

definition arena_ok :: "lua \<Rightarrow> bool" where
  "arena_ok s \<longleftrightarrow> nstrings s \<le> MAX_STRINGS \<and> str_next s \<le> STR_CAP \<and>
     (\<forall>i<nstrings s. reg_off s i + reg_len s i \<le> str_next s) \<and>
     (\<forall>i<nstrings s. \<forall>j<nstrings s. reg_bytes s i = reg_bytes s j \<longrightarrow> i = j)"

definition known_ref :: "lua \<Rightarrow> strref \<Rightarrow> bool" where
  "known_ref s r \<longleftrightarrow> (\<exists>i<nstrings s. r = reg_ref s i)"

lemma unpack_strref:
  "str_off (pack_strref a b) = unat a" "str_len (pack_strref a b) = unat b"
proof -
  have "drop_bit 16 (pack_strref a b) = ucast a"
    by (rule bit_word_eqI) (auto simp: pack_strref_def bit_simps dest: bit_imp_le_length)
  then show "str_off (pack_strref a b) = unat a"
    by (simp add: str_off_def)
  have mask: "(0xFFFF :: u32) = mask 16"
    by (simp add: mask_eq_exp_minus_1)
  have "pack_strref a b AND 0xFFFF = ucast b"
    unfolding mask
    by (rule bit_word_eqI) (auto simp: pack_strref_def bit_simps dest: bit_imp_le_length)
  then show "str_len (pack_strref a b) = unat b"
    by (simp add: str_len_def)
qed

lemma reg_ref_bytes:
  assumes "arena_ok s" and "i < nstrings s"
  shows "str_bytes s (reg_ref s i) = Some (reg_bytes s i)"
  using assms
  by (auto simp: str_bytes_def reg_ref_def unpack_strref reg_bytes_def reg_off_def reg_len_def arena_ok_def)

lemma reg_matches_bytes: "reg_matches s bs i \<longleftrightarrow> reg_bytes s i = bs"
proof -
  have "reg_matches s bs i \<longleftrightarrow> reg_len s i = length bs \<and>
      (\<forall>j<length bs. strings s (reg_off s i + j) = bs ! j)"
    by (auto simp: reg_matches_def reg_off_def reg_len_def split: prod.split)
  also have "\<dots> \<longleftrightarrow> reg_bytes s i = bs"
    unfolding list_eq_iff_nth_eq reg_bytes_def by auto
  finally show ?thesis .
qed

text \<open>The three outcomes of interning.\<close>

lemma intern_cases:
  assumes "intern bs s = (r, s')" and "arena_ok s"
  obtains (found) i where "i < nstrings s" "reg_bytes s i = bs" "r = Ok (reg_ref s i)" "s' = s"
  | (full) msg where "r = Err msg" "s' = s"
  | (added) "\<forall>i<nstrings s. reg_bytes s i \<noteq> bs" "nstrings s < MAX_STRINGS"
      "str_next s + length bs \<le> STR_CAP" "r = Ok (reg_ref s' (nstrings s))"
      "nstrings s' = nstrings s + 1" "str_next s' = str_next s + length bs"
      "\<forall>i<nstrings s. strregs s' i = strregs s i" "\<forall>j < str_next s. strings s' j = strings s j"
      "reg_off s' (nstrings s) = str_next s" "reg_len s' (nstrings s) = length bs"
      "reg_bytes s' (nstrings s) = bs"
proof (cases "find (reg_matches s bs) [0..<nstrings s]")
  case (Some i)
  then have i: "i < nstrings s" "reg_bytes s i = bs"
    by (auto simp: find_Some_iff reg_matches_bytes)
  have "r = Ok (reg_ref s i)" "s' = s"
    using Some assms(1) by (auto simp: intern_def reg_ref_def)
  with i show ?thesis
    by (rule found)
next
  case None
  then have new: "\<forall>i<nstrings s. reg_bytes s i \<noteq> bs"
    by (auto simp: find_None_iff reg_matches_bytes)
  show ?thesis
  proof (cases "nstrings s < MAX_STRINGS \<and> str_next s + length bs \<le> STR_CAP")
    case False
    then have "\<exists>msg. r = Err msg \<and> s' = s"
      using None assms(1) by (auto simp: intern_def Let_def split: if_splits)
    then show ?thesis
      using full by blast
  next
    case True
    let ?o = "word_of_nat (str_next s) :: u16" and ?l = "word_of_nat (length bs) :: u16"
    have s': "s' = s\<lparr>strings := (\<lambda>j. if str_next s \<le> j \<and> j < str_next s + length bs then bs ! (j - str_next s)
        else strings s j), str_next := str_next s + length bs,
        strregs := (strregs s)(nstrings s := (?o, ?l)), nstrings := nstrings s + 1\<rparr>"
      and r: "r = Ok (pack_strref ?o ?l)"
      using None assms(1) True by (auto simp: intern_def Let_def)
    have "unat ?o = str_next s" "unat ?l = length bs"
      using True by (simp_all add: unat_of_nat STR_CAP_def)
    then have off: "reg_off s' (nstrings s) = str_next s" "reg_len s' (nstrings s) = length bs"
      by (simp_all add: reg_off_def reg_len_def s')
    have "reg_bytes s' (nstrings s) = bs"
      unfolding reg_bytes_def off by (rule nth_equalityI) (simp_all add: s')
    with True new r off show ?thesis
      by (intro added) (simp_all add: s' reg_ref_def)
  qed
qed

lemma reg_bytes_cong:
  assumes "strregs s' i = strregs s i" and "\<forall>j<n. strings s' j = strings s j" and "reg_off s i + reg_len s i \<le> n"
  shows "reg_bytes s' i = reg_bytes s i"
  using assms by (simp add: reg_bytes_def reg_off_def reg_len_def)

lemma intern_arena:
  assumes "intern bs s = (r, s')" and "arena_ok s"
  shows "arena_ok s' \<and> (\<forall>i<nstrings s. i < nstrings s' \<and> reg_ref s' i = reg_ref s i \<and> reg_bytes s' i = reg_bytes s i) \<and>
    (\<forall>x. r = Ok x \<longrightarrow> (\<exists>i<nstrings s'. x = reg_ref s' i \<and> reg_bytes s' i = bs))"
  using assms
proof (cases rule: intern_cases)
  case (found i)
  with assms(2) show ?thesis by auto
next
  case (full msg)
  with assms(2) show ?thesis by auto
next
  case added
  have old: "reg_bytes s' i = reg_bytes s i" "reg_ref s' i = reg_ref s i"
      "reg_off s' i = reg_off s i" "reg_len s' i = reg_len s i" if "i < nstrings s" for i
    using added(7,8) that assms(2) reg_bytes_cong [of s' i s "str_next s"]
    by (auto simp: arena_ok_def reg_ref_def reg_off_def reg_len_def)
  have "arena_ok s'"
    using assms(2) added(1-3,5,6,9-11) old
    by (auto simp: arena_ok_def less_Suc_eq trans_le_add1)
  with added(4,5,11) old show ?thesis
    by auto
qed

interpretation arena: interner intern str_bytes known_ref arena_ok
proof
  fix s s' :: lua and b :: bytes and r r' :: strref and x :: "strref res"
  show "arena_ok s \<Longrightarrow> intern b s = (x, s') \<Longrightarrow> arena_ok s'"
    using intern_arena by blast
  show "arena_ok s \<Longrightarrow> intern b s = (Ok r, s') \<Longrightarrow> known_ref s' r \<and> str_bytes s' r = Some b"
    using intern_arena reg_ref_bytes by (metis known_ref_def)
  show "arena_ok s \<Longrightarrow> intern b s = (x, s') \<Longrightarrow> known_ref s r \<Longrightarrow>
      known_ref s' r \<and> str_bytes s' r = str_bytes s r"
    using intern_arena reg_ref_bytes by (metis known_ref_def)
  show "r = r'" if ok: "arena_ok s" and k: "known_ref s r" "known_ref s r'" and eq: "str_bytes s r = str_bytes s r'"
  proof -
    obtain i j where ij: "i < nstrings s" "r = reg_ref s i" "j < nstrings s" "r' = reg_ref s j"
      using k by (auto simp: known_ref_def)
    with eq ok have "reg_bytes s i = reg_bytes s j"
      by (simp add: reg_ref_bytes)
    with ij ok show ?thesis
      by (auto simp: arena_ok_def)
  qed
qed

lemma new_lua_arena: "arena_ok new_lua" "arena_ok (lua_reset s)"
  by (simp_all add: arena_ok_def new_lua_def lua_reset_def)

text \<open>C21. Strings are compared by reference: after interning any sequence of byte strings, each
  reference reads back as its string, and two of the references are equal exactly when the strings
  are; the references given out before still read as they did.\<close>

theorem interned_refs_are_equality:
  assumes "arena_ok s" and "arena.intern_all bs s = (Ok rs, s')"
  shows "length rs = length bs \<and> arena_ok s' \<and>
    (\<forall>i < length bs. str_bytes s' (rs ! i) = Some (bs ! i) \<and>
      (\<forall>j < length bs. rs ! i = rs ! j \<longleftrightarrow> bs ! i = bs ! j)) \<and>
    (\<forall>r. known_ref s r \<longrightarrow> str_bytes s' r = str_bytes s r)"
  using arena.intern_all_result [OF assms(2,1)] arena.intern_all_equality [OF assms(2,1)]
  by (auto simp: list_all2_conv_all_nth)

lemma interned_refs_are_equality_witness:
  "\<exists>rs s'. arena.intern_all [[97], [98, 99], [97]] new_lua = (Ok rs, s') \<and> rs ! 0 = rs ! 2 \<and> rs ! 0 \<noteq> rs ! 1"
proof -
  have "\<exists>rs s'. arena.intern_all [[97], [98, 99], [97]] new_lua = (Ok rs, s')"
    by (simp add: step_simps intern_def new_lua_def reg_matches_def lua_caps upt_rec)
  then obtain rs s' where run: "arena.intern_all [[97], [98, 99], [97]] new_lua = (Ok rs, s')"
    by blast
  have "\<forall>i<3. \<forall>j<3. rs ! i = rs ! j \<longleftrightarrow> [[97], [98, 99], [97 :: u8]] ! i = [[97], [98, 99], [97]] ! j"
    using interned_refs_are_equality [OF new_lua_arena(1) run] by simp
  from this [rule_format, of 0 2] this [rule_format, of 0 1] have "rs ! 0 = rs ! 2" "rs ! 0 \<noteq> rs ! 1"
    by simp_all
  with run show ?thesis
    by blast
qed

section \<open>Variables\<close>

text \<open>Writing a variable and reading it back.\<close>

lemma find_local_below_cong:
  "\<forall>g<f. local_ix (frames s' g) name = local_ix (frames s g) name \<and> ret_ip (frames s' g) = ret_ip (frames s g) \<Longrightarrow>
   find_local_below s' name f = find_local_below s name f"
  by (induction f) (auto split: option.splits)

lemma find_local_SomeD:
  "find_local_below s name n = Some (f, i) \<Longrightarrow>
   f < n \<and> i < f_count (frames s f) \<and> l_name (f_locals (frames s f) i) = name"
  by (induction n) (auto simp: local_ix_def find_Some_iff split: option.splits if_splits)

lemma local_ix_set_slot:
  "l_name l = l_name (f_locals (frames s f) i) \<Longrightarrow> local_ix (frames (set_slot f i l s) g) name = local_ix (frames s g) name"
  by (auto simp: local_ix_def set_slot_def intro!: arg_cong2 [where f = find])

lemma find_local_set_slot:
  "l_name l = l_name (f_locals (frames s f) i) \<Longrightarrow> find_local (set_slot f i l s) name = find_local s name"
  unfolding find_local_def by (subst find_local_below_cong) (simp_all add: local_ix_set_slot, simp_all add: set_slot_def)

lemma upvalue_cong:
  assumes "frames s' = frames s" and "fsp s' = fsp s" and "closures s' = closures s"
  shows "upvalue s' name = upvalue s name" and "find_local s' name = find_local s name"
proof -
  have ff: "function_frame_below s' n = function_frame_below s n" for n
    by (induction n) (simp_all add: assms(1))
  show "upvalue s' name = upvalue s name"
    unfolding upvalue_def running_closure_def function_frame_def assms ff ..
  show "find_local s' name = find_local s name"
    unfolding find_local_def assms(2) by (rule find_local_below_cong) (simp add: assms(1))
qed

text \<open>An assignment as the virtual machine does it: to the local or upvalue, else to the global.\<close>

definition set_var :: "strref \<Rightarrow> lval \<Rightarrow> (lua, unit) step" where
  "set_var name v =
     andthen (assign_local name v) (\<lambda>found. if found then ok () else sets (set_global name v))"

text \<open>The two cases in which the value is dropped: the name is an upvalue without a cell, and the
  name is new and the globals are full.\<close>

definition cell_less_upvalue :: "lua \<Rightarrow> strref \<Rightarrow> bool" where
  "cell_less_upvalue s name \<longleftrightarrow> find_local s name = None \<and>
     (\<exists>u. upvalue s name = Some (Some u) \<and> up_cell u = NO_CELL)"

definition no_room_for :: "lua \<Rightarrow> strref \<Rightarrow> bool" where
  "no_room_for s name \<longleftrightarrow> find_local s name = None \<and> upvalue s name = Some None \<and>
     global_ix s name = None \<and> nglobals s \<ge> MAX_GLOBALS"

lemma lookup_cell_less: "cell_less_upvalue s name \<Longrightarrow> lookup s name = Some (Some VNil)"
  by (auto simp: cell_less_upvalue_def lookup_def)

lemma lookup_set_global:
  assumes "find_local s name = None" and "upvalue s name = Some None" and "\<not> no_room_for s name"
  shows "lookup (set_global name v s) name = Some (Some v)"
proof (cases "global_ix s name")
  case (Some i)
  let ?s = "s\<lparr>globals := (globals s)(i := (globals s i)\<lparr>g_value := v\<rparr>)\<rparr>"
  have i: "i < nglobals s" "g_name (globals s i) = name" "\<forall>j<i. g_name (globals s j) \<noteq> name"
    using Some by (auto simp: global_ix_def find_upt_Some)
  then have "global_ix ?s name = Some i"
    by (auto simp: global_ix_def find_upt_Some)
  then show ?thesis
    using Some assms upvalue_cong [of ?s s name] by (simp add: set_global_def lookup_def)
next
  case None
  let ?s = "s\<lparr>globals := (globals s)(nglobals s := \<lparr>g_name = name, g_value = v\<rparr>), nglobals := nglobals s + 1\<rparr>"
  have room: "nglobals s < MAX_GLOBALS"
    using assms None by (simp add: no_room_for_def)
  have "\<forall>j<nglobals s. g_name (globals s j) \<noteq> name"
    using None by (auto simp: global_ix_def find_upt_None)
  then have "global_ix ?s name = Some (nglobals s)"
    unfolding global_ix_def find_upt_Some by simp
  then show ?thesis
    using None room assms upvalue_cong [of ?s s name] by (simp add: set_global_def lookup_def)
qed

lemma lookup_store_local:
  assumes "find_local s name = Some (f, i)" and "store_local f i v s = (Ok (), s')"
  shows "lookup s' name = Some (Some v)"
proof -
  let ?l = "f_locals (frames s f) i"
  show ?thesis
  proof (cases "l_cell ?l = NO_CELL")
    case True
    then have "s' = set_slot f i (?l\<lparr>l_value := v\<rparr>) s"
      using assms(2) by (simp add: store_local_def)
    moreover from this have "find_local s' name = Some (f, i)"
      using assms(1) by (simp add: find_local_set_slot)
    ultimately show ?thesis
      using True by (simp add: lookup_def set_slot_def)
  next
    case False
    then have s': "s' = s\<lparr>cells := (cells s)(l_cell ?l := v)\<rparr>" and "l_cell ?l < MAX_CELLS"
      using assms(2) by (auto simp: store_local_def Let_def split: if_splits)
    moreover have "find_local s' name = Some (f, i)"
      using upvalue_cong(2) [of s' s name] assms(1) by (simp add: s')
    ultimately show ?thesis
      using False by (simp add: lookup_def read_cell_def)
  qed
qed

lemma lookup_after_set_var:
  assumes "set_var name v s = (Ok (), s')"
  shows "lookup s' name = (if cell_less_upvalue s name then Some (Some VNil)
    else if no_room_for s name then Some None else Some (Some v))"
proof (cases "find_local s name")
  case (Some fi)
  obtain f i where fi: "fi = (f, i)" by force
  obtain r s1 where st: "store_local f i v s = (r, s1)" by force
  have "r = Ok ()" "s' = s1"
    using assms Some st fi by (auto simp: set_var_def assign_local_def step_simps split: res.splits)
  then show ?thesis
    using lookup_store_local [of s name f i v s'] Some st fi
    by (simp add: cell_less_upvalue_def no_room_for_def)
next
  case None
  obtain w where up: "upvalue s name = Some w"
    using assms None by (cases "upvalue s name") (simp_all add: set_var_def assign_local_def step_simps)
  show ?thesis
  proof (cases w)
    case (Some u)
    show ?thesis
    proof (cases "up_cell u = NO_CELL")
      case True
      then have "s' = s" "cell_less_upvalue s name"
        using assms None up Some by (simp_all add: set_var_def assign_local_def step_simps cell_less_upvalue_def)
      then show ?thesis
        by (simp add: lookup_cell_less)
    next
      case False
      then have s': "s' = s\<lparr>cells := (cells s)(up_cell u := v)\<rparr>" and lt: "up_cell u < MAX_CELLS"
        using assms None up Some by (auto simp: set_var_def assign_local_def step_simps split: if_splits)
      have "upvalue s' name = Some (Some u)" "find_local s' name = None"
        using upvalue_cong [of s' s name] up Some None by (simp_all add: s')
      then have "lookup s' name = Some (Some v)"
        using False lt by (simp add: lookup_def read_cell_def s')
      then show ?thesis
        using False None up Some by (simp add: cell_less_upvalue_def no_room_for_def)
    qed
  next
    case up0: None
    then have s': "s' = set_global name v s"
      using assms None up by (simp add: set_var_def assign_local_def step_simps)
    show ?thesis
    proof (cases "no_room_for s name")
      case True
      then have "s' = s"
        by (simp add: s' set_global_def no_room_for_def)
      with True show ?thesis
        using up up0 by (simp add: lookup_def no_room_for_def cell_less_upvalue_def)
    next
      case False
      then show ?thesis
        using lookup_set_global [OF None _ False, of v] up up0 s' by (simp add: cell_less_upvalue_def)
    qed
  qed
qed

text \<open>C22. An assigned variable reads back as the value assigned, whether it is a local of the
  running function, one shared with closures through its cell, an upvalue of the running closure,
  or a global; with two exceptions, in which the assignment reports success and the value is lost:
  an upvalue that was not resolved to a cell reads as nil (the name of a global behind it is not
  consulted), and a new global beyond the 64 the table holds stays undefined.\<close>

theorem assigned_variable_reads_back:
  assumes "set_var name v s = (Ok (), s')"
  shows "lookup s' name = (if cell_less_upvalue s name then Some (Some VNil)
    else if no_room_for s name then Some None else Some (Some v))"
  by (rule lookup_after_set_var [OF assms])

lemma assigned_variable_reads_back_witness:
  "\<exists>s'. set_var 7 (VNum 5) new_lua = (Ok (), s') \<and> lookup s' 7 = Some (Some (VNum 5))"
proof -
  have run: "set_var 7 (VNum 5) new_lua = (Ok (), set_global 7 (VNum 5) new_lua)"
    by (simp add: set_var_def assign_local_def step_simps new_lua_def find_local_def upvalue_def
        running_closure_def function_frame_def)
  have "\<not> cell_less_upvalue new_lua 7" "\<not> no_room_for new_lua 7"
    by (simp_all add: cell_less_upvalue_def no_room_for_def new_lua_def upvalue_def running_closure_def
        function_frame_def MAX_GLOBALS_def)
  with run assigned_variable_reads_back [OF run] show ?thesis
    by simp
qed

section \<open>Threads\<close>

text \<open>C23. A coroutine switch and the switch back restore the running thread: stack, frames, marks and
  step count are what they were, all threads are as before, and nothing else has changed.\<close>

theorem swap_threads_back:
  assumes "current s = a" and "a < MAX_THREADS" and "b < MAX_THREADS"
  shows "\<exists>s'. swap_threads a b s = (Ok (), s') \<and> current s' = b \<and>
    (a \<noteq> b \<longrightarrow> vstack s' = t_vstack (threads s b) \<and> frames s' = t_frames (threads s b) \<and>
      fsp s' = t_fsp (threads s b) \<and> vsp s' = t_vsp (threads s b)) \<and>
    swap_threads b a s' = (Ok (), s)"
proof (cases "a = b")
  case True
  with assms show ?thesis by (simp add: swap_threads_def)
next
  case False
  obtain s' where s': "swap_threads a b s = (Ok (), s')" "s' = s\<lparr>vstack := t_vstack (threads s b),
      vsp := t_vsp (threads s b), frames := t_frames (threads s b), fsp := t_fsp (threads s b),
      call_marks := t_call_marks (threads s b), mark_sp := t_mark_sp (threads s b),
      steps := t_steps (threads s b),
      threads := (threads s)(b := threads s a, a := \<lparr>t_vstack = vstack s, t_vsp = vsp s, t_frames = frames s,
        t_fsp = fsp s, t_call_marks = call_marks s, t_mark_sp = mark_sp s, t_steps = steps s\<rparr>), current := b\<rparr>"
    using False assms by (simp add: swap_threads_def Let_def)
  have t: "\<lparr>t_vstack = t_vstack t, t_vsp = t_vsp t, t_frames = t_frames t, t_fsp = t_fsp t,
      t_call_marks = t_call_marks t, t_mark_sp = t_mark_sp t, t_steps = t_steps t\<rparr> = t" for t :: thread
    by simp
  have c: "s\<lparr>current := a\<rparr> = s"
    using assms(1) by simp
  have "swap_threads b a s' = (Ok (), s\<lparr>current := a\<rparr>)"
    using False assms by (simp add: swap_threads_def s'(2) fun_upd_twist Let_def t)
  then have "swap_threads b a s' = (Ok (), s)"
    by (simp only: c)
  with s' show ?thesis
    by auto
qed

lemma swap_threads_back_witness:
  "\<exists>s'. swap_threads 0 2 new_lua = (Ok (), s') \<and> current s' = 2 \<and> swap_threads 2 0 s' = (Ok (), new_lua)"
  using swap_threads_back [of new_lua 0 2] by (auto simp: new_lua_def lua_caps)
end
