(* ===== verification/LuaLaws.thy ===== *)
theory LuaLaws
  imports LuaNative LuaEnv
begin

text \<open>
  What the natives promise: the matcher of \<open>gsub\<close> stays inside its subject and a substitution by the
  match itself gives the subject back, numbers survive \<open>tostring\<close> and \<open>tonumber\<close>, strings survive
  \<open>string.byte\<close> and \<open>string.char\<close>, and random numbers lie in their interval.
\<close>

section \<open>Matches with captures\<close>

lemma fits_run: "run_length subject i p \<le> length subject - i"
  using length_takeWhile_le [of "item_fits p" "drop i subject"] by (simp add: run_length_def)

lemma match_ends_upper: "e \<in> set (match_ends subject p i) \<Longrightarrow> i \<le> length subject \<Longrightarrow> e \<le> length subject"
proof (induction subject p i rule: match_ends.induct)
  case (1 subject p i)
  have "run_length subject i p \<le> length subject - i"
    by (rule fits_run)
  then show ?case
    using "1.prems" "1.IH"
    by (subst (asm) match_ends.simps) (fastforce simp: Let_def item_ends_def split: if_splits)
qed

lemma match_here_upper:
  assumes "match_here subject i p = Some l" and "i \<le> length subject"
  shows "i + l \<le> length subject"
proof -
  obtain e where "preferred (match_ends subject p i) = Some e" "l = e - i"
    using assms(1) by (auto simp: match_here_first)
  then show ?thesis
    using match_ends_upper [of e subject p i] match_ends_bounds [of e subject p i] assms(2)
    by (auto simp: preferred_def split: list.splits)
qed

lemma match_item_upper: "match_item subject si p = Some n \<Longrightarrow> si \<le> length subject \<Longrightarrow> si + n \<le> length subject"
  by (drule match_item_cases) auto

lemma item_run_upper: "si \<le> length subject \<Longrightarrow> si \<le> item_run subject si p \<and> item_run subject si p \<le> length subject"
proof (induction subject si p rule: item_run.induct)
  case (1 subject si p)
  then show ?case
    by (subst (1 2) item_run.simps) (fastforce split: option.splits dest: match_item_upper)
qed

lemma gm_bounds:
  "fst (gm_match subject i si p caps) = Some l \<Longrightarrow> i \<le> si \<Longrightarrow> si \<le> length subject \<Longrightarrow> si \<le> i + l \<and> i + l \<le> length subject"
  "fst (gm_greedy subject i si p least k caps) = Some l \<Longrightarrow> i \<le> si \<Longrightarrow> si + k \<le> length subject \<Longrightarrow>
    si \<le> i + l \<and> i + l \<le> length subject"
  "fst (gm_lazy subject i si p caps) = Some l \<Longrightarrow> i \<le> si \<Longrightarrow> si \<le> length subject \<Longrightarrow> si \<le> i + l \<and> i + l \<le> length subject"
proof (induction subject i si p caps and subject i si p least k caps and subject i si p caps
    arbitrary: l and l and l rule: gm_match_gm_greedy_gm_lazy.induct)
  case (1 subject start si p caps)
  note run = item_run_upper [OF "1.prems"(3), of p]
  show ?case
    using "1.prems" "1.IH" run match_item_upper [of subject si p]
    by (subst (asm) gm_match.simps)
      (fastforce split: if_splits option.splits prod.splits dest: match_here_upper)
next
  case (2 subject start si p least k caps)
  then show ?case
    by (subst (asm) gm_greedy.simps) (fastforce split: if_splits option.splits prod.splits)
next
  case (3 subject start si p caps)
  then show ?case
    using match_item_upper [of subject si p]
    by (subst (asm) gm_lazy.simps) (fastforce split: if_splits option.splits prod.splits)
qed

lemma gm_from_bounds:
  assumes "gm_from subject p anchored i = Some m" and "i \<le> length subject"
  shows "i \<le> m_start m \<and> m_start m \<le> m_end m \<and> m_end m \<le> length subject"
  using assms
proof (induction subject p anchored i rule: gm_from.induct)
  case (1 subject p anchored i)
  show ?case
  proof (cases "fst (gm_match subject i i p [])")
    case None
    then have "gm_from subject p anchored (i + 1) = Some m" "\<not> (anchored \<or> i \<ge> length subject)"
      using "1.prems"(1) by (subst (asm) gm_from.simps; simp split: prod.splits option.splits if_splits)+
    then show ?thesis
      using "1.IH" None "1.prems" by (cases "gm_match subject i i p []") fastforce
  next
    case (Some l)
    then have "m_start m = i" "m_end m = i + l"
      using "1.prems"(1) by (subst (asm) gm_from.simps; auto split: prod.splits option.splits)+
    then show ?thesis
      using gm_bounds(1) [OF Some _ "1.prems"(2)] by simp
  qed
qed

lemma gm_find_bounds:
  assumes "gm_find subject pattern i = Some m" and "i \<le> length subject"
  shows "i \<le> m_start m \<and> m_start m \<le> m_end m \<and> m_end m \<le> length subject"
  using assms gm_from_bounds by (auto simp: gm_find_def Let_def split: if_splits)

section \<open>Substitution by the match\<close>

lemma slice_in: "a \<le> b \<Longrightarrow> b \<le> length bs \<Longrightarrow> vslice bs a b s = (Fine (drop a (take b bs)), s)"
  by (simp add: vslice_def slice_ok vm_simps drop_take seg_def)

lemma expand_whole:
  assumes "m_start m \<le> m_end m" and "m_end m \<le> length subject" and "length subject \<le> REPL_CAP"
  shows "expand (lit ''%0'') subject m [] s = (Fine (drop (m_start m) (take (m_end m) subject)), s)"
proof -
  have "lit ''%0'' = [37, 48]"
    by (simp add: lit_def)
  then show ?thesis
    using assms by (simp add: is_digit_def vm_simps slice_in add_to_def)
qed

lemma take_drop_take: "a \<le> b \<Longrightarrow> take a xs @ drop a (take b xs) = take b xs"
  by (metis append_take_drop_id min.absorb1 take_take)

lemma gsub_loop_whole:
  assumes "str_bytes s rr = Some (lit ''%0'')" and "length subject \<le> REPL_CAP"
    and "at_pos \<le> length subject + 1" and "length subject + 1 < k + at_pos"
  shows "\<exists>at' hits'. gsub_loop k rec (VStr rr) subject pattern max_n at_pos hits (take at_pos subject) s =
      (Fine (take at' subject, at', hits'), s)"
  using assms(3,4)
proof (induction k arbitrary: at_pos hits)
  case (Suc k)
  show ?case
  proof (cases "hits < max_n \<and> at_pos \<le> length subject")
    case False
    then show ?thesis
      by (auto simp: vm_simps)
  next
    case True
    show ?thesis
    proof (cases "gm_find subject pattern at_pos")
      case None
      then show ?thesis
        using True by (auto simp: vm_simps)
    next
      case (Some m)
      have b: "at_pos \<le> m_start m" "m_start m \<le> m_end m" "m_end m \<le> length subject"
        using gm_find_bounds [OF Some] True by auto
      have cap: "REPL_CAP \<le> STR_CAP" "length subject \<le> STR_CAP"
        using assms(2) by (simp_all add: REPL_CAP_def STR_CAP_def)
      have step: "gsub_loop (Suc k) rec (VStr rr) subject pattern max_n at_pos hits (take at_pos subject) s =
          (if m_end m > m_start m then gsub_loop k rec (VStr rr) subject pattern max_n (m_end m) (hits + 1) (take (m_end m) subject)
           else gsub_loop k rec (VStr rr) subject pattern max_n (m_start m + 1) (hits + 1) (take (m_start m + 1) subject)) s"
        using True b cap assms(1,2)
        by (simp add: Some vm_simps slice_in add_to_def replacement_def bytes_of_def vchecked_def expand_whole take_drop_take
            take_Suc_conv_app_nth)
      show ?thesis
        unfolding step using Suc.IH [of "m_end m" "hits + 1"] Suc.IH [of "m_start m + 1" "hits + 1"] Suc.prems b
        by (cases "m_end m > m_start m") auto
    qed
  qed
qed simp

lemma intern_known:
  assumes "arena_ok s" and "known_ref s r" and "str_bytes s r = Some bs"
  shows "intern bs s = (Ok r, s)"
proof -
  obtain i where i: "i < nstrings s" "r = reg_ref s i" "reg_bytes s i = bs"
    using assms reg_ref_bytes by (auto simp: known_ref_def)
  then have "find (reg_matches s bs) [0..<nstrings s] = Some i"
    unfolding find_upt_Some using assms(1) by (metis (no_types) arena_ok_def less_trans nat_neq_iff reg_matches_bytes)
  with i show ?thesis
    by (simp add: intern_def reg_ref_def)
qed

text \<open>
  C8. Substituting every match of a pattern by \<open>%0\<close>, the match itself, gives the subject back, whatever the
  pattern: no byte of the subject is lost or doubled between the matches, and the loop ends.
\<close>

theorem gsub_match_itself:
  assumes "arena_ok s" and "known_ref s sr" and "str_bytes s sr = Some subject" and "str_bytes s pr = Some pattern"
    and "str_bytes s rr = Some (lit ''%0'')" and "valid_gmatch_pattern pattern" and "length subject \<le> REPL_CAP"
    and "length pattern \<le> STR_CAP" and "vsp s + 2 \<le> STACK_CAP"
  shows "\<exists>n. string_gsub rec [VStr sr, VStr pr, VStr rr] s =
    (Fine (Ret2 (VStr sr) (num n)), s\<lparr>vstack := (vstack s)(vsp s := VStr sr, vsp s + 1 := num n), vsp := vsp s + 2\<rparr>)"
proof -
  have cap: "REPL_CAP \<le> STR_CAP" "length subject \<le> STR_CAP"
    using assms(7) by (simp_all add: REPL_CAP_def STR_CAP_def)
  obtain at' n where loop: "gsub_loop (length subject + 2) rec (VStr rr) subject pattern (unat (0x7FFFFFFFFFFFFFFF :: i64)) 0 0 [] s =
      (Fine (take at' subject, at', n), s)"
    using gsub_loop_whole [OF assms(5,7), of 0 "length subject + 2" rec pattern "unat (0x7FFFFFFFFFFFFFFF :: i64)" 0] by auto
  have "\<not> (0x7FFFFFFFFFFFFFFF :: i64) <s 0"
    by (simp add: word_sless_alt)
  moreover have "min (length subject) at' + (length subject - at') = length subject"
    by simp
  ultimately show ?thesis
    using assms cap loop intern_known [OF assms(1-3)]
    by (intro exI [of _ n]) (simp add: string_gsub_def argc_between_def strref_arg_def bytes_of_def vm_simps vchecked_def optional_def
        add_to_def vlift_def vpush_def push_val_def del: gsub_loop.simps)
qed

lemma intern_room:
  assumes "nstrings s < MAX_STRINGS" and "str_next s + length bs \<le> STR_CAP"
  shows "\<exists>r s'. intern bs s = (Ok r, s') \<and> nstrings s' \<le> nstrings s + 1 \<and> str_next s' \<le> str_next s + length bs \<and> vsp s' = vsp s"
  using assms by (cases "find (reg_matches s bs) [0..<nstrings s]") (auto simp: intern_def Let_def)

lemma gsub_match_itself_witness:
  "\<exists>s s' sr rr n. str_bytes s sr = Some (lit ''a+'') \<and> str_bytes s rr = Some (lit ''%0'') \<and>
    string_gsub (\<lambda>_. vpanic) [VStr sr, VStr sr, VStr rr] s = (Fine (Ret2 (VStr sr) n), s')"
proof -
  have "nstrings new_lua = 0" "str_next new_lua = 0" "vsp new_lua = 0"
    by (simp_all add: new_lua_def)
  then obtain sr s1 where s1: "intern (lit ''a+'') new_lua = (Ok sr, s1)" "nstrings s1 \<le> 1" "str_next s1 \<le> 2" "vsp s1 = 0"
    using intern_room [of new_lua "lit ''a+''"] by (auto simp: lua_caps numeral_2_eq_2)
  then obtain rr s2 where s2: "intern (lit ''%0'') s1 = (Ok rr, s2)" "vsp s2 = 0"
    using intern_room [of s1 "lit ''%0''"] by (auto simp: lua_caps)
  have a1: "arena_ok s1" "known_ref s1 sr" "str_bytes s1 sr = Some (lit ''a+'')"
    using arena.intern_inv [OF new_lua_arena(1) s1(1)] arena.intern_result [OF new_lua_arena(1) s1(1)] by auto
  then have "arena_ok s2" "known_ref s2 sr" "str_bytes s2 sr = Some (lit ''a+'')" "str_bytes s2 rr = Some (lit ''%0'')"
    using arena.intern_inv [OF a1(1) s2(1)] arena.intern_result [OF a1(1) s2(1)] arena.intern_keeps [OF a1(1) s2(1)] by auto
  moreover have "valid_gmatch_pattern (lit ''a+'')"
    by (simp add: valid_gmatch_pattern_def lit_def)
  ultimately show ?thesis
    using gsub_match_itself [of s2 sr "lit ''a+''" sr "lit ''a+''" rr "\<lambda>_. vpanic"] s2(2)
    by (fastforce simp: REPL_CAP_def lua_caps)
qed

section \<open>Numbers and their text\<close>

lemma itoa_digits_eq: "itoa_digits v acc = dec_str (unat v) @ acc"
proof (induction v acc rule: itoa_digits.induct)
  case (1 v acc)
  have digit: "(48 + ucast (v mod 10) :: u8) = 48 + word_of_nat (unat v mod 10)"
    by (simp add: ucast_mod10)
  have div: "unat (v div 10) = unat v div 10"
    by (simp add: unat_div)
  show ?case
  proof (cases "v div 10 = 0")
    case True
    then have "unat v < 10"
      using div by simp
    with True digit show ?thesis
      by (subst itoa_digits.simps) (simp add: dec_str_small)
  next
    case False
    then have "10 \<le> unat v"
      using div by (metis div_less linorder_not_less unat_eq_zero)
    with False digit div "1.IH" [OF refl refl] show ?thesis
      by (subst itoa_digits.simps) (simp add: dec_str_step [of "unat v"])
  qed
qed

lemma dec_str_all: "list_all is_digit (dec_str n)"
  using dec_str_digits [of _ n] by (auto simp: list_all_iff is_digit_def word_le_nat_alt)

lemma digit_not_white: "is_digit b \<Longrightarrow> \<not> is_ascii_white b \<and> b \<noteq> 45 \<and> b \<noteq> 43"
  by (auto simp: is_digit_def is_ascii_white_def)

lemma trim_ends: "xs \<noteq> [] \<Longrightarrow> \<not> is_ascii_white (hd xs) \<Longrightarrow> \<not> is_ascii_white (last xs) \<Longrightarrow> trim_ascii xs = xs"
proof -
  assume xs: "xs \<noteq> []" "\<not> is_ascii_white (hd xs)" "\<not> is_ascii_white (last xs)"
  then have "dropWhile is_ascii_white xs = xs" "dropWhile is_ascii_white (rev xs) = rev xs"
    using xs by (cases xs; simp) (use xs in \<open>cases xs rule: rev_cases; simp\<close>)
  then show ?thesis
    by (simp add: trim_ascii_def)
qed

lemma uint_of_int64: "uint (word_of_int k :: i64) = k mod 2 ^ 64"
  by (simp add: uint_word_of_int)

lemma sint_of_int64: "- (2 ^ 63) \<le> k \<Longrightarrow> k < 2 ^ 63 \<Longrightarrow> sint (word_of_int k :: i64) = k"
  by (simp add: signed_of_int signed_take_bit_int_eq_self)

lemma unat_magnitude:
  fixes n :: i64
  shows "n <s 0 \<Longrightarrow> unat (- n) \<le> 2 ^ 63" "\<not> n <s 0 \<Longrightarrow> unat n < 2 ^ 63"
proof -
  have range: "- (2 ^ 63) \<le> sint n" "sint n < 2 ^ 63"
    using sint_greater_eq [of n] sint_less [of n] by simp_all
  show "unat n < 2 ^ 63" if "\<not> n <s 0"
  proof -
    have "uint n = sint n"
      using that range uint_of_int64 [of "sint n"] by (simp add: word_sless_alt)
    with range(2) have "uint n < 2 ^ 63" by simp
    then show ?thesis
      unfolding of_nat_less_iff [where ?'a = int, symmetric] by simp
  qed
  show "unat (- n) \<le> 2 ^ 63" if "n <s 0"
  proof -
    have "uint (- n) = - sint n"
      using that range uint_of_int64 [of "- sint n"] by (simp add: word_sless_alt)
    with range(1) have "uint (- n) \<le> 2 ^ 63" by simp
    then show ?thesis
      unfolding of_nat_le_iff [where ?'a = int, symmetric] by simp
  qed
qed

text \<open>
  C16. \<open>tonumber(tostring(n)) = n\<close> for every integer.
\<close>

theorem integer_text_roundtrip: "str_to_number (itoa n) = Some (VNum n)"
proof -
  define v where "v = (if n <s 0 then - n else n)"
  have shown: "itoa n = (if n <s 0 then 45 # dec_str (unat v) else dec_str (unat v))"
    by (simp add: itoa_def itoa_digits_eq v_def Let_def)
  have ds: "dec_str (unat v) \<noteq> []" "list_all is_digit (dec_str (unat v))" "digits_value 10 dec_dig (dec_str (unat v)) = unat v"
    by (simp_all add: dec_str_all dec_str_value)
  then have "is_digit (hd (dec_str (unat v)))" "is_digit (last (dec_str (unat v)))"
    by (simp_all add: list_all_iff)
  then have ends: "\<not> is_ascii_white (hd (itoa n))" "\<not> is_ascii_white (last (itoa n))" "hd (dec_str (unat v)) \<noteq> 45" "hd (dec_str (unat v)) \<noteq> 43"
    using ds(1) digit_not_white by (auto simp: shown is_ascii_white_def)
  then have "trim_ascii (itoa n) = itoa n"
    using ds(1) by (intro trim_ends) (auto simp: shown)
  moreover have "parse_signed (itoa n) = Some n"
  proof (cases "n <s 0")
    case True
    then have "unat v \<le> 2 ^ 63" "- v = n"
      using unat_magnitude(1) by (simp_all add: v_def)
    with True ds show ?thesis
      by (simp add: parse_signed_def shown)
  next
    case False
    then have "unat v < 2 ^ 63" "v = n"
      using unat_magnitude(2) by (simp_all add: v_def)
    with False ds ends show ?thesis
      by (simp add: parse_signed_def parse_i64_def shown)
  qed
  moreover have "itoa n \<noteq> []"
    using ds(1) by (simp add: shown)
  ultimately show ?thesis
    by (simp add: str_to_number_def Let_def)
qed

section \<open>Random numbers\<close>

lemma sint_in_range:
  fixes m n :: i64
  assumes "\<not> n <s m" and "n - m + 1 \<noteq> 0" and "k < n - m + 1"
  shows "sint m \<le> sint (k + m) \<and> sint (k + m) \<le> sint n"
proof -
  have r: "- (2 ^ 63) \<le> sint m" "sint m < 2 ^ 63" "- (2 ^ 63) \<le> sint n" "sint n < 2 ^ 63" "sint m \<le> sint n"
    using sint_greater_eq [of m] sint_less [of m] sint_greater_eq [of n] sint_less [of n] assms(1)
    by (simp_all add: word_sless_alt)
  have u: "uint (n - m + 1) = (sint n - sint m + 1) mod 2 ^ 64"
    using uint_of_int64 [of "sint n - sint m + 1"] by simp
  have "sint n - sint m + 1 \<noteq> 2 ^ 64"
    using u assms(2) by (auto simp: uint_0_iff)
  then have "uint (n - m + 1) = sint n - sint m + 1"
    using u r by simp
  then have k: "uint k \<le> sint n - sint m"
    using assms(3) by (simp add: word_less_def)
  have "0 \<le> uint k"
    by simp
  then have "- (2 ^ 63) \<le> uint k + sint m" "uint k + sint m < 2 ^ 63"
    using k r by linarith+
  from sint_of_int64 [OF this] have "sint (k + m) = uint k + sint m"
    by simp
  then show ?thesis
    using k by simp
qed

text \<open>
  C17. \<open>math.random(m, n)\<close> gives an integer of the interval from \<open>m\<close> to \<open>n\<close>, also when the interval is
  wider than half of the integers; it panics for the interval of all integers, whose width wraps to 0.
\<close>

theorem math_random_in_interval:
  assumes "\<not> n <s m"
  shows "if sint m = - (2 ^ 63) \<and> sint n = 2 ^ 63 - 1 then \<exists>s'. math_random [VNum m, VNum n] s = (VPanic, s')
    else \<exists>k s'. math_random [VNum m, VNum n] s = (Fine (Ret (VNum k)), s') \<and> sint m \<le> sint k \<and> sint k \<le> sint n"
proof -
  obtain x s' where x: "next_random_int (n - m + 1) s = (x, s')"
    by force
  have run: "math_random [VNum m, VNum n] s = (if n - m + 1 = 0 then (VPanic, s')
      else (Fine (Ret (VNum (x mod (n - m + 1) + m))), s'))"
    using assms x by (simp add: math_random_def to_integer_for_format_def whole_number_def random_in_def draw_def vm_simps)
  have full: "n - m + 1 = 0 \<longleftrightarrow> sint m = - (2 ^ 63) \<and> sint n = 2 ^ 63 - 1"
  proof -
    have r: "- (2 ^ 63) \<le> sint m" "sint m < 2 ^ 63" "- (2 ^ 63) \<le> sint n" "sint n < 2 ^ 63" "sint m \<le> sint n"
      using sint_greater_eq [of m] sint_less [of m] sint_greater_eq [of n] sint_less [of n] assms
      by (simp_all add: word_sless_alt)
    have "uint (n - m + 1) = (sint n - sint m + 1) mod 2 ^ 64"
      using uint_of_int64 [of "sint n - sint m + 1"] by simp
    moreover have "(sint n - sint m + 1) mod 2 ^ 64 = 0 \<longleftrightarrow> sint n - sint m + 1 = 2 ^ 64"
    proof (cases "sint n - sint m + 1 = 2 ^ 64")
      case False
      then have "(sint n - sint m + 1) mod 2 ^ 64 = sint n - sint m + 1"
        using r by simp
      with r show ?thesis by simp
    qed simp
    ultimately show ?thesis
      using r by (auto simp: uint_0_iff [symmetric])
  qed
  show ?thesis
  proof (cases "n - m + 1 = 0")
    case True
    with full run show ?thesis by simp
  next
    case False
    then have "x mod (n - m + 1) < n - m + 1"
      by (simp add: word_mod_less_divisor word_gt_0)
    from sint_in_range [OF assms False this] full False run show ?thesis
      by auto
  qed
qed

lemma math_random_in_interval_witness:
  "\<exists>k s'. math_random [VNum 1, VNum 6] new_lua = (Fine (Ret (VNum k)), s') \<and> 1 \<le> sint k \<and> sint k \<le> 6"
  using math_random_in_interval [of 6 1 new_lua] by (simp add: word_sless_alt)

section \<open>Bytes and characters\<close>

lemma char_bytes_of: "char_bytes (map (\<lambda>b. VNum (ucast b)) bs) s = (Fine bs, s)"
proof (induction bs)
  case (Cons b bs)
  have "uint (ucast b :: i64) = uint b" "uint b < 256"
    using uint_lt2p [of b] by (simp_all add: uint_up_ucast is_up)
  moreover have "0 \<le> uint b"
    by simp
  then have "- (2 ^ 63) \<le> uint b" "uint b < 2 ^ 63"
    using \<open>uint b < 256\<close> by (simp_all add: order_trans [of _ 0 "uint b"])
  from sint_of_int64 [OF this] have "sint (ucast b :: i64) = uint b"
    by simp
  ultimately have "\<not> (ucast b :: i64) <s 0 \<and> \<not> 255 <s (ucast b :: i64)"
    by (simp add: word_sless_alt)
  moreover have "(ucast (ucast b :: i64) :: u8) = b"
    by (simp add: ucast_up_ucast_id is_up)
  ultimately show ?case
    using Cons by (simp add: vm_simps integer_index_def whole_number_def)
qed (simp add: vm_simps)

lemma push_all_run:
  assumes "vsp s + length vs \<le> STACK_CAP"
  shows "push_all vs s = (Fine (), s\<lparr>vstack := (\<lambda>i. if vsp s \<le> i \<and> i < vsp s + length vs then vs ! (i - vsp s) else vstack s i),
    vsp := vsp s + length vs\<rparr>)"
  using assms
proof (induction vs arbitrary: s)
  case (Cons v vs)
  let ?s1 = "s\<lparr>vstack := (vstack s)(vsp s := v), vsp := vsp s + 1\<rparr>"
  have "push_all (v # vs) s = push_all vs ?s1"
    using Cons.prems by (simp add: vm_simps vlift_def push_val_def)
  also have "\<dots> = (Fine (), s\<lparr>vstack := (\<lambda>i. if vsp s \<le> i \<and> i < vsp s + length (v # vs) then (v # vs) ! (i - vsp s) else vstack s i),
    vsp := vsp s + length (v # vs)\<rparr>)"
    using Cons.IH [of ?s1] Cons.prems by (auto simp: fun_eq_iff nth_Cons' intro!: arg_cong2 [where f = "\<lambda>x y. s\<lparr>vstack := x, vsp := y\<rparr>"])
  finally show ?case .
next
  case (Nil s)
  have "(\<lambda>i. if vsp s \<le> i \<and> i < vsp s + length ([] :: lval list) then [] ! (i - vsp s) else vstack s i) = vstack s"
    by (rule ext) auto
  then show ?case
    by (simp only: push_all.simps list.size add_0_right) (simp add: vm_simps)
qed

lemma arena_stack: "arena_ok (s\<lparr>vstack := vs, vsp := n\<rparr>) = arena_ok s" "known_ref (s\<lparr>vstack := vs, vsp := n\<rparr>) r = known_ref s r"
  "str_bytes (s\<lparr>vstack := vs, vsp := n\<rparr>) r = str_bytes s r"
  by (simp_all add: arena_ok_def known_ref_def str_bytes_def reg_ref_def reg_off_def reg_len_def reg_bytes_def)

lemma byte_range_all:
  assumes "n < 2 ^ 16"
  shows "byte_range n 1 (-1) = (0, n)"
proof -
  have n: "sint (word_of_nat n :: i64) = int n" "unat (word_of_nat n :: i64) = n"
    using assms sint_of_int64 [of "int n"] by (simp_all add: unat_of_nat)
  then show ?thesis
    by (cases "n = 0") (simp_all add: byte_range_def clip_low_def clip_high_def from_end_def word_sless_alt Let_def)
qed

text \<open>
  C15. \<open>string.char(string.byte(s, 1, -1))\<close> is \<open>s\<close>: the bytes are pushed in order, and the string made of
  them is the interned string itself.
\<close>

theorem string_byte_char:
  assumes "arena_ok s" and "known_ref s r" and "str_bytes s r = Some bs" and "bs \<noteq> []" and "length bs < 256"
    and "vsp s + length bs \<le> STACK_CAP"
  shows "\<exists>s1. string_byte [VStr r, VNum 1, VNum (-1)] s = (Fine (RetN (length bs)), s1) \<and> vsp s1 = vsp s + length bs \<and>
    string_char (map (\<lambda>i. vstack s1 (vsp s + i)) [0..<length bs]) s1 = (Fine (Ret (VStr r)), s1)"
proof -
  let ?vs = "map (\<lambda>b. VNum (ucast b)) bs"
  obtain vs where vs: "vs = (\<lambda>i. if vsp s \<le> i \<and> i < vsp s + length bs then ?vs ! (i - vsp s) else vstack s i)"
    by blast
  let ?s1 = "s\<lparr>vstack := vs, vsp := vsp s + length bs\<rparr>"
  have push: "push_all ?vs s = (Fine (), ?s1)"
    using assms(6) push_all_run [of s ?vs] by (simp add: vs)
  have all: "byte_range (length bs) 1 (-1) = (0, length bs)"
    using assms(5) by (intro byte_range_all) simp
  have args: "optional [VStr r, VNum 1, VNum (-1)] (Suc 0) integer_index (vok 1) t = (Fine 1, t)"
    "optional [VStr r, VNum 1, VNum (-1)] 2 integer_index (vok 1) t = (Fine (-1), t)" "bytes_of r s = (Fine bs, s)" for t
    using assms(3) by (simp_all add: optional_def integer_index_def whole_number_def vm_simps bytes_of_def vchecked_def)
  have "string_byte [VStr r, VNum 1, VNum (-1)] s = vnext (push_all ?vs) (vok (RetN (length bs mod 256))) s"
    using assms(4) unfolding string_byte_def argc_between_def
    by (simp add: strref_arg_def vthen_apply vok_def [of r] args all vnext_apply del: push_all.simps)
  then have "string_byte [VStr r, VNum 1, VNum (-1)] s = (Fine (RetN (length bs)), ?s1)"
    unfolding vnext_apply vthen_apply push using assms(5) by (simp add: vm_apply)
  moreover have "map (\<lambda>i. vstack ?s1 (vsp s + i)) [0..<length bs] = ?vs"
    by (intro nth_equalityI) (simp_all add: vs)
  moreover have "intern bs ?s1 = (Ok r, ?s1)"
    using assms(1-3) by (intro intern_known) (simp_all add: arena_stack)
  then have "string_char ?vs ?s1 = (Fine (Ret (VStr r)), ?s1)"
    using assms(5) by (simp add: string_char_def vm_simps char_bytes_of ret_str_def vlift_def)
  ultimately show ?thesis
    by (intro exI [of _ ?s1]) simp
qed

lemma string_byte_char_witness:
  "\<exists>r s s1. str_bytes s r = Some (lit ''hi'') \<and> string_byte [VStr r, VNum 1, VNum (-1)] s = (Fine (RetN 2), s1) \<and>
    string_char (map (\<lambda>i. vstack s1 (vsp s + i)) [0..<2]) s1 = (Fine (Ret (VStr r)), s1)"
proof -
  have "nstrings new_lua = 0" "str_next new_lua = 0" "vsp new_lua = 0"
    by (simp_all add: new_lua_def)
  then obtain r s where s: "intern (lit ''hi'') new_lua = (Ok r, s)" "vsp s = 0"
    using intern_room [of new_lua "lit ''hi''"] by (auto simp: lua_caps)
  have r: "arena_ok s" "known_ref s r" "str_bytes s r = Some (lit ''hi'')"
    using arena.intern_inv [OF new_lua_arena(1) s(1)] arena.intern_result [OF new_lua_arena(1) s(1)] by auto
  have l: "length (lit ''hi'') = 2" "lit ''hi'' \<noteq> []"
    by (simp_all add: lit_def)
  have "vsp s + 2 \<le> STACK_CAP"
    using s(2) by (simp add: lua_caps)
  from string_byte_char [OF r l(2), unfolded l(1), OF _ this] r(3) show ?thesis
    by fastforce
qed

end
