(* ===== verification/LuaFormatting.thy ===== *)
theory LuaFormatting
  imports LuaLaws LuaFormat LuaText
begin

text \<open>
  What \<open>string.format\<close> promises: \<open>%q\<close> writes strings that the lexer reads back, the conversions of
  integers write numerals that \<open>tonumber\<close> reads back, and \<open>%d\<close> is \<open>tostring\<close> padded to the width.
\<close>

section \<open>Quoted strings\<close>

text \<open>The characters that \<open>%q\<close> writes the way the lexer reads them.\<close>

definition quotable :: "u8 \<Rightarrow> bool" where
  "quotable b \<longleftrightarrow> b = 9 \<or> b = 10 \<or> b = 13 \<or> 32 \<le> b \<and> b \<le> 126"

lemma quoted_spelled: "quotable b \<Longrightarrow> quoted_char b = spell_char b \<and> length (spell_char b) \<le> 2"
  by (auto simp: quotable_def quoted_char_def spell_char_def spell_escapes_def)

lemma quote_loop_run:
  "\<forall>b\<in>set bs. quotable b \<Longrightarrow> length out_text + 2 * length bs + 4 \<le> PIECE_CAP \<Longrightarrow>
    quote_loop bs out_text = Some (out_text @ concat (map spell_char bs) @ [34])"
proof (induction bs arbitrary: out_text)
  case (Cons b bs)
  have q: "quoted_char b = spell_char b" "length (spell_char b) \<le> 2"
    using quoted_spelled [of b] Cons.prems(1) by simp_all
  have "quote_loop bs (out_text @ quoted_char b) = Some ((out_text @ quoted_char b) @ concat (map spell_char bs) @ [34])"
    using Cons.prems q by (intro Cons.IH) simp_all
  with Cons.prems q show ?case
    by simp
qed simp

lemma quoted_length: "\<forall>b\<in>set bs. quotable b \<Longrightarrow> length (concat (map spell_char bs)) \<le> 2 * length bs"
proof (induction bs)
  case (Cons b bs)
  then show ?case
    using quoted_spelled [of b] by simp
qed simp

lemma plain_layout: "f_width sp = 0 \<Longrightarrow> length body \<le> PIECE_CAP \<Longrightarrow> apply_layout [] [] body sp z = Some body"
  by (simp add: apply_layout_def Let_def)

text \<open>The format \<open>%<type>\<close>.\<close>

definition plain_spec :: "u8 \<Rightarrow> format_spec" where
  "plain_spec ty = \<lparr>f_flags = 0, f_width = 0, f_prec = None, f_type = ty\<rparr>"

lemma plain_format:
  assumes "ty \<in> set format_types"
  shows "format_parts [37, ty] = [FSpec (plain_spec ty)]"
proof -
  have "\<not> is_digit ty \<and> ty \<noteq> 46 \<and> flag_bit ty = None \<and> ty \<noteq> 37"
    using assms by (auto simp: format_types_def lit_def is_digit_def flag_bit_def)
  then show ?thesis
    using assms by (simp add: read_part.simps parse_format_spec_def plain_spec_def saturating_num_def)
qed

lemma string_format_one:
  assumes "str_bytes s fr = Some [37, ty]" and "ty \<in> set format_types" and "format_value c (plain_spec ty) v s = (Fine bs, s)"
    and "string_format c [VStr fr, v] s = (Fine (Ret (VStr r)), s')"
  shows "intern bs s = (Ok r, s')"
  using assms(4) assms(1,3) plain_format [OF assms(2)]
  by (auto simp: string_format_def str_arg_def vchecked_def vm_simps add_piece_def ret_str_def vlift_def
      split: if_splits prod.splits vres.splits res.splits)

lemma string_format_piece:
  assumes "str_bytes s fr = Some [37, ty]" and "ty \<in> set format_types" and "format_value c (plain_spec ty) v s = (Fine bs, s)"
    and "length bs \<le> PIECE_CAP"
  shows "string_format c [VStr fr, v] s = ret_str bs s"
  using assms plain_format [OF assms(2)]
  by (simp add: string_format_def str_arg_def vchecked_def vm_simps add_piece_def)

text \<open>A memory with two strings, for the examples.\<close>

lemma two_strings:
  assumes "length a \<le> 100" and "length b \<le> 100"
  obtains s r q where "arena_ok s" "str_bytes s r = Some a" "str_bytes s q = Some b" "nstrings s \<le> 2" "str_next s \<le> 200"
proof -
  have "nstrings new_lua = 0" "str_next new_lua = 0"
    by (simp_all add: new_lua_def)
  then obtain r s1 where s1: "intern a new_lua = (Ok r, s1)" "nstrings s1 \<le> 1" "str_next s1 \<le> 100"
    using intern_room [of new_lua a] assms(1) by (auto simp: lua_caps)
  then obtain q s2 where s2: "intern b s1 = (Ok q, s2)" "nstrings s2 \<le> 2" "str_next s2 \<le> 200"
    using intern_room [of s1 b] assms(2) by (fastforce simp: lua_caps)
  have a1: "arena_ok s1" "known_ref s1 r" "str_bytes s1 r = Some a"
    using arena.intern_inv [OF new_lua_arena(1) s1(1)] arena.intern_result [OF new_lua_arena(1) s1(1)] by auto
  then have "arena_ok s2" "str_bytes s2 r = Some a" "str_bytes s2 q = Some b"
    using arena.intern_inv [OF a1(1) s2(1)] arena.intern_result [OF a1(1) s2(1)] arena.intern_keeps [OF a1(1) s2(1)] by auto
  with that s2(2,3) show thesis
    by blast
qed

lemma lex_quoted:
  assumes "length bs \<le> 256"
  shows "\<exists>lx. next_token (new_lexer (34 # concat (map spell_char bs) @ [34])) = (Ok (TStr (word_of_nat (length bs))), lx) \<and> lex_buf lx = bs"
proof -
  let ?lx = "new_lexer (34 # concat (map spell_char bs) @ [34])"
  have at: "drop (pos ?lx) (src ?lx) = 34 # concat (map spell_char bs) @ 34 # []"
    by (simp add: new_lexer_def)
  have "next_token ?lx = lex_string 34 ?lx"
    using next_token_at(4) [OF at] by (simp add: is_space_def token_at_def is_digit_def)
  moreover have "snd (bump ?lx) = ?lx\<lparr>pos := pos ?lx + 1\<rparr>"
    using bump_rest [OF at] by simp
  moreover have "drop (Suc (pos ?lx)) (src ?lx) = concat (map spell_char bs) @ 34 # []"
    by (simp add: new_lexer_def)
  moreover have "length (lbuf ?lx) = 256"
    by (simp add: new_lexer_def)
  ultimately show ?thesis
    using string_rest [of "?lx\<lparr>pos := pos ?lx + 1\<rparr>" bs "[]" 0] assms
    by (auto simp: lex_string_def lex_buf_def)
qed

text \<open>
  C11. \<open>string.format("%q", s)\<close> is a string literal of Lua for \<open>s\<close>: the lexer reads the string back, for
  every string of printable characters, tabs, line feeds and carriage returns that a literal can hold.
\<close>

theorem quote_reads_back:
  assumes "arena_ok s" and "str_bytes s fr = Some (lit ''%q'')" and "str_bytes s r = Some bs"
    and "length bs \<le> 256" and "\<forall>b\<in>set bs. b = 9 \<or> b = 10 \<or> b = 13 \<or> 32 \<le> b \<and> b \<le> 126"
    and run: "string_format c [VStr fr, VStr r] s = (Fine (Ret (VStr q)), s')"
  shows "\<exists>t lx. str_bytes s' q = Some t \<and> next_token (new_lexer t) = (Ok (TStr (word_of_nat (length bs))), lx) \<and> lex_buf lx = bs"
proof -
  let ?t = "34 # concat (map spell_char bs) @ [34]"
  have bs: "\<forall>b\<in>set bs. quotable b"
    using assms(5) by (simp add: quotable_def)
  have fmt: "str_bytes s fr = Some [37, 113]" "(113 :: u8) \<in> set format_types"
    using assms(2) by (simp_all add: lit_def format_types_def)
  have quoted: "quote_string bs = Some ?t"
    using quote_loop_run [OF bs, of "[34]"] assms(4) by (simp add: quote_string_def PIECE_CAP_def)
  have "length ?t \<le> PIECE_CAP"
    using quoted_length [OF bs] assms(4) by (simp add: PIECE_CAP_def)
  then have "format_value c (plain_spec 113) (VStr r) s = (Fine ?t, s)"
    using assms(3) quoted
    by (simp add: format_value_def plain_spec_def str_arg_def vchecked_def vm_simps laid_out_def plain_layout)
  from string_format_one [OF fmt this run] have "str_bytes s' q = Some ?t"
    using arena.intern_result [OF assms(1)] by blast
  with lex_quoted [OF assms(4)] show ?thesis
    by blast
qed

lemma quote_reads_back_witness:
  "\<exists>s fr r q s' t lx. str_bytes s r = Some (lit ''hi'') \<and> string_format (\<lambda>_ _. vpanic) [VStr fr, VStr r] s = (Fine (Ret (VStr q)), s') \<and>
    str_bytes s' q = Some t \<and> next_token (new_lexer t) = (Ok (TStr 2), lx) \<and> lex_buf lx = lit ''hi''"
proof -
  obtain s fr r where s: "arena_ok s" "str_bytes s fr = Some (lit ''%q'')" "str_bytes s r = Some (lit ''hi'')" "nstrings s \<le> 2" "str_next s \<le> 200"
    by (rule two_strings [of "lit ''%q''" "lit ''hi''"]) (simp_all add: lit_def)
  have "format_value (\<lambda>_ _. vpanic) (plain_spec 113) (VStr r) s = (Fine [34, 104, 105, 34], s)"
    using s(3) by (simp add: format_value_def plain_spec_def str_arg_def vchecked_def vm_simps laid_out_def apply_layout_def flagged_def
        quote_string_def quoted_char_def lit_def PIECE_CAP_def)
  then have "string_format (\<lambda>_ _. vpanic) [VStr fr, VStr r] s = ret_str [34, 104, 105, 34] s"
    using s(2) by (intro string_format_piece) (simp_all add: lit_def format_types_def PIECE_CAP_def)
  moreover obtain q s' where "intern [34, 104, 105, 34] s = (Ok q, s')"
    using intern_room [of s "[34, 104, 105, 34]"] s(4,5) by (auto simp: lua_caps)
  ultimately have run: "string_format (\<lambda>_ _. vpanic) [VStr fr, VStr r] s = (Fine (Ret (VStr q)), s')"
    by (simp add: ret_str_def vm_simps vlift_def)
  have "length (lit ''hi'') = 2" "\<forall>b\<in>set (lit ''hi''). b = 9 \<or> b = 10 \<or> b = 13 \<or> 32 \<le> b \<and> b \<le> 126"
    by (simp_all add: lit_def)
  with quote_reads_back [OF s(1-3) _ _ run] s(3) run show ?thesis
    by fastforce
qed

section \<open>Numerals\<close>

lemma radix_digit_values:
  "list_all (\<lambda>n. base_digit (radix_digit True (word_of_nat n)) = Some (int n)) [0..<16]"
  "list_all (\<lambda>n. base_digit (radix_digit False (word_of_nat n)) = Some (int n)) [0..<16]"
  by (simp_all add: upt_rec base_digit_def radix_digit_def)

lemma radix_digit_value:
  assumes "d < 16"
  shows "base_digit (radix_digit upper d) = Some (uint d)"
proof -
  have "unat d \<in> set [0..<16]"
    using assms by (simp add: word_less_nat_alt)
  with radix_digit_values have "base_digit (radix_digit upper (word_of_nat (unat d))) = Some (int (unat d))"
    unfolding list_all_iff by (cases upper) (simp_all only: if_True if_False; blast)+
  then show ?thesis
    by simp
qed

lemma base_digit_text: "base_digit b \<noteq> None \<Longrightarrow> \<not> is_ascii_white b \<and> b \<noteq> 45 \<and> b \<noteq> 43"
  by (auto simp: base_digit_def is_ascii_white_def split: if_splits)

lemma word_div_mod_uint: "uint (v div base) * uint base + uint (v mod base) = uint (v :: u64)"
  by (simp add: uint_div uint_mod)

lemma radix_digits_text:
  assumes "1 < base" and "base \<le> 16"
  shows "\<exists>ds. radix_digits upper base v acc = ds @ acc \<and> ds \<noteq> [] \<and> (\<forall>b\<in>set ds. base_digit b \<noteq> None) \<and>
    base_loop (ds @ cs) (uint base) 0 = (if uint v < 2 ^ 63 then base_loop cs (uint base) (uint v) else None)"
  using assms
proof (induction upper base v acc arbitrary: cs rule: radix_digits.induct)
  case (1 upper base v acc)
  let ?d = "v mod base" and ?v = "v div base"
  have d: "?d < base" "?d < 16"
  proof -
    show "?d < base"
      using "1.prems"(1) by (intro word_mod_less_divisor) (rule order_le_less_trans [of _ 1]; simp)
    then show "?d < 16"
      using "1.prems"(2) by (rule less_le_trans)
  qed
  then have digit: "base_digit (radix_digit upper ?d) = Some (uint ?d)" "uint ?d < uint base"
    by (simp_all add: radix_digit_value word_less_def)
  have split: "uint ?v * uint base + uint ?d = uint v" and part: "uint ?v * uint base \<le> uint v"
    using word_div_mod_uint [of v base] uint_ge_0 [of ?d] by linarith+
  have step: "base_loop (radix_digit upper ?d # cs) (uint base) (uint ?v) =
      (if uint v < 2 ^ 63 then base_loop cs (uint base) (uint v) else None)" for cs
    using part digit split by simp
  have base: "\<not> base \<le> 1"
    using "1.prems" by simp
  show ?case
  proof (cases "?v = 0")
    case True
    have "radix_digits upper base v acc = [radix_digit upper ?d] @ acc"
      using True base by (subst radix_digits.simps) simp
    with True digit step [of cs] show ?thesis
      by (intro exI [of _ "[radix_digit upper ?d]"]) simp
  next
    case False
    obtain ds where ds: "radix_digits upper base ?v (radix_digit upper ?d # acc) = ds @ radix_digit upper ?d # acc" "ds \<noteq> []"
        "\<forall>b\<in>set ds. base_digit b \<noteq> None"
        "base_loop (ds @ radix_digit upper ?d # cs) (uint base) 0 =
          (if uint ?v < 2 ^ 63 then base_loop (radix_digit upper ?d # cs) (uint base) (uint ?v) else None)"
      using "1.IH" [OF base refl refl False "1.prems", of "radix_digit upper ?d # cs"] by blast
    have "radix_digits upper base v acc = (ds @ [radix_digit upper ?d]) @ acc"
      using False base ds(1) by (subst radix_digits.simps) simp
    moreover have "base_loop (ds @ radix_digit upper ?d # cs) (uint base) 0 =
        (if uint v < 2 ^ 63 then base_loop cs (uint base) (uint v) else None)"
    proof (cases "uint ?v < 2 ^ 63")
      case True
      with ds(4) step [of cs] show ?thesis
        by (simp only: if_True)
    next
      case False
      have "uint ?v \<le> uint v"
        by (simp add: word_le_nat_alt unat_div flip: word_le_def)
      with False have "\<not> uint v < 2 ^ 63"
        by linarith
      with ds(4) False show ?thesis
        by (simp only: if_False)
    qed
    ultimately show ?thesis
      using ds(2,3) digit by (intro exI [of _ "ds @ [radix_digit upper ?d]"]) auto
  qed
qed

text \<open>The conversions of integers with their bases.\<close>

definition conversions :: "(u8 \<times> u64) list" where
  "conversions = [(100, 10), (105, 10), (117, 10), (111, 8), (120, 16), (88, 16)]"

text \<open>The signed ones write the magnitude after a minus sign, the others the word.\<close>

definition negated :: "u8 \<Rightarrow> u64 \<Rightarrow> bool" where
  "negated ty n \<longleftrightarrow> (ty = 100 \<or> ty = 105) \<and> n <s 0"

definition magnitude :: "u8 \<Rightarrow> u64 \<Rightarrow> u64" where
  "magnitude ty n = (if negated ty n then - n else n)"

lemma format_plain_integer:
  assumes "(ty, base) \<in> set conversions" and "length (radix_digits (ty = 88) base (magnitude ty n) []) \<le> BODY_CAP"
  shows "format_value c (plain_spec ty) (VNum n) s =
    (Fine ((if negated ty n then [45] else []) @ radix_digits (ty = 88) base (magnitude ty n) []), s)"
  using assms
  by (auto simp: conversions_def format_value_def plain_spec_def format_integer_def to_integer_for_format_def whole_number_def vm_simps
      format_magnitude_def flagged_def sign_of_def apply_layout_def Let_def BODY_CAP_def PIECE_CAP_def negated_def magnitude_def)

lemma radix_digits_length:
  assumes "8 \<le> unat base" and "unat v < 8 ^ Suc k"
  shows "length (radix_digits upper base v acc) \<le> length acc + Suc k"
  using assms(2)
proof (induction k arbitrary: v acc)
  case 0
  then have "v div base = 0"
    using assms(1) by (simp add: word_unat_eq_iff unat_div)
  then show ?case
    by (subst radix_digits.simps) simp
next
  case (Suc k)
  have "unat v div unat base \<le> unat v div 8"
    using assms(1) by (rule div_le_mono2 [rotated]) simp
  also have "\<dots> < 8 ^ Suc k"
    using Suc.prems by (simp add: less_mult_imp_div_less mult.commute)
  finally have "length (radix_digits upper base (v div base) (radix_digit upper (v mod base) # acc)) \<le>
      length (radix_digit upper (v mod base) # acc) + Suc k"
    by (intro Suc.IH) (simp add: unat_div)
  then show ?case
    by (subst radix_digits.simps) (simp add: Let_def)
qed

text \<open>Which words the reader takes: those below \<open>2^63\<close>.\<close>

lemma magnitude_small:
  fixes n :: i64
  shows "uint (magnitude ty n) < 2 ^ 63 \<longleftrightarrow> \<not> n <s 0 \<or> negated ty n \<and> n \<noteq> i64_min"
proof (cases "n <s 0")
  case False
  then have "int (unat n) < int (2 ^ 63)"
    using unat_magnitude(2) [OF False] by (simp only: of_nat_less_iff)
  with False show ?thesis
    by (simp add: magnitude_def negated_def)
next
  case True
  then have neg: "sint n < 0" and low: "- (2 ^ 63) \<le> sint n"
    using sint_ge [of n] by (simp_all add: word_sless_alt)
  have "uint n = (sint n + 2 ^ 64) mod 2 ^ 64"
    by (simp add: uint_sint take_bit_eq_mod)
  also have "\<dots> = sint n + 2 ^ 64"
    using neg low by (intro mod_pos_pos_trivial) simp_all
  finally have big: "2 ^ 63 \<le> uint n"
    using low by simp
  show ?thesis
  proof (cases "negated ty n")
    case True
    have "int (unat (- n)) \<le> int (2 ^ 63)"
      using unat_magnitude(1) [OF \<open>n <s 0\<close>] by (simp only: of_nat_le_iff)
    then have "uint (- n) < 2 ^ 63 \<longleftrightarrow> uint (- n) \<noteq> uint (2 ^ 63 :: i64)"
      by auto
    also have "\<dots> \<longleftrightarrow> - n \<noteq> 2 ^ 63"
      by (simp only: word_uint_eq_iff)
    also have "\<dots> \<longleftrightarrow> n \<noteq> i64_min"
    proof -
      have "- (2 ^ 63) = (2 ^ 63 :: i64)" "i64_min = 2 ^ 63"
        by (simp_all add: word_uint_eq_iff i64_min_def)
      then show ?thesis
        by (metis minus_minus)
    qed
    finally show ?thesis
      using True \<open>n <s 0\<close> by (simp add: magnitude_def)
  qed (use big True in \<open>simp add: magnitude_def\<close>)
qed

text \<open>
  C12. The numeral of \<open>string.format\<close> for an integer, read by \<open>tonumber\<close> in the base of the conversion: the
  signed conversions \<open>%d\<close> and \<open>%i\<close> give the integer back, all but the least one; the unsigned ones \<open>%u\<close>,
  \<open>%o\<close>, \<open>%x\<close> and \<open>%X\<close> give it back when it is not negative. For the others, written as words of \<open>2^63\<close> and
  more, the reader gives nil.
\<close>

theorem numeral_reads_back:
  assumes "arena_ok s" and "(ty, base) \<in> set conversions" and "str_bytes s fr = Some [37, ty]"
    and run: "string_format c [VStr fr, VNum n] s = (Fine (Ret (VStr r)), s')"
  shows "\<exists>t. str_bytes s' r = Some t \<and>
    str_to_base t (uint base) = (if \<not> n <s 0 \<or> ty \<in> {100, 105} \<and> n \<noteq> i64_min then Some n else None)"
proof -
  let ?v = "magnitude ty n"
  let ?sign = "if negated ty n then [45] else [] :: bytes"
  have base: "8 \<le> base" "1 < base" "base \<le> 16" and ty: "ty \<in> set format_types"
    using assms(2) by (auto simp: conversions_def format_types_def lit_def)
  obtain ds where ds: "radix_digits (ty = 88) base ?v [] = ds" "ds \<noteq> []" "\<forall>b\<in>set ds. base_digit b \<noteq> None"
      "base_loop ds (uint base) 0 = (if uint ?v < 2 ^ 63 then Some (uint ?v) else None)"
    using radix_digits_text [OF base(2,3), of "ty = 88" ?v "[]" "[]"] by auto
  have "unat ?v < 8 ^ Suc 21" "8 \<le> unat base"
    using unsigned_less [where ?'a = nat, of ?v] base(1) by (simp_all add: word_le_nat_alt)
  then have "length (radix_digits (ty = 88) base ?v []) \<le> BODY_CAP"
    using radix_digits_length [of base ?v 21 "ty = 88" "[]"] by (simp add: BODY_CAP_def)
  from string_format_one [OF assms(3) ty format_plain_integer [OF assms(2) this] run]
  have "str_bytes s' r = Some (?sign @ ds)"
    using arena.intern_result [OF assms(1)] ds(1) by blast
  moreover have ends: "\<not> is_ascii_white (hd ds)" "\<not> is_ascii_white (last ds)" "hd ds \<noteq> 45" "hd ds \<noteq> 43"
    using ds(2,3) base_digit_text [of "hd ds"] base_digit_text [of "last ds"] by simp_all
  have "\<not> is_ascii_white 45"
    by (simp add: is_ascii_white_def)
  then have "trim_ascii (?sign @ ds) = ?sign @ ds"
    using ends(1,2) ds(2) by (intro trim_ends) simp_all
  then have "str_to_base (?sign @ ds) (uint base) = (if uint ?v < 2 ^ 63 then Some n else None)"
    using ends(3,4) ds(2,4) by (auto simp: str_to_base_def Let_def magnitude_def)
  moreover have "negated ty n \<and> n \<noteq> i64_min \<or> \<not> n <s 0 \<longleftrightarrow> \<not> n <s 0 \<or> ty \<in> {100, 105} \<and> n \<noteq> i64_min"
    by (auto simp: negated_def)
  ultimately show ?thesis
    using magnitude_small [of ty n] by auto
qed

lemma numeral_reads_back_witness:
  "\<exists>s fr r s' t. str_bytes s fr = Some (lit ''%x'') \<and> string_format (\<lambda>_ _. vpanic) [VStr fr, VNum 255] s = (Fine (Ret (VStr r)), s') \<and>
    str_bytes s' r = Some t \<and> str_to_base t 16 = Some 255"
proof -
  obtain s fr r where s: "arena_ok s" "str_bytes s fr = Some (lit ''%x'')" "str_bytes s r = Some []" "nstrings s \<le> 2" "str_next s \<le> 200"
    by (rule two_strings [of "lit ''%x''" "[]"]) (simp_all add: lit_def)
  have fmt: "str_bytes s fr = Some [37, 120]" "(120, 16) \<in> set conversions" "\<not> (255 :: i64) <s 0"
    using s(2) by (simp_all add: lit_def conversions_def word_sless_alt)
  have ds: "radix_digits (120 = (88 :: u8)) 16 255 [] = [102, 102]"
    by (simp add: radix_digits.simps [of _ 16] radix_digit_def word_le_nat_alt)
  have "string_format (\<lambda>_ _. vpanic) [VStr fr, VNum 255] s = ret_str [102, 102] s"
  proof (rule string_format_piece [OF fmt(1)])
    show "(120 :: u8) \<in> set format_types"
      by (simp add: format_types_def lit_def)
    show "format_value (\<lambda>_ _. vpanic) (plain_spec 120) (VNum 255) s = (Fine [102, 102], s)"
      using format_plain_integer [OF fmt(2), of 255 "\<lambda>_ _. vpanic" s] ds by (simp add: BODY_CAP_def magnitude_def negated_def)
  qed (simp add: PIECE_CAP_def)
  moreover obtain q s' where "intern [102, 102] s = (Ok q, s')"
    using intern_room [of s "[102, 102]"] s(4,5) by (auto simp: lua_caps)
  ultimately have run: "string_format (\<lambda>_ _. vpanic) [VStr fr, VNum 255] s = (Fine (Ret (VStr q)), s')"
    by (simp add: ret_str_def vm_simps vlift_def)
  have "\<exists>t. str_bytes s' q = Some t \<and> str_to_base t 16 = Some 255"
    using numeral_reads_back [OF s(1) fmt(2,1) run] fmt(3) by simp
  with s(2) run show ?thesis
    by blast
qed

section \<open>Padding\<close>

lemma radix_ten: "radix_digits upper 10 v acc = itoa_digits v acc"
proof (induction v acc rule: itoa_digits.induct)
  case (1 v acc)
  have "v mod 10 < 10"
    by (rule word_mod_less_divisor) simp
  then have "radix_digit upper (v mod 10) = 48 + ucast (v mod 10)"
    by (simp add: radix_digit_def)
  moreover have "\<not> (10 :: u64) \<le> 1"
    by (simp add: word_le_nat_alt)
  ultimately show ?case
    using 1 by (subst radix_digits.simps, subst itoa_digits.simps) (simp add: Let_def)
qed

lemma saturating_dec_str: "w < 2 ^ 64 \<Longrightarrow> saturating_num (dec_str w) = w"
proof (induction w rule: less_induct)
  case (less w)
  have digit: "unat (48 + word_of_nat d - 48 :: u8) = d" if "d < 10" for d
    using that by (simp add: unat_of_nat)
  show ?case
  proof (cases "w < 10")
    case True
    then show ?thesis
      using digit [of w] by (simp add: dec_str_small saturating_num_def USIZE_MAX_def)
  next
    case False
    then have "saturating_num (dec_str (w div 10)) = w div 10"
      using less by simp
    moreover have "saturating_num (dec_str w) = min USIZE_MAX (min USIZE_MAX (saturating_num (dec_str (w div 10)) * 10) + w mod 10)"
      using False digit [of "w mod 10"] by (simp add: dec_str_step [of w] saturating_num_def)
    moreover have "w div 10 * 10 + w mod 10 = w" "w div 10 * 10 \<le> USIZE_MAX" "w \<le> USIZE_MAX"
      using less.prems by (auto simp: USIZE_MAX_def)
    ultimately show ?thesis
      by (simp only: min.absorb2)
  qed
qed

lemma format_width:
  assumes "1 \<le> w" and "w < 2 ^ 64"
  shows "format_parts (37 # dec_str w @ [100]) = [FSpec \<lparr>f_flags = 0, f_width = w, f_prec = None, f_type = 100\<rparr>]"
proof -
  obtain c ds where ds: "dec_str w = c # ds"
    by (cases "dec_str w") auto
  have c: "is_digit c" "c \<noteq> 48" "c \<noteq> 37"
    using dec_str_all [of w] dec_str_hd [of w] ds assms(1) by (auto simp: is_digit_def)
  then have "flag_bit c = None"
    by (auto simp: flag_bit_def is_digit_def)
  moreover have "takeWhile is_digit (dec_str w @ [100]) = dec_str w"
    using dec_str_all [of w] by (simp add: takeWhile_append2 list_all_iff is_digit_def)
  ultimately have "parse_format_spec (dec_str w @ [100]) = Inr (\<lparr>f_flags = 0, f_width = w, f_prec = None, f_type = 100\<rparr>, [])"
    using assms ds saturating_dec_str [of w] by (simp add: parse_format_spec_def format_types_def lit_def)
  with ds c show ?thesis
    by (simp add: read_part.simps)
qed

text \<open>
  C13. \<open>string.format("%<w>d", n)\<close> is \<open>tostring(n)\<close> with spaces before it up to the width; the buffer of
  1024 bytes is not checked, and a larger width panics.
\<close>

theorem decimal_padded:
  assumes "str_bytes s fr = Some (37 # dec_str w @ [100])" and "1 \<le> w" and "w < 2 ^ 64"
  shows "string_format c [VStr fr, VNum n] s =
    (if w > 1024 then (VPanic, s) else ret_str (replicate (w - length (itoa n)) 32 @ itoa n) s)"
proof -
  let ?sp = "\<lparr>f_flags = 0, f_width = w, f_prec = None, f_type = 100\<rparr> :: format_spec"
  define v where "v = (if n <s 0 then - n else n)"
  have ten: "8 \<le> unat (10 :: u64)" "unat v < 8 ^ Suc 21"
    using unsigned_less [where ?'a = nat, of v] by simp_all
  have len: "length (itoa_digits v []) \<le> 22"
    using radix_digits_length [OF ten, of False "[]"] by (simp add: radix_ten)
  have itoa: "itoa n = (if n <s 0 then [45] else []) @ itoa_digits v []"
    by (simp add: itoa_def v_def Let_def)
  have "format_magnitude ?sp 10 (n <s 0) v = (if w > 1024 then None else Some (replicate (w - length (itoa n)) 32 @ itoa n))"
    using len itoa
    by (auto simp: format_magnitude_def radix_ten flagged_def sign_of_def apply_layout_def Let_def BODY_CAP_def PIECE_CAP_def)
  then have "format_value c ?sp (VNum n) s = (if w > 1024 then (VPanic, s) else (Fine (replicate (w - length (itoa n)) 32 @ itoa n), s))"
    by (simp add: format_value_def format_integer_def to_integer_for_format_def whole_number_def vm_simps v_def Let_def)
  moreover have "length (dec_str w) \<le> 22"
  proof -
    have "itoa_digits (word_of_nat w) [] = dec_str w"
      using assms(3) by (simp add: itoa_digits_eq unat_of_nat)
    moreover have "length (itoa_digits (word_of_nat w) []) \<le> 22"
      using radix_digits_length [OF ten(1), of "word_of_nat w" 21 False "[]"] assms(3) by (simp add: radix_ten unat_of_nat)
    ultimately show ?thesis
      by simp
  qed
  ultimately show ?thesis
    using assms(1) len itoa format_width [OF assms(2,3)]
    by (auto simp: string_format_def str_arg_def vchecked_def vm_simps add_piece_def PIECE_CAP_def)
qed

lemma decimal_padded_witness:
  "\<exists>s fr. str_bytes s fr = Some (lit ''%4d'') \<and> string_format (\<lambda>_ _. vpanic) [VStr fr, VNum 7] s = ret_str [32, 32, 32, 55] s"
proof -
  obtain s fr r where s: "arena_ok s" "str_bytes s fr = Some (lit ''%4d'')" "str_bytes s r = Some []" "nstrings s \<le> 2" "str_next s \<le> 200"
    by (rule two_strings [of "lit ''%4d''" "[]"]) (simp_all add: lit_def)
  then have "str_bytes s fr = Some (37 # dec_str 4 @ [100])"
    by (simp add: lit_def dec_str_small)
  moreover have "itoa 7 = [55]"
    by (simp add: itoa_def itoa_digits_eq dec_str_small word_sless_alt)
  ultimately show ?thesis
    using decimal_padded [of s fr 4 "\<lambda>_ _. vpanic" 7] s(2) by (intro exI [of _ s] exI [of _ fr]) (simp add: numeral_3_eq_3)
qed

end
