(* ===== verification/LuaPacking.thy ===== *)
theory LuaPacking
  imports LuaLaws
begin

text \<open>
  The contract of \<open>string.pack\<close>, \<open>string.packsize\<close> and \<open>string.unpack\<close>. An option that packs a value
  gives it back when it unpacks (\<open>gives_back\<close>, proved for each kind of option); induction on the
  options of a format gives the round trip for whole formats, with their byte orders and alignments.
\<close>

section \<open>Bytes and integers\<close>

lemma bit_le_word_upto:
  assumes "n \<le> 8"
  shows "le_word k (map (\<lambda>j. ucast (drop_bit (8 * j) v)) [k..<n]) = take_bit (8 * n) v AND NOT (mask (8 * k))"
  using assms
proof (induction "n - k" arbitrary: k)
  case 0
  then show ?case
    by (auto intro!: bit_eqI simp: bit_simps)
next
  case (Suc m)
  then have "k < n"
    by simp
  then have "[k..<n] = k # [Suc k..<n]"
    by (simp add: upt_conv_Cons)
  moreover have "le_word (Suc k) (map (\<lambda>j. ucast (drop_bit (8 * j) v)) [Suc k..<n]) = take_bit (8 * n) v AND NOT (mask (8 * Suc k))"
    using Suc by (intro Suc.hyps) auto
  ultimately show ?case
    using \<open>k < n\<close> Suc.prems by (auto intro!: bit_eqI simp: bit_simps)
qed

lemma le_word_zeros: "le_word k (bs @ replicate m 0) = le_word k bs"
proof (induction bs arbitrary: k)
  case Nil
  show ?case
    by (induction m arbitrary: k) simp_all
qed simp

lemma int_bytes_le: "le_word 0 (int_bytes n v) = take_bit (8 * n) v"
proof (cases "n \<le> 8")
  case True
  then show ?thesis
    using bit_le_word_upto [of n 0 v] by (simp add: int_bytes_def)
next
  case False
  have zeros: "ucast (drop_bit (8 * k) v) = (0 :: u8)" if "8 \<le> k" for k
    using that by (auto intro!: bit_eqI simp: bit_simps dest: bit_imp_le_length)
  have "int_bytes n v = int_bytes 8 v @ map (\<lambda>k. ucast (drop_bit (8 * k) v)) [8..<n]"
    using False upt_add_eq_append [of 0 8 "n - 8"] by (simp add: int_bytes_def del: upt_Suc)
  also have "map (\<lambda>k. ucast (drop_bit (8 * k) v) :: u8) [8..<n] = replicate (n - 8) 0"
    using zeros by (intro nth_equalityI) simp_all
  finally show ?thesis
    using False bit_le_word_upto [of 8 0 v] by (simp add: le_word_zeros int_bytes_def take_bit_word_eq_self del: upt_Suc)
qed

lemma length_int_bytes [simp]: "length (int_bytes n v) = n"
  by (simp add: int_bytes_def)

lemma in_order_of_simps [simp]: "in_order_of b (in_order_of b bs) = bs" "length (in_order_of b bs) = length bs"
  by (simp_all add: in_order_of_def)

text \<open>The integers that \<open>n\<close> bytes hold.\<close>

definition fits_in :: "nat \<Rightarrow> bool \<Rightarrow> i64 \<Rightarrow> bool" where
  "fits_in n with_minus v \<longleftrightarrow> 8 \<le> n \<or>
     (if with_minus then - (2 ^ (8 * n - 1)) \<le> sint v \<and> sint v < 2 ^ (8 * n - 1) else 0 \<le> sint v \<and> sint v < 2 ^ (8 * n))"

lemma read_int_bytes:
  assumes "fits_in n with_minus v" and "1 \<le> n"
  shows "read_int b with_minus (in_order_of b (int_bytes n v)) = v"
proof -
  have read: "read_int b with_minus (in_order_of b (int_bytes n v)) =
      (if with_minus \<and> n < 8 \<and> bit (take_bit (8 * n) v) (8 * n - 1) then take_bit (8 * n) v OR NOT (mask (8 * n))
       else take_bit (8 * n) v)"
    by (simp add: read_int_def int_bytes_le Let_def)
  consider "8 \<le> n" | "n < 8" "with_minus" | "n < 8" "\<not> with_minus"
    by linarith
  then show ?thesis
  proof cases
    case 1
    then show ?thesis
      by (simp add: read take_bit_word_eq_self)
  next
    case 2
    then have st: "signed_take_bit (8 * n - 1) (sint v) = sint v"
      using assms(1) by (intro signed_take_bit_int_eq_self) (simp_all add: fits_in_def)
    have same: "bit (sint v) i = bit (sint v) (8 * n - 1)" if "8 * n - 1 \<le> i" for i
      using that bit_signed_take_bit_iff [of "8 * n - 1" "sint v" i] unfolding st by (simp add: min_absorb1)
    have ext: "bit v i = bit v (8 * n - 1)" if "8 * n - 1 \<le> i" "i < 64" for i
      using same [OF that(1)] 2(1) that by (simp add: bit_sint_iff)
    have low: "bit (take_bit (8 * n) v) (8 * n - 1) = bit v (8 * n - 1)"
      using assms(2) by (simp add: bit_take_bit_iff)
    show ?thesis
    proof (cases "bit v (8 * n - 1)")
      case True
      have "take_bit (8 * n) v OR NOT (mask (8 * n)) = v"
      proof (rule bit_word_eqI)
        fix i
        assume "i < LENGTH(64)"
        then show "bit (take_bit (8 * n) v OR NOT (mask (8 * n))) i = bit v i"
          using ext [of i] True by (cases "i < 8 * n") (simp_all add: bit_or_iff bit_take_bit_iff bit_not_iff bit_mask_iff)
      qed
      then show ?thesis
        unfolding read using 2 True low by simp
    next
      case False
      have "take_bit (8 * n) v = v"
      proof (rule bit_word_eqI)
        fix i
        assume "i < LENGTH(64)"
        then show "bit (take_bit (8 * n) v) i = bit v i"
          using ext [of i] False by (cases "i < 8 * n") (simp_all add: bit_take_bit_iff)
      qed
      then show ?thesis
        unfolding read using 2 False low by simp
    qed
  next
    case 3
    then have "0 \<le> sint v" "sint v < 2 ^ (8 * n)"
      using assms(1) by (simp_all add: fits_in_def)
    then have "uint v < 2 ^ (8 * n)"
      using uint_sint [of v] sint_less [of v] by (simp add: take_bit_int_eq_self)
    then have "take_bit (8 * n) v = v"
      by (simp add: word_uint_eq_iff unsigned_take_bit_eq take_bit_int_eq_self)
    with 3 show ?thesis
      unfolding read by simp
  qed
qed
section \<open>Packing step by step\<close>

lemma and_not_sum: "(y AND NOT m) + (y AND m) = (y :: u64)"
  by (subst disjunctive_add_eq_or) (auto intro!: bit_eqI simp: bit_simps)

lemma align_bounds:
  assumes "w \<le> 16" and "unat p < 2 ^ 63"
  shows "unat p \<le> unat (align_pos p w a) \<and> unat (align_pos p w a) \<le> unat p + 15"
proof -
  define b where "b = min w a"
  have b: "unat b \<le> 16"
    using assms(1) by (simp add: b_def min_def word_le_nat_alt split: if_splits)
  show ?thesis
  proof (cases "b \<le> 1 \<or> p AND (b - 1) = 0")
    case True
    then show ?thesis
      by (auto simp: align_pos_def Let_def b_def)
  next
    case False
    let ?y = "p + b - 1"
    have b1: "unat (b - 1) = unat b - 1" "1 \<le> unat b"
      using False by (simp_all add: word_le_nat_alt unat_sub)
    have y: "unat ?y = unat p + (unat b - 1)"
    proof -
      have "unat p + unat (b - 1) < 2 ^ 64"
        using b b1 assms(2) by simp
      then have "unat (p + (b - 1)) = unat p + unat (b - 1)"
        using unat_add_lem [of p "b - 1"] by simp
      with b1 show ?thesis
        by (simp add: add_diff_eq)
    qed
    have and_y: "unat (?y AND (b - 1)) \<le> unat b - 1"
      using word_and_le1 [of ?y "b - 1"] b1 by (simp add: word_le_nat_alt)
    have "?y AND NOT (b - 1) = ?y - (?y AND (b - 1))"
      using and_not_sum [of ?y "b - 1"] by (simp add: eq_diff_eq)
    then have "unat (?y AND NOT (b - 1)) = unat ?y - unat (?y AND (b - 1))"
      using and_y y by (simp add: unat_sub word_le_nat_alt)
    then show ?thesis
      using False y and_y b by (simp add: align_pos_def Let_def b_def [symmetric]) linarith
  qed
qed

definition grows :: "packer \<Rightarrow> packer \<Rightarrow> bool" where
  "grows p p' \<longleftrightarrow> length (p_out p') = length (p_out p) \<and> unat (p_pos p) \<le> unat (p_pos p') \<and>
     take (unat (p_pos p)) (p_out p') = take (unat (p_pos p)) (p_out p)"

lemma take_prefix: "a \<le> b \<Longrightarrow> take b xs = take b ys \<Longrightarrow> take a xs = take a ys"
  by (metis min.absorb1 take_take)

lemma grows_refl: "grows p p"
  by (simp add: grows_def)

lemma grows_trans: "grows p q \<Longrightarrow> grows q r \<Longrightarrow> grows p r"
  using take_prefix [of "unat (p_pos p)" "unat (p_pos q)" "p_out r" "p_out q"] by (simp add: grows_def)

lemma pack_bytes_run:
  assumes "pack_bytes msg bs p s = (Fine p', s')"
  shows "s' = s" "unat (p_pos p') = unat (p_pos p) + length bs" "unat (p_pos p') \<le> length (p_out p)"
    "p_pos p' = p_pos p + word_of_nat (length bs)" "p' = p\<lparr>p_out := overlay (p_out p) (unat (p_pos p)) bs, p_pos := p_pos p'\<rparr>"
  using assms by (auto simp: pack_bytes_def put_def Let_def vm_simps split: if_splits option.splits)

lemma pack_bytes_grows: "pack_bytes msg bs p s = (Fine p', s') \<Longrightarrow> grows p p'"
  using pack_bytes_run [of msg bs p s p' s']
  by (cases p) (auto simp: grows_def overlay_def take_append)

text \<open>What is packed can be read from every source that starts with the buffer.\<close>

definition agrees :: "bytes \<Rightarrow> packer \<Rightarrow> bool" where
  "agrees inp p \<longleftrightarrow> unat (p_pos p) \<le> length inp \<and> take (unat (p_pos p)) inp = take (unat (p_pos p)) (p_out p)"

lemma agrees_before: "grows p p' \<Longrightarrow> agrees inp p' \<Longrightarrow> agrees inp p"
  using take_prefix [of "unat (p_pos p)" "unat (p_pos p')" inp "p_out p'"] by (simp add: grows_def agrees_def)

definition follows :: "unpacker \<Rightarrow> packer \<Rightarrow> bool" where
  "follows u p \<longleftrightarrow> u_little u = p_little p \<and> u_align u = p_align p \<and> u_pos u = p_pos p"

lemma agrees_slice:
  assumes "pack_bytes msg bs p s = (Fine p', s')" and "agrees inp p'"
  shows "slice inp (unat (p_pos p)) (unat (p_pos p')) = Some bs"
proof -
  note run = pack_bytes_run [OF assms(1)]
  have "seg inp (unat (p_pos p)) (unat (p_pos p')) = seg (take (unat (p_pos p')) inp) (unat (p_pos p)) (unat (p_pos p'))"
    by (simp add: seg_def drop_take)
  also have "\<dots> = seg (p_out p') (unat (p_pos p)) (unat (p_pos p'))"
    using assms(2) by (simp add: agrees_def seg_def drop_take)
  also have "p_out p' = overlay (p_out p) (unat (p_pos p)) bs"
    by (subst run(5)) simp
  also have "seg \<dots> (unat (p_pos p)) (unat (p_pos p')) = bs"
    using run(2,3) by (intro seg_full) simp_all
  finally show ?thesis
    using assms(2) run(2) by (simp add: slice_def agrees_def)
qed

lemma unpack_bytes_run:
  assumes "pack_bytes msg bs p s = (Fine p', s')" and "agrees inp p'" and "u_pos u = p_pos p" and "n = word_of_nat (length bs)"
  shows "unpack_bytes inp n u k t = k bs (u\<lparr>u_pos := p_pos p'\<rparr>) t"
proof -
  have "p_pos p + n = p_pos p'"
    using pack_bytes_run(4) [OF assms(1)] assms(4) by simp
  then show ?thesis
    using assms(2,3) agrees_slice [OF assms(1,2)]
    by (simp add: unpack_bytes_def Let_def vslice_def vm_simps agrees_def)
qed
section \<open>Values that options hold\<close>

definition takes_arg :: "pack_option \<Rightarrow> bool" where
  "takes_arg x \<longleftrightarrow> (case x of PInt _ _ \<Rightarrow> True | PSingle \<Rightarrow> True | PDouble \<Rightarrow> True | PChars _ \<Rightarrow> True | PTerminated \<Rightarrow> True
     | PPrefixed _ \<Rightarrow> True | _ \<Rightarrow> False)"

definition holds_str :: "lua \<Rightarrow> lval \<Rightarrow> (bytes \<Rightarrow> bool) \<Rightarrow> bool" where
  "holds_str s v P \<longleftrightarrow> (case v of VStr r \<Rightarrow> known_ref s r \<and> (case str_bytes s r of None \<Rightarrow> False | Some bs \<Rightarrow> P bs) | _ \<Rightarrow> False)"

text \<open>
  The values an option gives back as they were: integers in the range of its size, floats (of single
  precision for \<open>f\<close>), strings of the length of \<open>c\<close>, without a zero for \<open>z\<close>, and shorter than the
  largest length that \<open>s\<close> can write.
\<close>

definition holds :: "lua \<Rightarrow> pack_option \<Rightarrow> lval \<Rightarrow> bool" where
  "holds s x v \<longleftrightarrow> (case x of
       PInt n with_minus \<Rightarrow> (case v of VNum i \<Rightarrow> fits_in n with_minus i | _ \<Rightarrow> False)
     | PSingle \<Rightarrow> (case v of VFloat f \<Rightarrow> f64_of_f32 (f32_of_f64 f) = f | _ \<Rightarrow> False)
     | PDouble \<Rightarrow> (case v of VFloat f \<Rightarrow> True | _ \<Rightarrow> False)
     | PChars n \<Rightarrow> holds_str s v (\<lambda>bs. length bs = unat n)
     | PTerminated \<Rightarrow> holds_str s v (\<lambda>bs. 0 \<notin> set bs)
     | PPrefixed n \<Rightarrow> holds_str s v (\<lambda>bs. unat n < 8 \<longrightarrow> length bs < 2 ^ (8 * unat n))
     | _ \<Rightarrow> False)"

text \<open>An alignment of at most 16, as in the manual of Lua; the other options are in range by the parser.\<close>

definition small_option :: "pack_option \<Rightarrow> bool" where
  "small_option x \<longleftrightarrow> (case x of PAlign n \<Rightarrow> n \<le> 16 | PInt n _ \<Rightarrow> 1 \<le> n \<and> n \<le> 16 | _ \<Rightarrow> True)"

fun lossless :: "lua \<Rightarrow> pack_option option list \<Rightarrow> lval list \<Rightarrow> bool" where
  "lossless s [] vs = (vs = [])"
| "lossless s (None # xs) vs = False"
| "lossless s (Some x # xs) vs = (small_option x \<and>
     (if takes_arg x then (case vs of [] \<Rightarrow> False | v # vs \<Rightarrow> holds s x v \<and> lossless s xs vs) else lossless s xs vs))"

section \<open>Unpacking step by step\<close>

text \<open>A state in which the strings of another one are known.\<close>

definition recalls :: "lua \<Rightarrow> lua \<Rightarrow> bool" where
  "recalls s t \<longleftrightarrow> arena_ok t \<and> (\<forall>r bs. known_ref s r \<longrightarrow> str_bytes s r = Some bs \<longrightarrow> known_ref t r \<and> str_bytes t r = Some bs)"

definition push1 :: "lval \<Rightarrow> lua \<Rightarrow> lua" where
  "push1 v s = s\<lparr>vstack := (vstack s)(vsp s := v), vsp := vsp s + 1\<rparr>"

lemma recalls_push1: "recalls s t \<Longrightarrow> recalls s (push1 v t)"
  by (simp add: recalls_def push1_def arena_stack)

lemma unpacked_run:
  "vsp t < STACK_CAP \<Longrightarrow> unpacked v u t = (Fine (u\<lparr>u_results := u_results u + 1\<rparr>), push1 v t)"
  by (simp add: unpacked_def vm_simps vpush_def vlift_def push_val_def push1_def)

lemma unpacked_str_run:
  assumes "holds_str s v P" and "recalls s t" and "vsp t < STACK_CAP"
  shows "\<exists>r bs. v = VStr r \<and> str_bytes s r = Some bs \<and> P bs \<and>
    (\<forall>u. unpacked_str bs u t = (Fine (u\<lparr>u_results := u_results u + 1\<rparr>), push1 v t))"
proof -
  obtain r bs where r: "v = VStr r" "known_ref s r" "str_bytes s r = Some bs" "P bs"
    using assms(1) by (auto simp: holds_str_def split: lval.splits option.splits)
  then have "intern bs t = (Ok r, t)"
    using assms(2) by (intro intern_known) (auto simp: recalls_def)
  with r show ?thesis
    using assms(3) by (intro exI [of _ r] exI [of _ bs]) (simp add: unpacked_str_def vm_simps vlift_def unpacked_run)
qed

lemma pack_align_simps [simp]:
  "p_out (pack_align n p) = p_out p" "p_little (pack_align n p) = p_little p" "p_align (pack_align n p) = p_align p"
  "p_pos (pack_align n p) = align_pos (p_pos p) n (p_align p)" "p_args (pack_align n p) = p_args p"
  by (simp_all add: pack_align_def)

lemma unpack_align_simps [simp]:
  "u_little (unpack_align n u) = u_little u" "u_align (unpack_align n u) = u_align u"
  "u_pos (unpack_align n u) = align_pos (u_pos u) n (u_align u)" "u_results (unpack_align n u) = u_results u"
  by (simp_all add: unpack_align_def)

lemma pack_align_grows: "n \<le> 16 \<Longrightarrow> unat (p_pos p) < 2 ^ 63 \<Longrightarrow> grows p (pack_align n p)"
  using align_bounds [of n "p_pos p" "p_align p"] by (simp add: grows_def)
lemma pack_arg_run:
  assumes "pack_arg p k s = (Fine p', s')"
  obtains v vs where "p_args p = v # vs" "k v (p\<lparr>p_args := vs\<rparr>) s = (Fine p', s')"
  using assms by (auto simp: pack_arg_def vm_simps split: list.splits)

definition same_layout :: "packer \<Rightarrow> packer \<Rightarrow> bool" where
  "same_layout p q \<longleftrightarrow> p_little q = p_little p \<and> p_align q = p_align p"

lemma aligned_pack:
  assumes "pack_bytes msg bs (pack_align n (p\<lparr>p_args := vs\<rparr>)) s = (Fine p', s')" and "n \<le> 16" and "unat (p_pos p) < 2 ^ 40"
    and "length (p_out p) = PACK_CAP"
  shows "s' = s" "grows p p'" "unat (p_pos p') \<le> PACK_CAP" "p_args p' = vs" "same_layout p p'"
proof -
  let ?q = "pack_align n (p\<lparr>p_args := vs\<rparr>)"
  note run = pack_bytes_run [OF assms(1)]
  show "s' = s" "unat (p_pos p') \<le> PACK_CAP"
    using run(1,3) assms(4) by simp_all
  have "grows p ?q"
    using assms(2,3) align_bounds [of n "p_pos p" "p_align p"] by (simp add: grows_def)
  then show "grows p p'"
    using pack_bytes_grows [OF assms(1)] grows_trans by blast
  show "p_args p' = vs" "same_layout p p'"
    by (subst run(5), simp add: same_layout_def)+
qed

lemma aligned_unpack:
  assumes "pack_bytes msg bs (pack_align n (p\<lparr>p_args := vs\<rparr>)) s = (Fine p', s')" and "agrees inp p'" and "follows u p"
  shows "unpack_bytes inp (word_of_nat (length bs)) (unpack_align n u) k t = k bs (u\<lparr>u_pos := p_pos p'\<rparr>) t"
proof -
  have "u_pos (unpack_align n u) = p_pos (pack_align n (p\<lparr>p_args := vs\<rparr>))"
    using assms(3) by (simp add: follows_def)
  from unpack_bytes_run [OF assms(1,2) this refl, of k t] show ?thesis
    by (simp add: unpack_align_def)
qed

lemma plain_pack:
  assumes "pack_bytes msg bs (p\<lparr>p_args := vs\<rparr>) s = (Fine p', s')" and "length (p_out p) = PACK_CAP"
  shows "s' = s" "grows p p'" "unat (p_pos p') \<le> PACK_CAP" "p_args p' = vs" "same_layout p p'"
proof -
  note run = pack_bytes_run [OF assms(1)]
  show "s' = s" "unat (p_pos p') \<le> PACK_CAP" "grows p p'"
    using run(1,3) assms(2) pack_bytes_grows [OF assms(1)] by (simp_all add: grows_def)
  show "p_args p' = vs" "same_layout p p'"
    by (subst run(5), simp add: same_layout_def)+
qed

lemma follows_move: "follows u p \<Longrightarrow> same_layout p p' \<Longrightarrow> follows (u\<lparr>u_pos := p_pos p', u_results := n\<rparr>) p'"
  by (simp add: follows_def same_layout_def)

text \<open>The contract of an option that takes a value: it is packed, and unpacked again.\<close>

definition gives_back :: "pack_option \<Rightarrow> lua \<Rightarrow> packer \<Rightarrow> packer \<Rightarrow> lua \<Rightarrow> bool" where
  "gives_back x s p p' s' \<longleftrightarrow> s' = s \<and> grows p p' \<and> unat (p_pos p') \<le> max PACK_CAP (unat (p_pos p) + 15) \<and>
     (if takes_arg x then p_args p = hd (p_args p) # p_args p' else p_args p' = p_args p) \<and>
     (\<forall>inp u t. agrees inp p' \<longrightarrow> follows u p \<longrightarrow> recalls s t \<longrightarrow> (takes_arg x \<longrightarrow> vsp t < STACK_CAP) \<longrightarrow>
        (\<exists>u'. follows u' p' \<and> (if takes_arg x
           then unpack_item inp x u t = (Fine u', push1 (hd (p_args p)) t) \<and> u_results u' = u_results u + 1
           else unpack_item inp x u t = (Fine u', t) \<and> u_results u' = u_results u)))"

lemma gives_back_aligned:
  assumes "pack_bytes msg bs (pack_align n (p\<lparr>p_args := vs\<rparr>)) s = (Fine p', s')" and "n \<le> 16" and "unat (p_pos p) < 2 ^ 40"
    and "length (p_out p) = PACK_CAP" and "takes_arg x" and "p_args p = v # vs"
    and "\<And>inp u. unpack_item inp x u = unpack_bytes inp (word_of_nat (length bs)) (unpack_align n u) (\<lambda>bs u. unpacked (decode u bs) u)"
    and "\<And>u. u_little u = p_little p \<Longrightarrow> decode u bs = v"
  shows "gives_back x s p p' s'"
proof -
  note run = aligned_pack [OF assms(1-4)]
  have "\<exists>u'. follows u' p' \<and> unpack_item inp x u t = (Fine u', push1 v t) \<and> u_results u' = u_results u + 1"
    if "agrees inp p'" "follows u p" "vsp t < STACK_CAP" for inp u t
    using that aligned_unpack [OF assms(1) that(1,2), of "\<lambda>bs u. unpacked (decode u bs) u" t] assms(8) [of "u\<lparr>u_pos := p_pos p'\<rparr>"] run(5)
    by (intro exI [of _ "u\<lparr>u_pos := p_pos p', u_results := u_results u + 1\<rparr>"])
      (simp add: assms(7) unpacked_run follows_def same_layout_def)
  with run assms(5,6) show ?thesis
    by (simp add: gives_back_def)
qed
lemma no_arg_gives_back:
  assumes "\<not> takes_arg x" and "grows p p'" and "unat (p_pos p') \<le> max PACK_CAP (unat (p_pos p) + 15)" and "p_args p' = p_args p"
    and "\<And>inp u t. agrees inp p' \<Longrightarrow> follows u p \<Longrightarrow> \<exists>u'. follows u' p' \<and> unpack_item inp x u t = (Fine u', t) \<and> u_results u' = u_results u"
  shows "gives_back x s p p' s"
  using assms by (simp add: gives_back_def)

lemma gives_back_chars:
  assumes "pack_item (PChars n) p s = (Fine p', s')" and "length (p_out p) = PACK_CAP" and "holds s (PChars n) (hd (p_args p))"
  shows "gives_back (PChars n) s p p' s'"
proof -
  obtain v vs where v: "p_args p = v # vs" "vthen (str_arg ''string expected'' v) (\<lambda>bs.
       if unat (p_pos p + n) > length (p_out p) then raise ''result too long''
       else if unat n > length (p_out p) then vpanic
       else pack_bytes ''result too long'' (fixed (unat n) bs) (p\<lparr>p_args := vs\<rparr>)) s = (Fine p', s')"
    using assms(1) by (auto elim!: pack_arg_run cong: if_cong)
  have h: "holds_str s v (\<lambda>bs. length bs = unat n)"
    using assms(3) v(1) by (simp add: holds_def)
  then obtain bs where bs: "str_arg ''string expected'' v s = (Fine bs, s)" "length bs = unat n" "\<exists>r. v = VStr r \<and> str_bytes s r = Some bs"
    by (auto simp: holds_str_def str_arg_def vchecked_def split: lval.splits option.splits)
  then have run: "pack_bytes ''result too long'' bs (p\<lparr>p_args := vs\<rparr>) s = (Fine p', s')"
    using v(2) by (auto simp: vm_simps fixed_def split: if_splits)
  note plain = plain_pack [OF run assms(2)]
  have "\<exists>u'. follows u' p' \<and> unpack_item inp (PChars n) u t = (Fine u', push1 v t) \<and> u_results u' = u_results u + 1"
    if "agrees inp p'" "follows u p" "recalls s t" "vsp t < STACK_CAP" for inp u t
  proof -
    have "unpack_bytes inp n u unpacked_str t = unpacked_str bs (u\<lparr>u_pos := p_pos p'\<rparr>) t"
      using that(2) bs(2) by (intro unpack_bytes_run [OF run that(1)]) (simp_all add: follows_def)
    then show ?thesis
      using unpacked_str_run [OF h that(3,4)] bs(3) follows_move [OF that(2) plain(5), of "u_results u + 1"] by auto
  qed
  with plain v(1) show ?thesis
    by (simp add: gives_back_def takes_arg_def)
qed

lemma gives_back_terminated:
  assumes "pack_item PTerminated p s = (Fine p', s')" and "length (p_out p) = PACK_CAP" and "holds s PTerminated (hd (p_args p))"
  shows "gives_back PTerminated s p p' s'"
proof -
  obtain v vs where v: "p_args p = v # vs" "vthen (str_arg ''string expected'' v) (\<lambda>bs.
       pack_bytes ''result too long'' (bs @ [0]) (p\<lparr>p_args := vs\<rparr>)) s = (Fine p', s')"
    using assms(1) by (auto elim!: pack_arg_run cong: if_cong)
  have h: "holds_str s v (\<lambda>bs. 0 \<notin> set bs)"
    using assms(3) v(1) by (simp add: holds_def)
  then obtain bs where bs: "str_arg ''string expected'' v s = (Fine bs, s)" "0 \<notin> set bs" "\<exists>r. v = VStr r \<and> str_bytes s r = Some bs"
    by (auto simp: holds_str_def str_arg_def vchecked_def split: lval.splits option.splits)
  then have run: "pack_bytes ''result too long'' (bs @ [0]) (p\<lparr>p_args := vs\<rparr>) s = (Fine p', s')"
    using v(2) by (simp add: vm_simps)
  note plain = plain_pack [OF run assms(2)]
  note pos = pack_bytes_run(2) [OF run]
  have "\<exists>u'. follows u' p' \<and> unpack_item inp PTerminated u t = (Fine u', push1 v t) \<and> u_results u' = u_results u + 1"
    if "agrees inp p'" "follows u p" "recalls s t" "vsp t < STACK_CAP" for inp u t
  proof -
    let ?a = "unat (p_pos p)"
    have "slice inp ?a (unat (p_pos p')) = Some (bs @ [0])"
      using agrees_slice [OF run that(1)] by simp
    then have all: "take (length bs + 1) (drop ?a inp) = bs @ [0]" and len: "?a + length bs < length inp"
      using pos by (auto simp: slice_def seg_def split: if_splits)
    have drop: "drop ?a inp = bs @ 0 # drop (?a + length bs + 1) inp"
      using append_take_drop_id [of "length bs + 1" "drop ?a inp"] unfolding all by (simp add: add.commute add.left_commute)
    then have "takeWhile (\<lambda>b. b \<noteq> 0) (drop ?a inp) = bs"
      using bs(2) by (auto simp: drop takeWhile_tail takeWhile_eq_all_conv)
    moreover have "vslice inp ?a (?a + length bs) = vok bs"
      using len drop by (simp add: vslice_def slice_def seg_def)
    moreover have "word_of_nat (?a + length bs + 1) = p_pos p'"
    proof -
      have "?a + length bs + 1 = unat (p_pos p')"
        using pos by simp
      then show ?thesis
        by (simp only: of_nat_unat ucast_id)
    qed
    ultimately show ?thesis
      using that(2) len unpacked_str_run [OF h that(3,4)] bs(3) follows_move [OF that(2) plain(5), of "u_results u + 1"]
      by (auto simp: vm_simps follows_def)
  qed
  with plain v(1) show ?thesis
    by (simp add: gives_back_def takes_arg_def)
qed
lemma gives_back_prefixed:
  assumes "pack_item (PPrefixed n) p s = (Fine p', s')" and "length (p_out p) = PACK_CAP" and "unat (p_pos p) < 2 ^ 40"
    and "holds s (PPrefixed n) (hd (p_args p))"
  shows "gives_back (PPrefixed n) s p p' s'"
proof -
  have n: "n \<le> 16" "\<not> 16 < n"
    using assms(1) by (auto simp: vm_simps split: if_splits)
  obtain v vs where v: "p_args p = v # vs" "vthen (str_arg ''string expected'' v) (\<lambda>bs.
       vthen (write_int (unat n) (word_of_nat (length bs)) (pack_align n (p\<lparr>p_args := vs\<rparr>))) (pack_bytes ''result too long'' bs)) s = (Fine p', s')"
    using assms(1) n by (auto elim!: pack_arg_run)
  have h: "holds_str s v (\<lambda>bs. unat n < 8 \<longrightarrow> length bs < 2 ^ (8 * unat n))"
    using assms(4) v(1) by (simp add: holds_def)
  then obtain bs where bs: "str_arg ''string expected'' v s = (Fine bs, s)" "unat n < 8 \<longrightarrow> length bs < 2 ^ (8 * unat n)"
      "\<exists>r. v = VStr r \<and> str_bytes s r = Some bs"
    by (auto simp: holds_str_def str_arg_def vchecked_def split: lval.splits option.splits)
  define b where "b = p_little p"
  let ?lb = "in_order_of b (int_bytes (unat n) (word_of_nat (length bs)))"
  obtain p1 s1 where run1: "pack_bytes ''result too long'' ?lb (pack_align n (p\<lparr>p_args := vs\<rparr>)) s = (Fine p1, s1)"
    and run2: "pack_bytes ''result too long'' bs p1 s1 = (Fine p', s')"
    using v(2) bs(1) by (auto simp: vm_simps write_int_def b_def split: prod.splits vres.splits)
  note one = aligned_pack [OF run1 n(1) assms(3,2)]
  have cap: "length (p_out p1) = PACK_CAP"
    using one(2) assms(2) by (simp add: grows_def)
  have run2': "pack_bytes ''result too long'' bs (p1\<lparr>p_args := vs\<rparr>) s = (Fine p', s')"
    using run2 one(1,4) by (cases p1) simp
  note two = plain_pack [OF run2' cap]
  have fits: "length bs < 2 ^ 64"
    using pack_bytes_run(2,3) [OF run2] cap by (simp add: PACK_CAP_def)
  have number: "le_word 0 (int_bytes (unat n) (word_of_nat (length bs))) = word_of_nat (length bs)"
    using bs(2) fits unfolding int_bytes_le
    by (cases "unat n < 8") (simp_all add: take_bit_word_eq_self word_unat_eq_iff unsigned_take_bit_eq unat_of_nat take_bit_nat_eq_self)
  have layout: "same_layout p p'"
    using one(5) two(5) by (simp add: same_layout_def)
  have "\<exists>u'. follows u' p' \<and> unpack_item inp (PPrefixed n) u t = (Fine u', push1 v t) \<and> u_results u' = u_results u + 1"
    if "agrees inp p'" "follows u p" "recalls s t" "vsp t < STACK_CAP" for inp u t
  proof -
    have before: "agrees inp p1"
      using agrees_before that(1) two(2) by (simp add: grows_def agrees_before)
    have "unpack_item inp (PPrefixed n) u t = unpack_bytes inp (word_of_nat (length bs)) (u\<lparr>u_pos := p_pos p1\<rparr>) unpacked_str t"
      using n that(2) aligned_unpack [OF run1 before that(2), where k = "\<lambda>bs u. unpack_bytes inp (le_word 0 (in_order_of (u_little u) bs)) u unpacked_str"]
      by (simp add: number follows_def b_def)
    also have "\<dots> = unpacked_str bs (u\<lparr>u_pos := p_pos p'\<rparr>) t"
      using unpack_bytes_run [OF run2 that(1), of "u\<lparr>u_pos := p_pos p1\<rparr>" _ unpacked_str t] by simp
    finally show ?thesis
      using unpacked_str_run [OF h that(3,4)] bs(3) follows_move [OF that(2) layout, of "u_results u + 1"] by auto
  qed
  moreover have "grows p p'"
    using grows_trans [OF one(2) two(2)] .
  ultimately show ?thesis
    using two one(1) v(1) by (simp add: gives_back_def takes_arg_def)
qed

lemma pack_item_gives_back:
  assumes "pack_item x p s = (Fine p', s')" and "small_option x" and "unat (p_pos p) < 2 ^ 40" and "length (p_out p) = PACK_CAP"
    and "takes_arg x \<Longrightarrow> holds s x (hd (p_args p))"
  shows "gives_back x s p p' s'"
proof (cases x)
  case (PInt n m)
  obtain v vs where v: "p_args p = v # vs" "vthen (to_integer_for_format v) (\<lambda>i. write_int n i (pack_align (word_of_nat n) (p\<lparr>p_args := vs\<rparr>))) s = (Fine p', s')"
    using assms(1) PInt by (auto elim!: pack_arg_run)
  obtain i where i: "v = VNum i" "fits_in n m i"
    using assms(5) PInt v(1) by (auto simp: holds_def takes_arg_def split: lval.splits)
  have n: "1 \<le> n" "n \<le> 16"
    using assms(2) PInt by (simp_all add: small_option_def)
  show ?thesis
    using v(2) i assms(3-4) n PInt v(1) read_int_bytes [OF i(2) n(1)]
    by (intro gives_back_aligned [where bs = "in_order_of (p_little p) (int_bytes n i)" and n = "word_of_nat n" and vs = vs and v = v
          and decode =  "\<lambda>u bs. VNum (read_int (u_little u) m bs)"])
      (simp_all add: to_integer_for_format_def whole_number_def vm_simps write_int_def word_le_nat_alt unat_of_nat takes_arg_def)
next
  case PSingle
  obtain v vs where v: "p_args p = v # vs" "vthen (float_arg ''number expected'' v) (\<lambda>f. pack_bytes ''result too long''
        (in_order_of (p_little p) (int_bytes 4 (ucast (f32_of_f64 f)))) (pack_align 4 (p\<lparr>p_args := vs\<rparr>))) s = (Fine p', s')"
    using assms(1) PSingle by (auto elim!: pack_arg_run)
  obtain f where f: "v = VFloat f" "f64_of_f32 (f32_of_f64 f) = f"
    using assms(5) PSingle v(1) by (auto simp: holds_def takes_arg_def split: lval.splits)
  have decode: "ucast (take_bit 32 (ucast w :: u64)) = (w :: u32)" for w
    by (auto intro!: bit_eqI simp: bit_simps)
  show ?thesis
    using v(2) f assms(3-4) PSingle v(1)
    by (intro gives_back_aligned [where bs = "in_order_of (p_little p) (int_bytes 4 (ucast (f32_of_f64 f)))" and n = 4 and vs = vs and v = v
          and decode =  "\<lambda>u bs. VFloat (f64_of_f32 (ucast (le_word 0 (in_order_of (u_little u) bs))))"])
      (simp_all add: float_arg_def float_of_def vm_simps takes_arg_def int_bytes_le decode)
next
  case PDouble
  obtain v vs where v: "p_args p = v # vs" "vthen (float_arg ''number expected'' v) (\<lambda>f. pack_bytes ''result too long''
        (in_order_of (p_little p) (int_bytes 8 f)) (pack_align 8 (p\<lparr>p_args := vs\<rparr>))) s = (Fine p', s')"
    using assms(1) PDouble by (auto elim!: pack_arg_run)
  obtain f where f: "v = VFloat f"
    using assms(5) PDouble v(1) by (auto simp: holds_def takes_arg_def split: lval.splits)
  show ?thesis
    using v(2) f assms(3-4) PDouble v(1)
    by (intro gives_back_aligned [where bs = "in_order_of (p_little p) (int_bytes 8 f)" and n = 8 and vs = vs and v = v
          and decode =  "\<lambda>u bs. VFloat (le_word 0 (in_order_of (u_little u) bs))"])
      (simp_all add: float_arg_def float_of_def vm_simps takes_arg_def int_bytes_le take_bit_word_eq_self)
next
  case (PChars n)
  then show ?thesis
    using assms gives_back_chars by (simp add: takes_arg_def)
next
  case PTerminated
  then show ?thesis
    using assms gives_back_terminated by (simp add: takes_arg_def)
next
  case (PPrefixed n)
  then show ?thesis
    using assms gives_back_prefixed by (simp add: takes_arg_def)
next
  case (PAlign n)
  then have "p' = pack_align n p" "s' = s" "n \<le> 16"
    using assms(1,2) by (auto simp: vm_simps small_option_def)
  then show ?thesis
    using PAlign assms(3) pack_align_grows [of n p] align_bounds [of n "p_pos p" "p_align p"]
    by (auto intro!: no_arg_gives_back simp: takes_arg_def vm_simps follows_def)
next
  case PZero
  have run: "pack_bytes ''string.pack result too long'' [0] (p\<lparr>p_args := p_args p\<rparr>) s = (Fine p', s')"
    using assms(1) PZero by (auto simp: vm_simps split: if_splits)
  note plain = plain_pack [OF run assms(4)]
  note pos = pack_bytes_run [OF run]
  show ?thesis
    using PZero plain pos
    by (auto intro!: no_arg_gives_back exI [of _ "u\<lparr>u_pos := u_pos u + 1\<rparr>" for u]
        simp: takes_arg_def vm_simps follows_def same_layout_def agrees_def)
qed (use assms(1) in \<open>auto intro!: no_arg_gives_back simp: takes_arg_def vm_simps follows_def grows_def\<close>)
section \<open>Unpacking undoes packing\<close>

lemma pack_items_step:
  assumes "pack_items (x # xs) p s = (Fine p', s')"
  obtains y q s1 where "x = Some y" "pack_item y p s = (Fine q, s1)" "pack_items xs q s1 = (Fine p', s')"
  using assms by (auto simp: vm_simps split: option.splits prod.splits vres.splits)

fun pushes :: "lval list \<Rightarrow> lua \<Rightarrow> lua" where
  "pushes [] s = s"
| "pushes (v # vs) s = pushes vs (push1 v s)"

lemma pack_items_back:
  assumes "pack_items xs p s = (Fine p', s')" and "lossless s xs (p_args p)" and "unat (p_pos p) + 16 * length xs < 2 ^ 40"
    and "PACK_CAP + 16 * length xs < 2 ^ 40" and "length (p_out p) = PACK_CAP"
  shows "s' = s \<and> grows p p' \<and> (\<forall>inp u t. agrees inp p' \<longrightarrow> follows u p \<longrightarrow> recalls s t \<longrightarrow>
     vsp t + length (p_args p) \<le> STACK_CAP \<longrightarrow> (\<exists>u'. follows u' p' \<and> u_results u' = u_results u + word_of_nat (length (p_args p)) \<and>
       unpack_items inp xs u t = (Fine u', pushes (p_args p) t)))"
  using assms
proof (induction xs arbitrary: p)
  case Nil
  then show ?case
    by (auto simp: vm_simps grows_refl)
next
  case (Cons x xs)
  obtain y q s1 where y: "x = Some y" "pack_item y p s = (Fine q, s1)" "pack_items xs q s1 = (Fine p', s')"
    using Cons.prems(1) by (rule pack_items_step)
  have y2: "small_option y" "takes_arg y \<Longrightarrow> p_args p \<noteq> [] \<and> holds s y (hd (p_args p)) \<and> lossless s xs (tl (p_args p))"
      "\<not> takes_arg y \<Longrightarrow> lossless s xs (p_args p)"
    using Cons.prems(2) y(1) by (auto split: if_splits list.splits)
  have step: "gives_back y s p q s1"
    using Cons.prems(3,5) y2 by (intro pack_item_gives_back [OF y(2)]) simp_all
  then have q: "s1 = s" "grows p q" "unat (p_pos q) \<le> max PACK_CAP (unat (p_pos p) + 15)"
      "if takes_arg y then p_args p = hd (p_args p) # p_args q else p_args q = p_args p"
    by (simp_all add: gives_back_def)
  have "lossless s xs (p_args q)"
    using q(4) y2 by (cases "takes_arg y") (simp_all, metis list.sel(3))
  moreover have "unat (p_pos q) + 16 * length xs < 2 ^ 40" "PACK_CAP + 16 * length xs < 2 ^ 40" "length (p_out q) = PACK_CAP"
    using q(2,3) Cons.prems(3-5) by (auto simp: grows_def)
  ultimately have IH: "s' = s \<and> grows q p' \<and> (\<forall>inp u t. agrees inp p' \<longrightarrow> follows u q \<longrightarrow> recalls s t \<longrightarrow>
     vsp t + length (p_args q) \<le> STACK_CAP \<longrightarrow> (\<exists>u'. follows u' p' \<and> u_results u' = u_results u + word_of_nat (length (p_args q)) \<and>
       unpack_items inp xs u t = (Fine u', pushes (p_args q) t)))"
    using y(3) q(1) by (intro Cons.IH) simp_all
  have "\<exists>u'. follows u' p' \<and> u_results u' = u_results u + word_of_nat (length (p_args p)) \<and>
       unpack_items inp (x # xs) u t = (Fine u', pushes (p_args p) t)"
    if a: "agrees inp p'" "follows u p" "recalls s t" "vsp t + length (p_args p) \<le> STACK_CAP" for inp u t
  proof (cases "takes_arg y")
    case True
    then obtain v where v: "p_args p = v # p_args q"
      using q(4) by auto
    have "agrees inp q"
      using agrees_before IH a(1) by blast
    then obtain u1 where u1: "follows u1 q" "unpack_item inp y u t = (Fine u1, push1 v t)" "u_results u1 = u_results u + 1"
      using step a True v unfolding gives_back_def by fastforce
    have "vsp (push1 v t) + length (p_args q) \<le> STACK_CAP"
      using a(4) v by (simp add: push1_def)
    then obtain u' where "follows u' p'" "u_results u' = u_results u1 + word_of_nat (length (p_args q))"
        "unpack_items inp xs u1 (push1 v t) = (Fine u', pushes (p_args q) (push1 v t))"
      using IH a(1) u1(1) recalls_push1 [OF a(3)] by blast
    with u1 v y(1) show ?thesis
      by (intro exI [of _ u']) (simp add: vm_simps)
  next
    case False
    then have v: "p_args q = p_args p"
      using q(4) by simp
    have "agrees inp q"
      using agrees_before IH a(1) by blast
    then obtain u1 where u1: "follows u1 q" "unpack_item inp y u t = (Fine u1, t)" "u_results u1 = u_results u"
      using step a False unfolding gives_back_def by fastforce
    then obtain u' where "follows u' p'" "u_results u' = u_results u1 + word_of_nat (length (p_args q))"
        "unpack_items inp xs u1 t = (Fine u', pushes (p_args q) t)"
      using IH a v by metis
    with u1 v y(1) show ?thesis
      by (intro exI [of _ u']) (simp add: vm_simps)
  qed
  with IH q(2) show ?case
    using grows_trans by blast
qed
lemma pushes_simps: "vsp (pushes vs s) = vsp s + length vs"
  "vstack (pushes vs s) i = (if vsp s \<le> i \<and> i < vsp s + length vs then vs ! (i - vsp s) else vstack s i)"
proof (induction vs arbitrary: s)
  case (Cons v vs)
  { case 1 show ?case using Cons by (simp add: push1_def) }
  { case 2 show ?case using Cons by (auto simp: push1_def nth_Cons') }
qed auto

lemma fmt_options_length: "length (fmt_options fmt) \<le> length fmt"
proof (induction fmt rule: fmt_options.induct)
  case (2 c r)
  show ?case
  proof (cases "fmt_option (c # r)")
    case (Pair x r')
    then show ?thesis
      using 2 [OF Pair [symmetric]] fmt_option_shorter [of c r] by (cases x) auto
  qed
qed simp

text \<open>What a run of \<open>string.pack\<close> consists of.\<close>

lemma string_pack_run:
  assumes "str_bytes s fr = Some fmt" and "string_pack (VStr fr # vs) s = (Fine (Ret (VStr r)), s1)"
  obtains p s0 where "length fmt \<le> STR_CAP" "pack_items (fmt_options fmt) (new_packer vs) s = (Fine p, s0)"
    "unat (p_pos p) \<le> length (p_out p)" "intern (take (unat (p_pos p)) (p_out p)) s0 = (Ok r, s1)"
  using assms
  by (auto simp: string_pack_def str_arg_def vchecked_def fmt_arg_def vm_simps vslice_def slice_def seg_def ret_str_def vlift_def
      split: if_splits prod.splits vres.splits res.splits)

text \<open>The big-endian format \<open>>h\<close>, for the examples.\<close>

lemma pack_sample:
  obtains s fr r s1 where "arena_ok s" "known_ref s fr" "str_bytes s fr = Some (lit ''>h'')" "vsp s1 = 0"
    "string_pack [VStr fr, VNum (-2)] s = (Fine (Ret (VStr r)), s1)" "lossless s (fmt_options (lit ''>h'')) [VNum (-2)]"
    "size_items (fmt_options (lit ''>h'')) (0, 1) s = (Fine (2, 1), s)"
proof -
  have "nstrings new_lua = 0" "str_next new_lua = 0" "vsp new_lua = 0"
    by (simp_all add: new_lua_def)
  then obtain fr s where s: "intern (lit ''>h'') new_lua = (Ok fr, s)" "nstrings s \<le> 1" "str_next s \<le> 2" "vsp s = 0"
    using intern_room [of new_lua "lit ''>h''"] by (auto simp: lua_caps lit_def)
  have a: "arena_ok s" "known_ref s fr" "str_bytes s fr = Some (lit ''>h'')"
    using arena.intern_inv [OF new_lua_arena(1) s(1)] arena.intern_result [OF new_lua_arena(1) s(1)] by auto
  have options: "fmt_options (lit ''>h'') = [Some (POrder False), Some (PInt 2 True)]"
    by (simp add: lit_def fmt_option.simps parse_fmt_num_def is_digit_def)
  obtain p where p: "pack_items (fmt_options (lit ''>h'')) (new_packer [VNum (-2)]) s = (Fine p, s)" "p_pos p = 2" "length (p_out p) = PACK_CAP"
    by (simp add: options vm_simps new_packer_def pack_arg_def to_integer_for_format_def whole_number_def write_int_def
        pack_align_def align_pos_def pack_bytes_def put_def PACK_CAP_def)
  then obtain r s1 where r: "intern (take 2 (p_out p)) s = (Ok r, s1)" "vsp s1 = 0"
    using intern_room [of s "take 2 (p_out p)"] s(2-4) by (auto simp: lua_caps PACK_CAP_def)
  then have run: "string_pack [VStr fr, VNum (-2)] s = (Fine (Ret (VStr r)), s1)"
    using a(3) p by (simp add: string_pack_def str_arg_def vchecked_def vm_simps fmt_arg_def lit_def lua_caps vslice_def slice_def
        seg_def ret_str_def vlift_def PACK_CAP_def)
  have "lossless s (fmt_options (lit ''>h'')) [VNum (-2)]" "size_items (fmt_options (lit ''>h'')) (0, 1) s = (Fine (2, 1), s)"
    by (simp_all add: options small_option_def takes_arg_def holds_def fits_in_def vm_simps align_pos_def)
  with that [OF a r(2) run] show ?thesis .
qed

text \<open>
  C9. Unpacking undoes packing: for every format, the values that its options hold come undo from
  \<open>string.unpack\<close> of the packed string, followed by the position after it.
\<close>

theorem unpack_packed:
  assumes "arena_ok s" and "known_ref s fr" and fmt: "str_bytes s fr = Some fmt"
    and fits: "lossless s (fmt_options fmt) vs" and run: "string_pack (VStr fr # vs) s = (Fine (Ret (VStr r)), s1)"
    and room: "vsp s1 + length vs < STACK_CAP" and few: "length vs < 255"
  shows "\<exists>n s2. string_unpack [VStr fr, VStr r] s1 =
      (Fine (if length vs = 1 then Ret2 (hd vs) (VNum n) else RetN (length vs + 1)), s2) \<and>
    (\<forall>j<length vs. vstack s2 (vsp s1 + j) = vs ! j) \<and> vstack s2 (vsp s1 + length vs) = VNum n \<and>
    (\<exists>bs. str_bytes s1 r = Some bs \<and> n = word_of_nat (length bs + 1))"
proof -
  obtain p s0 where p: "length fmt \<le> STR_CAP" "pack_items (fmt_options fmt) (new_packer vs) s = (Fine p, s0)"
      "unat (p_pos p) \<le> length (p_out p)" "intern (take (unat (p_pos p)) (p_out p)) s0 = (Ok r, s1)"
    using fmt run by (rule string_pack_run)
  let ?inp = "take (unat (p_pos p)) (p_out p)"
  have "length (fmt_options fmt) \<le> 2 ^ 20"
    using p(1) fmt_options_length [of fmt] by (simp add: lua_caps)
  then have undo: "s0 = s" "grows (new_packer vs) p"
      "\<And>inp u t. agrees inp p \<Longrightarrow> follows u (new_packer vs) \<Longrightarrow> recalls s t \<Longrightarrow> vsp t + length vs \<le> STACK_CAP \<Longrightarrow>
        \<exists>u'. follows u' p \<and> u_results u' = u_results u + word_of_nat (length vs) \<and>
          unpack_items inp (fmt_options fmt) u t = (Fine u', pushes vs t)"
    using pack_items_back [OF p(2)] fits by (simp_all add: new_packer_def PACK_CAP_def)
  note i = p(4) [unfolded undo(1)]
  have t: "arena_ok s1" "known_ref s1 r" "str_bytes s1 r = Some ?inp"
    using arena.intern_inv [OF assms(1) i] arena.intern_result [OF assms(1) i] by auto
  have "recalls s s1"
    using t(1) arena.intern_keeps [OF assms(1) i] by (auto simp: recalls_def)
  let ?u = "\<lparr>u_little = True, u_align = 1, u_pos = 0, u_results = 0\<rparr>"
  obtain u' where u': "u_pos u' = p_pos p" "u_results u' = word_of_nat (length vs)"
      "unpack_items ?inp (fmt_options fmt) ?u s1 = (Fine u', pushes vs s1)"
    using undo(3) [of ?inp ?u s1] \<open>recalls s s1\<close> room p(3) by (auto simp: agrees_def follows_def new_packer_def)
  have len: "length (p_out p) = PACK_CAP" "length ?inp = unat (p_pos p)"
    using undo(2) p(3) by (simp_all add: grows_def new_packer_def)
  obtain n t where n: "p_pos p + 1 = n" and t1: "push1 (VNum n) (pushes vs s1) = t"
    by blast
  have results: "unat (word_of_nat (length vs) + 1 :: u8) = length vs + 1" "(word_of_nat (length vs) + 1 :: u8) = 2 \<longleftrightarrow> length vs = 1"
  proof -
    show u: "unat (word_of_nat (length vs) + 1 :: u8) = length vs + 1"
      using few unat_of_nat [where ?'a = 8, of "length vs + 1"] by (simp add: add.commute)
    show "(word_of_nat (length vs) + 1 :: u8) = 2 \<longleftrightarrow> length vs = 1"
      using u by (auto simp: word_unat_eq_iff)
  qed
  have kept: "str_bytes s1 fr = Some fmt"
    using \<open>recalls s s1\<close> assms(2,3) by (simp add: recalls_def)
  have "string_unpack [VStr fr, VStr r] s1 = (if length vs = 1
      then (Fine (Ret2 (vstack t (vsp t - 2)) (vstack t (vsp t - 1))), t\<lparr>vsp := vsp t - 2\<rparr>) else (Fine (RetN (length vs + 1)), t))"
    using kept t(3) u' len p(1,3) room results n t1
    by (simp add: string_unpack_def argc_between_def str_arg_def vchecked_def vm_simps optional_def fmt_arg_def unpacked_run
        pushes_simps set_vsp_def)
  moreover have "vstack t (vsp s1 + j) = vs ! j" if "j < length vs" for j
    using that t1 by (auto simp: push1_def pushes_simps)
  moreover have "vstack t (vsp s1 + length vs) = VNum n" "vsp t = vsp s1 + length vs + 1"
    using t1 by (auto simp: push1_def pushes_simps)
  moreover have "n = word_of_nat (length ?inp + 1)"
    using len(2) n by (simp add: add.commute)
  ultimately show ?thesis
    using t(3) by (cases vs; cases "length vs = 1") (auto intro!: exI [of _ n])
qed

lemma unpack_packed_witness:
  "\<exists>s fr r s1 n s2. str_bytes s fr = Some (lit ''>h'') \<and> string_pack [VStr fr, VNum (-2)] s = (Fine (Ret (VStr r)), s1) \<and>
    string_unpack [VStr fr, VStr r] s1 = (Fine (Ret2 (VNum (-2)) (VNum n)), s2)"
proof -
  obtain s fr r s1 where s: "arena_ok s" "known_ref s fr" "str_bytes s fr = Some (lit ''>h'')" "vsp s1 = 0"
    "string_pack [VStr fr, VNum (-2)] s = (Fine (Ret (VStr r)), s1)" "lossless s (fmt_options (lit ''>h'')) [VNum (-2)]"
    by (rule pack_sample)
  from unpack_packed [OF s(1-3,6,5)] s(3-5) show ?thesis
    by (fastforce simp: lua_caps)
qed

section \<open>Sizes\<close>

lemma size_item_run:
  assumes "pack_item x p s = (Fine q, s')" and "size_item x (p_pos p, p_align p) s = (Fine na, s'')"
  shows "na = (p_pos q, p_align q) \<and> s' = s \<and> s'' = s"
proof -
  have str: "str_arg m v u = (Fine bs, t) \<Longrightarrow> t = u" for m v bs t u
    by (auto simp: str_arg_def vchecked_def vm_simps split: lval.splits option.splits)
  have num: "to_integer_for_format v u = (Fine i, t) \<Longrightarrow> t = u" for v i t u
    by (auto simp: to_integer_for_format_def whole_number_def vm_simps split: lval.splits if_splits)
  have flt: "float_arg m v u = (Fine f, t) \<Longrightarrow> t = u" for m v f t u
    by (auto simp: float_arg_def vm_simps split: option.splits)
  have bytes: "p_pos q' = p_pos p' + word_of_nat (length bs) \<and> p_align q' = p_align p' \<and> t' = t"
    if "pack_bytes m bs p' t = (Fine q', t')" for m bs p' t q' t'
    using pack_bytes_run(1,4) [OF that] by (subst pack_bytes_run(5) [OF that]) simp
  have len: "length (fixed n bs) = n" for n bs
    by (simp add: fixed_def)
  show ?thesis
    using assms
    by (cases x) (auto simp: vm_simps write_int_def len split: if_splits prod.splits vres.splits dest!: str num flt bytes elim!: pack_arg_run)
qed

lemma size_items_run:
  assumes "pack_items xs p s = (Fine q, s')" and "size_items xs (p_pos p, p_align p) s = (Fine na, s'')"
  shows "na = (p_pos q, p_align q) \<and> s' = s \<and> s'' = s"
  using assms
proof (induction xs arbitrary: p)
  case (Cons x xs)
  obtain y q1 s1 where y: "x = Some y" "pack_item y p s = (Fine q1, s1)" "pack_items xs q1 s1 = (Fine q, s')"
    using Cons.prems(1) by (rule pack_items_step)
  then obtain na1 s2 where na1: "size_item y (p_pos p, p_align p) s = (Fine na1, s2)" "size_items xs na1 s2 = (Fine na, s'')"
    using Cons.prems(2) by (auto simp: vm_simps split: prod.splits vres.splits)
  with size_item_run [OF y(2) na1(1)] y(3) Cons.IH show ?case
    by simp
qed (auto simp: vm_simps)

text \<open>
  C10. \<open>string.packsize\<close> is exact: whenever it gives a size, every string that \<open>string.pack\<close> makes with
  that format has this size.
\<close>

theorem packsize_exact:
  assumes "arena_ok s" and fmt: "str_bytes s fr = Some fmt" and run: "string_pack (VStr fr # vs) s = (Fine (Ret (VStr r)), s1)"
    and size: "string_packsize [VStr fr] s = (Fine (Ret (VNum n)), s2)"
  shows "s2 = s \<and> (\<exists>bs. str_bytes s1 r = Some bs \<and> length bs = unat n)"
proof -
  obtain p s0 where p: "length fmt \<le> STR_CAP" "pack_items (fmt_options fmt) (new_packer vs) s = (Fine p, s0)"
      "unat (p_pos p) \<le> length (p_out p)" "intern (take (unat (p_pos p)) (p_out p)) s0 = (Ok r, s1)"
    using fmt run by (rule string_pack_run)
  have "\<exists>na. size_items (fmt_options fmt) (p_pos (new_packer vs), p_align (new_packer vs)) s = (Fine na, s2) \<and> fst na = n"
    using size fmt p(1) by (auto simp: string_packsize_def argc_between_def str_arg_def vchecked_def fmt_arg_def vm_simps new_packer_def
        split: if_splits prod.splits vres.splits)
  with size_items_run [OF p(2)] have n: "p_pos p = n" "s0 = s" "s2 = s"
    by auto
  have "str_bytes s1 r = Some (take (unat n) (p_out p))"
    using arena.intern_result [OF assms(1)] p(4) n by blast
  with p(3) n show ?thesis
    by simp
qed

lemma packsize_exact_witness:
  "\<exists>s fr r s1 bs. str_bytes s fr = Some (lit ''>h'') \<and> string_pack [VStr fr, VNum (-2)] s = (Fine (Ret (VStr r)), s1) \<and>
    str_bytes s1 r = Some bs \<and> length bs = 2"
proof -
  obtain s fr r s1 where s: "arena_ok s" "known_ref s fr" "str_bytes s fr = Some (lit ''>h'')" "vsp s1 = 0"
    "string_pack [VStr fr, VNum (-2)] s = (Fine (Ret (VStr r)), s1)" "lossless s (fmt_options (lit ''>h'')) [VNum (-2)]"
    "size_items (fmt_options (lit ''>h'')) (0, 1) s = (Fine (2, 1), s)"
    by (rule pack_sample)
  then have "string_packsize [VStr fr] s = (Fine (Ret (VNum 2)), s)"
    by (simp add: string_packsize_def argc_between_def str_arg_def vchecked_def fmt_arg_def vm_simps lit_def lua_caps)
  from packsize_exact [OF s(1,3,5) this] obtain bs where "str_bytes s1 r = Some bs" "length bs = 2"
    by auto
  with s(3,5) show ?thesis
    by blast
qed

end
