(* ===== verification/LuaEval.thy ===== *)
theory LuaEval
  imports LuaFuel
begin

text \<open>
  The code that \<^verbatim>\<open>compile_expr\<close> of \<^verbatim>\<open>lua/src/vm.rs\<close> emits computes the expression: an evaluator by
  recursion on the syntax, without a stack or jumps, is the specification, and the run of the machine
  over the code of the expression refines it, for values, errors and panics. Expressions are those of
  constants, variables, operators and indexing, in a memory without metatables.
\<close>

section \<open>Expressions by their syntax\<close>

definition no_call :: caller where "no_call f n = vpanic"

definition unary :: "binop \<Rightarrow> lval \<Rightarrow> lval vm" where
  "unary op v = (case op of
       OpNot \<Rightarrow> vok (VBool (\<not> truthy v))
     | OpNeg \<Rightarrow> unm no_call v
     | _ \<Rightarrow> raise ''internal error: bad unary operator'')"

definition variable :: "strref \<Rightarrow> lval vm" where
  "variable name = vthen (vchecked (\<lambda>s. lookup s name)) (\<lambda>v. case v of
       None \<Rightarrow> raise ''undefined variable''
     | Some v \<Rightarrow> vok v)"

primrec eval_expr :: "nat \<Rightarrow> nat \<Rightarrow> lval vm" where
  "eval_expr 0 n = (\<lambda>s. (VFuel, s))"
| "eval_expr (Suc k) n = vreads (\<lambda>s. case nodes s n of
       NEmpty \<Rightarrow> vok VNil | NNil \<Rightarrow> vok VNil | NTrue \<Rightarrow> vok (VBool True) | NFalse \<Rightarrow> vok (VBool False)
     | NNum i \<Rightarrow> vok (VNum i) | NFloat f \<Rightarrow> vok (VFloat f) | NStr r \<Rightarrow> vok (VStr r)
     | NVar name \<Rightarrow> variable name
     | NBin op a b \<Rightarrow>
         vthen (eval_expr k a) (\<lambda>x.
         if op = OpAnd then (if truthy x then eval_expr k b else vok x)
         else if op = OpOr then (if truthy x then vok x else eval_expr k b)
         else vthen (eval_expr k b) (\<lambda>y. LuaValue.binop no_call op x y))
     | NUn op a \<Rightarrow> vthen (eval_expr k a) (unary op)
     | NIndex a b \<Rightarrow> vthen (eval_expr k a) (\<lambda>t. vthen (eval_expr k b) (\<lambda>i. tget CHAIN_FUEL no_call t i))
     | _ \<Rightarrow> raise ''internal error: expression expected'')"

text \<open>The expressions that evaluator is for.\<close>

primrec simple_expr :: "nat \<Rightarrow> (nat \<Rightarrow> node) \<Rightarrow> nat \<Rightarrow> bool" where
  "simple_expr 0 nds n = False"
| "simple_expr (Suc k) nds n = (case nds n of
       NEmpty \<Rightarrow> True | NNil \<Rightarrow> True | NTrue \<Rightarrow> True | NFalse \<Rightarrow> True | NNum _ \<Rightarrow> True | NFloat _ \<Rightarrow> True
     | NStr _ \<Rightarrow> True | NVar _ \<Rightarrow> True | NBin _ a b \<Rightarrow> simple_expr k nds a \<and> simple_expr k nds b
     | NUn _ a \<Rightarrow> simple_expr k nds a | NIndex a b \<Rightarrow> simple_expr k nds a \<and> simple_expr k nds b
     | _ \<Rightarrow> False)"

section \<open>What does not look at the stack\<close>

definition no_metatables :: "lua \<Rightarrow> bool" where
  "no_metatables s \<longleftrightarrow> (\<forall>t. mt (tbls s t) = None)"

type_synonym stack_state = "(nat \<Rightarrow> lval) \<times> nat \<times> u64"

definition restack :: "stack_state \<Rightarrow> lua \<Rightarrow> lua" where
  "restack u s = s\<lparr>vstack := fst u, vsp := fst (snd u), steps := snd (snd u)\<rparr>"

lemma restack_fields [simp]:
  "vstack (restack u s) = fst u" "vsp (restack u s) = fst (snd u)" "steps (restack u s) = snd (snd u)"
  "nodes (restack u s) = nodes s" "code (restack u s) = code s" "ncode (restack u s) = ncode s"
  "tbls (restack u s) = tbls s" "frames (restack u s) = frames s" "fsp (restack u s) = fsp s"
  "cells (restack u s) = cells s" "closures (restack u s) = closures s" "globals (restack u s) = globals s"
  "nglobals (restack u s) = nglobals s" "strings (restack u s) = strings s" "strregs (restack u s) = strregs s"
  "nstrings (restack u s) = nstrings s" "str_next (restack u s) = str_next s"
  "restack u (restack v s) = restack u s" "no_metatables (restack u s) = no_metatables s"
  by (simp_all add: restack_def no_metatables_def)

lemma restack_self [simp]: "restack (vstack s, vsp s, steps s) s = s"
  by (simp add: restack_def)

text \<open>An operation that neither reads nor writes the stack, nor sets a metatable or changes the program.\<close>

definition kept :: "lua \<Rightarrow> lua \<Rightarrow> bool" where
  "kept s t \<longleftrightarrow> no_metatables t \<and> nodes t = nodes s \<and> code t = code s \<and> ncode t = ncode s \<and>
     frames t = frames s \<and> fsp t = fsp s \<and> console t = console s"

definition stackless :: "'a vm \<Rightarrow> bool" where
  "stackless m \<longleftrightarrow> (\<forall>u s. no_metatables s \<longrightarrow> kept s (snd (m s)) \<and> m (restack u s) = (fst (m s), restack u (snd (m s))))"

lemma kept_refl: "no_metatables s \<Longrightarrow> kept s s"
  by (simp add: kept_def)

lemma kept_trans: "kept a b \<Longrightarrow> kept b c \<Longrightarrow> kept a c"
  by (simp add: kept_def)

named_theorems stackless_rules

lemma stackless_const:
  assumes "\<And>s. no_metatables s \<Longrightarrow> m s = (r, s)"
  shows "stackless m"
  using assms by (simp add: stackless_def kept_refl)

lemma stackless_plain [stackless_rules]:
  "stackless (vok x)" "stackless (raise msg)" "stackless vpanic" "stackless (\<lambda>s. (VFuel, s))"
  by (simp_all add: stackless_def vm_apply kept_refl)

lemma stackless_vthen [stackless_rules]:
  assumes "stackless m" and "\<And>x. stackless (k x)"
  shows "stackless (vthen m k)"
  unfolding stackless_def
proof (intro allI impI)
  fix u s
  assume "no_metatables s"
  with assms(1) have m: "kept s (snd (m s))" "m (restack u s) = (fst (m s), restack u (snd (m s)))"
    unfolding stackless_def by blast+
  obtain r t where ms: "m s = (r, t)" by force
  show "kept s (snd (vthen m k s)) \<and> vthen m k (restack u s) = (fst (vthen m k s), restack u (snd (vthen m k s)))"
  proof (cases r)
    case (Fine x)
    have t: "no_metatables t" "kept s t" using m(1) ms by (simp_all add: kept_def)
    with assms(2) [of x, unfolded stackless_def, rule_format, of t u] show ?thesis
      using m ms Fine kept_trans [OF t(2)] by (simp add: vthen_apply)
  qed (use m ms in \<open>simp_all add: vthen_apply\<close>)
qed

lemma stackless_vreads [stackless_rules]:
  assumes "\<And>u s. k (restack u s) = k s" and "\<And>s. stackless (k s)"
  shows "stackless (vreads k)"
  using assms by (simp add: stackless_def vm_apply)

lemma stackless_vchecked [stackless_rules]:
  assumes "\<And>u s. f (restack u s) = f s"
  shows "stackless (vchecked f)"
  using assms by (simp add: stackless_def vchecked_def kept_refl split: option.split)

lemma stackless_if [stackless_rules]:
  "stackless m \<Longrightarrow> stackless k \<Longrightarrow> stackless (if b then m else k)"
  by simp

lemma stackless_intern [stackless_rules]: "stackless (vlift (intern bs))"
proof -
  have "reg_matches (restack u s) bs = reg_matches s bs" for u s
    by (simp add: reg_matches_def fun_eq_iff)
  then show ?thesis
    by (auto simp: stackless_def vlift_def intern_def Let_def kept_def split: option.split)
      (simp_all add: restack_def no_metatables_def cong: if_cong)
qed

lemma lookup_restack [simp]: "lookup (restack u s) name = lookup s name"
proof -
  have locals: "find_local_below (restack u s) name f = find_local_below s name f" for f
    by (induction f) (simp_all add: local_ix_def split: option.split)
  have frame: "function_frame_below (restack u s) f = function_frame_below s f" for f
    by (induction f) simp_all
  show ?thesis
    unfolding lookup_def find_local_def upvalue_def running_closure_def function_frame_def global_ix_def
      read_cell_def restack_fields locals frame by (rule refl)
qed

lemma stackless_variable [stackless_rules]: "stackless (variable name)"
  unfolding variable_def by (intro stackless_rules) (auto intro: stackless_rules split: option.split)

section \<open>Operators without metatables\<close>

definition wild :: "lval \<Rightarrow> bool" where
  "wild v \<longleftrightarrow> (case v of VTable t \<Rightarrow> t \<ge> MAX_TABLES | _ \<Rightarrow> False)"

lemma mt_lookup_plain:
  "no_metatables s \<Longrightarrow> mt_lookup t i s = (if t \<ge> MAX_TABLES then (VPanic, s) else (Fine VNil, s))"
  by (simp add: mt_lookup_def vm_simps no_metatables_def)

lemma mm_of_plain:
  "no_metatables s \<Longrightarrow> mm_of v i s = (if wild v then (VPanic, s) else (Fine VNil, s))"
  by (cases v) (simp_all add: mm_of_def mt_lookup_plain wild_def vm_simps)

lemma binop_mm_plain:
  "no_metatables s \<Longrightarrow> binop_mm a b i s = (if wild a \<or> wild b then (VPanic, s) else (Fine None, s))"
  by (simp add: binop_mm_def vm_simps mm_of_plain)

lemma dispatch_mm_plain:
  "no_metatables s \<Longrightarrow> dispatch_mm c a b i msg s = (if wild a \<or> wild b then (VPanic, s) else (Throw (Msg msg), s))"
  by (simp add: dispatch_mm_def vm_simps binop_mm_plain)

lemma eq_values_plain:
  "no_metatables s \<Longrightarrow> eq_values c a b s =
    (if val_eq a b then (Fine True, s) else if (case (a, b) of (VTable _, VTable _) \<Rightarrow> wild a \<or> wild b | _ \<Rightarrow> False)
     then (VPanic, s) else (Fine False, s))"
  by (cases a; cases b) (simp_all add: eq_values_def vm_simps binop_mm_plain)

lemma int_arith_const: "int_arith op x y s = (fst (int_arith op x y t), s)"
  by (cases op) (simp_all add: int_arith_def vm_simps)

text \<open>Either both operands are integers or the floats decide.\<close>

definition both_ints :: "lval \<Rightarrow> lval \<Rightarrow> bool" where
  "both_ints a b \<longleftrightarrow> (\<exists>x y. a = VNum x \<and> b = VNum y)"

lemma arith_other:
  "\<not> both_ints a b \<Longrightarrow> arith c op a b = (case (float_of a, float_of b) of
      (Some x, Some y) \<Rightarrow> vok (VFloat (float_arith op x y))
    | _ \<Rightarrow> dispatch_mm c a b (arith_mm op) ''attempt to perform arithmetic on a non-number value'')"
  by (induct a) (simp_all add: arith_def both_ints_def split: lval.split cong: option.case_cong)

lemma compare_other:
  "\<not> both_ints a b \<Longrightarrow> compare c lt a b = (case (float_of a, float_of b) of
      (Some x, Some y) \<Rightarrow> vok (VBool (if lt then f64_lt x y else f64_le x y)) | _ \<Rightarrow> compare_mm c lt a b)"
  by (induct a) (simp_all add: compare_def both_ints_def split: lval.split cong: option.case_cong)

lemma compare_mm_plain:
  "no_metatables s \<Longrightarrow> compare_mm c lt x y s = (if wild x \<or> wild y then (VPanic, s)
    else (Throw (Msg ''attempt to compare non-number values''), s))"
  by (auto simp: compare_mm_def binop_mm_plain vm_simps)

lemma arith_plain:
  assumes "no_metatables s"
  shows "arith c op a b s = arith no_call op a b s"
proof (cases "both_ints a b")
  case False
  then show ?thesis
    using assms by (simp add: arith_other dispatch_mm_plain split: option.split)
qed (auto simp: both_ints_def arith_def)

lemma compare_plain:
  assumes "no_metatables s"
  shows "compare c lt a b s = compare no_call lt a b s"
proof (cases "both_ints a b")
  case False
  then show ?thesis
    using assms by (simp add: compare_other compare_mm_plain split: option.split)
qed (auto simp: both_ints_def compare_def)

lemma concat_plain:
  assumes "no_metatables s"
  shows "concat_op c a b s = concat_op no_call a b s"
  using assms by (simp add: concat_op_def dispatch_mm_plain)

text \<open>The caller is never called.\<close>

lemma binop_plain:
  "no_metatables s \<Longrightarrow> LuaValue.binop c op a b s = LuaValue.binop no_call op a b s"
  by (cases op) (simp_all add: binop_def vm_simps eq_values_plain compare_plain [of _ c] arith_plain [of _ c] concat_plain [of _ c])

lemma unm_plain:
  assumes "no_metatables s"
  shows "unm c v s = (case v of VNum n \<Rightarrow> (Fine (VNum (- n)), s) | VFloat f \<Rightarrow> (Fine (VFloat (f64_neg f)), s)
    | _ \<Rightarrow> if wild v then (VPanic, s) else (Throw (Msg ''attempt to perform arithmetic on a non-number value''), s))"
  using assms by (cases v) (simp_all add: unm_def mm_of_plain vm_simps)

lemma tget_plain:
  assumes "no_metatables s"
  shows "tget CHAIN_FUEL c t k s = (case t of VTable tid \<Rightarrow> raw_get tid k s
    | _ \<Rightarrow> (Throw (Msg ''attempt to index a non-table value''), s))"
  using assms by (cases t) (auto simp: CHAIN_FUEL_def vm_simps mt_lookup_plain raw_get_def)

lemma stackless_string_of [stackless_rules]: "stackless (string_of v)"
  by (cases v) (auto simp: string_of_def intro: stackless_rules)

lemma stackless_concat: "stackless (concat_op no_call a b)"
proof (cases "is_text a \<and> is_text b")
  case True
  have "str_bytes (restack u s) r = str_bytes s r" for u s r
    by (simp add: str_bytes_def)
  with True show ?thesis
    unfolding concat_op_def by (simp) (intro stackless_rules; simp)
next
  case False
  then show ?thesis
    by (intro stackless_const [where r = "if wild a \<or> wild b then VPanic
      else Throw (Msg ''attempt to concatenate a non-string value'')"]) (auto simp: concat_op_def dispatch_mm_plain)
qed

lemma stackless_eq: "stackless (eq_values no_call a b)"
  by (rule stackless_const [where r = "if val_eq a b then Fine True
      else if (case (a, b) of (VTable _, VTable _) \<Rightarrow> wild a \<or> wild b | _ \<Rightarrow> False) then VPanic else Fine False"])
    (simp add: eq_values_plain)

lemma stackless_int_arith: "stackless (int_arith op x y)"
  by (rule stackless_const) (rule int_arith_const [of _ _ _ _ new_lua])

lemma stackless_arith: "stackless (arith no_call op a b)"
proof (cases "both_ints a b")
  case True
  then show ?thesis
    by (auto simp: both_ints_def arith_def stackless_int_arith)
next
  case False
  have "stackless (dispatch_mm no_call a b i msg)" for i msg
    by (rule stackless_const [where r = "if wild a \<or> wild b then VPanic else Throw (Msg msg)"]) (simp add: dispatch_mm_plain)
  then show ?thesis
    using False by (auto simp: arith_other intro: stackless_rules split: option.split)
qed

lemma stackless_compare: "stackless (compare no_call lt a b)"
proof (cases "both_ints a b")
  case True
  then show ?thesis
    by (auto simp: both_ints_def compare_def stackless_rules)
next
  case False
  have "stackless (compare_mm no_call lt a b)"
    by (rule stackless_const [where r = "if wild a \<or> wild b then VPanic
      else Throw (Msg ''attempt to compare non-number values'')"]) (simp add: compare_mm_plain)
  then show ?thesis
    using False by (auto simp: compare_other intro: stackless_rules split: option.split)
qed

lemma stackless_binop [stackless_rules]: "stackless (LuaValue.binop no_call op a b)"
  by (cases op) (simp_all add: binop_def stackless_rules stackless_eq stackless_compare stackless_concat stackless_arith)

lemma stackless_unary [stackless_rules]: "stackless (unary op v)"
proof -
  have "stackless (unm no_call v)"
    by (rule stackless_const [where r = "case v of VNum n \<Rightarrow> Fine (VNum (- n)) | VFloat f \<Rightarrow> Fine (VFloat (f64_neg f))
      | _ \<Rightarrow> if wild v then VPanic else Throw (Msg ''attempt to perform arithmetic on a non-number value'')"])
      (cases v, simp_all add: unm_plain)
  then show ?thesis
    by (cases op) (simp_all add: unary_def stackless_rules)
qed

lemma stackless_tget [stackless_rules]: "stackless (tget CHAIN_FUEL no_call t k)"
proof (cases t)
  case (VTable tid)
  have "stackless (raw_get tid k)"
    unfolding raw_get_def by (intro stackless_vreads) (simp_all add: stackless_rules cong: option.case_cong)
  then show ?thesis
    by (simp add: stackless_def tget_plain VTable)
qed (auto intro!: stackless_const simp: tget_plain)

lemma stackless_eval [stackless_rules]: "stackless (eval_expr k n)"
proof (induction k arbitrary: n)
  case (Suc k)
  show ?case
    unfolding eval_expr.simps
  proof (rule stackless_vreads)
    fix s
    show "stackless (case nodes s n of
       NEmpty \<Rightarrow> vok VNil | NNil \<Rightarrow> vok VNil | NTrue \<Rightarrow> vok (VBool True) | NFalse \<Rightarrow> vok (VBool False)
     | NNum i \<Rightarrow> vok (VNum i) | NFloat f \<Rightarrow> vok (VFloat f) | NStr r \<Rightarrow> vok (VStr r)
     | NVar name \<Rightarrow> variable name
     | NBin op a b \<Rightarrow>
         vthen (eval_expr k a) (\<lambda>x.
         if op = OpAnd then (if truthy x then eval_expr k b else vok x)
         else if op = OpOr then (if truthy x then vok x else eval_expr k b)
         else vthen (eval_expr k b) (\<lambda>y. LuaValue.binop no_call op x y))
     | NUn op a \<Rightarrow> vthen (eval_expr k a) (unary op)
     | NIndex a b \<Rightarrow> vthen (eval_expr k a) (\<lambda>t. vthen (eval_expr k b) (\<lambda>i. tget CHAIN_FUEL no_call t i))
     | _ \<Rightarrow> raise ''internal error: expression expected'')"
      by (cases "nodes s n") (auto intro!: stackless_rules Suc)
  qed simp
qed (simp add: stackless_rules)

section \<open>Runs of the machine\<close>

text \<open>What follows an error in the run from the frame \<open>flr\<close> on.\<close>

definition raised :: "host \<Rightarrow> nat \<Rightarrow> nat \<Rightarrow> lua_error \<Rightarrow> exec_result vm" where
  "raised h f flr e = (\<lambda>s. vthen (unwind (exec h f) flr e (fsp s)) (\<lambda>u. case u of
       Resume ip' \<Rightarrow> exec h f (JRun ip' flr)
     | Control r \<Rightarrow> vok r
     | Propagate \<Rightarrow> throw e) s)"

declare exec.simps [simp del]

lemma exec_step:
  assumes "ip < ncode s" and "exec_instr h (exec h f) (code s ip) (Suc ip) s = (Fine (GoTo ip'), s')"
    and "unat (steps s') < MAX_STEPS"
  shows "exec h (Suc f) (JRun ip flr) s = exec h f (JRun ip' flr) (s'\<lparr>steps := steps s' + 1\<rparr>)"
proof -
  have "unat (steps s' + 1) = unat (steps s') + 1"
    using assms(3) by (intro unat_add_lem [THEN iffD1, of "steps s'" 1, simplified] | simp add: MAX_STEPS_def unat_word_ariths)+
  then have "\<not> steps s' + 1 > word_of_nat MAX_STEPS"
    using assms(3) by (simp add: word_less_nat_alt MAX_STEPS_def)
  then show ?thesis
    using assms(1,2) by (simp add: exec.simps run_at_def vthen_apply count_step_def vm_simps)
qed

lemma exec_raise:
  assumes "ip < ncode s" and "exec_instr h (exec h f) (code s ip) (Suc ip) s = (Throw e, s')"
  shows "exec h (Suc f) (JRun ip flr) s = raised h f flr e s'"
  using assms by (simp add: exec.simps run_at_def vthen_apply raised_def)

lemma exec_panic:
  assumes "ip < ncode s" and "exec_instr h (exec h f) (code s ip) (Suc ip) s = (VPanic, s')"
  shows "exec h (Suc f) (JRun ip flr) s = (VPanic, s')"
  using assms by (simp add: exec.simps run_at_def vthen_apply)

text \<open>
  The outcome of the code from \<open>ip\<close> to \<open>ip'\<close>, in the state \<open>s\<close>, is \<open>oc\<close>: its values are pushed and the
  run goes on at \<open>ip'\<close>, with the fuel less by a step for each instruction; its error is raised.
\<close>

definition computes :: "host \<Rightarrow> nat \<Rightarrow> nat \<Rightarrow> lua \<Rightarrow> lval list vres \<times> lua \<Rightarrow> bool" where
  "computes h ip ip' s oc \<longleftrightarrow> (case oc of
     (Fine ws, s') \<Rightarrow> length ws \<le> ip' - ip \<and> (\<exists>t vs. t \<le> ip' - ip \<and> (\<forall>i<vsp s. vs i = vstack s i) \<and>
       (\<forall>j<length ws. vs (vsp s + j) = ws ! j) \<and>
       (\<forall>f flr. exec h (f + t) (JRun ip flr) s =
         exec h f (JRun ip' flr) (restack (vs, vsp s + length ws, steps s + of_nat t) s')))
   | (Throw e, s') \<Rightarrow> \<exists>t u. t < ip' - ip \<and> (\<forall>f flr. exec h (f + Suc t) (JRun ip flr) s = raised h f flr e (restack u s'))
   | (VPanic, s') \<Rightarrow> \<exists>t u. t < ip' - ip \<and> (\<forall>f flr. exec h (f + Suc t) (JRun ip flr) s = (VPanic, restack u s'))
   | (VFuel, _) \<Rightarrow> False)"

text \<open>Room on the stack and steps for the instructions from \<open>ip\<close> to \<open>ip'\<close>.\<close>

definition fits :: "lua \<Rightarrow> nat \<Rightarrow> nat \<Rightarrow> bool" where
  "fits s ip ip' \<longleftrightarrow> vsp s + (ip' - ip) \<le> STACK_CAP \<and> unat (steps s) + (ip' - ip) \<le> MAX_STEPS"

definition ready :: "(nat \<Rightarrow> instr) \<Rightarrow> (nat \<Rightarrow> node) \<Rightarrow> nat \<Rightarrow> nat \<Rightarrow> lua \<Rightarrow> bool" where
  "ready cd nds ip ip' s \<longleftrightarrow> (\<forall>i. ip \<le> i \<longrightarrow> i < ip' \<longrightarrow> code s i = cd i) \<and> nodes s = nds \<and> ip' \<le> ncode s \<and>
     no_metatables s \<and> fits s ip ip'"

definition segment :: "host \<Rightarrow> (nat \<Rightarrow> instr) \<Rightarrow> (nat \<Rightarrow> node) \<Rightarrow> nat \<Rightarrow> nat \<Rightarrow> lval list vm \<Rightarrow> bool" where
  "segment h cd nds ip ip' m \<longleftrightarrow> ip \<le> ip' \<and> stackless m \<and> (\<forall>s. ready cd nds ip ip' s \<longrightarrow> computes h ip ip' s (m s))"

lemma segmentI:
  "ip \<le> ip' \<Longrightarrow> stackless m \<Longrightarrow> (\<And>s. ready cd nds ip ip' s \<Longrightarrow> computes h ip ip' s (m s)) \<Longrightarrow> segment h cd nds ip ip' m"
  by (simp add: segment_def)

lemma segmentD:
  assumes "segment h cd nds ip ip' m"
  shows "ip \<le> ip'" "stackless m" "ready cd nds ip ip' s \<Longrightarrow> computes h ip ip' s (m s)"
  using assms by (simp_all add: segment_def)

lemma segment_cong:
  assumes "segment h cd nds ip ip' m" and "\<And>i. ip \<le> i \<Longrightarrow> i < ip' \<Longrightarrow> cd' i = cd i"
  shows "segment h cd' nds ip ip' m"
  using assms by (simp add: segment_def ready_def)

text \<open>The state in which the second part starts, after the values \<open>ws\<close> of the first.\<close>

lemma stacklessD:
  assumes "stackless m" and "no_metatables s" and "m s = (r, s')"
  shows "no_metatables s'" "nodes s' = nodes s" "code s' = code s" "ncode s' = ncode s"
    "m (restack u s) = (r, restack u s')" "kept s s'"
  using assms unfolding stackless_def kept_def by (metis fst_conv snd_conv)+

lemma ready_after:
  assumes "ready cd nds ip ip2 s" and "stackless m" and "m s = (r, s')" and "ip \<le> ip1" and "ip1 \<le> ip2"
    and "n \<le> ip1 - ip" and "t \<le> ip1 - ip"
  shows "ready cd nds ip1 ip2 (restack (vs, vsp s + n, steps s + of_nat t) s')"
proof -
  have s: "no_metatables s" "\<And>i. ip \<le> i \<Longrightarrow> i < ip2 \<Longrightarrow> code s i = cd i" "nodes s = nds" "ip2 \<le> ncode s"
    "vsp s + (ip2 - ip) \<le> STACK_CAP" "unat (steps s) + (ip2 - ip) \<le> MAX_STEPS"
    using assms(1) by (auto simp: ready_def fits_def)
  have "unat (steps s + of_nat t) \<le> unat (steps s) + t"
    by (simp add: unat_word_ariths(1) unat_of_nat mod_add_right_eq)
  then show ?thesis
    using s assms(4-7) stacklessD(1-4) [OF assms(2) s(1) assms(3)] by (auto simp: ready_def fits_def)
qed

lemma computes_restack [simp]: "computes h ip ip' s (r, restack u s') = computes h ip ip' s (r, s')"
  by (cases r) (simp_all add: computes_def)

lemma computes_Throw:
  assumes "t < ip' - ip" and "\<And>f flr. exec h (f + Suc t) (JRun ip flr) s = raised h f flr e (restack u s')"
  shows "computes h ip ip' s (Throw e, s')"
  unfolding computes_def prod.case vres.case using assms by blast

lemma computes_VPanic:
  assumes "t < ip' - ip" and "\<And>f flr. exec h (f + Suc t) (JRun ip flr) s = (VPanic, restack u s')"
  shows "computes h ip ip' s (VPanic, s')"
  unfolding computes_def prod.case vres.case using assms by blast

text \<open>A run that has pushed \<open>ws\<close> with \<open>t\<close> steps, and goes on to an outcome.\<close>

definition pushed :: "lua \<Rightarrow> lval list \<Rightarrow> nat \<Rightarrow> lua \<Rightarrow> bool" where
  "pushed s ws t s1 \<longleftrightarrow> vsp s1 = vsp s + length ws \<and> steps s1 = steps s + of_nat t \<and>
     (\<forall>i<vsp s. vstack s1 i = vstack s i) \<and> (\<forall>j<length ws. vstack s1 (vsp s + j) = ws ! j)"

lemma computes_prefix:
  assumes run: "\<And>f flr. exec h (f + t) (JRun ip flr) s = exec h f (JRun ip1 flr) s1"
    and pushed: "pushed s ws t s1" and rest: "computes h ip1 ip2 s1 (r, s2)"
    and le: "t \<le> ip1 - ip" "length ws \<le> ip1 - ip" "ip \<le> ip1" "ip1 \<le> ip2"
  shows "computes h ip ip2 s (map_vres (append ws) r, s2)"
proof (cases r)
  case (Fine vs)
  with rest obtain t' st where t': "t' \<le> ip2 - ip1" "length vs \<le> ip2 - ip1"
    and st: "\<forall>i<vsp s1. st i = vstack s1 i" "\<forall>j<length vs. st (vsp s1 + j) = vs ! j"
    and run': "\<And>f flr. exec h (f + t') (JRun ip1 flr) s1 =
      exec h f (JRun ip2 flr) (restack (st, vsp s1 + length vs, steps s1 + of_nat t') s2)"
    by (auto simp: computes_def)
  have "exec h (f + (t' + t)) (JRun ip flr) s =
      exec h f (JRun ip2 flr) (restack (st, vsp s + length (ws @ vs), steps s + of_nat (t' + t)) s2)" for f flr
    using run [of "f + t'" flr] run' [of f flr] pushed by (simp add: pushed_def ac_simps)
  moreover have "st (vsp s + j) = (ws @ vs) ! j" if "j < length (ws @ vs)" for j
  proof (cases "j < length ws")
    case True
    then show ?thesis
      using st(1) pushed by (auto simp: pushed_def nth_append)
  next
    case False
    then show ?thesis
      using st(2) [rule_format, of "j - length ws"] pushed that by (auto simp: pushed_def nth_append)
  qed
  ultimately show ?thesis
    using Fine t' le st(1) pushed
    by (auto simp: computes_def pushed_def intro!: exI [of _ "t' + t"] exI [of _ st])
next
  case (Throw e)
  with rest obtain t' u where "t' < ip2 - ip1"
    "\<And>f flr. exec h (f + Suc t') (JRun ip1 flr) s1 = raised h f flr e (restack u s2)"
    by (auto simp: computes_def)
  then have "exec h (f + Suc (t' + t)) (JRun ip flr) s = raised h f flr e (restack u s2)" for f flr
    using run [of "f + Suc t'" flr] by (simp add: ac_simps)
  then have "computes h ip ip2 s (Throw e, s2)"
    using le \<open>t' < ip2 - ip1\<close> by (intro computes_Throw [of "t' + t"]) auto
  then show ?thesis
    using Throw by simp
next
  case VPanic
  with rest obtain t' u where "t' < ip2 - ip1"
    "\<And>f flr. exec h (f + Suc t') (JRun ip1 flr) s1 = (VPanic, restack u s2)"
    by (auto simp: computes_def)
  then have "exec h (f + Suc (t' + t)) (JRun ip flr) s = (VPanic, restack u s2)" for f flr
    using run [of "f + Suc t'" flr] by (simp add: ac_simps)
  then have "computes h ip ip2 s (VPanic, s2)"
    using le \<open>t' < ip2 - ip1\<close> by (intro computes_VPanic [of "t' + t"]) auto
  then show ?thesis
    using VPanic by simp
qed (use rest in \<open>simp add: computes_def\<close>)

text \<open>An error or a panic of a part is that of the whole.\<close>

lemma computes_stops:
  assumes "computes h ip ip1 s (r, s1)" and "ip1 \<le> ip2" and "\<And>x. r \<noteq> Fine x"
  shows "computes h ip ip2 s (vpass r, s1)"
  using assms by (cases r) (auto simp: computes_def split: vres.splits, force+)

lemma computes_Fine:
  assumes "computes h ip ip1 s (Fine ws, s1)"
  obtains t vs where "\<And>f flr. exec h (f + t) (JRun ip flr) s =
      exec h f (JRun ip1 flr) (restack (vs, vsp s + length ws, steps s + of_nat t) s1)"
    "pushed s ws t (restack (vs, vsp s + length ws, steps s + of_nat t) s1)" "t \<le> ip1 - ip" "length ws \<le> ip1 - ip"
  using assms by (auto simp: computes_def pushed_def)

lemma ready_first: "ready cd nds ip ip2 s \<Longrightarrow> ip1 \<le> ip2 \<Longrightarrow> ready cd nds ip ip1 s"
  by (auto simp: ready_def fits_def)

text \<open>Two parts, one after the other.\<close>

lemma segment_seq:
  assumes m: "segment h cd nds ip ip1 m" and k: "segment h cd nds ip1 ip2 k"
  shows "segment h cd nds ip ip2 (vthen m (\<lambda>xs. vthen k (\<lambda>ys. vok (xs @ ys))))"
proof (rule segmentI)
  note le = segmentD(1) [OF m] segmentD(1) [OF k]
  show "ip \<le> ip2"
    using le by simp
  show "stackless (vthen m (\<lambda>xs. vthen k (\<lambda>ys. vok (xs @ ys))))"
    by (intro stackless_rules segmentD(2) [OF m] segmentD(2) [OF k])
  fix s
  assume s: "ready cd nds ip ip2 s"
  obtain r s1 where ms: "m s = (r, s1)" by force
  have c: "computes h ip ip1 s (r, s1)"
    using segmentD(3) [OF m ready_first [OF s le(2)]] ms by simp
  show "computes h ip ip2 s (vthen m (\<lambda>xs. vthen k (\<lambda>ys. vok (xs @ ys))) s)"
  proof (cases r)
    case (Fine xs)
    obtain t vs where run: "\<And>f flr. exec h (f + t) (JRun ip flr) s =
        exec h f (JRun ip1 flr) (restack (vs, vsp s + length xs, steps s + of_nat t) s1)"
      and p: "pushed s xs t (restack (vs, vsp s + length xs, steps s + of_nat t) s1)"
      and t: "t \<le> ip1 - ip" "length xs \<le> ip1 - ip"
      using computes_Fine [OF c [unfolded Fine]] by blast
    let ?s = "restack (vs, vsp s + length xs, steps s + of_nat t) s1"
    have ready: "ready cd nds ip1 ip2 ?s"
      by (rule ready_after [OF s segmentD(2) [OF m] ms le t(2,1)])
    obtain r2 s2 where ks: "k s1 = (r2, s2)" by force
    have "no_metatables s1"
      using ready by (simp add: ready_def)
    then have "k ?s = (r2, restack (vs, vsp s + length xs, steps s + of_nat t) s2)"
      using stacklessD(5) [OF segmentD(2) [OF k] _ ks] by simp
    then have "computes h ip1 ip2 ?s (r2, s2)"
      using segmentD(3) [OF k ready] by simp
    from computes_prefix [OF run p this t le]
    show ?thesis
      using ms Fine ks by (cases r2) (simp_all add: vthen_apply vm_apply)
  qed (use computes_stops [OF c le(2)] ms in \<open>simp_all add: vthen_apply\<close>)
qed

text \<open>An instruction that takes \<open>n\<close> values from the stack and pushes what \<open>g\<close> makes of them.\<close>

definition acted :: "host \<Rightarrow> instr \<Rightarrow> nat \<Rightarrow> nat \<Rightarrow> lua \<Rightarrow> lval vres \<times> lua \<Rightarrow> bool" where
  "acted h i base ip t oc \<longleftrightarrow> (case oc of
       (Fine v, t') \<Rightarrow> \<exists>vs. (\<forall>rec. exec_instr h rec i ip t = (Fine (GoTo ip), restack (vs, base + 1, steps t) t')) \<and>
         (\<forall>j<base. vs j = vstack t j) \<and> vs base = v
     | (Throw e, t') \<Rightarrow> \<exists>u. \<forall>rec. exec_instr h rec i ip t = (Throw e, restack u t')
     | (VPanic, t') \<Rightarrow> \<exists>u. \<forall>rec. exec_instr h rec i ip t = (VPanic, restack u t')
     | (VFuel, _) \<Rightarrow> False)"

definition acts :: "host \<Rightarrow> (nat \<Rightarrow> node) \<Rightarrow> instr \<Rightarrow> nat \<Rightarrow> (lval list \<Rightarrow> lval vm) \<Rightarrow> bool" where
  "acts h nds i n g \<longleftrightarrow> (\<forall>ws. stackless (g ws)) \<and> (\<forall>ip t ws base. no_metatables t \<longrightarrow> nodes t = nds \<longrightarrow> length ws = n \<longrightarrow> vsp t = base + n \<longrightarrow>
     vsp t \<le> STACK_CAP \<longrightarrow> base < STACK_CAP \<longrightarrow> (\<forall>j<n. vstack t (base + j) = ws ! j) \<longrightarrow> acted h i base ip t (g ws t))"

lemma restack_steps: "(restack u s)\<lparr>steps := n\<rparr> = restack (fst u, fst (snd u), n) s"
  by (simp add: restack_def)

lemma segment_nil: "segment h cd nds ip ip (vok [])"
  by (auto simp: segment_def stackless_rules vm_apply computes_def intro!: exI [of _ 0])

lemma segment_op:
  assumes m: "segment h cd nds ip ip1 m" and n: "\<And>s ws s'. m s = (Fine ws, s') \<Longrightarrow> length ws = n"
    and g: "acts h nds (cd ip1) n g"
  shows "segment h cd nds ip (Suc ip1) (vthen m (\<lambda>ws. vthen (g ws) (\<lambda>v. vok [v])))"
proof (rule segmentI)
  note le = segmentD(1) [OF m]
  have gs: "stackless (g ws)" for ws
    using g by (simp add: acts_def)
  show "ip \<le> Suc ip1"
    using le by simp
  show "stackless (vthen m (\<lambda>ws. vthen (g ws) (\<lambda>v. vok [v])))"
    by (intro stackless_rules segmentD(2) [OF m] gs)
  fix s
  assume s: "ready cd nds ip (Suc ip1) s"
  obtain r s1 where ms: "m s = (r, s1)" by force
  have c: "computes h ip ip1 s (r, s1)"
    using segmentD(3) [OF m ready_first [OF s]] ms by simp
  show "computes h ip (Suc ip1) s (vthen m (\<lambda>ws. vthen (g ws) (\<lambda>v. vok [v])) s)"
  proof (cases r)
    case (Fine ws)
    obtain t vs where run: "\<And>f flr. exec h (f + t) (JRun ip flr) s =
        exec h f (JRun ip1 flr) (restack (vs, vsp s + length ws, steps s + of_nat t) s1)"
      and p: "pushed s ws t (restack (vs, vsp s + length ws, steps s + of_nat t) s1)"
      and t: "t \<le> ip1 - ip" "length ws \<le> ip1 - ip"
      using computes_Fine [OF c [unfolded Fine]] by blast
    define x where "x = restack (vs, vsp s + length ws, steps s + of_nat t) s1"
    have ready: "ready cd nds ip1 (Suc ip1) x"
      unfolding x_def by (rule ready_after [OF s segmentD(2) [OF m] ms le _ t(2,1)]) simp
    have len: "length ws = n"
      using n [of s ws s1] ms Fine by simp
    obtain r2 s2 where gw: "g ws s1 = (r2, s2)" by force
    have "no_metatables s1"
      using ready by (simp add: ready_def x_def)
    then have gx: "g ws x = (r2, restack (vs, vsp s + length ws, steps s + of_nat t) s2)"
      unfolding x_def by (rule stacklessD(5) [OF gs _ gw])
    have here: "ip1 < ncode x" "code x ip1 = cd ip1" "unat (steps x) < MAX_STEPS"
      using ready by (auto simp: ready_def fits_def)
    have "acted h (cd ip1) (vsp s) (Suc ip1) x (g ws x)"
      using g len ready p unfolding acts_def by (auto simp: ready_def fits_def pushed_def x_def)
    then have act: "acted h (cd ip1) (vsp s) (Suc ip1) x (r2, restack (vs, vsp s + length ws, steps s + of_nat t) s2)"
      by (simp only: gx)
    have vx: "steps x = steps s + of_nat t" "\<And>i. i < vsp s \<Longrightarrow> vstack x i = vstack s i"
      using p by (auto simp: x_def pushed_def)
    show ?thesis
    proof (cases r2)
      case (Fine v)
      then obtain st where st: "\<And>rec. exec_instr h rec (cd ip1) (Suc ip1) x = (Fine (GoTo (Suc ip1)), restack (st, vsp s + 1, steps x) s2)"
        "\<And>j. j < vsp s \<Longrightarrow> st j = vstack s j" "st (vsp s) = v"
        using act vx by (auto simp: acted_def)
      have "exec h (f + Suc t) (JRun ip flr) s = exec h f (JRun (Suc ip1) flr) (restack (st, vsp s + 1, steps s + of_nat (Suc t)) s2)" for f flr
        using run [of "Suc f" flr] exec_step [OF here(1), of h f "Suc ip1"] st(1) here vx
        by (simp add: x_def [symmetric] restack_steps ac_simps)
      then show ?thesis
        using ms \<open>r = Fine ws\<close> gw Fine st t le
        by (auto simp: vthen_apply vm_apply computes_def intro!: exI [of _ "Suc t"] exI [of _ st])
    next
      case (Throw e)
      then obtain u where "\<And>rec. exec_instr h rec (cd ip1) (Suc ip1) x = (Throw e, restack u s2)"
        using act by (auto simp: acted_def)
      then have "exec h (f + Suc t) (JRun ip flr) s = raised h f flr e (restack u s2)" for f flr
        using run [of "Suc f" flr] exec_raise [OF here(1), of h f] here by (simp add: x_def [symmetric])
      then show ?thesis
        using ms \<open>r = Fine ws\<close> gw Throw t le by (auto simp: vthen_apply intro!: computes_Throw [of t])
    next
      case VPanic
      then obtain u where "\<And>rec. exec_instr h rec (cd ip1) (Suc ip1) x = (VPanic, restack u s2)"
        using act by (auto simp: acted_def)
      then have "exec h (f + Suc t) (JRun ip flr) s = (VPanic, restack u s2)" for f flr
        using run [of "Suc f" flr] exec_panic [OF here(1), of h f] here by (simp add: x_def [symmetric])
      then show ?thesis
        using ms \<open>r = Fine ws\<close> gw VPanic t le by (auto simp: vthen_apply intro!: computes_VPanic [of t])
    qed (use act in \<open>simp add: acted_def\<close>)
  qed (use computes_stops [OF c] ms in \<open>simp_all add: vthen_apply\<close>)
qed

text \<open>\<open>and\<close> and \<open>or\<close>: the value decides whether the rest runs, without it, or is jumped over.\<close>

definition keep_jump :: "bool \<Rightarrow> instr_op" where
  "keep_jump b = (if b then JumpIfFalseKeep else JumpIfTrueKeep)"

lemma exec_keep_jump:
  assumes "i_op i = keep_jump b" and "vsp t = Suc base" and "base < STACK_CAP"
  shows "exec_instr h rec i ip t = (if truthy (vstack t base) = b
    then (Fine (GoTo ip), restack (vstack t, base, steps t) t) else (Fine (GoTo (i_a i)), t))"
  using assms by (cases b) (simp_all add: exec_instr_def keep_jump_def vtop_def vpop_def vm_simps restack_def)

lemma segment_short:
  assumes m: "segment h cd nds ip ip1 m" and one: "\<And>s ws s'. m s = (Fine ws, s') \<Longrightarrow> length ws = 1"
    and jump: "i_op (cd ip1) = keep_jump b" "i_a (cd ip1) = ip2" and k: "segment h cd nds (Suc ip1) ip2 k"
  shows "segment h cd nds ip ip2 (vthen m (\<lambda>ws. if truthy (hd ws) = b then k else vok ws))"
proof (rule segmentI)
  note le = segmentD(1) [OF m] segmentD(1) [OF k]
  show "ip \<le> ip2"
    using le by simp
  show "stackless (vthen m (\<lambda>ws. if truthy (hd ws) = b then k else vok ws))"
    by (intro stackless_rules segmentD(2) [OF m] segmentD(2) [OF k])
  fix s
  assume s: "ready cd nds ip ip2 s"
  obtain r s1 where ms: "m s = (r, s1)" by force
  have c: "computes h ip ip1 s (r, s1)"
    using segmentD(3) [OF m ready_first [OF s]] ms le by simp
  show "computes h ip ip2 s (vthen m (\<lambda>ws. if truthy (hd ws) = b then k else vok ws) s)"
  proof (cases r)
    case (Fine ws)
    then obtain v where ws: "ws = [v]"
      using one [of s ws s1] ms by (auto simp: length_Suc_conv)
    obtain t vs where run: "\<And>f flr. exec h (f + t) (JRun ip flr) s =
        exec h f (JRun ip1 flr) (restack (vs, vsp s + length ws, steps s + of_nat t) s1)"
      and p: "pushed s ws t (restack (vs, vsp s + length ws, steps s + of_nat t) s1)"
      and t: "t \<le> ip1 - ip" "length ws \<le> ip1 - ip"
      using computes_Fine [OF c [unfolded Fine]] by blast
    define x where "x = restack (vs, vsp s + length ws, steps s + of_nat t) s1"
    have ready: "ready cd nds ip1 ip2 x"
      unfolding x_def by (rule ready_after [OF s segmentD(2) [OF m] ms le(1) _ t(2,1)]) (use le in simp)
    have here: "ip1 < ncode x" "code x ip1 = cd ip1" "unat (steps x) < MAX_STEPS" "vsp x = Suc (vsp s)" "vsp s < STACK_CAP"
      using ready le by (auto simp: ready_def fits_def x_def ws)
    have vx: "vstack x (vsp s) = v" "steps x = steps s + of_nat t" "\<And>i. i < vsp s \<Longrightarrow> vstack x i = vstack s i"
      using p by (auto simp: x_def pushed_def ws)
    note instr = exec_keep_jump [OF jump(1) here(4,5)]
    show ?thesis
    proof (cases "truthy v = b")
      case False
      have "exec h (f + Suc t) (JRun ip flr) s = exec h f (JRun ip2 flr) (restack (vs, Suc (vsp s), steps s + of_nat (Suc t)) s1)" for f flr
        using run [of "Suc f" flr] exec_step [OF here(1), of h f ip2 x] False instr here vx jump(2)
        by (simp add: x_def [symmetric] ac_simps) (simp add: x_def restack_steps ws ac_simps)
      then show ?thesis
        using ms Fine False t le p
        by (auto simp: vthen_apply vm_apply computes_def ws pushed_def intro!: exI [of _ "Suc t"] exI [of _ vs])
    next
      case True
      define y where "y = restack (vs, vsp s + 0, steps s + of_nat (Suc t)) s1"
      have go: "exec h (f + Suc t) (JRun ip flr) s = exec h f (JRun (Suc ip1) flr) y" for f flr
        using run [of "Suc f" flr] exec_step [OF here(1), of h f "Suc ip1"] True instr here vx
        by (simp add: x_def [symmetric] restack_steps) (simp add: x_def y_def ac_simps)
      have "ready cd nds (Suc ip1) ip2 y"
        unfolding y_def by (rule ready_after [OF s segmentD(2) [OF m] ms]) (use le t in auto)
      moreover obtain r2 s2 where ks: "k s1 = (r2, s2)" by force
      moreover have "no_metatables s1"
        using ready by (simp add: ready_def x_def)
      then have "k y = (r2, restack (vs, vsp s + 0, steps s + of_nat (Suc t)) s2)"
        unfolding y_def using stacklessD(5) [OF segmentD(2) [OF k] _ ks] by simp
      ultimately have "computes h (Suc ip1) ip2 y (r2, s2)"
        using segmentD(3) [OF k] by (metis computes_restack)
      moreover have "pushed s [] (Suc t) y"
        using p by (simp add: pushed_def y_def)
      ultimately have "computes h ip ip2 s (map_vres (append []) r2, s2)"
        using t le by (intro computes_prefix [OF go]) auto
      then show ?thesis
        using ms Fine ks True by (cases r2) (simp_all add: vthen_apply ws)
    qed
  qed (use computes_stops [OF c] le ms in \<open>simp_all add: vthen_apply\<close>)
qed

section \<open>The instructions of expressions\<close>

lemma vpush_apply: "vsp t < STACK_CAP \<Longrightarrow> vpush v t = (Fine (), restack ((vstack t)(vsp t := v), vsp t + 1, steps t) t)"
  by (simp add: vpush_def vlift_def push_val_def restack_def)

text \<open>The instruction pops its operands and pushes the result of a stackless operation.\<close>

lemma acted_by:
  assumes "stackless m" and "no_metatables t" and "base < STACK_CAP" and "base \<le> vsp t"
    and "\<And>rec. exec_instr h rec i ip t = go ip (vthen m vpush) (restack (vstack t, base, steps t) t)"
    and "fst (m t) \<noteq> VFuel"
  shows "acted h i base ip t (m t)"
proof -
  obtain r t' where mt: "m t = (r, t')" by force
  then have "m (restack (vstack t, base, steps t) t) = (r, restack (vstack t, base, steps t) t')"
    by (rule stacklessD(5) [OF assms(1,2)])
  then show ?thesis
    using assms(3-6) mt
    by (cases r) (force simp: acted_def go_def vm_simps vpush_apply)+
qed

text \<open>None of the operations runs out of fuel.\<close>

lemma intern_result: "fst (vlift (intern bs) s) \<noteq> VFuel"
  by (simp add: vlift_def intern_def Let_def split: option.split)

lemma string_of_result: "fst (string_of v s) \<noteq> VFuel"
  by (cases v) (simp_all add: string_of_def vm_simps intern_result)

lemma concat_result: "no_metatables s \<Longrightarrow> fst (concat_op no_call a b s) \<noteq> VFuel"
  using string_of_result intern_result
  by (auto simp: concat_op_def dispatch_mm_plain vthen_apply vm_apply vchecked_def split: prod.split vres.split option.split)
    (metis fst_conv)+

lemma int_arith_result: "fst (int_arith op x y s) \<noteq> VFuel"
  by (cases op) (simp_all add: int_arith_def vm_simps)

lemma arith_result: "no_metatables s \<Longrightarrow> fst (arith no_call op a b s) \<noteq> VFuel"
proof (cases "both_ints a b")
  case False
  then show "no_metatables s \<Longrightarrow> ?thesis"
    by (simp add: arith_other dispatch_mm_plain vm_apply split: option.split)
qed (auto simp: both_ints_def arith_def int_arith_result)

lemma compare_result: "no_metatables s \<Longrightarrow> fst (compare no_call lt a b s) \<noteq> VFuel"
proof (cases "both_ints a b")
  case False
  then show "no_metatables s \<Longrightarrow> ?thesis"
    by (simp add: compare_other compare_mm_plain vm_apply split: option.split)
qed (auto simp: both_ints_def compare_def vm_apply)

lemma binop_result: "no_metatables s \<Longrightarrow> fst (LuaValue.binop no_call op a b s) \<noteq> VFuel"
  by (cases op) (simp_all add: binop_def vm_simps eq_values_plain arith_result compare_result concat_result)

lemma unary_result: "no_metatables s \<Longrightarrow> fst (unary op v s) \<noteq> VFuel"
  by (cases op; cases v) (simp_all add: unary_def unm_plain vm_apply)

lemma tget_result: "no_metatables s \<Longrightarrow> fst (tget CHAIN_FUEL no_call t k s) \<noteq> VFuel"
  by (cases t) (simp_all add: tget_plain raw_get_def vm_apply)

lemma variable_result: "fst (variable name s) \<noteq> VFuel"
  by (simp add: variable_def vthen_apply vchecked_def vm_apply split: option.split)

lemma ast_op_code [simp]: "ast_op (op_code op) = op"
  by (cases op) (simp_all add: ast_op_def op_code_def)

lemma vpop_apply:
  "vsp t = Suc p \<Longrightarrow> p < STACK_CAP \<Longrightarrow> vpop t = (Fine (vstack t p), restack (vstack t, p, steps t) t)"
  by (simp add: vpop_def restack_def)

lemma actsI:
  assumes "\<And>ws. stackless (g ws)" and "\<And>ws s. no_metatables s \<Longrightarrow> fst (g ws s) \<noteq> VFuel"
    and "\<And>ip t ws base rec. no_metatables t \<Longrightarrow> nodes t = nds \<Longrightarrow> length ws = n \<Longrightarrow> vsp t = base + n \<Longrightarrow>
      base + n \<le> STACK_CAP \<Longrightarrow> base < STACK_CAP \<Longrightarrow> (\<And>j. j < n \<Longrightarrow> vstack t (base + j) = ws ! j) \<Longrightarrow>
      exec_instr h rec i ip t = go ip (vthen (g ws) vpush) (restack (vstack t, base, steps t) t)"
  shows "acts h nds i n g"
  unfolding acts_def
proof (intro conjI allI impI acted_by)
  fix ip t ws base rec
  assume "no_metatables t" "nodes t = nds" "length ws = n" "vsp t = base + n" "vsp t \<le> STACK_CAP"
    "base < STACK_CAP" "\<forall>j<n. vstack t (base + j) = ws ! j"
  then show "exec_instr h rec i ip t = go ip (vthen (g ws) vpush) (restack (vstack t, base, steps t) t)"
    by (intro assms(3)) auto
qed (use assms in auto)

lemma restack_same [simp]: "vsp t = p \<Longrightarrow> restack (vstack t, p, steps t) t = t"
  by (auto simp: restack_def)

lemmas instr_simps = exec_instr_def go_def vthen_apply vnext_apply vpop_apply

lemma two_values:
  "(\<And>j. j < 2 \<Longrightarrow> f (base + j) = ws ! j) \<Longrightarrow> f (base :: nat) = ws ! 0 \<and> f (Suc base) = ws ! Suc 0"
  using add.right_neutral [of base] by (metis add_Suc_right lessI numeral_2_eq_2 zero_less_numeral)

lemma acts_two:
  assumes "\<And>x y. stackless (g x y)" and "\<And>x y s. no_metatables s \<Longrightarrow> fst (g x y s) \<noteq> VFuel"
    and "\<And>ip t base rec. no_metatables t \<Longrightarrow> vsp t = Suc (Suc base) \<Longrightarrow> Suc base < STACK_CAP \<Longrightarrow>
      exec_instr h rec i ip t = go ip (vthen (g (vstack t base) (vstack t (Suc base))) vpush) (restack (vstack t, base, steps t) t)"
  shows "acts h nds i 2 (\<lambda>ws. g (ws ! 0) (ws ! 1))"
proof (rule actsI)
  fix ip t rec base and ws :: "lval list"
  assume t: "no_metatables t" "vsp t = base + 2" "base + 2 \<le> STACK_CAP"
    and "\<And>j. j < 2 \<Longrightarrow> vstack t (base + j) = ws ! j"
  then have "vstack t base = ws ! 0 \<and> vstack t (Suc base) = ws ! Suc 0"
    by (intro two_values)
  then show "exec_instr h rec i ip t = go ip (vthen (g (ws ! 0) (ws ! 1)) vpush) (restack (vstack t, base, steps t) t)"
    using assms(3) [of t base rec ip] t by simp
qed (use assms in auto)

lemma acts_binop:
  "acts h nds \<lparr>i_op = BinOp, i_a = op_code op, i_b = b\<rparr> 2 (\<lambda>ws. LuaValue.binop no_call op (ws ! 0) (ws ! 1))"
  by (rule acts_two, rule stackless_binop, erule binop_result)
    (simp add: instr_simps binop_plain [where c = "call_value rec" for rec])

lemma acts_get_index:
  "acts h nds \<lparr>i_op = GetIndex, i_a = a, i_b = b\<rparr> 2 (\<lambda>ws. tget CHAIN_FUEL no_call (ws ! 0) (ws ! 1))"
  by (rule acts_two, rule stackless_tget, erule tget_result) (simp add: instr_simps vget_def tget_plain)

lemma acts_unop:
  "acts h nds \<lparr>i_op = UnOp, i_a = op_code op, i_b = b\<rparr> 1 (\<lambda>ws. unary op (hd ws))"
proof (rule actsI, rule stackless_unary, erule unary_result)
  fix ip t rec base and ws :: "lval list"
  assume t: "no_metatables t" "length ws = 1" "vsp t = base + 1" "base < STACK_CAP"
    and "\<And>j. j < 1 \<Longrightarrow> vstack t (base + j) = ws ! j"
  then have "vstack t base = hd ws"
    by (metis add.right_neutral hd_conv_nth length_0_conv less_numeral_extra(1) zero_neq_one)
  moreover have "unop rec (op_code op) v s = unary op v s" if "no_metatables s" for v s
    using that by (cases op) (simp_all add: unop_def unary_def unm_plain)
  ultimately show "exec_instr h rec \<lparr>i_op = UnOp, i_a = op_code op, i_b = b\<rparr> ip t =
      go ip (vthen (unary op (hd ws)) vpush) (restack (vstack t, base, steps t) t)"
    using t by (simp add: instr_simps)
qed

lemma acts_get_var:
  assumes "nds n = NVar name" and "n < MAX_NODES"
  shows "acts h nds \<lparr>i_op = GetVar, i_a = n, i_b = b\<rparr> 0 (\<lambda>_. variable name)"
  by (rule actsI, rule stackless_variable, rule variable_result)
    (use assms in \<open>simp add: instr_simps get_var_def node_name_def variable_def vm_apply vchecked_def split: option.split\<close>)

definition const_of :: "node \<Rightarrow> lval option" where
  "const_of nd = (case nd of
       NEmpty \<Rightarrow> Some VNil | NNil \<Rightarrow> Some VNil | NTrue \<Rightarrow> Some (VBool True) | NFalse \<Rightarrow> Some (VBool False)
     | NNum i \<Rightarrow> Some (VNum i) | NFloat f \<Rightarrow> Some (VFloat f) | NStr r \<Rightarrow> Some (VStr r) | _ \<Rightarrow> None)"

lemma acts_push_const:
  assumes "const_of (nds n) = Some v" and "n < MAX_NODES"
  shows "acts h nds \<lparr>i_op = PushConst, i_a = n, i_b = b\<rparr> 0 (\<lambda>_. vok v)"
  by (rule actsI, rule stackless_plain)
    (use assms in \<open>auto simp: instr_simps push_const_def vm_apply const_of_def split: node.splits\<close>)

section \<open>The code of an expression\<close>

definition single :: "lval vm \<Rightarrow> lval list vm" where
  "single m = vthen m (\<lambda>v. vok [v])"

definition only_code :: "lua \<Rightarrow> lua \<Rightarrow> bool" where
  "only_code l l' \<longleftrightarrow> (\<exists>cd nc. l' = l\<lparr>code := cd, ncode := nc\<rparr>)"

lemma only_codeI: "only_code l (l\<lparr>code := cd, ncode := nc\<rparr>)" "only_code l (l\<lparr>code := cd\<rparr>)"
proof -
  show "only_code l (l\<lparr>code := cd, ncode := nc\<rparr>)"
    by (auto simp: only_code_def)
  have "l\<lparr>code := cd\<rparr> = l\<lparr>code := cd, ncode := ncode l\<rparr>"
    by simp
  then show "only_code l (l\<lparr>code := cd\<rparr>)"
    unfolding only_code_def by blast
qed

lemma only_code_trans:
  assumes "only_code a b" and "only_code b c"
  shows "only_code a c"
proof -
  obtain cd nc cd' nc' where "b = a\<lparr>code := cd, ncode := nc\<rparr>" "c = b\<lparr>code := cd', ncode := nc'\<rparr>"
    using assms unfolding only_code_def by blast
  then have "c = a\<lparr>code := cd', ncode := nc'\<rparr>"
    by simp
  then show ?thesis
    unfolding only_code_def by blast
qed

definition grown :: "compiler \<Rightarrow> compiler \<Rightarrow> bool" where
  "grown c c' \<longleftrightarrow> here c \<le> here c' \<and> (\<forall>i<here c. code (cst c') i = code (cst c) i) \<and> nodes (cst c') = nodes (cst c) \<and>
     only_code (cst c) (cst c')"

lemma grown_trans: "grown a b \<Longrightarrow> grown b c \<Longrightarrow> grown a c"
  by (auto simp: grown_def intro: only_code_trans)

lemma emit_Ok:
  assumes "emit op a b c = (Ok x, c')"
  shows "x = here c" "here c' = Suc (here c)" "code (cst c') (here c) = \<lparr>i_op = op, i_a = a, i_b = b\<rparr>" "grown c c'"
  using assms by (auto simp: emit_def here_def grown_def Let_def only_codeI split: if_splits)

lemma single_length: "single m s = (Fine ws, s') \<Longrightarrow> length ws = 1"
  by (auto simp: single_def vthen_apply vm_apply split: prod.splits vres.splits)

lemma segment_eq:
  assumes "segment h cd nds ip ip' m" and "stackless m'" and "\<And>s. nodes s = nds \<Longrightarrow> m' s = m s"
  shows "segment h cd nds ip ip' m'"
  using assms by (auto simp: segment_def ready_def)

text \<open>An instruction without operands.\<close>

lemma segment_push:
  assumes "acts h nds (cd ip) 0 (\<lambda>_. m)"
  shows "segment h cd nds ip (Suc ip) (single m)"
  using segment_op [where m = "vok []" and g = "\<lambda>_. m" and n = 0 and cd = cd and h = h and nds = nds and ip = ip
      and ?ip1.0 = ip] segment_nil assms
  by (simp add: vm_apply single_def vthen_def vok_def)

lemma segment_unary:
  assumes "segment h cd nds ip ip1 (single m)" and "acts h nds (cd ip1) 1 (\<lambda>ws. g (hd ws))"
  shows "segment h cd nds ip (Suc ip1) (single (vthen m g))"
proof -
  have "vthen (single m) (\<lambda>ws. vthen (g (hd ws)) (\<lambda>v. vok [v])) = single (vthen m g)"
    by (auto simp: single_def vthen_apply vm_apply fun_eq_iff split: prod.split vres.split)
  then show ?thesis
    using segment_op [OF assms(1) single_length assms(2)] by simp
qed

lemma segment_binary:
  assumes "segment h cd nds ip ip1 (single m)" and "segment h cd nds ip1 ip2 (single k)"
    and "acts h nds (cd ip2) 2 (\<lambda>ws. g (ws ! 0) (ws ! 1))"
  shows "segment h cd nds ip (Suc ip2) (single (vthen m (\<lambda>x. vthen k (g x))))"
proof -
  let ?m = "vthen (single m) (\<lambda>xs. vthen (single k) (\<lambda>ys. vok (xs @ ys)))"
  have "vthen ?m (\<lambda>ws. vthen (g (ws ! 0) (ws ! 1)) (\<lambda>v. vok [v])) = single (vthen m (\<lambda>x. vthen k (g x)))"
    by (auto simp: single_def vthen_apply vm_apply fun_eq_iff split: prod.split vres.split)
  moreover have "?m s = (Fine ws, s') \<Longrightarrow> length ws = 2" for s ws s'
    by (auto simp: single_def vthen_apply vm_apply split: prod.splits vres.splits)
  ultimately show ?thesis
    using segment_op [OF segment_seq [OF assms(1,2)] _ assms(3)] by simp
qed

text \<open>Code that was there before the compiler went on is still there.\<close>

lemma segment_grown:
  "segment h (code (cst c)) nds ip ip' m \<Longrightarrow> grown c c' \<Longrightarrow> ip' \<le> here c \<Longrightarrow> segment h (code (cst c')) nds ip ip' m"
  by (erule segment_cong) (simp add: grown_def)

lemma grown_code: "grown c c' \<Longrightarrow> i < here c \<Longrightarrow> code (cst c') i = code (cst c) i"
  by (simp add: grown_def)

lemma grown_fields: "grown c c' \<Longrightarrow> here c \<le> here c'" "grown c c' \<Longrightarrow> nodes (cst c') = nodes (cst c)"
  by (simp_all add: grown_def)

definition compiled_expr :: "host \<Rightarrow> compiler \<Rightarrow> compiler \<Rightarrow> lval vm \<Rightarrow> bool" where
  "compiled_expr h c c' m \<longleftrightarrow> grown c c' \<and> segment h (code (cst c')) (nodes (cst c)) (here c) (here c') (single m)"

text \<open>The short-circuit operators, from the code of their operands.\<close>

lemma compiled_short:
  assumes "compile_short rec (keep_jump b) l r c = (Ok x, c')"
    and l: "\<And>x c1. rec (CExpr l 1) c = (Ok x, c1) \<Longrightarrow> compiled_expr h c c1 m"
    and r: "\<And>x c1 c2. nodes (cst c1) = nodes (cst c) \<Longrightarrow> rec (CExpr r 1) c1 = (Ok x, c2) \<Longrightarrow> compiled_expr h c1 c2 k"
    and "stackless m" "stackless k"
  shows "compiled_expr h c c' (vthen m (\<lambda>x. if truthy x = b then k else vok x))"
proof -
  obtain x1 c1 ip c2 x3 c3 where c1: "rec (CExpr l 1) c = (Ok x1, c1)" and c2: "emit (keep_jump b) 0 0 c1 = (Ok ip, c2)"
    and c3: "rec (CExpr r 1) c2 = (Ok x3, c3)" and c': "c' = c3\<lparr>cst := set_a ip (here c3) (cst c3)\<rparr>"
    using assms(1) by (auto simp: compile_short_def patch_here_def step_simps split: prod.splits res.splits)
  note l = l [OF c1, unfolded compiled_expr_def]
  note jump = emit_Ok [OF c2]
  have g1: "grown c c1" and g2: "grown c1 c2"
    using l jump by auto
  then have n2: "nodes (cst c2) = nodes (cst c)"
    by (simp add: grown_fields)
  note r = r [OF n2 c3, unfolded compiled_expr_def]
  have ips: "here c \<le> ip" "ip < here c3" "here c2 = Suc ip" "ip = here c1" "here c' = here c3"
    using jump g1 r by (auto simp: grown_def c' set_a_def here_def)
  have code: "code (cst c') i = (if i = ip then (code (cst c3) ip)\<lparr>i_a := here c3\<rparr> else code (cst c3) i)" for i
    by (simp add: c' set_a_def)
  have "segment h (code (cst c')) (nodes (cst c)) (here c) ip (single m)"
    using l g2 r ips by (auto intro!: segment_cong [of h "code (cst c1)"] simp: code grown_def)
  moreover have "segment h (code (cst c')) (nodes (cst c)) (Suc ip) (here c3) (single k)"
    using r n2 ips by (auto intro!: segment_cong [of h "code (cst c3)"] simp: code)
  moreover have "i_op (code (cst c') ip) = keep_jump b" "i_a (code (cst c') ip) = here c3"
    using jump r ips by (auto simp: code grown_def)
  ultimately have "segment h (code (cst c')) (nodes (cst c)) (here c) (here c3)
      (vthen (single m) (\<lambda>ws. if truthy (hd ws) = b then single k else vok ws))"
    by (intro segment_short single_length)
  moreover have "vthen (single m) (\<lambda>ws. if truthy (hd ws) = b then single k else vok ws) =
      single (vthen m (\<lambda>x. if truthy x = b then k else vok x))"
    by (auto simp: single_def vthen_apply vm_apply fun_eq_iff split: prod.split vres.split)
  moreover have "grown c c'"
  proof -
    have "grown c c3"
      using g1 g2 r grown_trans by blast
    moreover have "only_code (cst c3) (cst c')" "nodes (cst c') = nodes (cst c3)"
      by (simp_all add: c' set_a_def only_codeI)
    ultimately show ?thesis
      using ips unfolding grown_def by (auto simp: code intro: only_code_trans)
  qed
  ultimately show ?thesis
    using ips by (simp add: compiled_expr_def)
qed

lemma compiled_push:
  assumes "emit op n 0 c = (Ok x, c')" and "acts h (nodes (cst c)) \<lparr>i_op = op, i_a = n, i_b = 0\<rparr> 0 (\<lambda>_. m)"
  shows "compiled_expr h c c' m"
  using assms segment_push [where cd = "code (cst c')" and ip = "here c" and nds = "nodes (cst c)" and h = h and m = m]
    emit_Ok [OF assms(1)]
  by (simp add: compiled_expr_def)

lemma compiled_unary:
  assumes "compiled_expr h c c1 m" and "emit op a 0 c1 = (Ok x, c')"
    and "acts h (nodes (cst c)) \<lparr>i_op = op, i_a = a, i_b = 0\<rparr> 1 (\<lambda>ws. g (hd ws))"
  shows "compiled_expr h c c' (vthen m g)"
proof -
  note e = emit_Ok [OF assms(2)]
  have "segment h (code (cst c')) (nodes (cst c)) (here c) (here c1) (single m)"
    using assms(1) e by (auto simp: compiled_expr_def intro: segment_grown)
  from segment_unary [OF this] assms(3) e
  show ?thesis
    using assms(1) grown_trans by (auto simp: compiled_expr_def)
qed

lemma compiled_binary:
  assumes "compiled_expr h c c1 m" and "compiled_expr h c1 c2 k" and "emit op a 0 c2 = (Ok x, c')"
    and "acts h (nodes (cst c)) \<lparr>i_op = op, i_a = a, i_b = 0\<rparr> 2 (\<lambda>ws. g (ws ! 0) (ws ! 1))"
  shows "compiled_expr h c c' (vthen m (\<lambda>x. vthen k (g x)))"
proof -
  note e = emit_Ok [OF assms(3)]
  have n: "nodes (cst c1) = nodes (cst c)" and g: "grown c1 c2" "grown c2 c'" "grown c c1"
    using assms(1,2) e by (simp_all add: compiled_expr_def grown_def)
  have "segment h (code (cst c')) (nodes (cst c)) (here c) (here c1) (single m)"
    using assms(1) grown_trans [OF g(1,2)] by (auto simp: compiled_expr_def intro: segment_grown)
  moreover have "segment h (code (cst c')) (nodes (cst c)) (here c1) (here c2) (single k)"
    using assms(2) g n by (auto simp: compiled_expr_def intro: segment_grown)
  ultimately have "segment h (code (cst c')) (nodes (cst c)) (here c) (Suc (here c2)) (single (vthen m (\<lambda>x. vthen k (g x))))"
    using assms(4) e by (intro segment_binary) simp_all
  then show ?thesis
    using g grown_trans e by (metis compiled_expr_def)
qed

text \<open>The evaluator at a node whose kind is known.\<close>

lemma compiled_eq:
  assumes "compiled_expr h c c' m" and "\<And>s. nodes s = nodes (cst c) \<Longrightarrow> eval_expr k n s = m s"
  shows "compiled_expr h c c' (eval_expr k n)"
proof -
  have "segment h (code (cst c')) (nodes (cst c)) (here c) (here c') (single (eval_expr k n))"
  proof (rule segment_eq)
    show "segment h (code (cst c')) (nodes (cst c)) (here c) (here c') (single m)"
      using assms(1) by (simp add: compiled_expr_def)
    show "stackless (single (eval_expr k n))"
      unfolding single_def by (intro stackless_rules)
  qed (simp add: single_def vthen_apply assms(2))
  then show ?thesis
    using assms(1) by (simp add: compiled_expr_def)
qed

lemma compiled_nodes: "compiled_expr h c c' m \<Longrightarrow> nodes (cst c') = nodes (cst c)"
  by (simp add: compiled_expr_def grown_def)

lemma compiled_expression:
  assumes "compile_job k (CExpr n want) c = (Ok x, c')" and "simple_expr k (nodes (cst c)) n"
    and "want = 1 \<or> want = WANT_ALL"
  shows "compiled_expr h c c' (eval_expr k n)"
  using assms
proof (induction k arbitrary: n want c c' x)
  case (Suc k)
  let ?nd = "nodes (cst c) n"
  have n: "n < MAX_NODES" and simple: "\<forall>f a. ?nd \<noteq> NCall f a"
    using Suc.prems(1,2) by (auto simp: compile_step_def compile_expr_def node_at_def step_simps split: if_splits)
  have value_code: "\<exists>y. compile_value (compile_job k) n ?nd c = (Ok y, c')"
    using Suc.prems(1,3) n simple
    by (auto simp: compile_step_def compile_expr_def node_at_def step_simps WANT_ALL_def
        split: prod.splits res.splits node.splits)
  then obtain y where code: "compile_value (compile_job k) n ?nd c = (Ok y, c')" ..
  have const: "compiled_expr h c c' (eval_expr (Suc k) n)" if v: "const_of ?nd = Some v" for v
  proof (rule compiled_eq)
    show "compiled_expr h c c' (vok v)"
      using code v by (intro compiled_push [OF _ acts_push_const [where nds = "nodes (cst c)", OF v n]])
        (auto simp: compile_value_def const_of_def split: node.splits)
    show "eval_expr (Suc k) n s = vok v s" if "nodes s = nodes (cst c)" for s
      using v that by (auto simp: const_of_def vm_apply split: node.splits)
  qed
  show ?case
  proof (cases ?nd)
    case (NVar name)
    then have "compiled_expr h c c' (variable name)"
      using code by (intro compiled_push [OF _ acts_get_var [where nds = "nodes (cst c)", OF NVar n]]) (auto simp: compile_value_def)
    then show ?thesis
      by (rule compiled_eq) (simp add: NVar vm_apply)
  next
    case (NUn op a)
    then obtain y1 c1 where "compile_job k (CExpr a 1) c = (Ok y1, c1)" and e: "emit UnOp (op_code op) 0 c1 = (Ok y, c')"
      using code by (auto simp: compile_value_def step_simps split: prod.splits res.splits)
    then have "compiled_expr h c c1 (eval_expr k a)"
      using Suc.prems(2) NUn by (intro Suc.IH) auto
    from compiled_unary [OF this e acts_unop]
    show ?thesis
      by (rule compiled_eq) (simp add: NUn vm_apply)
  next
    case (NIndex a b)
    then obtain y1 c1 y2 c2 where "compile_job k (CExpr a 1) c = (Ok y1, c1)" and "compile_job k (CExpr b 1) c1 = (Ok y2, c2)"
      and e: "emit GetIndex 0 0 c2 = (Ok y, c')"
      using code by (auto simp: compile_value_def step_simps split: prod.splits res.splits)
    moreover from this have a: "compiled_expr h c c1 (eval_expr k a)"
      using Suc.prems(2) NIndex by (intro Suc.IH) auto
    ultimately have "compiled_expr h c1 c2 (eval_expr k b)"
      using Suc.prems(2) NIndex compiled_nodes [OF a] by (intro Suc.IH) auto
    from compiled_binary [OF a this e acts_get_index]
    show ?thesis
      by (rule compiled_eq) (simp add: NIndex vm_apply)
  next
    case (NBin op a b)
    have simple: "simple_expr k (nodes (cst c)) a" "simple_expr k (nodes (cst c)) b"
      using Suc.prems(2) NBin by auto
    have left: "compiled_expr h c c1 (eval_expr k a)" if "compile_job k (CExpr a 1) c = (Ok x1, c1)" for x1 c1
      using that simple by (intro Suc.IH) auto
    have right: "compiled_expr h c1 c2 (eval_expr k b)"
      if "nodes (cst c1) = nodes (cst c)" "compile_job k (CExpr b 1) c1 = (Ok x2, c2)" for x2 c1 c2
      using that simple by (intro Suc.IH) auto
    have short: "compiled_expr h c c' (vthen (eval_expr k a) (\<lambda>x. if truthy x = b' then eval_expr k b else vok x))"
      if "compile_short (compile_job k) (keep_jump b') a b c = (Ok y, c')" for b'
      by (rule compiled_short [OF that left right]) (auto intro: stackless_rules)
    consider (conj) "op = OpAnd" | (disj) "op = OpOr" | (other) "op \<noteq> OpAnd" "op \<noteq> OpOr"
      by blast
    then show ?thesis
    proof cases
      case conj
      then show ?thesis
        using code NBin by (intro compiled_eq [OF short [of True]])
          (auto simp: compile_value_def keep_jump_def vm_apply intro: arg_cong2 [where f = vthen] fun_cong)
    next
      case disj
      have "(\<lambda>x. if truthy x = False then eval_expr k b else vok x) = (\<lambda>x. if truthy x then vok x else eval_expr k b)"
        by auto
      with disj show ?thesis
        using code NBin by (intro compiled_eq [OF short [of False]]) (auto simp: compile_value_def keep_jump_def vm_apply)
    next
      case other
      then obtain y1 c1 y2 c2 where c1: "compile_job k (CExpr a 1) c = (Ok y1, c1)" and c2: "compile_job k (CExpr b 1) c1 = (Ok y2, c2)"
        and e: "emit BinOp (op_code op) 0 c2 = (Ok y, c')"
        using code NBin by (auto simp: compile_value_def step_simps split: prod.splits res.splits)
      from compiled_binary [OF left [OF c1] right [OF compiled_nodes [OF left [OF c1]] c2] e acts_binop]
      show ?thesis
        by (rule compiled_eq) (simp add: NBin vm_apply other)
    qed
  qed (use const Suc.prems(2) in \<open>simp_all add: const_of_def\<close>)
qed simp

section \<open>Properties\<close>

text \<open>
  C4. The code the compiler emits for an expression of constants, variables, operators and indexing, without
  calls, function literals and table constructors, computes the expression in every memory without
  metatables: wherever the code is run, with room on the stack and steps left, it pushes the value that the
  evaluator gives and goes on after the code, or raises the evaluator's error, or panics where the
  evaluator does.
\<close>

theorem expression_code_correct:
  assumes "compile_job k (CExpr n want) c = (Ok x, c')" and "simple_expr k (nodes (cst c)) n"
    and "want = 1 \<or> want = WANT_ALL" and "ready (code (cst c')) (nodes (cst c)) (here c) (here c') s"
  shows "computes h (here c) (here c') s (vthen (eval_expr k n) (\<lambda>v. vok [v]) s)"
  using compiled_expression [OF assms(1-3), of h] segmentD(3) [OF _ assms(4)]
  by (simp add: compiled_expr_def single_def)

text \<open>The code of \<open>1 + 2\<close>.\<close>

definition sum_nodes :: lua where
  "sum_nodes = new_lua\<lparr>nodes := (\<lambda>_. NEmpty)(0 := NBin OpAdd 1 2, 1 := NNum 1, 2 := NNum 2)\<rparr>"

definition sum_code :: lua where
  "sum_code = sum_nodes\<lparr>code := (code new_lua)(0 := \<lparr>i_op = PushConst, i_a = 1, i_b = 0\<rparr>,
     1 := \<lparr>i_op = PushConst, i_a = 2, i_b = 0\<rparr>, 2 := \<lparr>i_op = BinOp, i_a = 0, i_b = 0\<rparr>), ncode := 3\<rparr>"

lemma sum_node [simp]: "nodes sum_nodes 0 = NBin OpAdd 1 2" "nodes sum_nodes 1 = NNum 1" "nodes sum_nodes (Suc 0) = NNum 1"
  "nodes sum_nodes 2 = NNum 2" "nodes sum_code = nodes sum_nodes"
  by (simp_all add: sum_nodes_def sum_code_def)

lemma sum_compiled:
  "compile_job (Suc (Suc k)) (CExpr 0 WANT_ALL) (new_compiler sum_nodes) = (Ok 0, new_compiler sum_code)"
  "compile_job (Suc (Suc k)) (CExpr 0 1) (new_compiler sum_nodes) = (Ok 0, new_compiler sum_code)"
  by (simp_all add: sum_nodes_def sum_code_def new_compiler_def compile_step_def compile_expr_def node_at_def compile_value_def
      step_simps emit_def Let_def WANT_ALL_def op_code_def here_def MAX_NODES_def MAX_CODE_def new_lua_def numeral_2_eq_2 numeral_3_eq_3)

lemma sum_plain [simp]: "no_metatables sum_nodes" "no_metatables sum_code" "vsp sum_code = 0" "steps sum_code = 0" "ncode sum_code = 3"
  "vsp sum_nodes = 0" "steps sum_nodes = 0" "fsp sum_nodes = 0" "ncode sum_nodes = 0" "console sum_nodes = []"
  by (simp_all add: sum_nodes_def sum_code_def new_lua_def no_metatables_def)

lemma sum_simple: "simple_expr (Suc (Suc k)) (nodes sum_nodes) 0"
  by simp

lemma sum_eval: "nodes s = nodes sum_nodes \<Longrightarrow> eval_expr (Suc (Suc k)) 0 s = (Fine (VNum 3), s)"
  by (simp add: vm_apply vthen_apply binop_def arith_def int_arith_def)

lemma expression_code_correct_witness:
  "computes sample_host 0 3 sum_code (Fine [VNum 3], sum_code)"
proof -
  have "computes sample_host (here (new_compiler sum_nodes)) (here (new_compiler sum_code)) sum_code
      (vthen (eval_expr (Suc (Suc 0)) 0) (\<lambda>v. vok [v]) sum_code)"
    using sum_compiled(2) [of 0] sum_simple [of 0]
    by (intro expression_code_correct [where x = 0 and want = 1])
      (simp_all add: new_compiler_def here_def ready_def fits_def STACK_CAP_def MAX_STEPS_def)
  then show ?thesis
    by (simp add: vthen_apply sum_eval vm_apply here_def new_compiler_def del: eval_expr.simps)
qed

section \<open>A line of the read-eval-print loop\<close>

definition line_frame :: frame where
  "line_frame = empty_frame\<lparr>ret_ip := RET_HALT, f_want := WANT_ALL, f_stack_base := 0\<rparr>"

definition framed :: "lua \<Rightarrow> lua" where
  "framed s = s\<lparr>frames := (frames s)(fsp s := line_frame), fsp := fsp s + 1\<rparr>"

lemma framed_fields [simp]:
  "nodes (framed s) = nodes s" "code (framed s) = code s" "ncode (framed s) = ncode s" "vsp (framed s) = vsp s"
  "steps (framed s) = steps s" "console (framed s) = console s" "fsp (framed s) = fsp s + 1"
  "no_metatables (framed s) = no_metatables s" "frames (framed s) (fsp s) = line_frame"
  by (simp_all add: framed_def no_metatables_def)

lemma push_line_frame:
  "fsp s < MAX_FRAMES \<Longrightarrow>
    vpush_frame (\<lambda>fr. fr\<lparr>ret_ip := RET_HALT, f_want := WANT_ALL, f_stack_base := 0\<rparr>) s = (Fine (), framed s)"
  by (simp add: vpush_frame_def vlift_def push_frame_def set_frame_def vm_simps framed_def line_frame_def)

text \<open>What \<open>print\<close> writes for a value, when there are no metatables.\<close>

definition shown :: "lua \<Rightarrow> lval \<Rightarrow> bytes option" where
  "shown s v = (case v of VStr r \<Rightarrow> str_bytes s r | _ \<Rightarrow> Some (plain_text v))"

lemma tostring_plain:
  assumes "no_metatables s" and "\<not> wild v" and "shown s v = Some bs"
  shows "tostring c v s = (Fine (), s\<lparr>console := console s @ bs\<rparr>)"
  using assms
  by (cases v) (simp_all add: tostring_def tostring_mm_def vm_simps mm_of_plain shown_def emit_bytes_def vchecked_def)

definition command :: "lval \<Rightarrow> bool" where
  "command v \<longleftrightarrow> v \<in> {VExit, VShell, VDhcp, VLs}"

lemma show_one:
  assumes "no_metatables s" and "\<not> wild v" and "\<not> command v" and "shown s v = Some bs" and "vstack s 0 = v"
  shows "show_results h c 1 s = (Fine Normal, s\<lparr>console := console s @ bs @ [10], vsp := 0\<rparr>)"
  using assms
  by (cases v) (simp_all add: show_results_def vm_simps at_stack_def STACK_CAP_def tostring_plain emit_bytes_def
      set_vsp_def command_def)

text \<open>The \<open>Return\<close> at the end of the line's code, with the value alone on the stack.\<close>

lemma return_line:
  assumes "vsp s = 1" and "fsp s = Suc f" and "f < MAX_FRAMES" and "frames s f = line_frame"
  shows "do_return WANT_ALL s = (Fine (Stop (Ret (vstack s 0))), s\<lparr>fsp := f\<rparr>)"
  using assms
  by (simp add: do_return_def top_frame_def vm_simps line_frame_def minus_ix_def at_stack_def put_stack_def settle_def
      set_vsp_def vpop_frame_def pop_frame_def result_from_stack_def STACK_CAP_def WANT_ALL_def)

text \<open>The state in which the code of a line that is not an assignment runs, and that code.\<close>

lemma compile_line_Ok:
  assumes "compile_line n s = (Ok entry, s1)" and "simple_expr (MAX_NODES + 2) (nodes s) n"
  shows "entry = ncode s" and "ncode s < ncode s1" and "only_code s s1"
    and "i_op (code s1 (ncode s1 - 1)) = Return" and "i_a (code s1 (ncode s1 - 1)) = WANT_ALL"
    and "segment h (code s1) (nodes s) (ncode s) (ncode s1 - 1) (single (eval_expr (MAX_NODES + 2) n))"
proof -
  obtain x c y c' where c: "compile_job (MAX_NODES + 2) (CExpr n WANT_ALL) (new_compiler s) = (Ok x, c)"
    and c': "emit Return WANT_ALL 0 c = (Ok y, c')" and e: "entry = ncode s" "s1 = cst c'"
    using assms(1) by (auto simp: compile_line_def step_simps split: prod.splits res.splits)
  have s: "cst (new_compiler s) = s" "here (new_compiler s) = ncode s"
    by (simp_all add: new_compiler_def here_def)
  have "simple_expr (MAX_NODES + 2) (nodes (cst (new_compiler s))) n"
    using assms(2) s by simp
  note x = compiled_expression [OF c this, of h, unfolded compiled_expr_def s]
  note r = emit_Ok [OF c']
  have h: "here c = ncode s1 - 1" "ncode s1 = Suc (here c)" "ncode s \<le> here c"
    using r x by (auto simp: here_def e grown_def s)
  show "entry = ncode s" "ncode s < ncode s1"
    using e h by auto
  show "only_code s s1"
    using x r e by (auto simp: grown_def s intro: only_code_trans)
  show "i_op (code s1 (ncode s1 - 1)) = Return" "i_a (code s1 (ncode s1 - 1)) = WANT_ALL"
    using r h e by simp_all
  show "segment h (code s1) (nodes s) (ncode s) (ncode s1 - 1) (single (eval_expr (MAX_NODES + 2) n))"
    using x r h e s by (auto simp: grown_def intro!: segment_grown [of h c, where c' = c'])
qed

lemma only_code_same:
  "only_code s t \<Longrightarrow> console t = console s \<and> nodes t = nodes s \<and> fsp t = fsp s \<and> vsp t = vsp s \<and> steps t = steps s \<and>
    no_metatables t = no_metatables s"
  by (auto simp: only_code_def no_metatables_def)

lemma exec_return:
  assumes "ip < ncode s" and "i_op (code s ip) = Return" and "i_a (code s ip) = WANT_ALL"
    and "do_return WANT_ALL s = (Fine (Stop r), s')"
  shows "exec h (Suc f) (JRun ip flr) s = (Fine r, s')"
  using assms by (cases "code s ip") (simp add: exec.simps run_at_def exec_instr_def vthen_apply count_step_def vm_simps)

text \<open>
  C5. A line of the loop that compiles to such an expression terminates and prints its value, in a memory
  without metatables and with room for its code and its steps, when the evaluator gives a value that is none
  of the shell commands: with fuel enough the line returns normally, what was written is the text of the
  value followed by a newline, and the stacks are as before, ready for the next line.
\<close>

theorem repl_line_prints_value:
  assumes line: "compile_line n s = (Ok entry, s1)" and simple: "simple_expr (MAX_NODES + 2) (nodes s) n"
    and state: "no_metatables s" "vsp s = 0" "steps s = 0" "fsp s < MAX_FRAMES"
    and room: "ncode s1 \<le> ncode s + STACK_CAP" "ncode s1 \<le> ncode s + MAX_STEPS"
    and evaluated: "eval_expr (MAX_NODES + 2) n (framed s1) = (Fine v, s2)"
    and printed: "\<not> command v" "\<not> wild v" "shown s2 v = Some bs"
  shows "\<exists>k s3. (\<forall>f\<ge>k. run_line_value h f n s = (Fine Normal, s3)) \<and> console s3 = console s @ bs @ [10] \<and>
    vsp s3 = 0 \<and> fsp s3 = fsp s"
proof -
  note l = compile_line_Ok [OF line simple]
  let ?ip = "ncode s1 - 1" and ?m = "eval_expr (MAX_NODES + 2) n"
  note s1 = only_code_same [OF l(3)]
  have "stackless ?m"
    by (rule stackless_eval)
  then have kept: "kept (framed s1) s2"
    using stacklessD(6) [where m = ?m and s = "framed s1"] evaluated s1 state(1) by simp
  have "ready (code s1) (nodes s) (ncode s) ?ip (framed s1)"
    using s1 state room l(2) by (auto simp: ready_def fits_def)
  moreover have outcome: "single ?m (framed s1) = (Fine [v], s2)"
    unfolding single_def vthen_apply evaluated by (simp add: vm_apply)
  ultimately obtain t vs where v0: "vs 0 = v" and run: "\<And>f flr. exec h (f + t) (JRun (ncode s) flr) (framed s1) =
      exec h f (JRun ?ip flr) (restack (vs, 1, of_nat t) s2)"
    using s1 state segmentD(3) [OF l(6) [where h = h], of "framed s1"] by (auto simp: computes_def simp del: eval_expr.simps)
  let ?r = "restack (vs, 1, of_nat t) s2"
  have top: "fsp s2 = Suc (fsp s1)" "frames s2 (fsp s1) = line_frame" "code s2 = code s1" "ncode s2 = ncode s1"
    "console s2 = console s" "no_metatables s2"
    using kept s1 framed_fields(9) [of s1] by (simp_all add: kept_def del: framed_fields(9))
  then have ret: "do_return WANT_ALL ?r = (Fine (Stop (Ret v)), ?r\<lparr>fsp := fsp s1\<rparr>)"
    using return_line [of ?r "fsp s1"] s1 state v0 by simp
  have exec: "exec h (Suc f + t) (JRun (ncode s) flr) (framed s1) = (Fine (Ret v), ?r\<lparr>fsp := fsp s1\<rparr>)" for f flr
    unfolding run using l(2,4,5) top ret by (intro exec_return) simp_all
  let ?e = "?r\<lparr>fsp := fsp s1\<rparr>" and ?s3 = "?r\<lparr>fsp := fsp s1, console := console s @ bs @ [10], vsp := 0\<rparr>"
  have "shown ?e v = shown s2 v" "no_metatables ?e" "console ?e = console s"
    using top by (simp_all add: shown_def str_bytes_def restack_def no_metatables_def split: lval.split)
  then have show1: "show_results h c 1 ?e = (Fine Normal, ?s3)" for c
    using show_one [of ?e v bs h c] printed v0 top by simp
  have "run_line_value h f n s = (Fine Normal, ?s3)" if "f \<ge> Suc t" for f
  proof -
    have "f = Suc (f - Suc t) + t"
      using that by simp
    then have "run (exec h f) entry (framed s1) = (Fine (Ret v), ?e)"
      using exec [of "f - Suc t"] l(1) by (simp only: run_def vm_apply)
    moreover have "fsp s1 < MAX_FRAMES"
      using s1 state by simp
    moreover have "result_count (Ret v) = 1"
      by (simp add: result_count_def)
    ultimately show ?thesis
      unfolding run_line_value_def vthen_apply vlift_def line vnext_apply
      by (simp only: prod.case res.case vres.case push_line_frame show1)
  qed
  then show ?thesis
    using s1 by (intro exI [of _ "Suc t"] exI [of _ ?s3]) auto
qed

lemma repl_line_prints_value_witness:
  "\<exists>k s3. (\<forall>f\<ge>k. run_line_value sample_host f 0 sum_nodes = (Fine Normal, s3)) \<and> console s3 = [51, 10] \<and>
    vsp s3 = 0 \<and> fsp s3 = 0"
proof -
  let ?s1 = "sum_code\<lparr>code := (code sum_code)(3 := \<lparr>i_op = Return, i_a = WANT_ALL, i_b = 0\<rparr>), ncode := 4\<rparr>"
  have "compile_job (MAX_NODES + 2) (CExpr 0 WANT_ALL) (new_compiler sum_nodes) = (Ok 0, new_compiler sum_code)"
    using sum_compiled(1) [of MAX_NODES] by simp
  then have "compile_line 0 sum_nodes = (Ok 0, ?s1)"
    unfolding compile_line_def
    by (simp add: step_simps emit_def Let_def MAX_CODE_def del: compile_job.simps) (simp add: new_compiler_def)
  moreover have "itoa 3 = [51]"
    by code_simp
  ultimately show ?thesis
    using repl_line_prints_value [where h = sample_host and n = 0 and s = sum_nodes and entry = 0 and ?s1.0 = ?s1
        and v = "VNum 3" and ?s2.0 = "framed ?s1" and bs = "[51]"]
    by (simp add: sum_eval STACK_CAP_def MAX_STEPS_def MAX_FRAMES_def command_def wild_def shown_def plain_text_def
        del: eval_expr.simps)
qed

end
