(* ===== verification/LuaSyntax.thy ===== *)
theory LuaSyntax
  imports LuaParse LuaEnv
begin

text \<open>
  What the parser of \<^verbatim>\<open>lua/src/parse.rs\<close> promises: for every source text it returns, never
  panics, and leaves a well-formed program in the interpreter's memory: every index in a node, in
  a link or in a function refers to an allocated node or function, and every string reference lies
  inside the string arena. The recursive calls are the contract \<open>parser_calls\<close>, which the
  grammar functions are proved against and which \<open>parse\<close> satisfies with its fuel as the bound on
  the tokens left.
\<close>

section \<open>Well-formed programs\<close>

definition kid :: "lua \<Rightarrow> nat \<Rightarrow> bool" where "kid l i \<longleftrightarrow> i < node_used l"
definition opt_kid :: "lua \<Rightarrow> nat \<Rightarrow> bool" where "opt_kid l i \<longleftrightarrow> i = NO_NODE \<or> i < node_used l"
definition fun_kid :: "lua \<Rightarrow> nat \<Rightarrow> bool" where "fun_kid l i \<longleftrightarrow> i < funcs_used l"
definition str_kid :: "lua \<Rightarrow> strref \<Rightarrow> bool" where "str_kid l r \<longleftrightarrow> str_off r + str_len r \<le> str_next l"

definition node_ok :: "lua \<Rightarrow> node \<Rightarrow> bool" where
  "node_ok l n = (case n of
       NStr r \<Rightarrow> str_kid l r | NVar r \<Rightarrow> str_kid l r | NLabel r \<Rightarrow> str_kid l r
     | NBin _ a b \<Rightarrow> kid l a \<and> kid l b | NUn _ a \<Rightarrow> kid l a | NIndex t k \<Rightarrow> kid l t \<and> kid l k
     | NCall f args \<Rightarrow> kid l f \<and> opt_kid l args | NArg a \<Rightarrow> kid l a
     | NFuncLit f \<Rightarrow> fun_kid l f | NTableLit first \<Rightarrow> opt_kid l first | NField k v \<Rightarrow> kid l k \<and> kid l v
     | NLocalDecl names v \<Rightarrow> kid l names \<and> kid l v | NLocalFunc name f \<Rightarrow> kid l name \<and> fun_kid l f
     | NGlobalDecl name v \<Rightarrow> kid l name \<and> opt_kid l v | NAssign t v \<Rightarrow> kid l t \<and> kid l v
     | NCallStmt e \<Rightarrow> kid l e | NExprStmt e \<Rightarrow> kid l e
     | NIf c t e \<Rightarrow> kid l c \<and> opt_kid l t \<and> opt_kid l e | NWhile c b \<Rightarrow> kid l c \<and> opt_kid l b
     | NFor n a z s b \<Rightarrow> kid l n \<and> kid l a \<and> kid l z \<and> opt_kid l s \<and> opt_kid l b
     | NForCell n a z s b \<Rightarrow> kid l n \<and> kid l a \<and> kid l z \<and> opt_kid l s \<and> opt_kid l b
     | NForIn n v t b \<Rightarrow> kid l n \<and> opt_kid l v \<and> kid l t \<and> opt_kid l b
     | NForInCell n v t b \<Rightarrow> kid l n \<and> opt_kid l v \<and> kid l t \<and> opt_kid l b
     | NRepeat b c \<Rightarrow> opt_kid l b \<and> kid l c | NReturn v \<Rightarrow> opt_kid l v
     | _ \<Rightarrow> True)"

definition func_ok :: "lua \<Rightarrow> func_def \<Rightarrow> bool" where
  "func_ok l f \<longleftrightarrow> (nparams f = 0 \<or> params f + nparams f \<le> node_used l) \<and> opt_kid l (fbody f) \<and>
     nup f \<le> MAX_UPVALS \<and> (\<forall>i<nup f. str_kid l (up_names f i))"

definition prog_ok :: "lua \<Rightarrow> bool" where
  "prog_ok l \<longleftrightarrow> arena_ok l \<and> node_used l \<le> MAX_NODES \<and> funcs_used l \<le> MAX_FUNCS \<and>
     (\<forall>i<node_used l. node_ok l (nodes l i)) \<and> (\<forall>i. opt_kid l (nxt l i)) \<and>
     (\<forall>i<funcs_used l. func_ok l (funcs l i))"

lemmas kid_defs = kid_def opt_kid_def fun_kid_def str_kid_def

text \<open>Memory only grows: what was well-formed stays so.\<close>

definition grows :: "lua \<Rightarrow> lua \<Rightarrow> bool" where
  "grows l l' \<longleftrightarrow> node_used l \<le> node_used l' \<and> funcs_used l \<le> funcs_used l' \<and> str_next l \<le> str_next l'"

lemma kid_grows:
  "grows l l' \<Longrightarrow> kid l i \<Longrightarrow> kid l' i" "grows l l' \<Longrightarrow> opt_kid l i \<Longrightarrow> opt_kid l' i"
  "grows l l' \<Longrightarrow> fun_kid l i \<Longrightarrow> fun_kid l' i" "grows l l' \<Longrightarrow> str_kid l r \<Longrightarrow> str_kid l' r"
  by (auto simp: grows_def kid_defs)

lemma node_ok_grows: "grows l l' \<Longrightarrow> node_ok l n \<Longrightarrow> node_ok l' n"
  by (cases n) (auto simp: node_ok_def intro: kid_grows)

lemma func_ok_grows: "grows l l' \<Longrightarrow> func_ok l f \<Longrightarrow> func_ok l' f"
  by (auto simp: func_ok_def grows_def kid_defs dest: order_trans le_less_trans intro: order_trans less_le_trans)

lemma intern_prog:
  assumes "prog_ok l" and "intern bs l = (r, l')"
  shows "prog_ok l' \<and> grows l l' \<and> (\<forall>x. r = Ok x \<longrightarrow> str_kid l' x) \<and> r \<noteq> Panic \<and> r \<noteq> OutOfFuel \<and>
    node_used l' = node_used l"
proof -
  have "arena_ok l"
    using assms(1) by (simp add: prog_ok_def)
  have same: "node_used l' = node_used l" "funcs_used l' = funcs_used l" "nodes l' = nodes l"
    "nxt l' = nxt l" "funcs l' = funcs l" "str_next l \<le> str_next l'" and total: "r \<noteq> Panic" "r \<noteq> OutOfFuel"
    using assms(2) by (auto simp: intern_def Let_def split: option.splits if_splits)
  then have g: "grows l l'"
    by (simp add: grows_def)
  have arena': "arena_ok l'"
    using arena.intern_inv [OF \<open>arena_ok l\<close> assms(2)] .
  have "str_kid l' x" if x: "r = Ok x" for x
  proof -
    obtain i where "i < nstrings l'" "x = reg_ref l' i"
      using arena.intern_result [where s = l and b = bs and r = x and s' = l'] \<open>arena_ok l\<close> assms(2) x
      by (auto simp: known_ref_def)
    then show ?thesis
      using arena' by (auto simp: str_kid_def reg_ref_def unpack_strref arena_ok_def reg_off_def reg_len_def)
  qed
  moreover have "prog_ok l'"
    using assms(1) arena' g same node_ok_grows [OF g] func_ok_grows [OF g] kid_grows [OF g]
    by (simp add: prog_ok_def)
  ultimately show ?thesis
    using g total same by simp
qed

lemma alloc_node_prog:
  assumes "prog_ok l" and "alloc_node n l = (r, l')" and "node_ok (l\<lparr>node_used := node_used l + 1\<rparr>) n"
  shows "prog_ok l' \<and> grows l l' \<and> r \<noteq> Panic \<and> r \<noteq> OutOfFuel \<and>
    (\<forall>x. r = Ok x \<longrightarrow> x = node_used l \<and> node_used l' = node_used l + 1)"
proof (cases "node_used l \<ge> MAX_NODES")
  case True
  then show ?thesis
    using assms by (auto simp: alloc_node_def grows_def)
next
  case False
  then have r: "r = Ok (node_used l)"
      "l' = l\<lparr>nodes := (nodes l)(node_used l := n), node_used := node_used l + 1\<rparr>"
    using assms(2) by (auto simp: alloc_node_def)
  have g: "grows l l'"
    by (simp add: r grows_def)
  have nn: "node_ok l' n"
    by (rule node_ok_grows [OF _ assms(3)]) (simp add: r grows_def)
  have "arena_ok l'"
    using assms(1) by (simp add: prog_ok_def r arena_ok_def reg_off_def reg_len_def reg_bytes_def)
  then have "prog_ok l'"
    using assms(1) False nn node_ok_grows [OF g] func_ok_grows [OF g] kid_grows [OF g]
    by (auto simp: prog_ok_def r less_Suc_eq)
  with g r show ?thesis by simp
qed

lemma alloc_func_prog:
  assumes "prog_ok l" and "alloc_func ps np body names l = (r, l')"
    and "np = 0 \<or> ps + np \<le> node_used l" and "opt_kid l body" and "\<forall>u\<in>set names. str_kid l u"
  shows "prog_ok l' \<and> grows l l' \<and> r \<noteq> Panic \<and> r \<noteq> OutOfFuel \<and> node_used l' = node_used l \<and>
    (\<forall>x. r = Ok x \<longrightarrow> fun_kid l' x)"
proof (cases "funcs_used l \<ge> MAX_FUNCS \<or> length names > MAX_UPVALS")
  case True
  then show ?thesis
    using assms by (auto simp: alloc_func_def grows_def split: if_splits)
next
  case False
  define f where "f = \<lparr>params = ps, nparams = np, fbody = body, fentry = 0,
      up_names = (\<lambda>i. if i < length names then names ! i else 0), nup = length names\<rparr>"
  have r: "r = Ok (funcs_used l)"
      "l' = l\<lparr>funcs := (funcs l)(funcs_used l := f), funcs_used := funcs_used l + 1\<rparr>"
    using assms(2) False by (auto simp: alloc_func_def f_def)
  have g: "grows l l'"
    by (simp add: r grows_def)
  have nn: "func_ok l' f"
    using assms(3-5) False by (auto simp: func_ok_def f_def r opt_kid_def str_kid_def)
  have "arena_ok l'"
    using assms(1) by (simp add: prog_ok_def r arena_ok_def reg_off_def reg_len_def reg_bytes_def)
  then have "prog_ok l'"
    using assms(1) False nn node_ok_grows [OF g] func_ok_grows [OF g] kid_grows [OF g]
    by (auto simp: prog_ok_def r less_Suc_eq)
  with g r show ?thesis by (simp add: fun_kid_def)
qed

lemma set_node_prog:
  assumes "prog_ok l" and "i < node_used l \<longrightarrow> node_ok l n"
  shows "prog_ok (l\<lparr>nodes := (nodes l)(i := n)\<rparr>)"
proof -
  have g: "grows l (l\<lparr>nodes := (nodes l)(i := n)\<rparr>)"
    by (simp add: grows_def)
  show ?thesis
    using assms node_ok_grows [OF g] func_ok_grows [OF g] kid_grows [OF g]
    by (auto simp: prog_ok_def arena_ok_def reg_off_def reg_len_def reg_bytes_def)
qed

lemma set_link_prog:
  assumes "prog_ok l" and "opt_kid l v"
  shows "prog_ok (l\<lparr>nxt := (nxt l)(i := v)\<rparr>)"
proof -
  have g: "grows l (l\<lparr>nxt := (nxt l)(i := v)\<rparr>)"
    by (simp add: grows_def)
  show ?thesis
    using assms node_ok_grows [OF g] func_ok_grows [OF g] kid_grows [OF g]
    by (auto simp: prog_ok_def arena_ok_def reg_off_def reg_len_def reg_bytes_def)
qed


section \<open>The parser's invariant\<close>

definition scope_ok :: "lua \<Rightarrow> scope \<Rightarrow> bool" where
  "scope_ok l sc \<longleftrightarrow> nlabels sc \<le> MAX_LABELS_PER_SCOPE \<and> ngotos sc \<le> MAX_GOTOS_PER_SCOPE \<and>
     (\<forall>i<nlabels sc. kid l (snd (labels sc i))) \<and> (\<forall>i<ngotos sc. kid l (fst (gotos sc i)))"

definition ups_ok :: "lua \<Rightarrow> func_scope \<Rightarrow> bool" where
  "ups_ok l fs \<longleftrightarrow> nups fs \<le> MAX_UPVALS \<and> (\<forall>i<nups fs. str_kid l (ups fs i))"

definition parser_ok :: "parser \<Rightarrow> bool" where
  "parser_ok p \<longleftrightarrow> lexer_ok (lex p) \<and>
     (\<forall>a n. cur p = TName a n \<longrightarrow> unat a + unat n \<le> length (src (lex p))) \<and>
     n_scopes p \<le> MAX_SCOPES \<and> nlocals p \<le> MAX_RESOLVED_LOCALS \<and>
     1 \<le> nfuncs p \<and> nfuncs p \<le> MAX_FUNC_SCOPES \<and>
     (\<forall>s. scope_ok (st p) (scopes p s)) \<and> (\<forall>f. ups_ok (st p) (pfuncs p f)) \<and>
     (\<forall>i. opt_kid (st p) (decl_node (plocals p i))) \<and> prog_ok (st p)"

text \<open>The tokens left, an upper bound: the current one and the bytes after it.\<close>

definition left :: "parser \<Rightarrow> nat" where
  "left p = length (src (lex p)) - pos (lex p) + (if cur p = TEof then 0 else 1)"

text \<open>\<open>p'\<close> comes after \<open>p\<close>, with \<open>d\<close> tokens consumed and the nesting unchanged.\<close>

definition later :: "nat \<Rightarrow> parser \<Rightarrow> parser \<Rightarrow> bool" where
  "later d p p' \<longleftrightarrow> left p' + d \<le> left p \<and> n_scopes p' = n_scopes p \<and> nfuncs p' = nfuncs p \<and>
     grows (st p) (st p')"

lemma scope_ok_grows: "grows l l' \<Longrightarrow> scope_ok l sc \<Longrightarrow> scope_ok l' sc"
  by (auto simp: scope_ok_def intro: kid_grows)

lemma ups_ok_grows: "grows l l' \<Longrightarrow> ups_ok l fs \<Longrightarrow> ups_ok l' fs"
  by (auto simp: ups_ok_def intro: kid_grows)

lemma parser_ok_state: "parser_ok p \<Longrightarrow> prog_ok l \<Longrightarrow> grows (st p) l \<Longrightarrow> parser_ok (p\<lparr>st := l\<rparr>)"
  by (auto simp: parser_ok_def intro: scope_ok_grows ups_ok_grows kid_grows)

section \<open>Weakest preconditions\<close>

text \<open>
  \<open>m\<close> neither panics nor runs out of fuel from \<open>p\<close>, an error leaves a well-formed memory, and a
  result satisfies \<open>Q\<close>.
\<close>

definition wp :: "'a parse \<Rightarrow> ('a \<Rightarrow> parser \<Rightarrow> bool) \<Rightarrow> parser \<Rightarrow> bool" where
  "wp m Q p \<longleftrightarrow> (case m p of (Ok x, p') \<Rightarrow> Q x p' | (Err _, p') \<Rightarrow> prog_ok (st p') | _ \<Rightarrow> False)"

named_theorems wp_simps
named_theorems wp_rules

lemma wp_simple [wp_simps]:
  "wp (andthen m k) Q = wp m (\<lambda>x. wp (k x) Q)"
  "wp (andnext m n) Q = wp m (\<lambda>_. wp n Q)"
  "wp (reads f) Q = (\<lambda>p. wp (f p) Q p)"
  "wp (sets g) R p \<longleftrightarrow> R () (g p)"
  "wp (ok x) Q' p \<longleftrightarrow> Q' x p"
  "wp (fail msg) Q p \<longleftrightarrow> prog_ok (st p)"
  "wp (when_panics b n) Q p \<longleftrightarrow> \<not> b \<and> wp n Q p"
  by (auto simp: wp_def step_simps fun_eq_iff split: res.splits prod.splits)

lemma wp_if [wp_simps]: "wp (if b then m else n) Q p \<longleftrightarrow> (if b then wp m Q p else wp n Q p)"
  by simp

lemma parser_okD: "parser_ok p \<Longrightarrow> prog_ok (st p)"
  by (simp add: parser_ok_def)

lemma wp_result:
  assumes "m p = (r, p')" and "r \<noteq> Panic" and "r \<noteq> OutOfFuel" and "prog_ok (st p')" and "\<And>x. r = Ok x \<Longrightarrow> Q x p'"
  shows "wp m Q p"
  using assms by (cases r) (auto simp: wp_def)

lemmas later_simps = later_def grows_def kid_defs

lemma advance_wp [wp_rules]:
  assumes "parser_ok p" and "cur p \<noteq> TEof"
    and "\<And>p'. parser_ok p' \<Longrightarrow> later 1 p p' \<Longrightarrow> loop_depth p' = loop_depth p \<Longrightarrow>
      nlocals p' = nlocals p \<Longrightarrow> st p' = st p \<Longrightarrow> Q () p'"
  shows "wp advance Q p"
proof -
  obtain r lx where n: "next_token (lex p) = (r, lx)" by force
  have lexes: "lexes_to (lex p) r lx"
    using next_token_ok [of "lex p"] assms(1) n by (simp add: parser_ok_def)
  show ?thesis
  proof (cases r)
    case (Ok t)
    let ?p' = "p\<lparr>lex := lx, cur := t\<rparr>"
    have "parser_ok ?p'"
      using assms(1) lexes Ok by (auto simp: parser_ok_def lexes_to_def)
    moreover have "later 1 p ?p'"
      using assms(2) lexes Ok by (auto simp: later_def grows_def left_def lexes_to_def lexer_ok_def split: if_splits)
    ultimately show ?thesis
      using n Ok assms(3) by (simp add: wp_def advance_def)
  qed (use n lexes assms(1) in \<open>auto simp: wp_def advance_def lexes_to_def parser_ok_def\<close>)
qed

lemma expect_wp [wp_rules]:
  assumes "parser_ok p" and "t \<noteq> TEof"
    and "\<And>p'. parser_ok p' \<Longrightarrow> later 1 p p' \<Longrightarrow> Q () p'"
  shows "wp (expect t msg) Q p"
  using assms by (auto simp: expect_def wp_simps parser_okD intro: advance_wp)

lemma opt_semi_wp [wp_rules]:
  assumes "parser_ok p" and "\<And>p'. parser_ok p' \<Longrightarrow> later 0 p p' \<Longrightarrow> st p' = st p \<Longrightarrow> Q () p'"
  shows "wp opt_semi Q p"
proof -
  obtain r lx where n: "next_token (lex p) = (r, lx)" by force
  have lexes: "lexes_to (lex p) r lx"
    using next_token_ok [of "lex p"] assms(1) n by (simp add: parser_ok_def)
  let ?p' = "snd (advance p)"
  have "parser_ok ?p'"
    using assms(1) lexes n
    by (cases r) (auto simp: parser_ok_def lexes_to_def advance_def)
  moreover have "cur p = TSemi \<Longrightarrow> later 0 p ?p'"
    using lexes n
    by (cases r) (auto simp: later_def grows_def left_def lexes_to_def lexer_ok_def advance_def split: if_splits)
  moreover have "st ?p' = st p"
    using n by (cases r) (auto simp: advance_def)
  moreover have "later 0 p p"
    by (simp add: later_def grows_def)
  ultimately show ?thesis
    using assms by (auto simp: opt_semi_def wp_simps) (auto simp: wp_def)
qed

text \<open>An operation on the memory.\<close>

lemma on_state_wp:
  assumes "parser_ok p" and "m (st p) = (r, l)" and "prog_ok l" and "grows (st p) l"
    and "r \<noteq> Panic" and "r \<noteq> OutOfFuel"
    and "\<And>x. r = Ok x \<Longrightarrow> parser_ok (p\<lparr>st := l\<rparr>) \<Longrightarrow> later 0 p (p\<lparr>st := l\<rparr>) \<Longrightarrow> Q x (p\<lparr>st := l\<rparr>)"
  shows "wp (on_state m) Q p"
proof -
  have "later 0 p (p\<lparr>st := l\<rparr>)"
    using assms(4) by (simp add: later_def left_def)
  then show ?thesis
    using assms parser_ok_state [OF assms(1,3,4)] by (cases r) (auto simp: wp_def on_state_def)
qed

lemma intern_wp [wp_rules]:
  assumes "parser_ok p"
    and "\<And>r p'. parser_ok p' \<Longrightarrow> later 0 p p' \<Longrightarrow> cur p' = cur p \<Longrightarrow> str_kid (st p') r \<Longrightarrow>
      loop_depth p' = loop_depth p \<Longrightarrow> Q r p'"
  shows "wp (on_state (intern bs)) Q p"
proof -
  obtain r l where i: "intern bs (st p) = (r, l)" by force
  show ?thesis
    using intern_prog [OF parser_okD [OF assms(1)] i] assms
    by (intro on_state_wp [where m = "intern bs", OF assms(1) i]) auto
qed

lemma alloc_wp [wp_rules]:
  assumes "parser_ok p" and "node_ok ((st p)\<lparr>node_used := node_used (st p) + 1\<rparr>) n"
    and "\<And>p'. parser_ok p' \<Longrightarrow> later 0 p p' \<Longrightarrow> cur p' = cur p \<Longrightarrow> node_used (st p') = node_used (st p) + 1 \<Longrightarrow>
      loop_depth p' = loop_depth p \<Longrightarrow> Q (node_used (st p)) p'"
  shows "wp (alloc n) Q p"
proof -
  obtain r l where i: "alloc_node n (st p) = (r, l)" by force
  show ?thesis
    unfolding alloc_def
    using alloc_node_prog [OF parser_okD [OF assms(1)] i assms(2)] assms
    by (intro on_state_wp [where m = "alloc_node n", OF assms(1) i]) auto
qed

lemma alloc_func_wp [wp_rules]:
  assumes "parser_ok p" and "np = 0 \<or> ps + np \<le> node_used (st p)" and "opt_kid (st p) body"
    and "\<forall>u\<in>set names. str_kid (st p) u"
    and "\<And>r p'. parser_ok p' \<Longrightarrow> later 0 p p' \<Longrightarrow> fun_kid (st p') r \<Longrightarrow> Q r p'"
  shows "wp (on_state (alloc_func ps np body names)) Q p"
proof -
  obtain r l where i: "alloc_func ps np body names (st p) = (r, l)" by force
  show ?thesis
    using alloc_func_prog [OF parser_okD [OF assms(1)] i assms(2-4)] assms
    by (intro on_state_wp [where m = "alloc_func ps np body names", OF assms(1) i]) auto
qed

lemma intern_name_wp [wp_rules]:
  assumes "parser_ok p" and "cur p = TName off len"
    and "\<And>r p'. parser_ok p' \<Longrightarrow> later 0 p p' \<Longrightarrow> cur p' = cur p \<Longrightarrow> str_kid (st p') r \<Longrightarrow>
      loop_depth p' = loop_depth p \<Longrightarrow> Q r p'"
  shows "wp (intern_name off len) Q p"
proof -
  have "unat off + unat len \<le> length (src (lex p))"
    using assms(1,2) by (auto simp: parser_ok_def)
  then show ?thesis
    using assms by (simp add: intern_name_def wp_simps Let_def) (rule intern_wp; simp)
qed

lemma later_trans: "later d p q \<Longrightarrow> later e q r \<Longrightarrow> f \<le> d + e \<Longrightarrow> later f p r"
  by (auto simp: later_def grows_def)

lemma expect_name_wp [wp_rules]:
  assumes "parser_ok p"
    and "\<And>r p'. parser_ok p' \<Longrightarrow> later 1 p p' \<Longrightarrow> str_kid (st p') r \<Longrightarrow> Q r p'"
  shows "wp expect_name Q p"
  using assms
  by (cases "cur p")
     (auto simp: expect_name_def wp_simps parser_okD later_simps intro!: wp_rules)


section \<open>The operations of the parser\<close>

lemma set_next_wp [wp_rules]:
  assumes "parser_ok p" and "kid (st p) i" and "opt_kid (st p) v"
    and "\<And>p'. parser_ok p' \<Longrightarrow> later 0 p p' \<Longrightarrow> cur p' = cur p \<Longrightarrow> loop_depth p' = loop_depth p \<Longrightarrow>
      Q () p'"
  shows "wp (set_next i v) Q p"
proof -
  let ?l = "(st p)\<lparr>nxt := (nxt (st p))(i := v)\<rparr>"
  have "prog_ok ?l"
    using set_link_prog parser_okD assms by blast
  moreover have g: "grows (st p) ?l"
    by (simp add: grows_def)
  ultimately have "parser_ok (p\<lparr>st := ?l\<rparr>)"
    using parser_ok_state assms(1) by blast
  moreover have "i < MAX_NODES"
    using assms(2) parser_okD [OF assms(1)] by (auto simp: kid_def prog_ok_def)
  ultimately show ?thesis
    using assms(4) g by (simp add: set_next_def wp_def later_def left_def)
qed

lemma kid_MAX: "parser_ok p \<Longrightarrow> kid (st p) i \<Longrightarrow> i < MAX_NODES"
  by (auto simp: parser_ok_def prog_ok_def kid_def)

lemma get_node_wp [wp_rules]:
  assumes "parser_ok p" and "kid (st p) i" and "node_ok (st p) (nodes (st p) i) \<Longrightarrow> Q (nodes (st p) i) p"
  shows "wp (get_node i) Q p"
  using assms kid_MAX [OF assms(1,2)] by (auto simp: get_node_def wp_def parser_ok_def prog_ok_def kid_def)

lemma get_next_wp [wp_rules]:
  assumes "parser_ok p" and "kid (st p) i" and "\<And>j. opt_kid (st p) j \<Longrightarrow> Q j p"
  shows "wp (get_next i) Q p"
  using assms kid_MAX [OF assms(1,2)] by (auto simp: get_next_def wp_def parser_ok_def prog_ok_def)

lemma declare_local_rec_wp [wp_rules]:
  assumes "parser_ok p" and "opt_kid (st p) node"
    and "\<And>i p'. parser_ok p' \<Longrightarrow> later 0 p p' \<Longrightarrow> cur p' = cur p \<Longrightarrow> st p' = st p \<Longrightarrow>
      nlocals p' = nlocals p + 1 \<Longrightarrow> Q i p'"
  shows "wp (declare_local_rec name node) Q p"
  using assms
  by (auto simp: declare_local_rec_def wp_def later_def grows_def left_def parser_ok_def Let_def)

lemma add_up_wp [wp_rules]:
  assumes "parser_ok p" and "str_kid (st p) name" and "level < MAX_FUNC_SCOPES"
    and "\<And>p'. parser_ok p' \<Longrightarrow> later 0 p p' \<Longrightarrow> cur p' = cur p \<Longrightarrow> st p' = st p \<Longrightarrow>
      loop_depth p' = loop_depth p \<Longrightarrow> Q () p'"
  shows "wp (add_up name level) Q p"
  using assms
  by (auto simp: add_up_def wp_def later_def grows_def left_def parser_ok_def ups_ok_def Let_def less_Suc_eq)

lemma node_ok_cell_variant: "node_ok l (cell_variant n) = node_ok l n"
  by (cases n) (auto simp: cell_variant_def node_ok_def)

lemma mark_captured_wp [wp_rules]:
  assumes "parser_ok p"
    and "\<And>p'. parser_ok p' \<Longrightarrow> later 0 p p' \<Longrightarrow> cur p' = cur p \<Longrightarrow> loop_depth p' = loop_depth p \<Longrightarrow>
      nlocals p' = nlocals p \<Longrightarrow> Q () p'"
  shows "wp (mark_captured i) Q p"
proof (cases "captured (plocals p i)")
  case True
  then show ?thesis
    using assms by (auto simp: mark_captured_def wp_def later_def grows_def)
next
  case False
  let ?l = "plocals p i"
  let ?p = "p\<lparr>plocals := (plocals p)(i := ?l\<lparr>captured := True\<rparr>)\<rparr>"
  let ?n = "decl_node ?l"
  let ?s = "(st p)\<lparr>nodes := (nodes (st p))(?n := cell_variant (nodes (st p) ?n))\<rparr>"
  have p: "parser_ok ?p"
    using assms(1) by (simp add: parser_ok_def)
  have prog: "prog_ok (st p)"
    using parser_okD [OF assms(1)] .
  then have s: "prog_ok ?s"
    by (intro set_node_prog) (auto simp: node_ok_cell_variant prog_ok_def)
  have "?n = NO_NODE \<or> ?n < MAX_NODES"
    using assms(1) by (auto simp: parser_ok_def prog_ok_def opt_kid_def dest: order.strict_trans2)
  moreover have "parser_ok (?p\<lparr>st := ?s\<rparr>)"
    using parser_ok_state [OF p s] by (simp add: grows_def)
  ultimately show ?thesis
    using False assms(2) [OF p] assms(2) [of "?p\<lparr>st := ?s\<rparr>"]
    by (auto simp: mark_captured_def wp_def Let_def later_def left_def grows_def)
qed

lemma add_ups_wp:
  assumes "\<forall>l\<in>set levels. l < MAX_FUNC_SCOPES" and "parser_ok p" and "str_kid (st p) name"
    and "\<And>p'. parser_ok p' \<Longrightarrow> later 0 p p' \<Longrightarrow> cur p' = cur p \<Longrightarrow> loop_depth p' = loop_depth p \<Longrightarrow>
      Q () p'"
  shows "wp (add_ups name levels) Q p"
  using assms
proof (induction levels arbitrary: p)
  case Nil
  then show ?case by (simp add: wp_simps later_simps)
next
  case (Cons l levels)
  show ?case
    using Cons.prems
    by (auto simp: wp_simps later_simps intro!: add_up_wp Cons.IH)
qed

lemma resolve_name_wp [wp_rules]:
  assumes "parser_ok p" and "str_kid (st p) name"
    and "\<And>p'. parser_ok p' \<Longrightarrow> later 0 p p' \<Longrightarrow> cur p' = cur p \<Longrightarrow> loop_depth p' = loop_depth p \<Longrightarrow>
      Q () p'"
  shows "wp (resolve_name name) Q p"
proof -
  have "later 0 p p"
    by (simp add: later_simps)
  moreover have "l < MAX_FUNC_SCOPES" if "l < nfuncs p" for l
    using that assms(1) by (simp add: parser_ok_def)
  ultimately show ?thesis
    using assms
    by (auto simp: resolve_name_def wp_simps Let_def later_simps split: option.splits
        intro!: mark_captured_wp add_ups_wp)
qed

lemma record_label_wp [wp_rules]:
  assumes "parser_ok p" and "kid (st p) node" and "1 \<le> n_scopes p"
    and "\<And>p'. parser_ok p' \<Longrightarrow> later 0 p p' \<Longrightarrow> st p' = st p \<Longrightarrow> Q () p'"
  shows "wp (record_label name node) Q p"
  using assms
  by (auto simp: record_label_def wp_def Let_def parser_ok_def scope_ok_def add_label_def less_Suc_eq later_simps left_def)

lemma record_goto_wp [wp_rules]:
  assumes "parser_ok p" and "kid (st p) node" and "1 \<le> n_scopes p"
    and "\<And>p'. parser_ok p' \<Longrightarrow> later 0 p p' \<Longrightarrow> st p' = st p \<Longrightarrow> Q () p'"
  shows "wp (record_goto node name) Q p"
  using assms
  by (auto simp: record_goto_def wp_def Let_def parser_ok_def scope_ok_def add_goto_def less_Suc_eq later_simps left_def)


lemma find_label_kid:
  assumes "parser_ok p" and "find_label p name s = Some t"
  shows "kid (st p) t"
proof -
  have "kid (st p) t" if "label_in (scopes p i) name = Some t" for i t
    using that assms(1) by (auto simp: label_in_def find_upt_Some parser_ok_def scope_ok_def)
  then have "find_label_below p name n = Some t \<Longrightarrow> kid (st p) t" for n
    by (induction n) (auto split: option.splits)
  then show ?thesis
    using assms(2) unfolding find_label_def by blast
qed

lemma resolve_gotos_wp:
  assumes "parser_ok p" and "\<forall>(g, _)\<in>set gs. kid (st p) g"
    and "\<And>p'. parser_ok p' \<Longrightarrow> later 0 p p' \<Longrightarrow> cur p' = cur p \<Longrightarrow> loop_depth p' = loop_depth p \<Longrightarrow>
      Q () p'"
  shows "wp (resolve_gotos s gs) Q p"
  using assms
proof (induction gs arbitrary: p)
  case Nil
  then show ?case by (simp add: wp_simps later_simps)
next
  case (Cons g gs)
  obtain node name where g: "g = (node, name)" by force
  have node: "kid (st p) node" "node < MAX_NODES"
    using Cons.prems(1,2) kid_MAX by (auto simp: g)
  have rest: "wp (resolve_gotos s gs) Q p'"
    if "parser_ok p'" "later 0 p p'" "cur p' = cur p" "loop_depth p' = loop_depth p" for p'
    using that Cons.prems(2,3) by (intro Cons.IH) (auto simp: later_simps split: prod.splits)
  show ?case
  proof (cases "find_label p name s")
    case (Some t)
    let ?l = "(st p)\<lparr>nodes := (nodes (st p))(node := NGoto t)\<rparr>"
    have g': "grows (st p) ?l"
      by (simp add: grows_def)
    have "prog_ok ?l"
      using parser_okD [OF Cons.prems(1)] by (intro set_node_prog) (simp_all add: node_ok_def)
    then have "parser_ok (p\<lparr>st := ?l\<rparr>)"
      using parser_ok_state [OF Cons.prems(1)] g' by blast
    then show ?thesis
      using Some node rest [of "p\<lparr>st := ?l\<rparr>"] g'
      by (simp add: g wp_simps) (simp add: wp_def later_def left_def)
  next
    case None
    show ?thesis
    proof (cases "s = 0 \<or> ngotos (scopes p (s - 1)) \<ge> MAX_GOTOS_PER_SCOPE")
      case True
      then show ?thesis
        using None parser_okD [OF Cons.prems(1)] by (simp add: g wp_simps) (auto simp: wp_def)
    next
      case False
      let ?p = "p\<lparr>scopes := (scopes p)(s - 1 := add_goto node name (scopes p (s - 1)))\<rparr>"
      have "parser_ok ?p"
        using Cons.prems(1) False node by (auto simp: parser_ok_def scope_ok_def add_goto_def less_Suc_eq)
      then show ?thesis
        using None False rest [of ?p]
        by (simp add: g wp_simps) (simp add: wp_def later_def left_def grows_def)
    qed
  qed
qed

lemma resolve_scope_wp:
  assumes "parser_ok p" and "1 \<le> n_scopes p"
    and "\<And>p'. parser_ok p' \<Longrightarrow> left p' \<le> left p \<Longrightarrow> grows (st p) (st p') \<Longrightarrow> nfuncs p' = nfuncs p \<Longrightarrow>
      n_scopes p' = n_scopes p - 1 \<Longrightarrow> Q () p'"
  shows "wp resolve_scope Q p"
proof -
  have "\<forall>(g, _)\<in>set (map (gotos (scopes p s)) [0..<ngotos (scopes p s)]). kid (st p) g" for s
  proof -
    have "\<forall>i<ngotos (scopes p s). kid (st p) (fst (gotos (scopes p s) i))"
      using assms(1) by (simp add: parser_ok_def scope_ok_def)
    then show ?thesis
      by (auto simp: case_prod_unfold)
  qed
  moreover have "n_scopes p \<le> MAX_SCOPES"
    using assms(1) by (simp add: parser_ok_def)
  moreover have "Q () (p'\<lparr>n_scopes := n_scopes p' - 1\<rparr>)" if "parser_ok p'" "later 0 p p'" for p'
    using that by (intro assms(3)) (auto simp: parser_ok_def later_def left_def)
  ultimately show ?thesis
    using assms(1,2)
    by (simp add: resolve_scope_def wp_simps Let_def del: set_map)
      (rule resolve_gotos_wp, assumption, blast, simp add: wp_simps)
qed

lemma chain_wp [wp_rules]:
  assumes "parser_ok p" and "kid (st p) node" and "opt_kid (st p) first" and "opt_kid (st p) prev"
    and "prev = NO_NODE \<or> kid (st p) first"
    and "\<And>i p'. parser_ok p' \<Longrightarrow> later 0 p p' \<Longrightarrow> cur p' = cur p \<Longrightarrow> loop_depth p' = loop_depth p \<Longrightarrow>
      kid (st p') i \<Longrightarrow> Q i p'"
  shows "wp (chain first prev node) Q p"
  using assms
  by (auto simp: chain_def wp_simps later_simps intro!: set_next_wp)

lemma params_loop_wp:
  assumes "parser_ok p" and "n = 0 \<or> first + n \<le> node_used (st p)" and "MAX_NODES < k + node_used (st p)"
    and "\<And>ps np p'. parser_ok p' \<Longrightarrow> later 1 p p' \<Longrightarrow> np = 0 \<or> ps + np \<le> node_used (st p') \<Longrightarrow> Q (ps, np) p'"
  shows "wp (params_loop k first n) Q p"
  using assms
proof (induction k arbitrary: p first n)
  case 0
  then show ?case by (simp add: parser_ok_def prog_ok_def)
next
  case (Suc k)
  have m: "(n + 1) mod 256 \<le> n + 1"
    by (rule mod_less_eq_dividend)
  define n' first' where "n' = (n + 1) mod 256" and "first' i = (if n = 0 then i else first)" for i
  have loop: "wp (params_loop (Suc k) first n) Q p \<longleftrightarrow>
      wp expect_name (\<lambda>name. wp (alloc (NVar name)) (\<lambda>node p.
        if cur p = TComma then wp advance (\<lambda>_. wp (params_loop k (first' node) n') Q) p
        else Q (first' node, n') p)) p"
    by (simp only: params_loop.simps wp_simps Let_def n'_def first'_def cong: if_cong)
  have step: "n' = 0 \<or> first' i + n' \<le> Suc i" if "node_used (st p) \<le> i" for i
    using that Suc.prems(2) m by (auto simp: n'_def first'_def)
  then have step': "n' = 0" if "node_used (st p) \<le> i" "\<not> first' i + n' \<le> Suc i" for i
    using that by blast
  show ?case
    unfolding loop using Suc.prems step
    by (auto simp: later_simps node_ok_def n'_def [symmetric] intro!: expect_name_wp alloc_wp advance_wp Suc.IH
        intro: step')
qed


lemma parse_params_wp [wp_rules]:
  assumes "parser_ok p"
    and "\<And>ps np p'. parser_ok p' \<Longrightarrow> later 1 p p' \<Longrightarrow> np = 0 \<or> ps + np \<le> node_used (st p') \<Longrightarrow> Q (ps, np) p'"
  shows "wp parse_params Q p"
  using assms
  by (auto simp: parse_params_def wp_simps later_simps simp del: params_loop.simps
      intro!: advance_wp params_loop_wp expect_wp)

lemma declare_params_wp [wp_rules]:
  assumes "parser_ok p" and "\<forall>i\<in>set is. kid (st p) (ps + i)"
    and "\<And>p'. parser_ok p' \<Longrightarrow> later 0 p p' \<Longrightarrow> cur p' = cur p \<Longrightarrow> st p' = st p \<Longrightarrow> Q () p'"
  shows "wp (declare_params ps is) Q p"
  using assms
proof (induction "is" arbitrary: p)
  case Nil
  then show ?case by (simp add: wp_simps later_simps)
next
  case (Cons i "is")
  then show ?case
    by (auto simp: wp_simps later_simps intro!: get_node_wp declare_local_rec_wp Cons.IH)
qed

lemma local_names_wp [wp_rules]:
  assumes "parser_ok p" and "kid (st p) prev"
    and "\<And>p'. parser_ok p' \<Longrightarrow> later 0 p p' \<Longrightarrow> Q () p'"
  shows "wp (local_names k prev) Q p"
  using assms
proof (induction k arbitrary: p prev)
  case 0
  then show ?case by (simp add: wp_simps parser_okD)
next
  case (Suc k)
  then show ?case
    by (auto simp: wp_simps later_simps node_ok_def intro!: advance_wp expect_name_wp alloc_wp set_next_wp Suc.IH)
qed

lemma declare_names_wp [wp_rules]:
  assumes "parser_ok p" and "kid (st p) node" and "opt_kid (st p) np" and "MAX_RESOLVED_LOCALS < k + nlocals p"
    and "\<And>p'. parser_ok p' \<Longrightarrow> later 0 p p' \<Longrightarrow> cur p' = cur p \<Longrightarrow> st p' = st p \<Longrightarrow> Q () p'"
  shows "wp (declare_names k node np) Q p"
  using assms
proof (induction k arbitrary: p np)
  case 0
  then show ?case by (simp add: parser_ok_def)
next
  case (Suc k)
  then show ?case
    by (auto simp: wp_simps later_simps intro!: get_node_wp get_next_wp declare_local_rec_wp Suc.IH)
qed

section \<open>The contract of the recursive calls\<close>

text \<open>What a job expects, the tokens it consumes at least, and what its result is.\<close>

definition open_chain :: "lua \<Rightarrow> nat \<Rightarrow> nat \<Rightarrow> bool" where
  "open_chain l first prev \<longleftrightarrow> opt_kid l first \<and> opt_kid l prev \<and> (prev = NO_NODE \<or> kid l first)"

definition job_ok :: "parser \<Rightarrow> job \<Rightarrow> bool" where
  "job_ok p j = (case j of
       JStats first prev \<Rightarrow> 1 \<le> n_scopes p \<and> open_chain (st p) first prev
     | JFields first prev _ \<Rightarrow> open_chain (st p) first prev
     | JArgs first prev \<Rightarrow> open_chain (st p) first prev
     | JOrRest l \<Rightarrow> kid (st p) l | JAndRest l \<Rightarrow> kid (st p) l | JCmpRest l \<Rightarrow> kid (st p) l
     | JAddRest l \<Rightarrow> kid (st p) l | JMulRest l \<Rightarrow> kid (st p) l | JSuffix l \<Rightarrow> kid (st p) l
     | JTargets l \<Rightarrow> kid (st p) l | _ \<Rightarrow> True)"

definition job_cost :: "job \<Rightarrow> nat" where
  "job_cost j = (case j of JExpr \<Rightarrow> 1 | JUnary \<Rightarrow> 1 | JConcat \<Rightarrow> 1 | JFields _ _ _ \<Rightarrow> 1 | JArgs _ _ \<Rightarrow> 1
     | JIfTail \<Rightarrow> 1 | _ \<Rightarrow> 0)"

definition job_result :: "job \<Rightarrow> lua \<Rightarrow> nat \<Rightarrow> bool" where
  "job_result j l x = (case j of JStats _ _ \<Rightarrow> opt_kid l x | JIfTail \<Rightarrow> opt_kid l x | JTargets _ \<Rightarrow> True
     | _ \<Rightarrow> kid l x)"

lemmas job_simps = job_ok_def job_cost_def job_result_def open_chain_def

locale parser_calls =
  fixes rec :: calls and m :: nat
  assumes rec_wp: "parser_ok p \<Longrightarrow> job_ok p j \<Longrightarrow> left p < m \<Longrightarrow>
    (\<And>x p'. parser_ok p' \<Longrightarrow> later (job_cost j) p p' \<Longrightarrow> job_result j (st p') x \<Longrightarrow> Q x p') \<Longrightarrow>
    wp (rec j) Q p"

lemma parser_ok_update [simp]:
  "n \<le> MAX_RESOLVED_LOCALS \<Longrightarrow> parser_ok p \<Longrightarrow> parser_ok (p\<lparr>nlocals := n\<rparr>)"
  "k \<le> MAX_SCOPES \<Longrightarrow> parser_ok p \<Longrightarrow> parser_ok (p\<lparr>n_scopes := k\<rparr>)"
  "parser_ok (p\<lparr>loop_depth := d\<rparr>) = parser_ok p"
  by (auto simp: parser_ok_def)

lemma left_update [simp]:
  "left (p\<lparr>nlocals := n\<rparr>) = left p" "left (p\<lparr>n_scopes := k\<rparr>) = left p"
  "left (p\<lparr>loop_depth := d\<rparr>) = left p" "left (p\<lparr>scopes := sc\<rparr>) = left p"
  "left (p\<lparr>pfuncs := pf\<rparr>) = left p" "left (p\<lparr>nfuncs := nf\<rparr>) = left p"
  "left (p\<lparr>plocals := pl\<rparr>) = left p"
  by (simp_all add: left_def)

context parser_calls
begin

lemma parse_block_wp:
  assumes "parser_ok p" and "left p < m"
    and "\<And>x p'. parser_ok p' \<Longrightarrow> later 0 p p' \<Longrightarrow> opt_kid (st p') x \<Longrightarrow> Q x p'"
  shows "wp (parse_block rec) Q p"
proof -
  have locals: "nlocals p \<le> MAX_RESOLVED_LOCALS"
    using assms(1) by (simp add: parser_ok_def)
  have entered: "parser_ok (p\<lparr>scopes := (scopes p)(n_scopes p := empty_scope), n_scopes := Suc (n_scopes p)\<rparr>)"
    if "n_scopes p < MAX_SCOPES"
    using assms(1) that by (auto simp: parser_ok_def scope_ok_def empty_scope_def)
  show ?thesis
    using assms(1,2,3) entered locals
    by (auto simp: parse_block_def wp_simps Let_def parser_okD job_simps later_simps
        intro!: rec_wp resolve_scope_wp)
qed


lemma parse_func_body_wp:
  assumes "parser_ok p" and "left p \<le> m"
    and "\<And>x p'. parser_ok p' \<Longrightarrow> later 1 p p' \<Longrightarrow> fun_kid (st p') x \<Longrightarrow> Q x p'"
  shows "wp (parse_func_body rec) Q p"
proof -
  have locals: "nlocals q \<le> MAX_RESOLVED_LOCALS" "n_scopes q \<le> MAX_SCOPES" if "parser_ok q" for q
    using that by (auto simp: parser_ok_def)
  have opened: "parser_ok (q\<lparr>pfuncs := (pfuncs q)(n := empty_func_scope), nfuncs := Suc n\<rparr>)"
    if "parser_ok q" "n < MAX_FUNC_SCOPES" for q n
    using that by (auto simp: parser_ok_def ups_ok_def empty_func_scope_def)
  have closed: "parser_ok (q\<lparr>nfuncs := n, nlocals := k\<rparr>)"
    if "parser_ok q" "Suc 0 \<le> n" "n \<le> MAX_FUNC_SCOPES" "k \<le> MAX_RESOLVED_LOCALS" for q n k
    using that by (auto simp: parser_ok_def)
  have funcs: "Suc 0 \<le> nfuncs q" "nfuncs q \<le> MAX_FUNC_SCOPES" if "parser_ok q" for q
    using that by (auto simp: parser_ok_def)
  have ups: "str_off (ups (pfuncs q f) i) + str_len (ups (pfuncs q f) i) \<le> str_next (st q)"
    if "parser_ok q" "i < nups (pfuncs q f)" for q f i
    using that by (auto simp: parser_ok_def ups_ok_def str_kid_def)
  show ?thesis
    using assms
    apply (simp add: parse_func_body_def wp_simps Let_def case_prod_unfold parser_okD del: upt_Suc)
    apply (rule expect_wp, assumption, simp)
    apply (simp add: wp_simps Let_def case_prod_unfold parser_okD del: upt_Suc)
    apply (auto simp: wp_simps Let_def case_prod_unfold parser_okD job_simps later_simps locals opened closed funcs ups simp del: upt_Suc
        intro!: parse_params_wp declare_params_wp parse_block_wp expect_wp alloc_func_wp)
    done
qed

end

end
