(* ===== verification/LuaCode.thy ===== *)
theory LuaCode
  imports LuaCompile LuaSyntax
begin

text \<open>
  What the compiler of \<^verbatim>\<open>lua/src/vm.rs\<close> promises for a well-formed program without cycles: it
  returns without a panic, and the bytecode it emits is well-formed: jumps stay inside the code,
  node operands are nodes, operators are operators, and every function that the code loads has its
  entry point in the code emitted. The recursive calls are the contract \<open>compile_calls\<close>, satisfied by
  \<open>compile_job\<close> with its fuel as the bound on the height of the syntax.
\<close>

section \<open>Syntax without cycles\<close>

text \<open>The nodes the compiler visits from a node.\<close>

definition kids :: "node \<Rightarrow> nat set" where
  "kids n = (case n of
       NBin _ a b \<Rightarrow> {a, b} | NUn _ a \<Rightarrow> {a} | NIndex a b \<Rightarrow> {a, b} | NCall f a \<Rightarrow> {f, a} | NArg a \<Rightarrow> {a}
     | NTableLit f \<Rightarrow> {f} | NField k v \<Rightarrow> {k, v} | NLocalDecl a v \<Rightarrow> {a, v} | NGlobalDecl a v \<Rightarrow> {a, v}
     | NAssign t v \<Rightarrow> {t, v} | NCallStmt e \<Rightarrow> {e} | NExprStmt e \<Rightarrow> {e} | NIf c t e \<Rightarrow> {c, t, e}
     | NWhile c b \<Rightarrow> {c, b} | NFor _ a z s b \<Rightarrow> {a, z, s, b} | NForCell _ a z s b \<Rightarrow> {a, z, s, b}
     | NForIn _ _ t b \<Rightarrow> {t, b} | NForInCell _ _ t b \<Rightarrow> {t, b} | NRepeat b c \<Rightarrow> {b, c} | NReturn v \<Rightarrow> {v}
     | _ \<Rightarrow> {})"

definition height :: "(nat \<Rightarrow> nat) \<Rightarrow> nat \<Rightarrow> nat" where
  "height r n = (if n = NO_NODE then 0 else r n + 1)"

definition ranked :: "lua \<Rightarrow> (nat \<Rightarrow> nat) \<Rightarrow> bool" where
  "ranked l r \<longleftrightarrow> (\<forall>i<node_used l. r i < MAX_NODES \<and> (\<forall>k\<in>kids (nodes l i). height r k \<le> r i) \<and>
     height r (nxt l i) \<le> r i)"

section \<open>Well-formed bytecode\<close>

definition jump_ops :: "instr_op set" where
  "jump_ops = {Jump, JumpScopes, JumpIfFalse, JumpIfFalseKeep, JumpIfTrueKeep, ForInNext, ForInAdvance,
     ForPrep, ForLoop, ForPrepCell, ForLoopCell}"

definition for_ops :: "instr_op set" where "for_ops = {ForPrep, ForLoop, ForPrepCell, ForLoopCell}"

definition node_ops :: "instr_op set" where
  "node_ops = {PushConst, GetVar, SetVar, SetGlobal, SetLocalTop, SetLocalTopCell, DeclareLocal, AssignMulti}"

definition func_ops :: "instr_op set" where "func_ops = {LoadFunc, MakeClosure}"

lemmas op_sets = jump_ops_def for_ops_def node_ops_def func_ops_def

text \<open>The operands of an instruction: \<open>t\<close> bounds the jump targets, \<open>fs\<close> are the functions that may
  be loaded.\<close>

definition instr_ok :: "lua \<Rightarrow> nat \<Rightarrow> (nat \<Rightarrow> bool) \<Rightarrow> instr \<Rightarrow> bool" where
  "instr_ok l t fs i \<longleftrightarrow>
     (i_op i \<in> jump_ops \<longrightarrow> i_a i \<le> t) \<and> (i_op i \<in> for_ops \<longrightarrow> kid l (i_b i)) \<and>
     (i_op i \<in> node_ops \<longrightarrow> kid l (i_a i)) \<and> (i_op i \<in> func_ops \<longrightarrow> fun_kid l (i_a i) \<and> fs (i_a i)) \<and>
     (i_op i \<in> {BinOp, UnOp} \<longrightarrow> i_a i < 16)"

definition same_syntax :: "lua \<Rightarrow> lua \<Rightarrow> bool" where
  "same_syntax l l' \<longleftrightarrow> nodes l' = nodes l \<and> nxt l' = nxt l \<and> node_used l' = node_used l \<and>
     funcs_used l' = funcs_used l \<and> (\<forall>i. fbody (funcs l' i) = fbody (funcs l i))"

definition jump_at :: "nat \<Rightarrow> compiler \<Rightarrow> nat \<Rightarrow> bool" where
  "jump_at base c ip \<longleftrightarrow> base \<le> ip \<and> ip < here c \<and> i_op (code (cst c) ip) = JumpScopes"

definition comp_ok :: "lua \<Rightarrow> nat \<Rightarrow> nat \<Rightarrow> compiler \<Rightarrow> bool" where
  "comp_ok l base t c \<longleftrightarrow> same_syntax l (cst c) \<and> here c \<le> MAX_CODE \<and> base \<le> here c \<and> t \<le> here c \<and>
     (\<forall>ip<base. code (cst c) ip = code l ip) \<and>
     (\<forall>ip. base \<le> ip \<longrightarrow> ip < here c \<longrightarrow> instr_ok l t (ccompiled c) (code (cst c) ip)) \<and>
     (\<forall>(ip, _, _)\<in>set (cfixups c). jump_at base c ip) \<and> (\<forall>(_, ip, _)\<in>set (clabels c). ip \<le> t) \<and>
     (\<forall>lp\<in>set (cloops c). \<forall>ip\<in>set (lp_ends lp). jump_at base c ip) \<and>
     (\<forall>fi\<in>set (cpending c). fun_kid l fi)"

text \<open>Functions not queued yet, and those queued: the rounds left.\<close>

definition rounds :: "compiler \<Rightarrow> nat" where
  "rounds c = card {fi. fi < MAX_FUNCS \<and> \<not> ccompiled c fi} + length (cpending c)"

definition extends :: "compiler \<Rightarrow> compiler \<Rightarrow> bool" where
  "extends c c' \<longleftrightarrow> here c \<le> here c' \<and> (\<forall>ip<here c. i_op (code (cst c') ip) = i_op (code (cst c) ip)) \<and>
     length (cloops c') = length (cloops c) \<and> funcs (cst c') = funcs (cst c) \<and>
     (\<forall>fi. ccompiled c fi \<longrightarrow> ccompiled c' fi) \<and>
     (\<forall>fi. ccompiled c' fi \<longrightarrow> ccompiled c fi \<or> fi \<in> set (cpending c')) \<and>
     set (cpending c) \<subseteq> set (cpending c') \<and> rounds c' = rounds c"

lemma extends_refl: "extends c c"
  by (simp add: extends_def)

lemma extends_trans: "extends a b \<Longrightarrow> extends b c \<Longrightarrow> extends a c"
  unfolding extends_def by (auto dest: order_trans less_le_trans)

section \<open>Weakest preconditions\<close>

definition cwp :: "'a comp \<Rightarrow> ('a \<Rightarrow> compiler \<Rightarrow> bool) \<Rightarrow> compiler \<Rightarrow> bool" where
  "cwp m Q c \<longleftrightarrow> (case m c of (Ok x, c') \<Rightarrow> Q x c' | (Err _, c') \<Rightarrow> True | _ \<Rightarrow> False)"

named_theorems cwp_simps

lemma cwp_simple [cwp_simps]:
  "cwp (andthen m k) Q = cwp m (\<lambda>x. cwp (k x) Q)"
  "cwp (andnext m n) Q = cwp m (\<lambda>_. cwp n Q)"
  "cwp (reads f) Q = (\<lambda>c. cwp (f c) Q c)"
  "cwp (sets g) R = (\<lambda>c. R () (g c))"
  "cwp (ok x) Q' = Q' x"
  "cwp (fail msg) Q = (\<lambda>_. True)"
  by (auto simp: cwp_def step_simps fun_eq_iff split: res.splits prod.splits)

lemma cwp_if [cwp_simps]: "cwp (if b then m else n) Q c \<longleftrightarrow> (if b then cwp m Q c else cwp n Q c)"
  by simp

lemma instr_ok_mono:
  "instr_ok l t fs i \<Longrightarrow> t \<le> t' \<Longrightarrow> (\<And>f. fs f \<Longrightarrow> fs' f) \<Longrightarrow> instr_ok l t' fs' i"
  by (auto simp: instr_ok_def)

lemma jump_ops_only:
  assumes "op \<in> jump_ops"
  shows "op \<notin> node_ops \<and> op \<notin> func_ops \<and> op \<noteq> BinOp \<and> op \<noteq> UnOp"
  using assms unfolding op_sets by (elim insertE emptyE) simp_all

lemma instr_ok_set_a:
  assumes "instr_ok l t fs i" and "i_op i \<in> jump_ops" and "v \<le> t"
  shows "instr_ok l t fs (i\<lparr>i_a := v\<rparr>)"
  using assms jump_ops_only [of "i_op i"] by (simp add: instr_ok_def)

lemma emit_to:
  assumes "comp_ok l base t c" and "instr_ok l t' (ccompiled c) \<lparr>i_op = op, i_a = a, i_b = b\<rparr>"
    and t': "t \<le> t'" "t' \<le> here c + 1"
    and "\<And>c'. comp_ok l base t' c' \<Longrightarrow> extends c c' \<Longrightarrow> here c' = here c + 1 \<Longrightarrow>
      code (cst c') (here c) = \<lparr>i_op = op, i_a = a, i_b = b\<rparr> \<Longrightarrow> cscope c' = cscope c \<Longrightarrow>
      cloops c' = cloops c \<Longrightarrow> Q (here c) c'"
  shows "cwp (emit op a b) Q c"
proof (cases "here c \<ge> MAX_CODE")
  case True
  then show ?thesis by (simp add: emit_def cwp_def here_def Let_def)
next
  case False
  define c' where "c' = c\<lparr>cst := (cst c)\<lparr>code := (code (cst c))(here c := \<lparr>i_op = op, i_a = a, i_b = b\<rparr>),
      ncode := here c + 1\<rparr>\<rparr>"
  have new: "here c' = here c + 1" "code (cst c') (here c) = \<lparr>i_op = op, i_a = a, i_b = b\<rparr>"
    "ip \<noteq> here c \<Longrightarrow> code (cst c') ip = code (cst c) ip" for ip
    by (simp_all add: c'_def here_def)
  have same: "cfixups c' = cfixups c" "clabels c' = clabels c" "cloops c' = cloops c"
    "ccompiled c' = ccompiled c" "cpending c' = cpending c" "cscope c' = cscope c"
    "same_syntax l (cst c') = same_syntax l (cst c)" "funcs (cst c') = funcs (cst c)"
    by (simp_all add: c'_def same_syntax_def)
  have jump: "jump_at base c ip \<Longrightarrow> jump_at base c' ip" for ip
    using new by (auto simp: jump_at_def)
  have c: "same_syntax l (cst c)" "base \<le> here c" "t \<le> here c"
    "\<And>ip. ip < base \<Longrightarrow> code (cst c) ip = code l ip"
    "\<And>ip. base \<le> ip \<Longrightarrow> ip < here c \<Longrightarrow> instr_ok l t (ccompiled c) (code (cst c) ip)"
    "\<forall>(ip, _, _)\<in>set (cfixups c). jump_at base c ip" "\<forall>(_, ip, _)\<in>set (clabels c). ip \<le> t"
    "\<forall>lp\<in>set (cloops c). \<forall>ip\<in>set (lp_ends lp). jump_at base c ip" "\<forall>fi\<in>set (cpending c). fun_kid l fi"
    using assms(1) by (auto simp: comp_ok_def)
  have "instr_ok l t' (ccompiled c') (code (cst c') ip)" if "base \<le> ip" "ip < here c'" for ip
  proof (cases "ip = here c")
    case True
    then show ?thesis using assms(2) by (simp add: new same)
  next
    case neq: False
    then show ?thesis
      using that t'(1) c(5) [of ip] by (auto simp: new same intro: instr_ok_mono)
  qed
  moreover have "\<forall>(ip, _, _)\<in>set (cfixups c'). jump_at base c' ip"
    "\<forall>lp\<in>set (cloops c'). \<forall>ip\<in>set (lp_ends lp). jump_at base c' ip"
    using c(6,8) jump by (auto simp: same)
  moreover have "\<forall>(_, ip, _)\<in>set (clabels c'). ip \<le> t'"
    using t'(1) c(7) by (force simp: same new)
  moreover have "code (cst c') ip = code l ip" if "ip < base" for ip
    using that c(2,4) new(3) [of ip] by simp
  ultimately have "comp_ok l base t' c'"
    using c(1,2,9) t' False unfolding comp_ok_def by (simp add: same new)
  moreover have "extends c c'"
    by (auto simp: extends_def same new rounds_def)
  moreover have "emit op a b c = (Ok (here c), c')"
    using False by (simp add: emit_def c'_def here_def Let_def)
  ultimately show ?thesis
    using assms(5) [of c'] new same by (simp add: cwp_def)
qed

lemma emit_cwp:
  assumes "comp_ok l base t c" and "instr_ok l (here c + 1) (ccompiled c) \<lparr>i_op = op, i_a = a, i_b = b\<rparr>"
    and "\<And>c'. comp_ok l base (here c') c' \<Longrightarrow> extends c c' \<Longrightarrow> here c' = here c + 1 \<Longrightarrow>
      code (cst c') (here c) = \<lparr>i_op = op, i_a = a, i_b = b\<rparr> \<Longrightarrow> cscope c' = cscope c \<Longrightarrow>
      cloops c' = cloops c \<Longrightarrow> Q (here c) c'"
  shows "cwp (emit op a b) Q c"
  using assms(1) by (intro emit_to [OF assms(1,2)] assms(3)) (simp_all add: comp_ok_def)

lemma set_a_ok:
  assumes "comp_ok l base t c" and "base \<le> ip" and "ip < here c" and "i_op (code (cst c) ip) \<in> jump_ops" and "v \<le> t"
  defines "c' \<equiv> c\<lparr>cst := set_a ip v (cst c)\<rparr>"
  shows "comp_ok l base t c'" and "extends c c'" and "here c' = here c" and "cloops c' = cloops c"
proof -
  have ops: "i_op (code (cst c') j) = i_op (code (cst c) j)" for j
    by (simp add: c'_def set_a_def)
  have code: "code (cst c') j = (if j = ip then (code (cst c) ip)\<lparr>i_a := v\<rparr> else code (cst c) j)" for j
    by (simp add: c'_def set_a_def)
  show here: "here c' = here c"
    by (simp add: c'_def set_a_def here_def)
  have same: "cfixups c' = cfixups c" "clabels c' = clabels c" "cloops c' = cloops c"
    "ccompiled c' = ccompiled c" "cpending c' = cpending c"
    "same_syntax l (cst c') = same_syntax l (cst c)" "funcs (cst c') = funcs (cst c)"
    by (simp_all add: c'_def same_syntax_def set_a_def)
  then show "cloops c' = cloops c" by simp
  have jump: "jump_at base c' j = jump_at base c j" for j
    by (simp add: jump_at_def ops here)
  have "instr_ok l t (ccompiled c) ((code (cst c) ip)\<lparr>i_a := v\<rparr>)"
    using assms(1-5) by (intro instr_ok_set_a) (auto simp: comp_ok_def)
  then show "comp_ok l base t c'"
    using assms(1-3) by (auto simp: comp_ok_def same here jump code)
  show "extends c c'"
    by (auto simp: extends_def same here ops rounds_def)
qed


section \<open>Steps that keep the invariant\<close>

definition cok :: "lua \<Rightarrow> nat \<Rightarrow> compiler \<Rightarrow> bool" where
  "cok l base c \<longleftrightarrow> comp_ok l base (here c) c"

definition slot :: "nat \<Rightarrow> compiler \<Rightarrow> nat \<Rightarrow> bool" where
  "slot base c ip \<longleftrightarrow> base \<le> ip \<and> ip < here c \<and> i_op (code (cst c) ip) \<in> jump_ops"

text \<open>
  \<open>m\<close> keeps the invariant from every state in which the jumps \<open>S\<close> have been emitted and the code
  has reached \<open>t\<close>: it does not panic, and the code only grows.
\<close>

definition keeps :: "lua \<Rightarrow> nat \<Rightarrow> nat set \<Rightarrow> nat \<Rightarrow> 'a comp \<Rightarrow> bool" where
  "keeps l base S t m \<longleftrightarrow> (\<forall>c. cok l base c \<longrightarrow> (\<forall>ip\<in>S. slot base c ip) \<longrightarrow> t \<le> here c \<longrightarrow>
     cwp m (\<lambda>_ c'. cok l base c' \<and> extends c c') c)"

named_theorems keeps_rules

lemma keepsI:
  assumes "\<And>c. cok l base c \<Longrightarrow> (\<And>ip. ip \<in> S \<Longrightarrow> slot base c ip) \<Longrightarrow> t \<le> here c \<Longrightarrow>
    cwp m (\<lambda>_ c'. cok l base c' \<and> extends c c') c"
  shows "keeps l base S t m"
  using assms by (simp add: keeps_def)

lemma keepsD:
  "keeps l base S t m \<Longrightarrow> cok l base c \<Longrightarrow> (\<And>ip. ip \<in> S \<Longrightarrow> slot base c ip) \<Longrightarrow> t \<le> here c \<Longrightarrow>
    cwp m (\<lambda>_ c'. cok l base c' \<and> extends c c') c"
  by (simp add: keeps_def)

lemma cwp_mono: "cwp m Q c \<Longrightarrow> (\<And>x c'. Q x c' \<Longrightarrow> Q' x c') \<Longrightarrow> cwp m Q' c"
  by (auto simp: cwp_def split: prod.splits res.splits)

lemma slot_extends: "slot base c ip \<Longrightarrow> extends c c' \<Longrightarrow> slot base c' ip"
  by (auto simp: slot_def extends_def)

lemma here_extends: "extends c c' \<Longrightarrow> t \<le> here c \<Longrightarrow> t \<le> here c'"
  by (simp add: extends_def)

text \<open>A step first, then the rest in the state it leads to.\<close>

lemma keeps_seq:
  assumes "cwp m (\<lambda>x c'. cok l base c' \<and> extends c c' \<and> R x c') c"
    and "\<And>ip. ip \<in> S \<Longrightarrow> slot base c ip" and "t \<le> here c"
    and "\<And>x c'. R x c' \<Longrightarrow> cok l base c' \<Longrightarrow> extends c c' \<Longrightarrow> (\<And>ip. ip \<in> S \<Longrightarrow> slot base c' ip) \<Longrightarrow> t \<le> here c' \<Longrightarrow>
      cwp (k x) (\<lambda>_ c''. cok l base c'' \<and> extends c' c'') c'"
  shows "cwp (andthen m k) (\<lambda>_ c'. cok l base c' \<and> extends c c') c"
  unfolding cwp_simps
proof (rule cwp_mono [OF assms(1)])
  fix x c'
  assume "cok l base c' \<and> extends c c' \<and> R x c'"
  then have c': "cok l base c'" "extends c c'" "R x c'" by auto
  have "cwp (k x) (\<lambda>_ c''. cok l base c'' \<and> extends c' c'') c'"
    using c' assms(2,3) by (intro assms(4)) (auto intro: slot_extends here_extends)
  then show "cwp (k x) (\<lambda>_ c''. cok l base c'' \<and> extends c c'') c'"
    by (rule cwp_mono) (auto intro: extends_trans [OF c'(2)])
qed

lemma keeps_andthen:
  assumes "keeps l base S t m" and "\<And>x. keeps l base S t (k x)"
  shows "keeps l base S t (andthen m k)"
proof (rule keepsI)
  fix c
  assume c: "cok l base c" "\<And>ip. ip \<in> S \<Longrightarrow> slot base c ip" "t \<le> here c"
  show "cwp (andthen m k) (\<lambda>_ c'. cok l base c' \<and> extends c c') c"
    by (rule keeps_seq [where R = "\<lambda>_ _. True" and S = S and t = t])
      (use c keepsD [OF assms(1)] keepsD [OF assms(2)] in auto)
qed

lemma keeps_andnext [keeps_rules]:
  "keeps l base S t m \<Longrightarrow> keeps l base S t n \<Longrightarrow> keeps l base S t (andnext m n)"
  unfolding andnext_def by (rule keeps_andthen)

lemma keeps_ok [keeps_rules]: "keeps l base S t (ok x)"
  by (simp add: keeps_def cwp_simps extends_refl)

lemma keeps_fail [keeps_rules]: "keeps l base S t (fail msg)"
  by (simp add: keeps_def cwp_simps)

lemma keeps_if [keeps_rules]:
  "(b \<Longrightarrow> keeps l base S t m) \<Longrightarrow> (\<not> b \<Longrightarrow> keeps l base S t n) \<Longrightarrow> keeps l base S t (if b then m else n)"
  by simp

lemma keeps_reads [keeps_rules]:
  assumes "\<And>c. t \<le> here c \<Longrightarrow> keeps l base S (here c) (f c)"
  shows "keeps l base S t (reads f)"
  using assms by (auto simp: keeps_def cwp_simps)

lemma keeps_weaken: "keeps l base S t m \<Longrightarrow> S \<subseteq> S' \<Longrightarrow> t \<le> t' \<Longrightarrow> keeps l base S' t' m"
  unfolding keeps_def by (meson order_trans subsetD)

lemma emit_cok:
  assumes "cok l base c" and "instr_ok l (here c + 1) (ccompiled c) \<lparr>i_op = op, i_a = a, i_b = b\<rparr>"
  shows "cwp (emit op a b) (\<lambda>ip c'. cok l base c' \<and> extends c c' \<and> ip = here c \<and> here c' = here c + 1 \<and>
    code (cst c') ip = \<lparr>i_op = op, i_a = a, i_b = b\<rparr>) c"
  by (rule emit_cwp [OF assms(1) [unfolded cok_def] assms(2)]) (simp add: cok_def)

text \<open>An instruction that loads no function, with its operands in range.\<close>

lemma keeps_emit [keeps_rules]:
  assumes "instr_ok l t (\<lambda>_. False) \<lparr>i_op = op, i_a = a, i_b = b\<rparr>"
  shows "keeps l base S t (emit op a b)"
proof (rule keepsI)
  fix c
  assume "cok l base c" and "t \<le> here c"
  moreover have "instr_ok l (here c + 1) (ccompiled c) \<lparr>i_op = op, i_a = a, i_b = b\<rparr>"
    using assms \<open>t \<le> here c\<close> by (auto intro: instr_ok_mono)
  ultimately show "cwp (emit op a b) (\<lambda>_ c'. cok l base c' \<and> extends c c') c"
    by (auto intro: cwp_mono [OF emit_cok])
qed

text \<open>A jump whose target is set later.\<close>

lemma keeps_jump [keeps_rules]:
  assumes "op \<in> jump_ops" and "op \<in> for_ops \<longrightarrow> kid l b" and "a \<le> t"
    and "\<And>ip. keeps l base (insert ip S) t (k ip)"
  shows "keeps l base S t (andthen (emit op a b) k)"
proof (rule keepsI)
  fix c
  assume c: "cok l base c" "\<And>ip. ip \<in> S \<Longrightarrow> slot base c ip" "t \<le> here c"
  have i: "instr_ok l (here c + 1) (ccompiled c) \<lparr>i_op = op, i_a = a, i_b = b\<rparr>"
    using assms(1-3) c(3) jump_ops_only [OF assms(1)] by (simp add: instr_ok_def)
  have base: "base \<le> here c"
    using c(1) by (simp add: cok_def comp_ok_def)
  show "cwp (andthen (emit op a b) k) (\<lambda>_ c'. cok l base c' \<and> extends c c') c"
  proof (rule keeps_seq [OF emit_cok [OF c(1) i] c(2,3)])
    fix ip c'
    assume c': "ip = here c \<and> here c' = here c + 1 \<and> code (cst c') ip = \<lparr>i_op = op, i_a = a, i_b = b\<rparr>"
      "cok l base c'" "\<And>jp. jp \<in> S \<Longrightarrow> slot base c' jp" "t \<le> here c'"
    then have "slot base c' ip"
      using assms(1) base by (clarsimp simp: slot_def)
    then show "cwp (k ip) (\<lambda>_ c''. cok l base c'' \<and> extends c' c'') c'"
      by (intro keepsD [OF assms(4)]) (use c' in auto)
  qed
qed

lemma keeps_set_a [keeps_rules]:
  assumes "ip \<in> S" and "v \<le> t"
  shows "keeps l base S t (sets (\<lambda>c. c\<lparr>cst := set_a ip v (cst c)\<rparr>))"
proof (rule keepsI)
  fix c
  assume c: "cok l base c" "\<And>ip. ip \<in> S \<Longrightarrow> slot base c ip" "t \<le> here c"
  note patched = set_a_ok [where c = c and l = l and base = base and t = "here c" and ip = ip and v = v]
  show "cwp (sets (\<lambda>c. c\<lparr>cst := set_a ip v (cst c)\<rparr>)) (\<lambda>_ c'. cok l base c' \<and> extends c c') c"
    using c(1) c(2) [OF assms(1)] c(3) assms(2) patched by (simp add: cwp_simps cok_def slot_def)
qed

lemma keeps_patch_here [keeps_rules]:
  assumes "ip \<in> S"
  shows "keeps l base S t (patch_here ip)"
proof (rule keepsI)
  fix c
  assume c: "cok l base c" "\<And>ip. ip \<in> S \<Longrightarrow> slot base c ip" "t \<le> here c"
  note patched = set_a_ok [where c = c and l = l and base = base and t = "here c" and ip = ip and v = "here c"]
  show "cwp (patch_here ip) (\<lambda>_ c'. cok l base c' \<and> extends c c') c"
    using c(1) c(2) [OF assms(1)] patched by (simp add: patch_here_def cwp_simps cok_def slot_def)
qed

lemma cok_cscope [simp]: "cok l base (c\<lparr>cscope := n\<rparr>) = cok l base c" "extends c (c'\<lparr>cscope := n\<rparr>) = extends c c'"
  by (simp_all add: cok_def comp_ok_def here_def jump_at_def extends_def rounds_def)

lemma keeps_set_scope: "keeps l base S t (sets (\<lambda>c. c\<lparr>cscope := f c\<rparr>))"
  by (simp add: keeps_def cwp_simps extends_refl)

lemma instr_ok_plain: "op \<notin> jump_ops \<union> node_ops \<union> func_ops \<union> {BinOp, UnOp} \<Longrightarrow>
    instr_ok l t fs \<lparr>i_op = op, i_a = a, i_b = b\<rparr>"
  by (auto simp: instr_ok_def for_ops_def jump_ops_def)

lemma keeps_push_scope [keeps_rules]: "keeps l base S t push_scope"
  unfolding push_scope_def
  by (intro keeps_rules keeps_set_scope instr_ok_plain) (simp_all add: op_sets)

lemma keeps_pop_scope [keeps_rules]: "keeps l base S t pop_scope"
  unfolding pop_scope_def
  by (intro keeps_rules keeps_set_scope instr_ok_plain) (simp_all add: op_sets)


section \<open>Loops, labels, functions\<close>

lemma andnext_assoc: "andnext (andnext a b) c = andnext a (andnext b c)"
  by (auto simp: fun_eq_iff step_simps split: res.splits prod.splits)

lemma reads_andnext: "reads (\<lambda>c. andnext (f c) e) = andnext (reads f) e"
  by (auto simp: fun_eq_iff step_simps split: res.splits prod.splits)

lemma set_all_ok:
  assumes "comp_ok l base t c" and "\<forall>ip\<in>set ips. jump_at base c ip" and "v \<le> t"
  defines "c' \<equiv> c\<lparr>cst := fold (\<lambda>ip. set_a ip v) ips (cst c)\<rparr>"
  shows "comp_ok l base t c' \<and> extends c c' \<and> here c' = here c \<and> cloops c' = cloops c"
  unfolding c'_def using assms(1,2)
proof (induction ips arbitrary: c)
  case Nil
  then show ?case by (simp add: extends_refl)
next
  case (Cons ip ips)
  define c1 where "c1 = c\<lparr>cst := set_a ip v (cst c)\<rparr>"
  have j: "base \<le> ip" "ip < here c" "i_op (code (cst c) ip) \<in> jump_ops"
    using Cons.prems(2) by (auto simp: jump_at_def jump_ops_def)
  note c1 = set_a_ok [OF Cons.prems(1) j assms(3), folded c1_def]
  have "jump_at base c1 jp" if "jp \<in> set ips" for jp
    using that Cons.prems(2) by (auto simp: jump_at_def c1_def set_a_def here_def)
  then have "comp_ok l base t (c1\<lparr>cst := fold (\<lambda>ip. set_a ip v) ips (cst c1)\<rparr>) \<and>
      extends c1 (c1\<lparr>cst := fold (\<lambda>ip. set_a ip v) ips (cst c1)\<rparr>) \<and>
      here (c1\<lparr>cst := fold (\<lambda>ip. set_a ip v) ips (cst c1)\<rparr>) = here c1 \<and>
      cloops (c1\<lparr>cst := fold (\<lambda>ip. set_a ip v) ips (cst c1)\<rparr>) = cloops c1"
    using c1(1) by (intro Cons.IH) auto
  moreover have "c1\<lparr>cst := fold (\<lambda>ip. set_a ip v) ips (cst c1)\<rparr> =
      c\<lparr>cst := fold (\<lambda>ip. set_a ip v) (ip # ips) (cst c)\<rparr>"
    by (simp add: c1_def)
  ultimately show ?case
    using c1(2-4) extends_trans by metis
qed

lemma keeps_loop:
  assumes "keeps l base S t body"
  shows "keeps l base S t (andnext (begin_loop sc) (andnext body end_loop))"
proof (rule keepsI)
  fix c
  assume c: "cok l base c" "\<And>ip. ip \<in> S \<Longrightarrow> slot base c ip" "t \<le> here c"
  let ?c1 = "c\<lparr>cloops := \<lparr>lp_scope = sc, lp_ends = []\<rparr> # cloops c\<rparr>"
  have c1: "cok l base ?c1" "here ?c1 = here c" "slot base ?c1 ip = slot base c ip" for ip
    using c(1) by (simp_all add: cok_def comp_ok_def here_def jump_at_def slot_def)
  have inner: "cwp body (\<lambda>_ c2. cok l base c2 \<and> extends ?c1 c2) ?c1"
    by (rule keepsD [OF assms c1(1)]) (use c(2,3) c1(2,3) in auto)
  have "cwp end_loop (\<lambda>_ c3. cok l base c3 \<and> extends c c3) c2"
    if c2: "cok l base c2" "extends ?c1 c2" for c2
  proof -
    obtain lp lps where lps: "cloops c2 = lp # lps" "length lps = length (cloops c)"
      using c2(2) by (cases "cloops c2") (auto simp: extends_def)
    define c3 where "c3 = c2\<lparr>cst := fold (\<lambda>ip. set_a ip (here c2)) (lp_ends lp) (cst c2)\<rparr>"
    have "comp_ok l base (here c2) c3 \<and> extends c2 c3 \<and> here c3 = here c2 \<and> cloops c3 = cloops c2"
      unfolding c3_def
      by (rule set_all_ok) (use c2(1) lps in \<open>auto simp: cok_def comp_ok_def\<close>)
    then have c3: "comp_ok l base (here c3) c3" "extends ?c1 c3" "cloops c3 = lp # lps"
      using extends_trans [OF c2(2)] lps by auto
    have "cok l base (c3\<lparr>cloops := lps\<rparr>)"
      using c3(1,3) by (auto simp: cok_def comp_ok_def here_def jump_at_def)
    moreover have "extends c (c3\<lparr>cloops := lps\<rparr>)"
      using c3(2) lps(2) by (simp add: extends_def here_def rounds_def)
    moreover have "end_loop c2 = (Ok (), c3\<lparr>cloops := lps\<rparr>)"
      by (simp add: end_loop_def lps c3_def here_def)
    ultimately show ?thesis
      by (simp add: cwp_def)
  qed
  then have "cwp body (\<lambda>_. cwp end_loop (\<lambda>_ c3. cok l base c3 \<and> extends c c3)) ?c1"
    by (auto intro: cwp_mono [OF inner])
  then show "cwp (andnext (begin_loop sc) (andnext body end_loop)) (\<lambda>_ c'. cok l base c' \<and> extends c c') c"
    by (simp add: cwp_simps) (simp add: cwp_def begin_loop_def)
qed

lemma jump_scopes_ok: "instr_ok l t fs \<lparr>i_op = JumpScopes, i_a = 0, i_b = b\<rparr>"
  by (simp add: instr_ok_def op_sets)

lemma keeps_break [keeps_rules]: "keeps l base S t emit_break"
proof (rule keepsI)
  fix c
  assume c: "cok l base c"
  show "cwp emit_break (\<lambda>_ c'. cok l base c' \<and> extends c c') c"
  proof (cases "cloops c")
    case Nil
    then show ?thesis by (simp add: emit_break_def cwp_simps)
  next
    case (Cons lp lps)
    have "cwp (if length (lp_ends lp) \<ge> MAX_LOOP_ENDS then fail e
        else sets (\<lambda>c. c\<lparr>cloops := lp\<lparr>lp_ends := lp_ends lp @ [here c0]\<rparr> # lps\<rparr>)) (\<lambda>_ c'. cok l base c' \<and> extends c c') c'"
      if c': "comp_ok l base (here c') c'" "extends c c'" "here c' = here c + 1"
        "code (cst c') (here c) = \<lparr>i_op = JumpScopes, i_a = 0, i_b = b\<rparr>" "cloops c' = cloops c" "here c0 = here c"
      for c' c0 b e
    proof -
      have "base \<le> here c"
        using c by (simp add: cok_def comp_ok_def)
      then have "jump_at base c' (here c)"
        using c'(3,4) by (simp add: jump_at_def)
      then have "cok l base (c'\<lparr>cloops := lp\<lparr>lp_ends := lp_ends lp @ [here c0]\<rparr> # lps\<rparr>)"
        using c'(1,5,6) Cons by (auto simp: cok_def comp_ok_def here_def jump_at_def)
      moreover have "extends c (c'\<lparr>cloops := lp\<lparr>lp_ends := lp_ends lp @ [here c0]\<rparr> # lps\<rparr>)"
        using c'(2,5) Cons by (simp add: extends_def here_def rounds_def)
      ultimately show ?thesis
        by (simp add: cwp_simps)
    qed
    then show ?thesis
      using Cons
      by (simp add: emit_break_def cwp_simps del: cwp_if)
        (rule emit_cwp [OF c [unfolded cok_def] jump_scopes_ok], simp)
  qed
qed

lemma keeps_label [keeps_rules]: "keeps l base S t (note_label n)"
  by (auto simp: keeps_def note_label_def cwp_def cok_def comp_ok_def here_def jump_at_def extends_def rounds_def)

lemma keeps_goto [keeps_rules]:
  "keeps l base S t (andthen (emit JumpScopes 0 0) (\<lambda>ip. reads (\<lambda>c. add_fixup ip n (cscope c))))"
proof (rule keepsI)
  fix c
  assume c: "cok l base c"
  have "cwp (add_fixup (here c) n d) (\<lambda>_ c'. cok l base c' \<and> extends c c') c'"
    if c': "comp_ok l base (here c') c'" "extends c c'" "here c' = here c + 1"
      "code (cst c') (here c) = \<lparr>i_op = JumpScopes, i_a = 0, i_b = 0\<rparr>" for c' d
  proof -
    have "base \<le> here c"
      using c by (simp add: cok_def comp_ok_def)
    then have "jump_at base c' (here c)"
      using c'(3,4) by (simp add: jump_at_def)
    then have "cok l base (c'\<lparr>cfixups := cfixups c' @ [(here c, n, d)]\<rparr>)"
      using c'(1) by (auto simp: cok_def comp_ok_def here_def jump_at_def)
    moreover have "extends c (c'\<lparr>cfixups := cfixups c' @ [(here c, n, d)]\<rparr>)"
      using c'(2) by (simp add: extends_def here_def rounds_def)
    ultimately show ?thesis
      by (simp add: cwp_def add_fixup_def)
  qed
  then show "cwp (andthen (emit JumpScopes 0 0) (\<lambda>ip. reads (\<lambda>c. add_fixup ip n (cscope c))))
      (\<lambda>_ c'. cok l base c' \<and> extends c c') c"
    by (simp add: cwp_simps) (rule emit_cwp [OF c [unfolded cok_def] jump_scopes_ok], simp)
qed

lemma rounds_queue:
  assumes "fi < MAX_FUNCS" and "\<not> f fi"
  shows "Suc (card {i. i < MAX_FUNCS \<and> \<not> (f(fi := True)) i}) = card {i. i < MAX_FUNCS \<and> \<not> f i}"
proof -
  have "{i. i < MAX_FUNCS \<and> \<not> f i} = insert fi {i. i < MAX_FUNCS \<and> \<not> (f(fi := True)) i}"
    using assms by auto
  moreover have "finite {i. i < MAX_FUNCS \<and> \<not> (f(fi := True)) i}" by simp
  ultimately show ?thesis by simp
qed

lemma keeps_func_value [keeps_rules]:
  assumes "fun_kid l fi" and "prog_ok l"
  shows "keeps l base S t (compile_func_value fi)"
proof (rule keepsI)
  fix c
  assume c: "cok l base c"
  have fi: "fi < MAX_FUNCS"
    using assms by (auto simp: prog_ok_def fun_kid_def)
  have queue: "cwp (queue_func fi) (\<lambda>_ c'. cok l base c' \<and> extends c c' \<and> ccompiled c' fi) c"
  proof (cases "ccompiled c fi \<or> length (cpending c) \<ge> MAX_FUNCS")
    case True
    then show ?thesis
      using fi c by (auto simp: queue_func_def cwp_def Let_def extends_refl)
  next
    case False
    let ?c = "c\<lparr>ccompiled := (ccompiled c)(fi := True), cpending := fi # cpending c\<rparr>"
    have "comp_ok l base (here c) ?c"
      using c assms(1) by (auto simp: cok_def comp_ok_def here_def jump_at_def intro: instr_ok_mono)
    then have "cok l base ?c"
      by (simp add: cok_def here_def)
    moreover have "extends c ?c"
      using rounds_queue [OF fi, of "ccompiled c"] False
      by (auto simp: extends_def here_def rounds_def simp del: fun_upd_apply) (auto split: if_splits)
    ultimately show ?thesis
      using fi False by (simp add: queue_func_def cwp_def Let_def)
  qed
  have op: "instr_ok l u (ccompiled c') \<lparr>i_op = op, i_a = fi, i_b = 0\<rparr>"
    if "ccompiled c' fi" "op \<in> func_ops" for c' op u
    using that assms(1) by (auto simp: instr_ok_def op_sets)
  show "cwp (compile_func_value fi) (\<lambda>_ c'. cok l base c' \<and> extends c c') c"
    unfolding compile_func_value_def cwp_simps
  proof (rule cwp_mono [OF queue])
    fix u c'
    assume c': "cok l base c' \<and> extends c c' \<and> ccompiled c' fi"
    show "cwp (emit (if 0 < nup (funcs (cst c') fi) then MakeClosure else LoadFunc) fi 0)
        (\<lambda>_ c''. cok l base c'' \<and> extends c c'') c'"
      by (rule cwp_mono [OF emit_cok]) (use c' in \<open>auto simp: func_ops_def intro!: op intro: extends_trans\<close>)
  qed
qed


section \<open>Reading the syntax\<close>

lemma keeps_node_at:
  assumes "prog_ok l" and "kid l n" and "keeps l base S t (k (nodes l n))"
  shows "keeps l base S t (andthen (node_at n) k)"
proof (rule keepsI)
  fix c
  assume c: "cok l base c" "\<And>ip. ip \<in> S \<Longrightarrow> slot base c ip" "t \<le> here c"
  have "n < MAX_NODES"
    using assms(1,2) by (simp add: prog_ok_def kid_def)
  moreover have "nodes (cst c) = nodes l"
    using c(1) by (simp add: cok_def comp_ok_def same_syntax_def)
  ultimately show "cwp (andthen (node_at n) k) (\<lambda>_ c'. cok l base c' \<and> extends c c') c"
    using keepsD [OF assms(3) c] by (simp add: cwp_simps) (simp add: cwp_def node_at_def)
qed

lemma keeps_next_of:
  assumes "prog_ok l" and "kid l n" and "keeps l base S t (k (nxt l n))"
  shows "keeps l base S t (andthen (next_of n) k)"
proof (rule keepsI)
  fix c
  assume c: "cok l base c" "\<And>ip. ip \<in> S \<Longrightarrow> slot base c ip" "t \<le> here c"
  have "n < MAX_NODES"
    using assms(1,2) by (simp add: prog_ok_def kid_def)
  moreover have "nxt (cst c) = nxt l"
    using c(1) by (simp add: cok_def comp_ok_def same_syntax_def)
  ultimately show "cwp (andthen (next_of n) k) (\<lambda>_ c'. cok l base c' \<and> extends c c') c"
    using keepsD [OF assms(3) c] by (simp add: cwp_simps) (simp add: cwp_def next_of_def)
qed

lemma opt_kid_kid: "opt_kid l n \<Longrightarrow> n \<noteq> NO_NODE \<Longrightarrow> kid l n"
  by (simp add: opt_kid_def kid_def)

lemma kid_node:
  assumes "prog_ok l" and "kid l n"
  shows "n \<noteq> NO_NODE" and "node_ok l (nodes l n)" and "opt_kid l (nxt l n)"
  using assms by (auto simp: prog_ok_def kid_def lua_caps)

lemma ranked_height:
  assumes "ranked l r" and "kid l n"
  shows "height r (nxt l n) \<le> r n" and "k \<in> kids (nodes l n) \<Longrightarrow> height r k \<le> r n" and "r n < MAX_NODES"
  using assms by (auto simp: ranked_def kid_def)

lemma keeps_chain_len:
  assumes "prog_ok l" and "ranked l r" and "opt_kid l n" and "height r n < k"
  shows "keeps l base S t (chain_len k n)"
  using assms(3,4)
proof (induction k arbitrary: n)
  case (Suc k)
  show ?case
  proof (cases "n = NO_NODE")
    case True
    then show ?thesis by (simp add: keeps_ok)
  next
    case False
    then have n: "kid l n"
      using Suc.prems(1) by (rule opt_kid_kid [rotated])
    have "keeps l base S t (chain_len k (nxt l n))"
      using Suc.prems(2) False ranked_height [OF assms(2) n] kid_node [OF assms(1) n]
      by (intro Suc.IH) (auto simp: height_def)
    then show ?thesis
      using False by (simp, intro keeps_next_of [OF assms(1) n] keeps_andthen keeps_ok)
  qed
qed simp

lemma keeps_call_last:
  assumes "prog_ok l" and "ranked l r" and "opt_kid l n" and "height r n < k"
  shows "keeps l base S t (has_call_last k n)"
  using assms(3,4)
proof (induction k arbitrary: n)
  case (Suc k)
  show ?case
  proof (cases "n = NO_NODE")
    case True
    then show ?thesis by (simp add: keeps_ok)
  next
    case False
    then have n: "kid l n"
      using Suc.prems(1) by (rule opt_kid_kid [rotated])
    have again: "keeps l base S t (has_call_last k (nxt l n))"
      using Suc.prems(2) False ranked_height [OF assms(2) n] kid_node [OF assms(1) n]
      by (intro Suc.IH) (auto simp: height_def)
    have v: "kid l v" if "nodes l n = NArg v" for v
      using kid_node(2) [OF assms(1) n] that by (simp add: node_ok_def)
    show ?thesis
      using False again
      by (cases "nodes l n") (auto intro!: keeps_next_of keeps_node_at keeps_ok keeps_fail assms(1) n dest: v)
  qed
qed simp

section \<open>The contract of the recursive calls\<close>

definition cjob_ok :: "lua \<Rightarrow> cjob \<Rightarrow> bool" where
  "cjob_ok l j = (case j of CChain n \<Rightarrow> opt_kid l n | CExpr n _ \<Rightarrow> kid l n | CPrefixes n \<Rightarrow> opt_kid l n
     | CFields n \<Rightarrow> opt_kid l n | CArgs n _ \<Rightarrow> opt_kid l n)"

definition cheight :: "(nat \<Rightarrow> nat) \<Rightarrow> cjob \<Rightarrow> nat" where
  "cheight r j = (case j of CChain n \<Rightarrow> height r n | CExpr n _ \<Rightarrow> height r n | CPrefixes n \<Rightarrow> height r n
     | CFields n \<Rightarrow> height r n | CArgs n _ \<Rightarrow> height r n)"

lemmas cjob_simps = cjob_ok_def cheight_def

definition syntax_ok :: "lua \<Rightarrow> (nat \<Rightarrow> nat) \<Rightarrow> bool" where
  "syntax_ok l r \<longleftrightarrow> prog_ok l \<and> ranked l r"

lemma syntax_okD: "syntax_ok l r \<Longrightarrow> prog_ok l" "syntax_ok l r \<Longrightarrow> ranked l r"
  by (simp_all add: syntax_ok_def)

locale compile_calls =
  fixes rec :: ccalls and m :: nat
  assumes rec_keeps: "syntax_ok l r \<Longrightarrow> cjob_ok l j \<Longrightarrow> cheight r j < m \<Longrightarrow> keeps l base S t (rec j)"
begin

lemma keeps_expr:
  "syntax_ok l r \<Longrightarrow> kid l n \<Longrightarrow> height r n < m \<Longrightarrow> keeps l base S t (rec (CExpr n want))"
  by (rule rec_keeps) (simp_all add: cjob_simps)

lemma keeps_chain:
  "syntax_ok l r \<Longrightarrow> opt_kid l n \<Longrightarrow> height r n < m \<Longrightarrow> keeps l base S t (rec (CChain n))"
  by (rule rec_keeps) (simp_all add: cjob_simps)

lemma keeps_emit_times: "op \<notin> jump_ops \<union> node_ops \<union> func_ops \<union> {BinOp, UnOp} \<Longrightarrow>
    keeps l base S t (emit_times n op)"
  by (induction n) (auto intro!: keeps_rules instr_ok_plain)

lemma plain_ops [simp]:
  "op \<in> {Mark, Call, Dup, SetIndex, GetIndex, NewTable, Pop, PushNil, PushInt, StmtCheck, Print, ForInPrep,
     Return, PopScope} \<Longrightarrow> instr_ok l t fs \<lparr>i_op = op, i_a = a, i_b = b\<rparr>"
  by (rule instr_ok_plain) (auto simp: op_sets)

lemma node_op [simp]:
  "op \<in> node_ops \<Longrightarrow> kid l a \<Longrightarrow> instr_ok l t fs \<lparr>i_op = op, i_a = a, i_b = b\<rparr>"
  by (auto simp: instr_ok_def op_sets)

lemma keeps_jump_to:
  "op \<in> {Jump, JumpIfFalse, ForInAdvance} \<or> op \<in> for_ops \<and> kid l b \<Longrightarrow> a \<le> t \<Longrightarrow>
    keeps l base S t (emit op a b)"
  by (rule keeps_emit) (auto simp: instr_ok_def op_sets)

lemma keeps_scoped:
  assumes "opt_kid l n" and "height r n < m"
    and ok: "syntax_ok l r"
  shows "keeps l base S t (scoped rec n)"
  unfolding scoped_def by (intro keeps_rules keeps_chain [OF ok] assms)


lemma loop_assoc:
  "andnext a (andnext b (andnext d e)) = andnext (andnext a (andnext b d)) e"
  "andnext a (andnext b (andnext d (andnext f (andnext g e)))) =
    andnext (andnext a (andnext b (andnext d (andnext f g)))) e"
  by (simp_all add: andnext_assoc)

text \<open>The children of a node, ready for the recursive calls.\<close>

lemma child:
  assumes ok: "syntax_ok l r" and "kid l n" and "height r n \<le> m" and "k \<in> kids (nodes l n)"
  shows "height r k < m"
  using assms ranked_height(2) [OF syntax_okD(2) [OF ok] assms(2,4)] kid_node(1) [OF syntax_okD(1) [OF ok] assms(2)] by (simp add: height_def)

lemma next_child:
  assumes ok: "syntax_ok l r" and "kid l n" and "height r n \<le> m"
  shows "height r (nxt l n) < m" and "opt_kid l (nxt l n)"
  using assms ranked_height(1) [OF syntax_okD(2) [OF ok] assms(2)] kid_node [OF syntax_okD(1) [OF ok] assms(2)] by (simp_all add: height_def)

lemma small: "syntax_ok l r \<Longrightarrow> kid l n \<Longrightarrow> k \<in> kids (nodes l n) \<Longrightarrow> height r k < MAX_NODES + 1"
  using ranked_height [OF syntax_okD(2), of l r n] by fastforce

lemma keeps_args:
  assumes "opt_kid l n" and "height r n \<le> m"
    and ok: "syntax_ok l r"
  shows "keeps l base S t (compile_args rec n argc)"
proof (cases "n = NO_NODE")
  case True
  then show ?thesis by (simp add: compile_args_def keeps_ok)
next
  case False
  then have n: "kid l n" using assms(1) by (rule opt_kid_kid [rotated])
  have args: "keeps l base S t (rec (CArgs (nxt l n) k))" for k
    using next_child [OF ok n assms(2)] by (intro rec_keeps [OF ok]) (simp_all add: cjob_simps)
  have v: "kid l v" "height r v < m" if "nodes l n = NArg v" for v
    using kid_node(2) [OF syntax_okD(1) [OF ok] n] child [OF ok n assms(2), of v] that by (simp_all add: node_ok_def kids_def)
  show ?thesis
    using False args
    by (cases "nodes l n") (auto simp: compile_args_def intro!: keeps_next_of keeps_node_at syntax_okD(1) [OF ok] n keeps_rules keeps_expr [OF ok] v)
qed

lemma keeps_call:
  assumes "kid l n" and "height r n \<le> m" and "nodes l n = NCall f a"
    and ok: "syntax_ok l r"
  shows "keeps l base S t (compile_call rec f a want)"
proof -
  have k: "kid l f" "opt_kid l a" "height r f < m" "height r a < m" "height r a < MAX_NODES + 1"
    using kid_node(2) [OF syntax_okD(1) [OF ok] assms(1)] child [OF ok assms(1,2)] small [OF ok assms(1)] assms(3)
    by (auto simp: node_ok_def kids_def)
  have args: "keeps l base S t (rec (CArgs a k))" for k
    using k by (intro rec_keeps [OF ok]) (simp_all add: cjob_simps)
  show ?thesis
    unfolding compile_call_def
    by (intro keeps_andthen keeps_call_last [OF syntax_okD(1) [OF ok] syntax_okD(2) [OF ok]] keeps_rules keeps_expr [OF ok] args k) simp_all
qed

lemma keeps_fields:
  assumes "opt_kid l n" and "height r n \<le> m"
    and ok: "syntax_ok l r"
  shows "keeps l base S t (compile_fields rec n)"
proof (cases "n = NO_NODE")
  case True
  then show ?thesis by (simp add: compile_fields_def keeps_ok)
next
  case False
  then have n: "kid l n" using assms(1) by (rule opt_kid_kid [rotated])
  have fields: "keeps l base S t (rec (CFields (nxt l n)))"
    using next_child [OF ok n assms(2)] by (intro rec_keeps [OF ok]) (simp_all add: cjob_simps)
  have kv: "\<forall>k v. nodes l n = NField k v \<longrightarrow> kid l k \<and> kid l v \<and> height r k < m \<and> height r v < m"
    using kid_node(2) [OF syntax_okD(1) [OF ok] n] child [OF ok n assms(2)] by (auto simp: node_ok_def kids_def)
  show ?thesis
    using False fields kv
    by (cases "nodes l n") (auto simp: compile_fields_def intro!: keeps_next_of keeps_node_at syntax_okD(1) [OF ok] n keeps_rules keeps_expr [OF ok])
qed

lemma keeps_short:
  assumes "kid l a" "kid l b" "height r a < m" "height r b < m" "op \<in> {JumpIfFalseKeep, JumpIfTrueKeep}"
    and ok: "syntax_ok l r"
  shows "keeps l base S t (compile_short rec op a b)"
  unfolding compile_short_def
  by (intro keeps_rules keeps_expr [OF ok] assms) (use assms(5) in \<open>auto simp: op_sets\<close>)

lemma op_code_ok: "op \<in> {BinOp, UnOp} \<Longrightarrow> instr_ok l t fs \<lparr>i_op = op, i_a = op_code b, i_b = c\<rparr>"
  by (cases b) (auto simp: instr_ok_def op_sets op_code_def)

lemma keeps_value:
  assumes "kid l n" and "height r n \<le> m"
    and ok: "syntax_ok l r"
  shows "keeps l base S t (compile_value rec n (nodes l n))"
proof -
  note k = kid_node(2) [OF syntax_okD(1) [OF ok] assms(1)] child [OF ok assms(1,2)] 
  have fields: "keeps l base S t (rec (CFields f))" if "opt_kid l f" "height r f < m" for f
    using that by (intro rec_keeps [OF ok]) (simp_all add: cjob_simps)
  show ?thesis
    using k assms(1) fields
    by (cases "nodes l n")
      (auto simp: compile_value_def node_ok_def kids_def node_ops_def op_code_ok
        intro!: keeps_rules keeps_expr [OF ok] keeps_short [OF _ _ _ _ _ ok] syntax_okD(1) [OF ok])
qed

lemma keeps_compile_expr:
  assumes "kid l n" and "height r n \<le> m"
    and ok: "syntax_ok l r"
  shows "keeps l base S t (compile_expr rec n want)"
proof -
  have pad: "keeps l base S t (if want = 0 then emit Pop 0 0
      else if want \<noteq> 1 \<and> want \<noteq> WANT_ALL then andnext (emit_times (want - 1) PushNil) (ok 0) else ok 0)"
    by (intro keeps_rules keeps_emit_times) (simp_all add: op_sets)
  show ?thesis
    unfolding compile_expr_def
  proof (rule keeps_node_at [OF syntax_okD(1) [OF ok] assms(1)])
    show "keeps l base S t (case nodes l n of NCall f a \<Rightarrow> compile_call rec f a want
      | _ \<Rightarrow> andnext (compile_value rec n (nodes l n))
         (if want = 0 then emit Pop 0 0
          else if want \<noteq> 1 \<and> want \<noteq> WANT_ALL then andnext (emit_times (want - 1) PushNil) (ok 0)
          else ok 0))"
      using keeps_andnext [OF keeps_value [OF assms(1,2) ok] pad] keeps_call [OF assms(1,2) _ ok]
      by (cases "nodes l n") (simp_all add: del: One_nat_def)
  qed
qed

lemma keeps_prefixes:
  assumes "opt_kid l n" and "height r n \<le> m"
    and ok: "syntax_ok l r"
  shows "keeps l base S t (compile_prefixes rec n)"
proof (cases "n = NO_NODE")
  case True
  then show ?thesis by (simp add: compile_prefixes_def keeps_ok)
next
  case False
  then have n: "kid l n" using assms(1) by (rule opt_kid_kid [rotated])
  have rest: "keeps l base S t (rec (CPrefixes (nxt l n)))"
    using next_child [OF ok n assms(2)] by (intro rec_keeps [OF ok]) (simp_all add: cjob_simps)
  have kv: "\<forall>k v. nodes l n = NIndex k v \<longrightarrow> kid l k \<and> kid l v \<and> height r k < m \<and> height r v < m"
    using kid_node(2) [OF syntax_okD(1) [OF ok] n] child [OF ok n assms(2)] by (auto simp: node_ok_def kids_def)
  show ?thesis
    using False rest kv
    by (cases "nodes l n") (auto simp: compile_prefixes_def intro!: keeps_next_of keeps_node_at syntax_okD(1) [OF ok] n keeps_rules keeps_expr [OF ok])
qed


section \<open>Statements\<close>

lemma keeps_done: "keeps l base S t m' \<Longrightarrow> keeps l base S t (done_with m')"
  unfolding done_with_def by (intro keeps_rules)

lemma keeps_if_stmt:
  assumes "kid l cond" "height r cond < m" "opt_kid l a" "height r a < m" "opt_kid l b" "height r b < m"
    and ok: "syntax_ok l r"
  shows "keeps l base S t (compile_if rec cond a b)"
  unfolding compile_if_def
  by (intro keeps_rules keeps_expr [OF ok] keeps_scoped [OF _ _ ok] assms) (simp_all add: op_sets)

lemma keeps_while:
  assumes "kid l cond" "height r cond < m" "opt_kid l b" "height r b < m"
    and ok: "syntax_ok l r"
  shows "keeps l base S t (compile_while rec cond b)"
  unfolding compile_while_def loop_assoc(1)
  by (intro keeps_rules keeps_loop keeps_expr [OF ok] keeps_scoped [OF _ _ ok] keeps_jump_to assms) (simp_all add: op_sets)

lemma keeps_repeat:
  assumes "kid l cond" "height r cond < m" "opt_kid l b" "height r b < m"
    and ok: "syntax_ok l r"
  shows "keeps l base S t (compile_repeat rec b cond)"
  unfolding compile_repeat_def loop_assoc(2)
  by (intro keeps_rules keeps_loop keeps_expr [OF ok] keeps_chain [OF ok] keeps_jump_to assms) (simp_all add: op_sets)

lemma keeps_loop_body:
  assumes "opt_kid l body" "height r body < m" "exit_ip \<in> S" "back_ip \<le> t"
    and "back = ForInAdvance \<or> back \<in> for_ops \<and> kid l b"
    and ok: "syntax_ok l r"
  shows "keeps l base S t (compile_loop_body rec body back back_ip b exit_ip)"
proof -
  have "keeps l base S t (andnext (begin_loop sc) (andnext
      (andnext (scoped rec body) (andnext (emit back back_ip b)
        (reads (\<lambda>c. andnext pop_scope (sets (\<lambda>c'. c'\<lparr>cst := set_a exit_ip (here c) (cst c')\<rparr>)))))) end_loop))"
    if "back_ip \<le> t" for sc t
    using assms(5) that
    by (intro keeps_rules keeps_loop keeps_scoped [OF _ _ ok] keeps_jump_to assms(1-3)) auto
  moreover have "andnext (begin_loop sc) (andnext (scoped rec body) (andnext (emit back back_ip b)
        (reads (\<lambda>c. andnext pop_scope (andnext (sets (\<lambda>c'. c'\<lparr>cst := set_a exit_ip (here c) (cst c')\<rparr>)) end_loop))))) =
      andnext (begin_loop sc) (andnext
      (andnext (scoped rec body) (andnext (emit back back_ip b)
        (reads (\<lambda>c. andnext pop_scope (sets (\<lambda>c'. c'\<lparr>cst := set_a exit_ip (here c) (cst c')\<rparr>)))))) end_loop)" for sc
    by (simp add: andnext_assoc reads_andnext [symmetric])
  ultimately show ?thesis
    unfolding compile_loop_body_def using assms(4) by (intro keeps_reads) (auto intro: order_trans)
qed

lemma keeps_for:
  assumes "kid l a" "kid l z" "opt_kid l s" "opt_kid l b" "kid l var"
    and "height r a < m" "height r z < m" "height r s < m" "height r b < m"
    and ok: "syntax_ok l r"
  shows "keeps l base S t (compile_for rec cell var a z s b)"
proof -
  have step: "keeps l base S t (if s \<noteq> NO_NODE then rec (CExpr s 1) else emit PushInt 1 0)" for S t
    using opt_kid_kid [OF assms(3)] assms(8) by (intro keeps_rules keeps_expr [OF ok]) simp_all
  show ?thesis
    unfolding compile_for_def
    by (intro keeps_andnext keeps_push_scope keeps_expr [OF ok] step keeps_jump keeps_reads keeps_loop_body [OF _ _ _ _ _ ok] assms)
      (auto simp: op_sets assms)
qed

lemma keeps_for_in:
  assumes "kid l tbl" "opt_kid l v" "opt_kid l b" "kid l k" "height r tbl < m" "height r b < m"
    and ok: "syntax_ok l r"
  shows "keeps l base S t (compile_for_in rec cell k v tbl b)"
proof -
  have set_op: "(if cell then SetLocalTopCell else SetLocalTop) \<in> node_ops"
    by (simp add: node_ops_def)
  have bind: "keeps l base S t (if v \<noteq> NO_NODE then emit (if cell then SetLocalTopCell else SetLocalTop) v 0 else emit Pop 0 0)" for S t
    using opt_kid_kid [OF assms(2)] set_op by (intro keeps_rules) simp_all
  have body: "keeps l base S t (andthen (emit ForInNext 0 0) (\<lambda>next_ip.
      andnext (if v \<noteq> NO_NODE then emit (if cell then SetLocalTopCell else SetLocalTop) v 0 else emit Pop 0 0)
      (andnext (emit (if cell then SetLocalTopCell else SetLocalTop) k 0)
        (compile_loop_body rec b ForInAdvance next_ip 0 next_ip))))" for S t
  proof (rule keepsI)
    fix c
    assume c: "cok l base c" "\<And>ip. ip \<in> S \<Longrightarrow> slot base c ip" "t \<le> here c"
    have i: "instr_ok l (here c + 1) (ccompiled c) \<lparr>i_op = ForInNext, i_a = 0, i_b = 0\<rparr>"
      by (simp add: instr_ok_def op_sets)
    have base: "base \<le> here c"
      using c(1) by (simp add: cok_def comp_ok_def)
    show "cwp (andthen (emit ForInNext 0 0) (\<lambda>next_ip.
      andnext (if v \<noteq> NO_NODE then emit (if cell then SetLocalTopCell else SetLocalTop) v 0 else emit Pop 0 0)
      (andnext (emit (if cell then SetLocalTopCell else SetLocalTop) k 0)
        (compile_loop_body rec b ForInAdvance next_ip 0 next_ip)))) (\<lambda>_ c'. cok l base c' \<and> extends c c') c"
    proof (rule keeps_seq [where S = "{}" and t = t, OF emit_cok [OF c(1) i]])
      fix ip c'
      assume c': "ip = here c \<and> here c' = here c + 1 \<and> code (cst c') ip = \<lparr>i_op = ForInNext, i_a = 0, i_b = 0\<rparr>"
        "cok l base c'"
      then have s: "slot base c' ip"
        using base by (clarsimp simp: slot_def jump_ops_def)
      have "keeps l base {ip} (here c')
          (andnext (if v \<noteq> NO_NODE then emit (if cell then SetLocalTopCell else SetLocalTop) v 0 else emit Pop 0 0)
          (andnext (emit (if cell then SetLocalTopCell else SetLocalTop) k 0)
            (compile_loop_body rec b ForInAdvance ip 0 ip)))"
        using c'(1) assms set_op by (intro keeps_andnext bind keeps_emit keeps_loop_body [OF _ _ _ _ _ ok]) auto
      then show "cwp (andnext (if v \<noteq> NO_NODE then emit (if cell then SetLocalTopCell else SetLocalTop) v 0 else emit Pop 0 0)
          (andnext (emit (if cell then SetLocalTopCell else SetLocalTop) k 0)
            (compile_loop_body rec b ForInAdvance ip 0 ip))) (\<lambda>_ c''. cok l base c'' \<and> extends c' c'') c'"
        by (rule keepsD) (use c' s in auto)
    qed (use c in auto)
  qed
  show ?thesis
    unfolding compile_for_in_def Let_def
    by (intro keeps_andnext keeps_push_scope keeps_emit keeps_expr [OF ok] body assms) simp_all
qed

lemma keeps_emit_return: "keeps l base S t (emit_return n)"
  unfolding emit_return_def by (intro keeps_rules keeps_emit_times) (simp_all add: op_sets)

lemma keeps_return:
  assumes "opt_kid l v" "height r v < m"
    and ok: "syntax_ok l r"
  shows "keeps l base S t (compile_return rec v)"
  using opt_kid_kid [OF assms(1)] assms(2)
  unfolding compile_return_def
  by (intro keeps_if keeps_node_at syntax_okD(1) [OF ok] keeps_andnext keeps_emit_return keeps_expr [OF ok]) simp_all

lemma keeps_stmt:
  assumes "kid l n" and "height r n \<le> m"
    and ok: "syntax_ok l r"
  shows "keeps l base S t (compile_stmt rec n)"
proof -
  note k = kid_node(2) [OF syntax_okD(1) [OF ok] assms(1)] child [OF ok assms(1,2)] small [OF ok assms(1)]
  have prefixes: "keeps l base S t (rec (CPrefixes a))" if "kid l a" "height r a < m" for a S t
    using that by (intro rec_keeps [OF ok]) (simp_all add: cjob_simps opt_kid_def kid_def)
  have len: "keeps l base S t (chain_len (MAX_NODES + 1) a)" if "kid l a" "height r a < MAX_NODES + 1" for a S t
    using that by (intro keeps_chain_len [OF syntax_okD(1) [OF ok] syntax_okD(2) [OF ok]]) (simp_all add: opt_kid_def kid_def)
  have global: "keeps l base S t (if v \<noteq> NO_NODE then rec (CExpr v 1) else emit PushNil 0 0)"
    if "opt_kid l v" "height r v < m" for v S t
    using opt_kid_kid [OF that(1)] that(2) by (intro keeps_rules keeps_expr [OF ok]) simp_all
  show ?thesis
    unfolding compile_stmt_def
  proof (rule keeps_node_at [OF syntax_okD(1) [OF ok] assms(1)])
    show "keeps l base S t (case nodes l n of
       NLocalDecl first v \<Rightarrow>
         andthen (chain_len (MAX_NODES + 1) first) (\<lambda>count.
         andnext (rec (CExpr v count)) (done_with (emit DeclareLocal first count)))
     | NLocalFunc name fi \<Rightarrow>
         andnext (emit PushNil 0 0)
         (andnext (emit DeclareLocal name 1)
         (andnext (compile_func_value fi) (done_with (emit SetVar name 0))))
     | NGlobalDecl name v \<Rightarrow>
         andnext (if v \<noteq> NO_NODE then rec (CExpr v 1) else emit PushNil 0 0)
           (done_with (emit SetGlobal name 0))
     | NAssign first v \<Rightarrow>
         andthen (chain_len (MAX_NODES + 1) first) (\<lambda>count.
         andnext (rec (CPrefixes first))
         (andnext (rec (CExpr v count)) (done_with (emit AssignMulti first count))))
     | NCallStmt e \<Rightarrow> andnext (rec (CExpr e 1)) (done_with (emit StmtCheck 0 0))
     | NExprStmt e \<Rightarrow> andnext (rec (CExpr e 1)) (done_with (emit Print 0 0))
     | NIf cond t e \<Rightarrow> compile_if rec cond t e
     | NWhile cond body \<Rightarrow> compile_while rec cond body
     | NRepeat body cond \<Rightarrow> compile_repeat rec body cond
     | NFor var a z s body \<Rightarrow> compile_for rec False var a z s body
     | NForCell var a z s body \<Rightarrow> compile_for rec True var a z s body
     | NForIn k v t body \<Rightarrow> compile_for_in rec False k v t body
     | NForInCell k v t body \<Rightarrow> compile_for_in rec True k v t body
     | NBreak \<Rightarrow> emit_break
     | NLabel _ \<Rightarrow> note_label n
     | NGoto t \<Rightarrow> andthen (emit JumpScopes 0 0) (\<lambda>ip. reads (\<lambda>c. add_fixup ip t (cscope c)))
     | NReturn v \<Rightarrow> compile_return rec v
     | _ \<Rightarrow> fail ''internal error: statement expected'')"
    proof (cases "nodes l n")
      case (NLocalDecl a v)
      then have kid: "kid l a" "kid l v" "height r a < MAX_NODES + 1" "height r v < m"
        using k by (simp_all add: node_ok_def kids_def)
      show ?thesis
        unfolding NLocalDecl node.case by (intro keeps_andthen len keeps_andnext keeps_expr [OF ok] keeps_done keeps_emit node_op kid) (simp_all add: node_ops_def)
    next
      case (NLocalFunc a f)
      then have kid: "kid l a" "fun_kid l f"
        using k by (simp_all add: node_ok_def kids_def)
      show ?thesis
        unfolding NLocalFunc node.case by (intro keeps_andnext keeps_func_value syntax_okD(1) [OF ok] keeps_done keeps_emit node_op plain_ops kid) (simp_all add: node_ops_def)
    next
      case (NGlobalDecl a v)
      then have kid: "kid l a" "opt_kid l v" "height r v < m"
        using k by (simp_all add: node_ok_def kids_def)
      show ?thesis
        unfolding NGlobalDecl node.case by (intro keeps_andnext global keeps_done keeps_emit node_op kid) (simp_all add: node_ops_def)
    next
      case (NAssign a v)
      then have kid: "kid l a" "kid l v" "height r a < MAX_NODES + 1" "height r v < m" "height r a < m"
        using k by (simp_all add: node_ok_def kids_def)
      show ?thesis
        unfolding NAssign node.case by (intro keeps_andthen len keeps_andnext prefixes keeps_expr [OF ok] keeps_done keeps_emit node_op kid) (simp_all add: node_ops_def)
    next
      case (NCallStmt e)
      then have kid: "kid l e" "height r e < m"
        using k by (simp_all add: node_ok_def kids_def)
      show ?thesis
        unfolding NCallStmt node.case by (intro keeps_andnext keeps_expr [OF ok] keeps_done keeps_emit plain_ops kid) simp_all
    next
      case (NExprStmt e)
      then have kid: "kid l e" "height r e < m"
        using k by (simp_all add: node_ok_def kids_def)
      show ?thesis
        unfolding NExprStmt node.case by (intro keeps_andnext keeps_expr [OF ok] keeps_done keeps_emit plain_ops kid) simp_all
    next
      case (NIf c a b)
      then have kid: "kid l c" "height r c < m" "opt_kid l a" "height r a < m" "opt_kid l b" "height r b < m"
        using k by (simp_all add: node_ok_def kids_def)
      show ?thesis
        unfolding NIf node.case by (intro keeps_if_stmt [OF _ _ _ _ _ _ ok] kid)
    next
      case (NWhile c b)
      then have kid: "kid l c" "height r c < m" "opt_kid l b" "height r b < m"
        using k by (simp_all add: node_ok_def kids_def)
      show ?thesis
        unfolding NWhile node.case by (intro keeps_while [OF _ _ _ _ ok] kid)
    next
      case (NRepeat b c)
      then have kid: "kid l c" "height r c < m" "opt_kid l b" "height r b < m"
        using k by (simp_all add: node_ok_def kids_def)
      show ?thesis
        unfolding NRepeat node.case by (intro keeps_repeat [OF _ _ _ _ ok] kid)
    next
      case (NFor v a z s b)
      then have kid: "kid l a" "kid l z" "opt_kid l s" "opt_kid l b" "kid l v" "height r a < m" "height r z < m" "height r s < m" "height r b < m"
        using k by (simp_all add: node_ok_def kids_def)
      show ?thesis
        unfolding NFor node.case by (intro keeps_for [OF _ _ _ _ _ _ _ _ _ ok] kid)
    next
      case (NForCell v a z s b)
      then have kid: "kid l a" "kid l z" "opt_kid l s" "opt_kid l b" "kid l v" "height r a < m" "height r z < m" "height r s < m" "height r b < m"
        using k by (simp_all add: node_ok_def kids_def)
      show ?thesis
        unfolding NForCell node.case by (intro keeps_for [OF _ _ _ _ _ _ _ _ _ ok] kid)
    next
      case (NForIn k' v a b)
      then have kid: "kid l a" "opt_kid l v" "opt_kid l b" "kid l k'" "height r a < m" "height r b < m"
        using k by (simp_all add: node_ok_def kids_def)
      show ?thesis
        unfolding NForIn node.case by (intro keeps_for_in [OF _ _ _ _ _ _ ok] kid)
    next
      case (NForInCell k' v a b)
      then have kid: "kid l a" "opt_kid l v" "opt_kid l b" "kid l k'" "height r a < m" "height r b < m"
        using k by (simp_all add: node_ok_def kids_def)
      show ?thesis
        unfolding NForInCell node.case by (intro keeps_for_in [OF _ _ _ _ _ _ ok] kid)
    next
      case (NReturn v)
      then have kid: "opt_kid l v" "height r v < m"
        using k by (simp_all add: node_ok_def kids_def)
      show ?thesis
        unfolding NReturn node.case by (intro keeps_return [OF _ _ ok] kid)
    qed (simp_all add: keeps_fail keeps_break keeps_label keeps_goto del: One_nat_def)
  qed
qed

lemma keeps_compile_chain:
  assumes "opt_kid l n" and "height r n \<le> m"
    and ok: "syntax_ok l r"
  shows "keeps l base S t (compile_chain rec n)"
proof (cases "n = NO_NODE")
  case True
  then show ?thesis by (simp add: compile_chain_def keeps_ok)
next
  case False
  then have n: "kid l n" using assms(1) by (rule opt_kid_kid [rotated])
  show ?thesis
    using False next_child [OF ok n assms(2)]
    by (simp add: compile_chain_def)
      (intro keeps_andnext keeps_stmt [OF _ _ ok] keeps_next_of keeps_chain [OF ok] syntax_okD(1) [OF ok] n assms(2))
qed

lemma keeps_step:
  assumes "cjob_ok l j" and "cheight r j \<le> m"
    and ok: "syntax_ok l r"
  shows "keeps l base S t (compile_step rec j)"
  using assms
  by (cases j) (auto simp: compile_step_def cjob_simps
    intro!: keeps_compile_chain [OF _ _ ok] keeps_compile_expr [OF _ _ ok] keeps_prefixes [OF _ _ ok] keeps_fields [OF _ _ ok] keeps_args [OF _ _ ok])

end

section \<open>The compiler's own recursion\<close>

lemma compile_job_calls: "compile_calls (compile_job m) m"
proof (induction m)
  case 0
  show ?case by unfold_locales simp
next
  case (Suc m)
  show ?case
    by unfold_locales (simp, rule compile_calls.keeps_step [OF Suc], simp_all)
qed

interpretation job: compile_calls "compile_job m" m for m
  by (rule compile_job_calls)

section \<open>One function\<close>

text \<open>Every function loaded is still queued, or has its entry point in the new code.\<close>

definition entered :: "nat \<Rightarrow> nat \<Rightarrow> compiler \<Rightarrow> bool" where
  "entered base t c \<longleftrightarrow> (\<forall>fi. ccompiled c fi \<longrightarrow>
     fi \<in> set (cpending c) \<or> base \<le> fentry (funcs (cst c) fi) \<and> fentry (funcs (cst c) fi) \<le> t)"

definition closed_code :: "lua \<Rightarrow> nat \<Rightarrow> compiler \<Rightarrow> bool" where
  "closed_code l base c \<longleftrightarrow> (\<exists>t<here c. base \<le> t \<and> comp_ok l base t c \<and> entered base t c)"

lemma entered_extends: "entered base t c \<Longrightarrow> extends c c' \<Longrightarrow> t \<le> t' \<Longrightarrow> entered base t' c'"
  unfolding entered_def extends_def by (metis order_trans subsetD)

lemma set_jump_ok:
  fixes pops :: nat
  assumes "comp_ok l base t c" and "jump_at base c jp" and "ip \<le> t"
  defines "c' \<equiv> c\<lparr>cst := set_jump jp ip pops (cst c)\<rparr>"
  shows "comp_ok l base t c'" and "extends c c'" and "here c' = here c" and "cfixups c' = cfixups c"
    and "clabels c' = clabels c"
proof -
  have ops: "i_op (code (cst c') j) = i_op (code (cst c) j)" for j
    by (simp add: c'_def set_jump_def)
  have code: "code (cst c') j = (if j = jp then (code (cst c) jp)\<lparr>i_a := ip, i_b := pops\<rparr> else code (cst c) j)" for j
    by (simp add: c'_def set_jump_def)
  show here: "here c' = here c"
    by (simp add: c'_def set_jump_def here_def)
  have same: "cfixups c' = cfixups c" "clabels c' = clabels c" "cloops c' = cloops c"
    "ccompiled c' = ccompiled c" "cpending c' = cpending c"
    "same_syntax l (cst c') = same_syntax l (cst c)" "funcs (cst c') = funcs (cst c)"
    by (simp_all add: c'_def same_syntax_def set_jump_def)
  then show "cfixups c' = cfixups c" "clabels c' = clabels c" by simp_all
  have jump: "jump_at base c' j = jump_at base c j" for j
    by (simp add: jump_at_def ops here)
  have "instr_ok l t (ccompiled c) ((code (cst c) jp)\<lparr>i_a := ip, i_b := pops\<rparr>)"
    using assms(2,3) by (simp add: jump_at_def instr_ok_def op_sets)
  then show "comp_ok l base t c'"
    using assms(1,2) by (auto simp: comp_ok_def same here jump code) (auto simp: jump_at_def)
  show "extends c c'"
    by (auto simp: extends_def same here ops rounds_def)
qed

lemma resolve_all_ok:
  assumes "comp_ok l base t c" and "set fs \<subseteq> set (cfixups c)"
  shows "cwp (resolve_all fs) (\<lambda>_ c'. comp_ok l base t c' \<and> extends c c' \<and> here c' = here c) c"
  using assms
proof (induction fs arbitrary: c)
  case Nil
  then show ?case by (simp add: cwp_simps extends_refl)
next
  case (Cons f fs)
  obtain jp node depth where f: "f = (jp, node, depth)" by (cases f)
  show ?case
  proof (cases "map_of (clabels c) node")
    case None
    then show ?thesis by (simp add: f cwp_simps)
  next
    case (Some lab)
    obtain ip d where lab: "lab = (ip, d)" by fastforce
    have "(node, ip, d) \<in> set (clabels c)"
      using Some lab by (simp add: map_of_SomeD)
    then have ip: "ip \<le> t" and jp: "jump_at base c jp"
      using Cons.prems by (auto simp: f comp_ok_def)
    define c1 where "c1 = c\<lparr>cst := set_jump jp ip ((depth + 256 - d) mod 256) (cst c)\<rparr>"
    note c1 = set_jump_ok [OF Cons.prems(1) jp ip, of "(depth + 256 - d) mod 256", folded c1_def]
    have "cwp (resolve_all fs) (\<lambda>_ c'. comp_ok l base t c' \<and> extends c1 c' \<and> here c' = here c1) c1"
      using Cons.prems(2) c1 by (intro Cons.IH) auto
    then have "cwp (resolve_all fs) (\<lambda>_ c'. comp_ok l base t c' \<and> extends c c' \<and> here c' = here c) c1"
      by (rule cwp_mono) (use c1 extends_trans in auto)
    then show ?thesis
      using Some lab by (simp add: f cwp_simps c1_def)
  qed
qed

lemma body_ok:
  assumes "syntax_ok l r" and "opt_kid l first" and "height r first < k" and "cok l base c" and "entered base (here c) c"
  shows "cwp (compile_body k first) (\<lambda>_ c'. closed_code l base c' \<and> rounds c' = rounds c) c"
proof -
  have chain: "cwp (compile_job k (CChain first)) (\<lambda>_ c1. cok l base c1 \<and> extends c c1) c"
    by (rule keepsD [OF job.keeps_chain [OF assms(1-3)] assms(4), of "{}" "here c"]) simp_all
  have "cwp (andnext (emit Return 0 0) resolve_fixups) (\<lambda>_ c'. closed_code l base c' \<and> rounds c' = rounds c) c1"
    if c1: "cok l base c1" "extends c c1" for c1
  proof -
    have ret: "instr_ok l (here c1) (ccompiled c1) \<lparr>i_op = Return, i_a = 0, i_b = 0\<rparr>"
      by (rule instr_ok_plain) (simp add: op_sets)
    have "cwp resolve_fixups (\<lambda>_ c'. closed_code l base c' \<and> rounds c' = rounds c) c2"
      if c2: "comp_ok l base (here c1) c2" "extends c1 c2" "here c2 = here c1 + 1" for c2
    proof -
      have "closed_code l base c3 \<and> rounds c3 = rounds c"
        if "comp_ok l base (here c1) c3" "extends c2 c3" "here c3 = here c2" for c3
      proof -
        have ext: "extends c c3"
          using c1(2) c2(2) that(2) extends_trans by metis
        then have "entered base (here c1) c3"
          using assms(5) c1(2) by (auto intro: entered_extends simp: extends_def)
        moreover have rounds: "rounds c3 = rounds c"
          using ext by (simp add: extends_def)
        ultimately show ?thesis
          using that(1,3) c2(3) c1(1) rounds unfolding closed_code_def
          by (auto simp: cok_def comp_ok_def intro!: exI [where x = "here c1"])
      qed
      then show ?thesis
        by (simp add: resolve_fixups_def cwp_simps) (rule cwp_mono [OF resolve_all_ok [OF c2(1) subset_refl]], simp)
    qed
    then show ?thesis
      unfolding cwp_simps by (intro emit_to [OF c1(1) [unfolded cok_def] ret]) simp_all
  qed
  then show ?thesis
    unfolding compile_body_def cwp_simps(2) [of "compile_job k (CChain first)"]
    by (intro cwp_mono [OF chain]) simp
qed

lemma closed_cok: "closed_code l base c \<Longrightarrow> cok l base c"
  by (auto simp: closed_code_def cok_def comp_ok_def intro: instr_ok_mono)

lemma begin_function_ok:
  assumes "closed_code l base c" and "cpending c = fi # rest" and "prog_ok l"
  defines "c' \<equiv> begin_function fi rest c"
  shows "cok l base c'" and "entered base (here c') c'" and "Suc (rounds c') = rounds c"
    and "opt_kid l (fbody (funcs (cst c) fi))"
proof -
  obtain t where t: "t < here c" "comp_ok l base t c" "entered base t c"
    using assms(1) by (auto simp: closed_code_def)
  have c': "c' = c\<lparr>cpending := rest, clabels := [], cfixups := [], cloops := [], cscope := 0,
      cst := (cst c)\<lparr>funcs := (funcs (cst c))(fi := (funcs (cst c) fi)\<lparr>fentry := here c\<rparr>)\<rparr>\<rparr>"
    by (simp add: c'_def begin_function_def reset_function_def Let_def here_def)
  have "cok l base c"
    using assms(1) by (rule closed_cok)
  then show "cok l base c'"
    using assms(2) by (auto simp: c' cok_def comp_ok_def here_def jump_at_def same_syntax_def)
  show "entered base (here c') c'"
    using t assms(2) by (auto simp: entered_def c' here_def comp_ok_def)
  show "Suc (rounds c') = rounds c"
    by (simp add: rounds_def c' assms(2))
  have "fun_kid l fi" "same_syntax l (cst c)"
    using t(2) assms(2) by (auto simp: comp_ok_def)
  then show "opt_kid l (fbody (funcs (cst c) fi))"
    using assms(3) by (auto simp: prog_ok_def func_ok_def fun_kid_def same_syntax_def)
qed

lemma pending_ok:
  assumes "syntax_ok l r" and "MAX_NODES < k" and "closed_code l base c" and "rounds c < n"
  shows "cwp (compile_pending n k) (\<lambda>_ c'. closed_code l base c' \<and> cpending c' = []) c"
  using assms(3,4)
proof (induction n arbitrary: c)
  case (Suc n)
  show ?case
  proof (cases "cpending c")
    case Nil
    then show ?thesis using Suc.prems by (simp add: cwp_simps)
  next
    case (Cons fi rest)
    note start = begin_function_ok [OF Suc.prems(1) Cons syntax_okD(1) [OF assms(1)]]
    have "height r (fbody (funcs (cst c) fi)) < k"
      using start(4) syntax_okD(2) [OF assms(1)] assms(2)
      by (auto simp: height_def ranked_def opt_kid_def)
    from body_ok [OF assms(1) start(4) this start(1,2)]
    have "cwp (compile_body k (fbody (funcs (cst c) fi)))
        (\<lambda>_. cwp (compile_pending n k) (\<lambda>_ c'. closed_code l base c' \<and> cpending c' = [])) (begin_function fi rest c)"
      by (rule cwp_mono) (use start(3) Suc.prems(2) in \<open>auto intro: Suc.IH\<close>)
    then show ?thesis
      using Cons by (simp add: cwp_simps)
  qed
qed simp


section \<open>The whole compiler\<close>

lemma rounds_new: "rounds (new_compiler l) = MAX_FUNCS"
  by (simp add: rounds_def new_compiler_def)

text \<open>What the compiler promises of the memory \<open>l'\<close> it leaves for the program of \<open>l\<close>.\<close>

definition compiled :: "lua \<Rightarrow> lua \<Rightarrow> bool" where
  "compiled l l' \<longleftrightarrow> ncode l < ncode l' \<and> ncode l' \<le> MAX_CODE \<and> same_syntax l l' \<and>
     (\<forall>ip<ncode l. code l' ip = code l ip) \<and>
     (\<forall>ip\<in>{ncode l..<ncode l'}. instr_ok l' (ncode l' - 1)
       (\<lambda>fi. ncode l \<le> fentry (funcs l' fi) \<and> fentry (funcs l' fi) < ncode l') (code l' ip))"

text \<open>
  C3. The compiler, on a well-formed program without cycles, returns without a panic: bytecode or an
  error. The bytecode starts where the old code ended and leaves that as it was, its jumps stay
  inside the code, its node and operator operands are nodes and operators of the program, and every
  function it loads has its entry point inside the code just emitted. The syntax is not changed.
\<close>

theorem compile_well_formed:
  assumes "prog_ok l" and "ranked l r" and "opt_kid l first" and "ncode l \<le> MAX_CODE"
  shows "case compile first l of
      (Ok entry, l') \<Rightarrow> entry = ncode l \<and> compiled l l'
    | (Err _, _) \<Rightarrow> True
    | _ \<Rightarrow> False"
proof -
  have ok: "syntax_ok l r"
    using assms(1,2) by (simp add: syntax_ok_def)
  let ?c = "new_compiler l"
  have start: "cok l (ncode l) ?c" "entered (ncode l) (here ?c) ?c"
    using assms(4) by (auto simp: cok_def comp_ok_def new_compiler_def here_def same_syntax_def entered_def)
  have "height r first < MAX_NODES + 2"
    using assms(2,3) by (auto simp: height_def ranked_def opt_kid_def)
  from body_ok [OF ok assms(3) this start]
  have "cwp (compile_body (MAX_NODES + 2) first)
      (\<lambda>_. cwp (compile_pending (MAX_FUNCS + 1) (MAX_NODES + 2)) (\<lambda>_ c'. closed_code l (ncode l) c' \<and> cpending c' = [])) ?c"
    by (rule cwp_mono, intro pending_ok [OF ok]) (simp_all add: rounds_new)
  then have run: "cwp (andnext (compile_body (MAX_NODES + 2) first)
      (andnext (compile_pending (MAX_FUNCS + 1) (MAX_NODES + 2)) (ok (ncode l))))
      (\<lambda>x c'. x = ncode l \<and> closed_code l (ncode l) c' \<and> cpending c' = []) ?c"
    unfolding cwp_simps by (rule cwp_mono) (auto elim: cwp_mono)
  have final: "compiled l (cst c')"
    if ended: "closed_code l (ncode l) c'" "cpending c' = []" for c'
  proof -
    obtain t where t: "t < here c'" "comp_ok l (ncode l) t c'" "entered (ncode l) t c'" "ncode l \<le> t"
      using ended(1) by (auto simp: closed_code_def)
    have same: "same_syntax l (cst c')"
      using t(2) by (simp add: comp_ok_def)
    then have "instr_ok (cst c') u fs i = instr_ok l u fs i" for u fs i
      by (simp add: instr_ok_def same_syntax_def kid_def fun_kid_def)
    moreover have "ccompiled c' fi \<Longrightarrow> ncode l \<le> fentry (funcs (cst c') fi) \<and> fentry (funcs (cst c') fi) < here c'" for fi
      using t(1,3) ended(2) by (fastforce simp: entered_def)
    ultimately have "instr_ok (cst c') (ncode (cst c') - 1)
        (\<lambda>fi. ncode l \<le> fentry (funcs (cst c') fi) \<and> fentry (funcs (cst c') fi) < ncode (cst c')) (code (cst c') ip)"
      if "ncode l \<le> ip" "ip < ncode (cst c')" for ip
      using t(1,2) that instr_ok_mono [of l t "ccompiled c'" "code (cst c') ip" "ncode (cst c') - 1"]
      unfolding comp_ok_def here_def by fastforce
    then show ?thesis
      using t(1,2,4) same unfolding comp_ok_def here_def compiled_def by auto
  qed
  show ?thesis
    using run unfolding compile_def cwp_def
    by (auto split: prod.splits res.splits simp del: compile_pending.simps intro: final)
qed

text \<open>\<open>while true do break end print(function () return end)\<close>, the call left out.\<close>

definition sample_program :: lua where
  "sample_program = new_lua\<lparr>
     nodes := (\<lambda>_. NEmpty)(0 := NTrue, 1 := NBreak, 2 := NWhile 0 1, 3 := NExprStmt 4, 4 := NFuncLit 0, 5 := NReturn NO_NODE),
     nxt := (\<lambda>_. NO_NODE)(2 := 3), node_used := 6,
     funcs := (\<lambda>_. \<lparr>params = 0, nparams = 0, fbody = 5, fentry = 0, up_names = (\<lambda>_. 0), nup = 0\<rparr>),
     funcs_used := 1\<rparr>"

lemma below_6: "i < 6 \<Longrightarrow> i = 0 \<or> i = 1 \<or> i = 2 \<or> i = 3 \<or> i = 4 \<or> i = (5 :: nat)"
  by arith

lemma sample_ok:
  "prog_ok sample_program" "ranked sample_program (\<lambda>i. if i = 2 then 2 else if i = 3 then 1 else 0)"
proof -
  have "arena_ok sample_program"
    by (simp add: sample_program_def arena_ok_def new_lua_def)
  then show "prog_ok sample_program"
    by (auto simp: prog_ok_def sample_program_def opt_kid_def func_ok_def MAX_NODES_def MAX_FUNCS_def MAX_UPVALS_def dest!: below_6)
       (auto simp: node_ok_def kid_defs)
  show "ranked sample_program (\<lambda>i. if i = 2 then 2 else if i = 3 then 1 else 0)"
    by (auto simp: ranked_def sample_program_def lua_caps kids_def height_def dest!: below_6)
qed

lemma compile_well_formed_witness:
  "case compile 2 sample_program of
      (Ok entry, l') \<Rightarrow> entry = ncode sample_program \<and> compiled sample_program l'
    | (Err _, _) \<Rightarrow> True
    | _ \<Rightarrow> False"
  by (rule compile_well_formed [OF sample_ok]) (simp_all add: sample_program_def opt_kid_def new_lua_def)

end
