(* ===== verification/Checksum.thy ===== *)
theory Checksum
  imports Prelude
begin

text \<open>
  \<open>ip_checksum\<close> of \<^verbatim>\<open>common/src/dhcp.rs\<close>: the Internet checksum of an IPv4 header. The
  32-bit accumulator wraps, as \<open>u32\<close> addition does without overflow checks; buffers of up to
  65536 words never reach the wrap (\<open>sum_words_unat\<close>). The index loop over pairs of bytes is
  the recursion over the list, its trailing odd byte the one-element case.
\<close>

definition word_at :: "u8 \<Rightarrow> u8 \<Rightarrow> u32" where
  "word_at a b = push_bit 8 (ucast a) OR ucast b"

fun sum_words :: "u32 \<Rightarrow> bytes \<Rightarrow> u32" where
  "sum_words acc (a # b # r) = sum_words (acc + word_at a b) r"
| "sum_words acc [a] = acc + push_bit 8 (ucast a)"
| "sum_words acc [] = acc"

text \<open>\<open>while sum >> 16 != 0 { sum = (sum & 0xFFFF) + (sum >> 16) }\<close>\<close>

definition fold_step :: "u32 \<Rightarrow> u32" where
  "fold_step acc = (acc AND 0xFFFF) + drop_bit 16 acc"

lemma unat_fold_step: "unat (fold_step s) = unat s mod 65536 + unat s div 65536"
proof -
  have "s AND 0xFFFF = take_bit 16 s"
    by (simp add: take_bit_eq_mask mask_eq_decr_exp)
  then have parts: "unat (s AND 0xFFFF) = unat s mod 65536" "unat (drop_bit 16 s) = unat s div 65536"
    by (simp_all only: unat_take_bit_mod unat_drop_bit_div) simp_all
  have "unat s mod 65536 + unat s div 65536 < 4294967296"
    using unat_u32 [of s] by linarith
  with parts show ?thesis
    by (simp add: fold_step_def unat_word_ariths)
qed

lemma fold_step_less: "drop_bit 16 s \<noteq> 0 \<Longrightarrow> unat (fold_step s) < unat s"
proof -
  assume "drop_bit 16 s \<noteq> 0"
  then have "0 < unat s div 65536"
    using unat_drop_bit_div [of 16 s] by (simp add: word_eq_iff_unsigned [where ?'a = nat])
  then have "unat s mod 65536 + unat s div 65536 < unat s mod 65536 + 65536 * (unat s div 65536)"
    by linarith
  then show ?thesis
    by (simp add: unat_fold_step)
qed

function fold16 :: "u32 \<Rightarrow> u32" where
  "fold16 acc = (if drop_bit 16 acc \<noteq> 0 then fold16 (fold_step acc) else acc)"
  by pat_completeness auto
termination
  by (relation "measure unat") (auto simp: fold_step_less)

declare fold16.simps [simp del]

definition ip_checksum :: "bytes \<Rightarrow> u16" where
  "ip_checksum buf = NOT (ucast (fold16 (sum_words 0 buf)))"

section \<open>The one's complement sum\<close>

text \<open>The sum of the 16-bit words of a buffer as a number, and what folding does to it.\<close>

fun words_total :: "bytes \<Rightarrow> nat" where
  "words_total (a # b # r) = 256 * unat a + unat b + words_total r"
| "words_total [a] = 256 * unat a"
| "words_total [] = 0"

lemma unat_word_at: "unat (word_at a b) = 256 * unat a + unat b"
proof -
  have "word_at a b = push_bit 8 (ucast a) + ucast b"
    unfolding word_at_def
    by (rule disjunctive_add_eq_or [symmetric])
      (rule bit_word_eqI, auto simp: bit_simps dest: bit_imp_le_length)
  then show ?thesis
    using unat_u8 [of a] unat_u8 [of b] by (simp add: push_bit_eq_mult unat_word_ariths)
qed

lemma words_total_bound: "words_total bs \<le> 65535 * ((length bs + 1) div 2)"
proof (induction bs rule: words_total.induct)
  case (1 a b r)
  then show ?case
    using unat_u8 [of a] unat_u8 [of b] by simp
next
  case (2 a)
  then show ?case
    using unat_u8 [of a] by simp
qed simp

lemma sum_words_unat:
  "unat s + words_total bs < 4294967296 \<Longrightarrow> unat (sum_words s bs) = unat s + words_total bs"
proof (induction s bs rule: sum_words.induct)
  case (1 s a b r)
  then show ?case
    by (simp add: unat_word_at unat_word_ariths)
next
  case (2 s a)
  then show ?case
    using unat_u8 [of a] by (simp add: push_bit_eq_mult unat_word_ariths)
qed simp

text \<open>
  Folding preserves the residue modulo 65535 and never turns a positive sum into 0: the
  result is the representative in 1..65535 (or 0 for 0).
\<close>

definition ones_rep :: "nat \<Rightarrow> nat" where
  "ones_rep n = (if n = 0 then 0 else Suc ((n - 1) mod 65535))"

lemma ones_rep_small: "n \<le> 65535 \<Longrightarrow> ones_rep n = n"
  by (cases n) (simp_all add: ones_rep_def)

lemma ones_rep_fold: "ones_rep (n mod 65536 + n div 65536) = ones_rep n"
proof (cases "n div 65536 = 0")
  case True
  then show ?thesis by (simp add: ones_rep_def div_eq_0_iff)
next
  case False
  define q where "q = n div 65536"
  define r where "r = n mod 65536"
  have n: "n = 65535 * q + (r + q)"
    using div_mult_mod_eq [of n 65536] by (simp add: q_def r_def)
  have pos: "0 < q"
    using False by (simp add: q_def)
  then have "n - 1 = 65535 * q + (r + q - 1)" and nz: "n \<noteq> 0" "r + q \<noteq> 0"
    using n by linarith+
  then have "(n - 1) mod 65535 = (r + q - 1) mod 65535"
    by (metis mod_mult_self4 add.commute mult.commute mod_mult_self2)
  then show ?thesis
    using nz unfolding ones_rep_def q_def [symmetric] r_def [symmetric] by (simp only: if_False)
qed

lemma fold16_unat: "unat (fold16 s) = ones_rep (unat s)"
proof (induction s rule: fold16.induct)
  case (1 s)
  show ?case
  proof (cases "drop_bit 16 s = 0")
    case True
    then have "unat s div 65536 = 0"
      using unat_drop_bit_div [of 16 s] by simp
    then have "unat s \<le> 65535"
      by (simp add: div_eq_0_iff)
    with True show ?thesis
      by (simp add: fold16.simps [of s] ones_rep_small)
  next
    case False
    with 1 show ?thesis
      by (simp add: fold16.simps [of s] unat_fold_step ones_rep_fold)
  qed
qed

lemma ones_rep_le: "ones_rep n \<le> 65535"
  by (simp add: ones_rep_def Suc_le_eq)

lemma unat_ip_checksum:
  "length bs \<le> 131072 \<Longrightarrow> unat (ip_checksum bs) = 65535 - ones_rep (words_total bs)"
proof -
  assume "length bs \<le> 131072"
  then have "(length bs + 1) div 2 \<le> 65536"
    by simp
  then have "65535 * ((length bs + 1) div 2) \<le> 65535 * 65536"
    by (rule mult_le_mono2)
  then have "words_total bs < 4294967296"
    using words_total_bound [of bs] by simp
  then have "unat (sum_words 0 bs) = words_total bs"
    by (simp add: sum_words_unat)
  then have "unat (fold16 (sum_words 0 bs)) = ones_rep (words_total bs)"
    by (simp add: fold16_unat)
  then have "unat (ucast (fold16 (sum_words 0 bs)) :: u16) = ones_rep (words_total bs)"
    using ones_rep_le [of "words_total bs"]
    by (simp add: unsigned_ucast_eq take_bit_nat_eq_self)
  moreover have "unat (NOT w) = 65535 - unat w" for w :: u16
  proof -
    have "NOT w = 65535 - w"
      by (simp add: not_eq_complement)
    then show ?thesis
      using unat_u16 [of w] by (simp add: unat_sub word_le_nat_alt)
  qed
  ultimately show ?thesis
    by (simp add: ip_checksum_def)
qed

section \<open>A header that carries its own checksum\<close>

lemma words_total_append:
  "even (length xs) \<Longrightarrow> words_total (xs @ ys) = words_total xs + words_total ys"
  by (induction xs rule: words_total.induct) simp_all

lemma ones_rep_complement: "ones_rep (n + (65535 - ones_rep n)) = 65535"
proof (cases "n = 0")
  case False
  then obtain m where m: "n = Suc m"
    by (cases n) auto
  have "m mod 65535 < 65535"
    by simp
  moreover have "m = 65535 * (m div 65535) + m mod 65535"
    by simp
  ultimately have "Suc m + (65535 - Suc (m mod 65535)) = Suc (65535 * (m div 65535) + 65534)"
    by linarith
  then have "n + (65535 - ones_rep n) = Suc (65535 * (m div 65535) + 65534)"
    by (simp only: ones_rep_def m diff_Suc_1 if_False nat.distinct)
  then show ?thesis
    by (simp add: ones_rep_def)
qed (simp add: ones_rep_def)

lemma ip_checksum_0_iff:
  "length bs \<le> 131072 \<Longrightarrow> ip_checksum bs = 0 \<longleftrightarrow> ones_rep (words_total bs) = 65535"
  using unat_ip_checksum [of bs] ones_rep_le [of "words_total bs"]
  by (simp add: word_eq_iff_unsigned [where ?'a = nat])

lemma words_total_be16: "words_total (be16 w) = unat w"
  using unat_from_be16 [of "ucast (drop_bit 8 w)" "ucast w"] by (simp add: be16_def)

lemma words_total_set:
  assumes "even a" and "a + 2 \<le> length bs" and "bs ! a = 0" and "bs ! Suc a = 0"
  shows "words_total (overlay bs a (be16 c)) = words_total bs + unat c"
proof -
  have bs: "bs = take a bs @ [0, 0] @ drop (a + 2) bs"
    using assms id_take_nth_drop [of a bs] Cons_nth_drop_Suc [of "Suc a" bs] by simp
  have "even (length (take a bs))"
    using assms by simp
  then have "words_total bs = words_total (take a bs) + words_total (drop (a + 2) bs)"
    by (subst bs, subst words_total_append) simp_all
  moreover have "words_total (overlay bs a (be16 c)) =
      words_total (take a bs) + unat c + words_total (drop (a + 2) bs)"
    using assms by (simp add: overlay_def words_total_append words_total_be16)
  ultimately show ?thesis
    by simp
qed

lemma ip_checksum_embed:
  assumes "even a" and "a + 2 \<le> length bs" and "length bs \<le> 131072"
    and "bs ! a = 0" and "bs ! Suc a = 0"
  shows "ip_checksum (overlay bs a (be16 (ip_checksum bs))) = 0"
  using assms
  by (simp add: ip_checksum_0_iff words_total_set unat_ip_checksum ones_rep_complement)

text \<open>C38. A header whose checksum field holds \<open>ip_checksum\<close> of the header with that field zero
  verifies: the checksum of the completed header is 0, for every header of up to 131072 bytes
  and every even position of the field.\<close>

theorem checksum_verifies:
  assumes "even a" and "a + 2 \<le> length bs" and "length bs \<le> 131072"
    and "bs ! a = 0" and "bs ! Suc a = 0"
  shows "ip_checksum (overlay bs a (be16 (ip_checksum bs))) = 0"
  using assms by (rule ip_checksum_embed)

lemma checksum_verifies_witness:
  "ip_checksum (overlay [0x45, 0, 0, 0x1C, 0, 0, 0, 0, 64, 17, 0, 0, 10, 0, 2, 15, 10, 0, 2, 2] 10
     (be16 (ip_checksum [0x45, 0, 0, 0x1C, 0, 0, 0, 0, 64, 17, 0, 0, 10, 0, 2, 15, 10, 0, 2, 2]))) = 0"
  by (rule checksum_verifies) simp_all

end
