(* ===== verification/BiosMem.thy ===== *)
theory BiosMem
  imports Prelude
begin

text \<open>
  \<^verbatim>\<open>bios/src/mem.rs\<close>: the E820 map and the placement of download buffers, physical memory as a
  function from addresses to bytes, and the contract \<open>tftp_sink\<close> of the trait \<open>TftpSink\<close> of
  \<^verbatim>\<open>common/src/tftp.rs\<close> with its implementation over extended memory.
\<close>

section \<open>The E820 map\<close>

record e820_entry =
  e_base :: u64
  e_length :: u64
  entry_type :: u32
  acpi_ext :: u32

definition E820_ADDR :: nat where "E820_ADDR = 0x500"
definition E820_MAX :: nat where "E820_MAX = 64"
definition TFTP_SIZE_HINT :: nat where "TFTP_SIZE_HINT = 16 * 1024 * 1024"

text \<open>The two globals, and what the entry stub stored at its fixed address.\<close>

record e820_state =
  map_addr :: nat
  map_count :: nat
  stub_map :: "e820_entry list"

definition mem_init :: "u32 \<Rightarrow> u32 \<Rightarrow> e820_state \<Rightarrow> e820_state" where
  "mem_init addr count s =
     s\<lparr>map_addr := (if unat addr = E820_ADDR then unat addr else 0),
       map_count := min (unat count) E820_MAX\<rparr>"

definition e820_map :: "e820_state \<Rightarrow> e820_entry list" where
  "e820_map s =
     (if map_addr s = 0 \<or> map_count s = 0 then [] else take (map_count s) (stub_map s))"

definition saturating_add :: "u64 \<Rightarrow> u64 \<Rightarrow> u64" where
  "saturating_add a b = (if a + b < a then - 1 else a + b)"

definition FOUR_GB :: u64 where "FOUR_GB = 0x100000000"

fun choose_from :: "e820_entry list \<Rightarrow> u64 \<Rightarrow> u64 \<Rightarrow> (u64 \<times> u64) option \<Rightarrow> (u64 \<times> u64) option" where
  "choose_from [] min_addr want best = best"
| "choose_from (e # es) min_addr want best =
     (if entry_type e \<noteq> 1 then choose_from es min_addr want best
      else let stop = min (saturating_add (e_base e) (e_length e)) FOUR_GB;
               start = max (e_base e) min_addr in
        if start \<ge> stop then choose_from es min_addr want best
        else let len = stop - start in
          if len < want then choose_from es min_addr want best
          else if (case best of None \<Rightarrow> True | Some (_, best_len) \<Rightarrow> len > best_len)
            then choose_from es min_addr want (Some (start, len))
            else choose_from es min_addr want best)"

definition choose_region :: "e820_entry list \<Rightarrow> u64 \<Rightarrow> u64 \<Rightarrow> (u64 \<times> u64) option" where
  "choose_region entries min_addr want = choose_from entries min_addr want None"

text \<open>\<open>bss_end\<close> is the linker symbol \<open>__bss_end\<close>.\<close>

definition bootloader_end :: "u32 \<Rightarrow> u64" where
  "bootloader_end bss_end = (ucast bss_end + 0xFFF) AND NOT 0xFFF"

definition allocate :: "u32 \<Rightarrow> e820_state \<Rightarrow> nat \<Rightarrow> u64 \<times> nat" where
  "allocate bss_end s size_hint =
     (let start = max (bootloader_end bss_end) 0x100000; want = word_of_nat size_hint :: u64 in
      case choose_region (e820_map s) start want of
        Some (base, len) \<Rightarrow> (base, unat (ucast (min want len) :: u32))
      | None \<Rightarrow> (max start 0x200000, size_hint))"

section \<open>Sinks\<close>

text \<open>
  The contract of a download sink: what the bytes written so far are, how many it can take, that a
  block that fits is appended and one that does not is refused.
\<close>

locale tftp_sink =
  fixes write_block :: "'s \<Rightarrow> bytes \<Rightarrow> 's option"
    and finalize :: "'s \<Rightarrow> nat \<Rightarrow> 's option"
    and contents :: "'s \<Rightarrow> bytes"
    and room :: "'s \<Rightarrow> nat"
    and inv :: "'s \<Rightarrow> bool"
  assumes write_ok: "inv s \<Longrightarrow> length d \<le> room s \<Longrightarrow>
      \<exists>s'. write_block s d = Some s' \<and> inv s' \<and> contents s' = contents s @ d \<and>
        room s' = room s - length d"
    and write_full: "inv s \<Longrightarrow> room s < length d \<Longrightarrow> write_block s d = None"
    and finalize_ok: "inv s \<Longrightarrow> \<exists>s'. finalize s n = Some s' \<and> inv s' \<and> contents s' = contents s"
text \<open>Physical memory.\<close>

type_synonym memory = "nat \<Rightarrow> u8"

definition store :: "memory \<Rightarrow> nat \<Rightarrow> bytes \<Rightarrow> memory" where
  "store m a bs = (\<lambda>i. if a \<le> i \<and> i < a + length bs then bs ! (i - a) else m i)"

definition load :: "memory \<Rightarrow> nat \<Rightarrow> nat \<Rightarrow> bytes" where
  "load m a n = map m [a..<a + n]"

lemma length_load [simp]: "length (load m a n) = n"
  by (simp add: load_def)

lemma load_store_append: "load (store m (a + n) d) a (n + length d) = load m a n @ d"
  by (rule nth_equalityI) (auto simp: load_def store_def nth_append)

lemma load_store_other: "a + n \<le> b \<or> b + length d \<le> a \<Longrightarrow> load (store m b d) a n = load m a n"
  by (rule nth_equalityI) (auto simp: load_def store_def)

record mem_sink =
  base_addr :: u64
  current_offset :: nat
  capacity :: nat

definition mem_sink_new :: "u32 \<Rightarrow> e820_state \<Rightarrow> nat \<Rightarrow> mem_sink" where
  "mem_sink_new bss_end s size_hint =
     (let (b, cap) = allocate bss_end s size_hint in
      \<lparr>base_addr = b, current_offset = 0, capacity = cap\<rparr>)"

definition buffer_addr :: "mem_sink \<Rightarrow> u64" where
  "buffer_addr k = base_addr k"

definition mem_write_block :: "mem_sink \<times> memory \<Rightarrow> bytes \<Rightarrow> (mem_sink \<times> memory) option" where
  "mem_write_block = (\<lambda>(k, m) data.
     let new_offset = current_offset k + length data in
     if new_offset > capacity k then None
     else let addr = unat (ucast (base_addr k) :: u32) + current_offset k in
       Some (k\<lparr>current_offset := new_offset\<rparr>, store m addr data))"

definition mem_finalize :: "mem_sink \<times> memory \<Rightarrow> nat \<Rightarrow> (mem_sink \<times> memory) option" where
  "mem_finalize s n = Some s"

definition mem_contents :: "mem_sink \<times> memory \<Rightarrow> bytes" where
  "mem_contents = (\<lambda>(k, m). load m (unat (ucast (base_addr k) :: u32)) (current_offset k))"

definition mem_room :: "mem_sink \<times> memory \<Rightarrow> nat" where
  "mem_room = (\<lambda>(k, m). capacity k - current_offset k)"

definition mem_inv :: "u64 \<Rightarrow> mem_sink \<times> memory \<Rightarrow> bool" where
  "mem_inv b = (\<lambda>(k, m). base_addr k = b \<and> current_offset k \<le> capacity k)"

interpretation mem_sink: tftp_sink mem_write_block mem_finalize mem_contents mem_room "mem_inv b" for b
proof
  fix s :: "mem_sink \<times> memory" and d :: bytes and n :: nat
  obtain k m where s: "s = (k, m)" by force
  show "mem_inv b s \<Longrightarrow> length d \<le> mem_room s \<Longrightarrow>
      \<exists>s'. mem_write_block s d = Some s' \<and> mem_inv b s' \<and> mem_contents s' = mem_contents s @ d \<and>
        mem_room s' = mem_room s - length d"
    by (auto simp: s mem_write_block_def mem_inv_def mem_contents_def mem_room_def Let_def
        load_store_append)
  show "mem_inv b s \<Longrightarrow> mem_room s < length d \<Longrightarrow> mem_write_block s d = None"
    by (auto simp: s mem_write_block_def mem_inv_def mem_room_def Let_def)
  show "mem_inv b s \<Longrightarrow> \<exists>s'. mem_finalize s n = Some s' \<and> mem_inv b s' \<and> mem_contents s' = mem_contents s"
    by (simp add: mem_finalize_def)
qed

section \<open>Placement\<close>

text \<open>What an entry offers at or above \<open>min_addr\<close> below 4 GB, in plain numbers.\<close>

definition offer :: "u64 \<Rightarrow> u64 \<Rightarrow> e820_entry \<Rightarrow> (nat \<times> nat) option" where
  "offer min_addr want e =
     (let lo = max (unat (e_base e)) (unat min_addr);
          hi = min (unat (e_base e) + unat (e_length e)) 4294967296 in
      if entry_type e = 1 \<and> lo < hi \<and> unat want \<le> hi - lo then Some (lo, hi - lo) else None)"

lemma unat_saturating:
  "unat (min (saturating_add a b) FOUR_GB) = min (unat a + unat b) 4294967296"
proof (cases "unat a + unat b < 18446744073709551616")
  case True
  then have "unat (a + b) = unat a + unat b"
    by (simp add: unat_word_ariths)
  then have "\<not> a + b < a" and "unat (a + b) = unat a + unat b"
    by (simp_all add: word_less_nat_alt)
  then show ?thesis
    by (simp add: saturating_add_def min_def word_le_nat_alt FOUR_GB_def)
next
  case False
  have "unat (a + b) = unat a + unat b - 18446744073709551616"
    using False unat_u64 [of a] unat_u64 [of b] by (simp add: unat_word_ariths mod_if)
  then have "a + b < a"
    using False unat_u64 [of b] by (simp add: word_less_nat_alt)
  then show ?thesis
    using False
    by (simp add: saturating_add_def min_def word_le_nat_alt FOUR_GB_def unsigned_minus_1_eq_mask mask_eq_exp_minus_1)
qed

lemma unat_max: "unat (max a b :: u64) = max (unat a) (unat b)"
  by (simp add: max_def word_le_nat_alt)

text \<open>The regions offered so far, and the best of them.\<close>

definition is_best :: "(nat \<times> nat) set \<Rightarrow> (u64 \<times> u64) option \<Rightarrow> bool" where
  "is_best R best \<longleftrightarrow>
     (case best of None \<Rightarrow> R = {}
      | Some (b, l) \<Rightarrow> (unat b, unat l) \<in> R \<and> (\<forall>(b', l') \<in> R. l' \<le> unat l))"

definition offers :: "u64 \<Rightarrow> u64 \<Rightarrow> e820_entry list \<Rightarrow> (nat \<times> nat) set" where
  "offers min_addr want es = {p. \<exists>e \<in> set es. offer min_addr want e = Some p}"

lemma choose_from_best:
  "is_best R best \<Longrightarrow> is_best (R \<union> offers min_addr want es) (choose_from es min_addr want best)"
proof (induction es arbitrary: R best)
  case Nil
  then show ?case by (simp add: offers_def)
next
  case (Cons e es)
  define stop where "stop = min (saturating_add (e_base e) (e_length e)) FOUR_GB"
  define start where "start = max (e_base e) min_addr"
  have off: "offer min_addr want e =
      (if entry_type e = 1 \<and> start < stop \<and> want \<le> stop - start
       then Some (unat start, unat (stop - start)) else None)"
  proof -
    have "unat stop = min (unat (e_base e) + unat (e_length e)) 4294967296"
      "unat start = max (unat (e_base e)) (unat min_addr)"
      by (simp_all add: stop_def start_def unat_saturating unat_max)
    then have plain: "offer min_addr want e =
        (if entry_type e = 1 \<and> unat start < unat stop \<and> unat want \<le> unat stop - unat start
         then Some (unat start, unat stop - unat start) else None)"
      by (simp only: offer_def Let_def)
    have "unat (stop - start) = unat stop - unat start" if "start < stop"
      using that by (simp add: unat_sub less_imp_le)
    then show ?thesis
      unfolding plain by (auto simp: word_less_nat_alt word_le_nat_alt)
  qed
  have step: "choose_from (e # es) min_addr want best =
      (if entry_type e \<noteq> 1 \<or> start \<ge> stop \<or> stop - start < want then choose_from es min_addr want best
       else if (case best of None \<Rightarrow> True | Some (_, l) \<Rightarrow> stop - start > l)
         then choose_from es min_addr want (Some (start, stop - start))
         else choose_from es min_addr want best)"
    unfolding choose_from.simps Let_def stop_def [symmetric] start_def [symmetric] by simp
  have union: "R \<union> offers min_addr want (e # es) =
      (R \<union> {p. offer min_addr want e = Some p}) \<union> offers min_addr want es"
    by (auto simp: offers_def)
  show ?case
  proof (cases "entry_type e = 1 \<and> start < stop \<and> want \<le> stop - start")
    case False
    then have "choose_from (e # es) min_addr want best = choose_from es min_addr want best"
      using step by (auto simp: not_le not_less)
    with off False Cons show ?thesis
      unfolding union by simp
  next
    case True
    let ?new = "if (case best of None \<Rightarrow> True | Some (_, l) \<Rightarrow> stop - start > l)
      then Some (start, stop - start) else best"
    have "choose_from (e # es) min_addr want best = choose_from es min_addr want ?new"
      unfolding step using True by (auto simp: not_le not_less)
    moreover have "is_best (R \<union> {p. offer min_addr want e = Some p}) ?new"
      using Cons.prems off True
      by (fastforce simp: is_best_def word_less_nat_alt not_less split: option.splits prod.splits
          if_splits)
    ultimately show ?thesis
      unfolding union using Cons.IH by simp
  qed
qed

text \<open>C27. Buffer placement: \<open>choose_region\<close> finds a region exactly when some usable entry offers at
  least \<open>want\<close> bytes at or above \<open>min_addr\<close> and below 4 GB, and the one it returns is offered by
  an entry and is the largest such. The clamping does not wrap, also for entries whose end
  exceeds 64 bits.\<close>

theorem choose_region_best:
  "case choose_region es min_addr want of
     None \<Rightarrow> offers min_addr want es = {}
   | Some (base, len) \<Rightarrow> (unat base, unat len) \<in> offers min_addr want es \<and>
       unat min_addr \<le> unat base \<and> unat base + unat len \<le> 4294967296 \<and> unat want \<le> unat len \<and>
       snd ` offers min_addr want es \<subseteq> {..unat len}"
proof -
  have best: "is_best (offers min_addr want es) (choose_region es min_addr want)"
    using choose_from_best [of "{}" None min_addr want es] by (simp add: choose_region_def is_best_def)
  have "unat min_addr \<le> b \<and> b + l \<le> 4294967296 \<and> unat want \<le> l"
    if "(b, l) \<in> offers min_addr want es" for b l
    using that by (auto simp: offers_def offer_def Let_def split: if_splits)
  with best show ?thesis
    by (auto simp: is_best_def split: option.splits)
qed

text \<open>A download: the blocks written one after the other, those refused left out.\<close>

definition write_all :: "bytes list \<Rightarrow> mem_sink \<times> memory \<Rightarrow> mem_sink \<times> memory" where
  "write_all = fold (\<lambda>d km. case mem_write_block km d of None \<Rightarrow> km | Some km' \<Rightarrow> km')"

lemma write_all_frame:
  assumes "current_offset k \<le> capacity k" and "unat (base_addr k) + capacity k \<le> 2 ^ 32" and "write_all bs (k, m) = (k', m')"
  shows "current_offset k' \<le> capacity k' \<and> capacity k' = capacity k \<and>
    (\<forall>a. m' a \<noteq> m a \<longrightarrow> unat (base_addr k) \<le> a \<and> a < unat (base_addr k) + capacity k)"
  using assms
proof (induction bs arbitrary: k m)
  case (Cons d bs)
  obtain k1 m1 where km1: "(case mem_write_block (k, m) d of None \<Rightarrow> (k, m) | Some km' \<Rightarrow> km') = (k1, m1)" by force
  have "write_all bs (k1, m1) = (k', m')"
    using Cons.prems(3) km1 by (simp add: write_all_def)
  moreover have base: "unat (ucast (base_addr k) :: u32) = unat (base_addr k)" if "capacity k > 0"
    using Cons.prems(2) that by (simp add: unsigned_ucast_eq take_bit_nat_eq_self)
  have k1: "base_addr k1 = base_addr k" "capacity k1 = capacity k" "current_offset k1 \<le> capacity k1"
    using km1 Cons.prems(1) by (auto simp: mem_write_block_def Let_def split: if_splits)
  moreover have "unat (base_addr k) \<le> a \<and> a < unat (base_addr k) + capacity k" if "m1 a \<noteq> m a" for a
    using km1 that base by (auto simp: mem_write_block_def Let_def store_def split: if_splits)
  ultimately show ?case
    using Cons.IH [of k1 m1] Cons.prems(2) by (auto; metis)
qed (simp add: write_all_def)

text \<open>C28. The download buffer: with an E820 map that offers a region, the sink of a 16 MB download has the
  full capacity, and whatever blocks are written to it, of any sizes and also beyond the capacity, every
  byte of memory that changes lies in one entry of usable memory of the map, at or above 1 MB and the end
  of the boot loader and below 4 GB.\<close>

theorem mem_sink_in_usable_ram:
  assumes "offers (max (bootloader_end bss_end) 0x100000) (word_of_nat TFTP_SIZE_HINT) (e820_map s) \<noteq> {}"
    and "k = mem_sink_new bss_end s TFTP_SIZE_HINT"
  shows "capacity k = TFTP_SIZE_HINT \<and> current_offset k = 0 \<and>
    (\<exists>e \<in> set (e820_map s). entry_type e = 1 \<and>
      (\<forall>blocks m a. snd (write_all blocks (k, m)) a \<noteq> m a \<longrightarrow>
        unat (e_base e) \<le> a \<and> a < unat (e_base e) + unat (e_length e) \<and> a < 4294967296 \<and>
        0x100000 \<le> a \<and> unat (bootloader_end bss_end) \<le> a))"
proof -
  let ?min = "max (bootloader_end bss_end) 0x100000"
  let ?want = "word_of_nat TFTP_SIZE_HINT :: u64"
  have want: "unat ?want = TFTP_SIZE_HINT"
    by (simp add: TFTP_SIZE_HINT_def)
  have best: "is_best (offers ?min ?want (e820_map s)) (choose_region (e820_map s) ?min ?want)"
    using choose_from_best [of "{}" None ?min ?want "e820_map s"]
    by (simp add: choose_region_def is_best_def)
  then obtain b l where bl: "choose_region (e820_map s) ?min ?want = Some (b, l)"
    "(unat b, unat l) \<in> offers ?min ?want (e820_map s)"
    using assms by (auto simp: is_best_def split: option.splits)
  then obtain e where e: "e \<in> set (e820_map s)" "offer ?min ?want e = Some (unat b, unat l)"
    by (auto simp: offers_def)
  then have props: "entry_type e = 1" "unat (e_base e) \<le> unat b" "unat ?min \<le> unat b"
    "unat b + unat l \<le> min (unat (e_base e) + unat (e_length e)) 4294967296" "unat ?want \<le> unat l"
    by (auto simp: offer_def Let_def split: if_splits)
  have "min ?want l = ?want"
    using props(5) by (simp add: min_def word_le_nat_alt)
  then have "mem_sink_new bss_end s TFTP_SIZE_HINT =
      \<lparr>base_addr = b, current_offset = 0, capacity = TFTP_SIZE_HINT\<rparr>"
    using bl(1) by (simp add: mem_sink_new_def allocate_def Let_def TFTP_SIZE_HINT_def)
  then have k: "k = \<lparr>base_addr = b, current_offset = 0, capacity = TFTP_SIZE_HINT\<rparr>"
    by (simp add: assms(2))
  have "unat (e_base e) \<le> a \<and> a < unat (e_base e) + unat (e_length e) \<and> a < 4294967296 \<and>
      0x100000 \<le> a \<and> unat (bootloader_end bss_end) \<le> a" if "snd (write_all blocks (k, m)) a \<noteq> m a" for blocks m a
  proof -
    have "unat b \<le> a \<and> a < unat b + TFTP_SIZE_HINT"
      using write_all_frame [of k blocks m "fst (write_all blocks (k, m))" "snd (write_all blocks (k, m))"] that props want
      by (simp add: k)
    with props want show ?thesis
      by (simp add: unat_max)
  qed
  with e(1) props(1) show ?thesis
    by (auto simp: k)
qed

text \<open>A map with memory from 1 MB on, and a boot loader that ends in it.\<close>

definition sample_map :: e820_state where
  "sample_map = \<lparr>map_addr = 0x500, map_count = 1, stub_map =
     [\<lparr>e_base = 0x100000, e_length = 0x7F00000, entry_type = 1, acpi_ext = 0\<rparr>]\<rparr>"

lemma mem_sink_in_usable_ram_witness:
  "let k = mem_sink_new 0x11B000 sample_map TFTP_SIZE_HINT in capacity k = TFTP_SIZE_HINT \<and>
    (\<forall>blocks m a. snd (write_all blocks (k, m)) a \<noteq> m a \<longrightarrow> 0x11B000 \<le> a \<and> a < 0x8000000)"
proof -
  have bss: "bootloader_end 0x11B000 = 0x11B000"
    by (simp add: bootloader_end_def)
  then have "(0x11B000, 0x7EE5000) \<in>
      offers (max (bootloader_end 0x11B000) 0x100000) (word_of_nat TFTP_SIZE_HINT) (e820_map sample_map)"
    by (simp add: sample_map_def e820_map_def offers_def offer_def Let_def TFTP_SIZE_HINT_def max_def)
  then have "offers (max (bootloader_end 0x11B000) 0x100000) (word_of_nat TFTP_SIZE_HINT) (e820_map sample_map) \<noteq> {}"
    by blast
  from mem_sink_in_usable_ram [OF this refl] bss show ?thesis
    by (auto simp: sample_map_def e820_map_def)
qed

end
