(* ===== verification/Arp.thy ===== *)
theory Arp
  imports Prelude
begin

text \<open>
  \<^verbatim>\<open>common/src/arp.rs\<close>: the ARP reply and request builders and the reply parser. The fixed
  arrays \<open>[u8; 6]\<close>, \<open>[u8; 4]\<close> and \<open>[u8; 1514]\<close> are byte lists, their lengths hypotheses of the
  lemmas; the frame written in place is returned beside the length.
\<close>

section \<open>Build and parse\<close>

definition build_reply :: "bytes \<Rightarrow> bytes \<Rightarrow> bytes \<Rightarrow> bytes \<Rightarrow> (nat option \<times> bytes) option" where
  "build_reply my_mac my_ip request frame =
     (if length request < 42 then ret (None, frame)
      else if request ! 12 \<noteq> 0x08 \<or> request ! 13 \<noteq> 0x06 then ret (None, frame)
      else let off = 14 in
        if request ! (off + 6) \<noteq> 0x00 \<or> request ! (off + 7) \<noteq> 0x01 then ret (None, frame)
        else let tpa = [request ! (off + 24), request ! (off + 25), request ! (off + 26),
                        request ! (off + 27)] in
          if tpa \<noteq> my_ip then ret (None, frame)
          else do {
            rmac \<leftarrow> slice request (off + 8) (off + 14);
            frame \<leftarrow> put frame 0 6 rmac;
            frame \<leftarrow> put frame 6 12 my_mac;
            frame \<leftarrow> put frame 12 14 [0x08, 0x06];
            frame \<leftarrow> put frame off (off + 2) [0x00, 0x01];
            frame \<leftarrow> put frame (off + 2) (off + 4) [0x08, 0x00];
            frame \<leftarrow> wr frame (off + 4) 6;
            frame \<leftarrow> wr frame (off + 5) 4;
            frame \<leftarrow> put frame (off + 6) (off + 8) [0x00, 0x02];
            frame \<leftarrow> put frame (off + 8) (off + 14) my_mac;
            frame \<leftarrow> put frame (off + 14) (off + 18) my_ip;
            rmac \<leftarrow> slice request (off + 8) (off + 14);
            frame \<leftarrow> put frame (off + 18) (off + 24) rmac;
            frame \<leftarrow> put frame (off + 24) (off + 28) tpa;
            ret (Some (off + 28), frame)
          })"

definition build_request :: "bytes \<Rightarrow> bytes \<Rightarrow> bytes \<Rightarrow> bytes \<Rightarrow> (nat \<times> bytes) option" where
  "build_request src_mac src_ip dst_ip frame = do {
     frame \<leftarrow> put frame 0 6 (replicate 6 0xFF);
     frame \<leftarrow> put frame 6 12 src_mac;
     frame \<leftarrow> wr frame 12 0x08;
     frame \<leftarrow> wr frame 13 0x06;
     let off = 14;
     frame \<leftarrow> wr frame off 0x00;
     frame \<leftarrow> wr frame (off + 1) 0x01;
     frame \<leftarrow> wr frame (off + 2) 0x08;
     frame \<leftarrow> wr frame (off + 3) 0x00;
     frame \<leftarrow> wr frame (off + 4) 6;
     frame \<leftarrow> wr frame (off + 5) 4;
     frame \<leftarrow> wr frame (off + 6) 0x00;
     frame \<leftarrow> wr frame (off + 7) 0x01;
     frame \<leftarrow> put frame (off + 8) (off + 14) src_mac;
     frame \<leftarrow> put frame (off + 14) (off + 18) src_ip;
     frame \<leftarrow> put frame (off + 18) (off + 24) (replicate 6 0);
     frame \<leftarrow> put frame (off + 24) (off + 28) dst_ip;
     ret (off + 28, frame)
   }"

definition arp_parse_reply :: "bytes \<Rightarrow> nat \<Rightarrow> bytes \<Rightarrow> bytes option option" where
  "arp_parse_reply buf len target_ip =
     (if len < 42 then ret None
      else do {
        ethertype \<leftarrow> match_at buf [(12, 0x08), (13, 0x06)];
        if \<not> ethertype then ret None else do {
        let off = 14;
        types \<leftarrow> match_at buf [(off, 0x00), (off + 1, 0x01), (off + 2, 0x08), (off + 3, 0x00)];
        if \<not> types then ret None else do {
        lens \<leftarrow> match_at buf [(off + 4, 6), (off + 5, 4)];
        if \<not> lens then ret None else do {
        oper \<leftarrow> match_at buf [(off + 6, 0x00), (off + 7, 0x02)];
        if \<not> oper then ret None else do {
        spa \<leftarrow> slice buf (off + 14) (off + 18);
        if spa \<noteq> target_ip then ret None else do {
        mac \<leftarrow> slice buf (off + 8) (off + 14);
        ret (Some mac)
        }}}}}
      })"

section \<open>Behaviour\<close>

text \<open>The frames as concatenations: what the sequence of writes leaves in the first 42 bytes.\<close>

definition arp_packet :: "u8 \<Rightarrow> bytes \<Rightarrow> bytes \<Rightarrow> bytes \<Rightarrow> bytes \<Rightarrow> bytes \<Rightarrow> bytes" where
  "arp_packet oper eth_dst sha spa tha tpa =
     eth_dst @ sha @ [0x08, 0x06, 0, 1, 8, 0, 6, 4, 0, oper] @ sha @ spa @ tha @ tpa"

lemma build_request_packet:
  assumes "length src_mac = 6" and "length src_ip = 4" and "length dst_ip = 4"
    and "length frame = 1514"
  shows "build_request src_mac src_ip dst_ip frame =
    Some (42, overlay frame 0 (arp_packet 1 (replicate 6 0xFF) src_mac src_ip (replicate 6 0) dst_ip))"
  using assms by (simp add: build_request_def arp_packet_def overlay_snoc)

lemma build_reply_packet:
  assumes "length my_mac = 6" and "length my_ip = 4" and "length frame = 1514"
    and "42 \<le> length request" and "seg request 12 14 = [0x08, 0x06]"
    and "seg request 20 22 = [0, 1]" and "seg request 38 42 = my_ip"
  shows "build_reply my_mac my_ip request frame =
    Some (Some 42, overlay frame 0
      (arp_packet 2 (seg request 22 28) my_mac my_ip (seg request 22 28) my_ip))"
proof -
  have "request ! 12 = 0x08" "request ! 13 = 0x06" "request ! 20 = 0" "request ! 21 = 1"
    "my_ip = [request ! 38, request ! 39, request ! 40, request ! 41]"
    using assms(4-7) by (simp_all add: seg_step)
  with assms(1-4) show ?thesis
    by (simp add: build_reply_def arp_packet_def overlay_snoc)
qed

lemma build_reply_ignores:
  assumes "length request < 42 \<or> seg request 12 14 \<noteq> [0x08, 0x06] \<or>
    seg request 20 22 \<noteq> [0, 1] \<or> seg request 38 42 \<noteq> my_ip"
  shows "build_reply my_mac my_ip request frame = Some (None, frame)"
  using assms by (auto simp: build_reply_def seg_step)

lemma arp_parse_reply_total:
  assumes "len \<le> length buf"
  shows "arp_parse_reply buf len ip =
    Some (if 42 \<le> len \<and> seg buf 12 22 = [0x08, 0x06, 0, 1, 8, 0, 6, 4, 0, 2] \<and> seg buf 28 32 = ip
      then Some (seg buf 22 28) else None)"
  using assms by (auto simp: arp_parse_reply_def seg_step)

lemma arp_parse_packet:
  assumes "length eth_dst = 6" and "length sha = 6" and "length spa = 4"
    and "length tha = 6" and "length tpa = 4"
  shows "arp_parse_reply (arp_packet 2 eth_dst sha spa tha tpa @ rest) 42 spa = Some (Some sha)"
  using assms by (subst arp_parse_reply_total) (simp_all add: arp_packet_def seg_def)

text \<open>C40. An ARP exchange resolves the address: the reply \<open>build_reply\<close> writes to the request that
  \<open>build_request\<close> broadcast for \<open>ip\<close> is accepted by the requester's \<open>parse_reply\<close>, and the
  address it yields is the responder's MAC. The responder is any station that owns \<open>ip\<close>.\<close>

theorem arp_exchange:
  assumes "length mac_a = 6" and "length ip_a = 4" and "length mac_b = 6" and "length ip_b = 4"
    and "length frame_a = 1514" and "length frame_b = 1514"
  shows "\<exists>request reply.
    build_request mac_a ip_a ip_b frame_a = Some (42, request) \<and>
    build_reply mac_b ip_b request frame_b = Some (Some 42, reply) \<and>
    arp_parse_reply reply 42 ip_b = Some (Some mac_b)"
proof -
  define request where
    "request = overlay frame_a 0 (arp_packet 1 (replicate 6 0xFF) mac_a ip_a (replicate 6 0) ip_b)"
  have "seg request 12 14 = [0x08, 0x06]" "seg request 20 22 = [0, 1]" "seg request 38 42 = ip_b"
    using assms by (simp_all add: request_def arp_packet_def overlay_def seg_def)
  then have "build_reply mac_b ip_b request frame_b = Some (Some 42, overlay frame_b 0
      (arp_packet 2 (seg request 22 28) mac_b ip_b (seg request 22 28) ip_b))"
    using assms by (intro build_reply_packet) (simp_all add: request_def)
  moreover have "arp_parse_reply (overlay frame_b 0
      (arp_packet 2 (seg request 22 28) mac_b ip_b (seg request 22 28) ip_b)) 42 ip_b
    = Some (Some mac_b)"
    using assms by (simp add: overlay_front arp_parse_packet arp_packet_def [THEN arg_cong [of _ _ length]]
        request_def)
  ultimately show ?thesis
    using build_request_packet [of mac_a ip_a ip_b frame_a] assms
    unfolding request_def by blast
qed

lemma arp_exchange_witness:
  "\<exists>request reply.
    build_request [0x52, 0x54, 0, 0x12, 0x35, 0x56] [10, 0, 2, 15] [10, 0, 2, 2] (replicate 1514 0)
      = Some (42, request) \<and>
    build_reply [2, 0, 0, 0, 0, 1] [10, 0, 2, 2] request (replicate 1514 0) = Some (Some 42, reply) \<and>
    arp_parse_reply reply 42 [10, 0, 2, 2] = Some (Some [2, 0, 0, 0, 0, 1])"
  by (rule arp_exchange) simp_all

text \<open>\<open>parse_reply\<close> never panics when \<open>len\<close> does not exceed the buffer, and it accepts exactly
  the Ethernet/IPv4 ARP replies whose sender protocol address is the one asked for, yielding the
  sender's hardware address.\<close>

theorem arp_parse_reply_exact:
  assumes "len \<le> length buf"
  shows "arp_parse_reply buf len ip =
    Some (if 42 \<le> len \<and> seg buf 12 22 = [0x08, 0x06, 0, 1, 8, 0, 6, 4, 0, 2] \<and> seg buf 28 32 = ip
      then Some (seg buf 22 28) else None)"
  using assms by (rule arp_parse_reply_total)

lemma arp_parse_reply_exact_witness:
  "arp_parse_reply (replicate 60 0) 60 [10, 0, 2, 2] = Some None"
  by (subst arp_parse_reply_exact) (simp_all add: seg_def numeral_eq_Suc)

end
