(* ===== verification/Udp.thy ===== *)
theory Udp
  imports Checksum
begin

text \<open>
  The Ethernet/IPv4/UDP envelope: \<open>udp_payload\<close> and \<open>build_udp_frame\<close> of
  \<^verbatim>\<open>common/src/tftp.rs\<close>, and the contract \<open>udp_framing\<close> every frame builder of the program
  (TFTP, DNS, DHCP) provides.
\<close>

section \<open>Extracting the payload\<close>

definition udp_payload :: "bytes \<Rightarrow> nat \<Rightarrow> bytes option option" where
  "udp_payload frame len =
     (if len < 42 then ret None
      else do {
        ipv4 \<leftarrow> match_at frame [(12, 0x08), (13, 0x00)];
        if \<not> ipv4 then ret None else do {
        b \<leftarrow> rd frame 14;
        let ip_hdr_len = unat (b AND 0x0F) * 4;
        let udp_offset = 14 + ip_hdr_len;
        if udp_offset + 8 > len then ret None else do {
        h \<leftarrow> rd frame (udp_offset + 4);
        l \<leftarrow> rd frame (udp_offset + 5);
        let udp_len = unat (from_be16 h l);
        let payload_off = udp_offset + 8;
        let payload_end = min (udp_offset + udp_len) len;
        if payload_off > payload_end then ret None
        else map_option Some (slice frame payload_off payload_end)
        }}
      })"

section \<open>The builder of the TFTP client\<close>

fun sum_be16 :: "u32 \<Rightarrow> bytes \<Rightarrow> u32" where
  "sum_be16 acc (a # b # r) = sum_be16 (acc + ucast (from_be16 a b)) r"
| "sum_be16 acc _ = acc"

definition inline_checksum :: "bytes \<Rightarrow> u16" where
  "inline_checksum buf = NOT (ucast (fold16 (sum_be16 0 buf)))"

definition build_udp_frame ::
  "bytes \<Rightarrow> bytes \<Rightarrow> bytes \<Rightarrow> u16 \<Rightarrow> u16 \<Rightarrow> bytes \<Rightarrow> bytes \<Rightarrow> (nat option \<times> bytes) option" where
  "build_udp_frame src_mac src_ip dst_ip src_port dst_port payload frame = do {
     frame \<leftarrow> put frame 0 6 (replicate 6 0xff);
     frame \<leftarrow> put frame 6 12 src_mac;
     frame \<leftarrow> put frame 12 14 (be16 0x0800);
     let ip_hdr_len = 20;
     let udp_hdr_len = 8;
     let total_len = ip_hdr_len + udp_hdr_len + length payload;
     frame \<leftarrow> wr frame 14 0x45;
     frame \<leftarrow> wr frame 15 0x00;
     frame \<leftarrow> put frame 16 18 (be16 (word_of_nat total_len));
     frame \<leftarrow> put frame 18 20 (be16 0);
     frame \<leftarrow> put frame 20 22 (be16 0x4000);
     frame \<leftarrow> wr frame 22 64;
     frame \<leftarrow> wr frame 23 17;
     frame \<leftarrow> put frame 24 26 (be16 0);
     frame \<leftarrow> put frame 26 30 src_ip;
     frame \<leftarrow> put frame 30 34 dst_ip;
     header \<leftarrow> slice frame 14 (14 + ip_hdr_len);
     frame \<leftarrow> put frame 24 26 (be16 (inline_checksum header));
     frame \<leftarrow> put frame 34 36 (be16 src_port);
     frame \<leftarrow> put frame 36 38 (be16 dst_port);
     frame \<leftarrow> put frame 38 40 (be16 (word_of_nat (udp_hdr_len + length payload)));
     frame \<leftarrow> put frame 40 42 (be16 0);
     frame \<leftarrow> put frame 42 (42 + length payload) payload;
     ret (Some (14 + total_len), frame)
   }"

lemma word_at_from_be16: "ucast (from_be16 a b) = word_at a b"
  by (simp add: word_eq_iff_unsigned [where ?'a = nat] unat_word_at unat_from_be16)

lemma sum_be16_eq: "even (length bs) \<Longrightarrow> sum_be16 acc bs = sum_words acc bs"
  by (induction acc bs rule: sum_words.induct) (simp_all add: word_at_from_be16)

lemma inline_checksum_eq: "even (length bs) \<Longrightarrow> inline_checksum bs = ip_checksum bs"
  by (simp add: inline_checksum_def ip_checksum_def sum_be16_eq)

section \<open>The envelope contract\<close>

definition udp_envelope :: "bytes \<Rightarrow> bytes \<Rightarrow> bool" where
  "udp_envelope payload f \<longleftrightarrow>
     length f = 1514 \<and> f ! 12 = 0x08 \<and> f ! 13 = 0x00 \<and> f ! 14 = 0x45 \<and> f ! 23 = 17 \<and>
     from_be16 (f ! 38) (f ! 39) = word_of_nat (8 + length payload) \<and>
     seg f 42 (42 + length payload) = payload \<and> ip_checksum (seg f 14 34) = 0"

lemma udp_envelope_payload:
  assumes env: "udp_envelope payload f" and len: "length payload \<le> 1472"
    and "42 + length payload \<le> n" and "n \<le> 1514"
  shows "udp_payload f n = Some (Some payload)"
proof -
  have f: "length f = 1514" "f ! 12 = 0x08" "f ! 13 = 0x00" "f ! 14 = 0x45"
    and p: "seg f 42 (42 + length payload) = payload"
    and "from_be16 (f ! 38) (f ! 39) = word_of_nat (8 + length payload)"
    using env unfolding udp_envelope_def by (simp_all add: seg_step)
  then have "unat (from_be16 (f ! 38) (f ! 39)) = 8 + length payload"
    using len by (simp add: unat_of_nat del: of_nat_add)
  with f p assms(3,4) show ?thesis
    by (simp add: udp_payload_def)
qed

locale udp_framing =
  fixes wf :: "'p \<Rightarrow> bytes \<Rightarrow> bool"
    and build :: "'p \<Rightarrow> bytes \<Rightarrow> bytes \<Rightarrow> (nat \<times> bytes) option"
  assumes envelope:
    "wf p frame \<Longrightarrow> length payload \<le> 1472 \<Longrightarrow>
     \<exists>f. build p payload frame = Some (42 + length payload, f) \<and> udp_envelope payload f"
begin

lemma payload_delivered:
  assumes "wf p frame" and "length payload \<le> 1472" and "42 + length payload + pad \<le> 1514"
  shows "\<exists>f. build p payload frame = Some (42 + length payload, f) \<and>
    udp_payload f (42 + length payload + pad) = Some (Some payload)"
  using envelope [OF assms(1,2)] udp_envelope_payload [of payload _ "42 + length payload + pad"]
    assms by auto

lemma header_verifies:
  assumes "wf p frame" and "length payload \<le> 1472" and "build p payload frame = Some (n, f)"
  shows "ip_checksum (seg f 14 34) = 0" and "n = 42 + length payload" and "length f = 1514"
  using envelope [OF assms(1,2)] assms(3) by (auto simp: udp_envelope_def)

end

text \<open>The steps every builder shares: a header \<open>f0\<close>, its checksum written into its field, then the
  bytes from 34 on.\<close>

lemma envelope_intro:
  assumes "length f0 = 1514" and "f0 ! 12 = 0x08" and "f0 ! 13 = 0x00" and "f0 ! 14 = 0x45"
    and "f0 ! 23 = 17" and "f0 ! 24 = 0" and "f0 ! 25 = 0"
    and f: "seg f 0 34 = seg (overlay f0 24 (be16 (ip_checksum (seg f0 14 34)))) 0 34"
    and "length f = 1514" and "from_be16 (f ! 38) (f ! 39) = word_of_nat (8 + length payload)"
    and "seg f 42 (42 + length payload) = payload"
  shows "udp_envelope payload f"
proof -
  let ?f1 = "overlay f0 24 (be16 (ip_checksum (seg f0 14 34)))"
  have nth: "f ! i = ?f1 ! i" if "i < 34" for i
    using arg_cong [OF f, of "\<lambda>xs. xs ! i"] that assms(1,9) by (simp add: nth_seg)
  then have "seg f 14 34 = seg ?f1 14 34"
    using assms(1,9) by (intro nth_equalityI) (simp_all add: nth_seg)
  moreover have "ip_checksum (seg ?f1 14 34) = 0"
    using assms by (subst seg_overlay_inside) (auto intro!: ip_checksum_embed simp: nth_seg)
  ultimately show ?thesis
    using assms by (simp add: udp_envelope_def nth nth_overlay)
qed

section \<open>The TFTP builder keeps the contract\<close>

type_synonym udp_params = "bytes \<times> bytes \<times> bytes \<times> u16 \<times> u16"

definition udp_wf :: "udp_params \<Rightarrow> bytes \<Rightarrow> bool" where
  "udp_wf = (\<lambda>(src_mac, src_ip, dst_ip, src_port, dst_port) frame.
     length src_mac = 6 \<and> length src_ip = 4 \<and> length dst_ip = 4 \<and> length frame = 1514)"

definition udp_build :: "udp_params \<Rightarrow> bytes \<Rightarrow> bytes \<Rightarrow> (nat \<times> bytes) option" where
  "udp_build = (\<lambda>(src_mac, src_ip, dst_ip, src_port, dst_port) payload frame. do {
     (n, frame) \<leftarrow> build_udp_frame src_mac src_ip dst_ip src_port dst_port payload frame;
     n \<leftarrow> n;
     ret (n, frame)
   })"

lemma build_udp_frame_envelope:
  assumes "length src_mac = 6" and "length src_ip = 4" and "length dst_ip = 4"
    and "length frame = 1514" and "length payload \<le> 1472"
  shows "\<exists>f. build_udp_frame src_mac src_ip dst_ip src_port dst_port payload frame =
    Some (Some (42 + length payload), f) \<and> udp_envelope payload f \<and>
    seg f 26 30 = src_ip \<and> seg f 30 34 = dst_ip \<and> seg f 34 38 = be16 src_port @ be16 dst_port"
proof -
  define h where "h = replicate 6 0xff @ src_mac @ be16 0x0800 @ [0x45, 0] @
    be16 (word_of_nat (28 + length payload)) @ be16 0 @ be16 0x4000 @ [64, 17] @ be16 0 @ src_ip @ dst_ip"
  define u where "u = be16 src_port @ be16 dst_port @ be16 (word_of_nat (8 + length payload)) @
    be16 0 @ payload"
  define c where "c = ip_checksum (seg (overlay frame 0 h) 14 34)"
  define f where "f = overlay (overlay (overlay frame 0 h) 24 (be16 c)) 34 u"
  have h: "length h = 34" "h ! 24 = 0" "h ! 25 = 0"
    "h ! 12 = 0x08" "h ! 13 = 0" "h ! 14 = 0x45" "h ! 23 = 17" "seg h 26 30 = src_ip" "seg h 30 34 = dst_ip"
    using assms by (simp_all add: h_def nth_append be16_def seg_def)
  have u: "length u = 8 + length payload" "from_be16 (u ! 4) (u ! 5) = word_of_nat (8 + length payload)"
    "seg u 8 (8 + length payload) = payload" "seg u 0 4 = be16 src_port @ be16 dst_port"
    by (simp_all add: u_def nth_append nth_be seg_def)
  have "build_udp_frame src_mac src_ip dst_ip src_port dst_port payload frame =
    Some (Some (42 + length payload), f)"
    using assms
    by (simp add: build_udp_frame_def overlay_snoc inline_checksum_eq f_def c_def h_def u_def
        del: of_nat_add)
  moreover have "udp_envelope payload f"
    using assms h u
    by (intro envelope_intro [where ?f0.0 = "overlay frame 0 h"])
      (simp_all add: f_def c_def seg_overlay_other nth_overlay seg_overlay_tail)
  moreover have "seg f 26 30 = src_ip" "seg f 30 34 = dst_ip"
    "seg f 34 38 = be16 src_port @ be16 dst_port"
    using assms h u by (simp_all add: f_def seg_overlay_other seg_overlay_tail)
  ultimately show ?thesis
    by blast
qed

interpretation tftp_udp: udp_framing udp_wf udp_build
proof
  fix p :: udp_params and frame payload :: bytes
  assume "udp_wf p frame" and "length payload \<le> 1472"
  then show "\<exists>f. udp_build p payload frame = Some (42 + length payload, f) \<and> udp_envelope payload f"
    using build_udp_frame_envelope [of "fst p" "fst (snd p)" "fst (snd (snd p))" frame payload
        "fst (snd (snd (snd p)))" "snd (snd (snd (snd p)))"]
    by (auto simp: udp_wf_def udp_build_def split: prod.splits)
qed

lemma udp_payload_infix:
  assumes "len \<le> length frame"
  shows "\<exists>r. udp_payload frame len = Some r \<and>
    (r = None \<or> (\<exists>a b. 22 \<le> a \<and> a \<le> b \<and> b \<le> len \<and> r = Some (seg frame a b)))"
proof -
  define u where "u = 14 + unat (frame ! 14 AND 0x0F) * 4"
  define e where "e = min (u + unat (from_be16 (frame ! (u + 4)) (frame ! (u + 5)))) len"
  have "udp_payload frame len = Some
      (if len < 42 \<or> frame ! 12 \<noteq> 0x08 \<or> frame ! 13 \<noteq> 0x00 \<or> len < u + 8 \<or> e < u + 8
       then None else Some (seg frame (u + 8) e))"
    using assms by (auto simp: udp_payload_def Let_def u_def e_def)
  then consider "udp_payload frame len = Some None"
    | "udp_payload frame len = Some (Some (seg frame (u + 8) e))" "u + 8 \<le> e"
    by (auto split: if_split_asm simp: not_less)
  then show ?thesis
  proof cases
    case 2
    moreover have "22 \<le> u + 8" "e \<le> len"
      by (simp_all add: u_def e_def)
    ultimately show ?thesis
      by (intro exI [of _ "Some (seg frame (u + 8) e)"] conjI disjI2 exI [of _ "u + 8"] exI [of _ e])
        simp_all
  qed simp
qed

text \<open>\<open>udp_payload\<close> on a received frame of \<open>len\<close> bytes never panics and never over-reads:
  whatever the header-length and UDP-length fields say, what it returns is a contiguous part of
  the first \<open>len\<close> bytes of the frame, beyond the Ethernet header.\<close>

theorem udp_payload_in_bounds:
  assumes "len \<le> length frame"
  shows "\<exists>r. udp_payload frame len = Some r \<and>
    (r = None \<or> (\<exists>a b. 22 \<le> a \<and> a \<le> b \<and> b \<le> len \<and> r = Some (seg frame a b)))"
  using assms by (rule udp_payload_infix)

lemma udp_payload_in_bounds_witness:
  "\<exists>r. udp_payload (replicate 60 0xFF) 60 = Some r \<and>
    (r = None \<or> (\<exists>a b. 22 \<le> a \<and> a \<le> b \<and> b \<le> 60 \<and> r = Some (seg (replicate 60 0xFF) a b)))"
  by (rule udp_payload_in_bounds) simp

text \<open>C36. A UDP frame round trip: for every payload of at most 1472 bytes \<open>build_udp_frame\<close> returns,
  reports 42 bytes more than the payload, and \<open>udp_payload\<close> gives back exactly the payload, also
  when the NIC reports the frame longer than it is (padding or a trailing FCS); the IPv4 header
  it wrote verifies.\<close>

theorem tftp_frame_roundtrip:
  assumes "length src_mac = 6" and "length src_ip = 4" and "length dst_ip = 4"
    and "length frame = 1514" and "42 + length payload + pad \<le> 1514"
  shows "\<exists>f. build_udp_frame src_mac src_ip dst_ip src_port dst_port payload frame =
      Some (Some (42 + length payload), f) \<and>
    udp_payload f (42 + length payload + pad) = Some (Some payload) \<and>
    ip_checksum (seg f 14 34) = 0"
proof -
  let ?p = "(src_mac, src_ip, dst_ip, src_port, dst_port)"
  have wf: "udp_wf ?p frame" and len: "length payload \<le> 1472"
    using assms by (simp_all add: udp_wf_def)
  obtain f where f: "udp_build ?p payload frame = Some (42 + length payload, f)"
    and delivered: "udp_payload f (42 + length payload + pad) = Some (Some payload)"
    using tftp_udp.payload_delivered [OF wf len assms(5)] by blast
  from f have "build_udp_frame src_mac src_ip dst_ip src_port dst_port payload frame =
      Some (Some (42 + length payload), f)"
    by (auto simp: udp_build_def split: Option.bind_splits)
  with delivered tftp_udp.header_verifies(1) [OF wf len f] show ?thesis
    by blast
qed

lemma tftp_frame_roundtrip_witness:
  "\<exists>f. build_udp_frame (replicate 6 2) [10, 0, 2, 15] [10, 0, 2, 2] 12345 69 [0, 1] (replicate 1514 0) =
      Some (Some (42 + length [0 :: u8, 1]), f) \<and>
    udp_payload f (42 + length [0 :: u8, 1] + 18) = Some (Some [0, 1]) \<and>
    ip_checksum (seg f 14 34) = 0"
  by (rule tftp_frame_roundtrip) simp_all

end
