(* ===== verification/Dns.thy ===== *)
theory Dns
  imports Udp
begin

text \<open>
  \<^verbatim>\<open>common/src/dns.rs\<close>: the DNS query builder, the unicast frame around it, and the parser of
  the response that yields the first A record.
\<close>

section \<open>The query\<close>

text \<open>\<open>name.split('.')\<close>\<close>

fun split_dot :: "bytes \<Rightarrow> bytes list" where
  "split_dot [] = [[]]"
| "split_dot (b # bs) =
     (if b = 46 then [] # split_dot bs
      else case split_dot bs of [] \<Rightarrow> [[b]] | l # ls \<Rightarrow> (b # l) # ls)"

text \<open>The label loop: \<open>None\<close> inside is the early \<open>return 0\<close>, otherwise the offset it ends at.\<close>

fun put_labels :: "bytes list \<Rightarrow> nat \<Rightarrow> bytes \<Rightarrow> (nat option \<times> bytes) option" where
  "put_labels [] off buf = ret (Some off, buf)"
| "put_labels (label # ls) off buf =
     (let l = length label in
      if l = 0 \<or> l > 63 \<or> off + 1 + l \<ge> length buf then ret (None, buf)
      else do {
        buf \<leftarrow> wr buf off (word_of_nat l);
        let off = off + 1;
        buf \<leftarrow> put buf off (off + l) label;
        put_labels ls (off + l) buf
      })"

definition build_query :: "u16 \<Rightarrow> bytes \<Rightarrow> bytes \<Rightarrow> (nat \<times> bytes) option" where
  "build_query ident name buf = do {
     buf \<leftarrow> put buf 0 2 (be16 ident);
     buf \<leftarrow> wr buf 2 0x01;
     buf \<leftarrow> wr buf 3 0x00;
     buf \<leftarrow> wr buf 4 0x00;
     buf \<leftarrow> wr buf 5 0x01;
     buf \<leftarrow> put buf 6 12 (replicate 6 0);
     (r, buf) \<leftarrow> put_labels (split_dot name) 12 buf;
     case r of None \<Rightarrow> ret (0, buf)
     | Some off \<Rightarrow> do {
         buf \<leftarrow> wr buf off 0;
         let off = off + 1;
         buf \<leftarrow> wr buf off 0x00;
         buf \<leftarrow> wr buf (off + 1) 0x01;
         buf \<leftarrow> wr buf (off + 2) 0x00;
         buf \<leftarrow> wr buf (off + 3) 0x01;
         ret (off + 4, buf)
       }
   }"

section \<open>The frame\<close>

definition dns_build_frame ::
  "bytes \<Rightarrow> bytes \<Rightarrow> bytes \<Rightarrow> bytes \<Rightarrow> u16 \<Rightarrow> bytes \<Rightarrow> nat \<Rightarrow> bytes \<Rightarrow> (nat \<times> bytes) option" where
  "dns_build_frame src_mac src_ip dst_mac dst_ip src_port query query_len frame = do {
     frame \<leftarrow> put frame 0 6 dst_mac;
     frame \<leftarrow> put frame 6 12 src_mac;
     frame \<leftarrow> wr frame 12 0x08;
     frame \<leftarrow> wr frame 13 0x00;
     let ip_off = 14;
     let ip_total_len = 20 + 8 + query_len;
     frame \<leftarrow> wr frame ip_off 0x45;
     frame \<leftarrow> wr frame (ip_off + 1) 0x00;
     frame \<leftarrow> put frame (ip_off + 2) (ip_off + 4) (be16 (word_of_nat ip_total_len));
     frame \<leftarrow> put frame (ip_off + 4) (ip_off + 8) (replicate 4 0);
     frame \<leftarrow> wr frame (ip_off + 8) 64;
     frame \<leftarrow> wr frame (ip_off + 9) 17;
     frame \<leftarrow> put frame (ip_off + 10) (ip_off + 12) (replicate 2 0);
     frame \<leftarrow> put frame (ip_off + 12) (ip_off + 16) src_ip;
     frame \<leftarrow> put frame (ip_off + 16) (ip_off + 20) dst_ip;
     header \<leftarrow> slice frame ip_off (ip_off + 20);
     frame \<leftarrow> put frame (ip_off + 10) (ip_off + 12) (be16 (ip_checksum header));
     let udp_off = ip_off + 20;
     let udp_len = 8 + query_len;
     frame \<leftarrow> put frame udp_off (udp_off + 2) (be16 src_port);
     frame \<leftarrow> wr frame (udp_off + 2) 0x00;
     frame \<leftarrow> wr frame (udp_off + 3) 0x35;
     frame \<leftarrow> put frame (udp_off + 4) (udp_off + 6) (be16 (word_of_nat udp_len));
     frame \<leftarrow> put frame (udp_off + 6) (udp_off + 8) (replicate 2 0);
     let dns_off = udp_off + 8;
     payload \<leftarrow> slice query 0 query_len;
     frame \<leftarrow> put frame dns_off (dns_off + query_len) payload;
     ret (dns_off + query_len, frame)
   }"

section \<open>The response\<close>

function skip_name :: "bytes \<Rightarrow> nat \<Rightarrow> nat \<Rightarrow> nat option option" where
  "skip_name buf len off =
     (if off \<ge> len then ret None
      else do {
        b \<leftarrow> rd buf off;
        if b = 0 then ret (Some (off + 1))
        else if b AND 0xC0 = 0xC0 then ret (Some (off + 2))
        else skip_name buf len (off + 1 + unat b)
      })"
  by pat_completeness auto
termination
  by (relation "measure (\<lambda>(buf, len, off). len - off)") auto

declare skip_name.simps [simp del]

fun skip_questions :: "nat \<Rightarrow> bytes \<Rightarrow> nat \<Rightarrow> nat \<Rightarrow> nat option option" where
  "skip_questions 0 buf len off = ret (Some off)"
| "skip_questions (Suc n) buf len off = do {
     r \<leftarrow> skip_name buf len off;
     case r of None \<Rightarrow> ret None
     | Some off \<Rightarrow> if off + 4 > len then ret None else skip_questions n buf len (off + 4)
   }"

fun find_a_record :: "nat \<Rightarrow> bytes \<Rightarrow> nat \<Rightarrow> nat \<Rightarrow> bytes option option" where
  "find_a_record 0 buf len off = ret None"
| "find_a_record (Suc n) buf len off = do {
     r \<leftarrow> skip_name buf len off;
     case r of None \<Rightarrow> ret None
     | Some off \<Rightarrow>
         if off + 10 > len then ret None
         else do {
           rtype \<leftarrow> rd16 buf off;
           rdlength \<leftarrow> map_option unat (rd16 buf (off + 8));
           let off = off + 10;
           if off + rdlength > len then ret None
           else if rtype = 1 \<and> rdlength = 4 then map_option Some (slice buf off (off + 4))
           else find_a_record n buf len (off + rdlength)
         }
   }"

definition dns_parse_response :: "bytes \<Rightarrow> nat \<Rightarrow> u16 \<Rightarrow> bytes option option" where
  "dns_parse_response buf len ident =
     (if len < 42 then ret None
      else do {
        ipv4 \<leftarrow> match_at buf [(12, 0x08), (13, 0x00)];
        if \<not> ipv4 then ret None else do {
        let ip_off = 14;
        b \<leftarrow> rd buf ip_off;
        let ip_hdr_len = unat (b AND 0x0F) * 4;
        if ip_hdr_len < 20 then ret None else do {
        proto \<leftarrow> rd buf (ip_off + 9);
        if proto \<noteq> 17 then ret None else do {
        let udp_off = ip_off + ip_hdr_len;
        if udp_off + 8 > len then ret None else do {
        reply_dst_port \<leftarrow> rd16 buf (udp_off + 2);
        reply_src_port \<leftarrow> rd16 buf udp_off;
        if reply_src_port \<noteq> 53 then ret None else do {
        let dns_off = udp_off + 8;
        if dns_off + 12 > len then ret None else do {
        pkt_id \<leftarrow> rd16 buf dns_off;
        if pkt_id \<noteq> ident then ret None else do {
        flags \<leftarrow> rd16 buf (dns_off + 2);
        let rcode = flags AND 0x000F;
        if rcode \<noteq> 0 then ret None else do {
        qdcount \<leftarrow> map_option unat (rd16 buf (dns_off + 4));
        ancount \<leftarrow> map_option unat (rd16 buf (dns_off + 6));
        if ancount = 0 then ret None else do {
        r \<leftarrow> skip_questions qdcount buf len (dns_off + 12);
        case r of None \<Rightarrow> ret None | Some off \<Rightarrow> find_a_record ancount buf len off
        }}}}}}}}}
      })"

section \<open>What the query builder writes\<close>

definition enc_labels :: "bytes list \<Rightarrow> bytes" where
  "enc_labels ls = concat (map (\<lambda>l. word_of_nat (length l) # l) ls)"

definition labels_ok :: "bytes list \<Rightarrow> bool" where
  "labels_ok ls \<longleftrightarrow> (\<forall>l \<in> set ls. 0 < length l \<and> length l \<le> 63)"

lemma enc_labels_simps [simp]:
  "enc_labels [] = []" "enc_labels (l # ls) = word_of_nat (length l) # l @ enc_labels ls"
  by (simp_all add: enc_labels_def)

lemma split_dot_nonempty [simp]: "split_dot bs \<noteq> []"
  by (induction bs rule: split_dot.induct) (auto split: list.splits)

lemma length_enc_split: "length (enc_labels (split_dot name)) = length name + 1"
  by (induction name rule: split_dot.induct) (auto split: list.splits)

lemma put_labels_ok:
  assumes "labels_ok ls" and "off = length pre" and "length pre + length (enc_labels ls) < length buf"
  shows "put_labels ls off (overlay buf 0 pre) =
    Some (Some (off + length (enc_labels ls)), overlay buf 0 (pre @ enc_labels ls))"
  using assms
proof (induction ls arbitrary: off pre)
  case Nil
  then show ?case by simp
next
  case (Cons l ls)
  then have "labels_ok ls"
    by (simp add: labels_ok_def)
  with Cons.prems show ?case
    using Cons.IH [of "length pre + Suc (length l)" "pre @ word_of_nat (length l) # l"]
    by (simp add: labels_ok_def overlay_snoc Let_def add.assoc)
qed

lemma put_labels_reject:
  assumes "\<not> labels_ok ls \<or> length buf \<le> off + length (enc_labels ls)" and "off < length buf"
  shows "\<exists>buf'. put_labels ls off buf = Some (None, buf')"
  using assms
proof (induction ls arbitrary: off buf)
  case Nil
  then show ?case by (simp add: labels_ok_def)
next
  case (Cons l ls)
  show ?case
  proof (cases "length l = 0 \<or> length l > 63 \<or> off + 1 + length l \<ge> length buf")
    case False
    with Cons.prems show ?thesis
      using Cons.IH [of "overlay (overlay buf off [word_of_nat (length l)]) (Suc off) l" "Suc (off + length l)"]
      by (auto simp: labels_ok_def Let_def)
  qed auto
qed

definition query_header :: "u16 \<Rightarrow> bytes" where
  "query_header ident = be16 ident @ [1, 0, 0, 1, 0, 0, 0, 0, 0, 0]"

lemma build_query_unfold:
  assumes "length buf = 256"
  shows "build_query ident name buf = do {
     (r, buf) \<leftarrow> put_labels (split_dot name) 12 (overlay buf 0 (query_header ident));
     case r of None \<Rightarrow> ret (0, buf)
     | Some off \<Rightarrow> do {
         buf \<leftarrow> wr buf off 0;
         let off = off + 1;
         buf \<leftarrow> wr buf off 0x00;
         buf \<leftarrow> wr buf (off + 1) 0x01;
         buf \<leftarrow> wr buf (off + 2) 0x00;
         buf \<leftarrow> wr buf (off + 3) 0x01;
         ret (off + 4, buf)
       }
   }"
  using assms by (simp add: build_query_def query_header_def overlay_snoc eval_nat_numeral)

lemma length_query_header [simp]: "length (query_header ident) = 12"
  by (simp add: query_header_def)

lemma build_query_ok:
  assumes "length buf = 256" and "labels_ok (split_dot name)" and "length name \<le> 238"
  shows "build_query ident name buf = Some (length name + 18,
    overlay buf 0 (query_header ident @ enc_labels (split_dot name) @ [0, 0, 1, 0, 1]))"
  using assms
  by (simp add: build_query_unfold put_labels_ok length_enc_split overlay_snoc del: split_dot.simps)

lemma build_query_panic:
  assumes "length buf = 256" and "labels_ok (split_dot name)"
    and "239 \<le> length name" and "length name \<le> 242"
  shows "build_query ident name buf = None"
proof -
  consider "length name = 239" | "length name = 240" | "length name = 241" | "length name = 242"
    using assms by linarith
  then show ?thesis
    using assms
    by cases (simp_all add: build_query_unfold put_labels_ok length_enc_split overlay_snoc wr_panic)
qed

lemma build_query_reject:
  assumes "length buf = 256" and "\<not> labels_ok (split_dot name) \<or> 243 \<le> length name"
  shows "\<exists>buf'. build_query ident name buf = Some (0, buf')"
  using put_labels_reject [of "split_dot name" "overlay buf 0 (query_header ident)" 12] assms
  by (auto simp: build_query_unfold length_enc_split)

text \<open>C35. What \<open>build_query\<close> does for every name, on its 256-byte buffer. With every label of 1 to
  63 bytes, a name of at most 238 bytes is encoded as the header, the length-prefixed labels, the
  root and the question's type and class, and a name of 239 to 242 bytes makes the builder panic
  (\<open>None\<close>); a longer name, or one with an empty or an overlong label, is rejected with length 0.\<close>

theorem build_query_cases:
  assumes "length buf = 256"
  shows "case build_query ident name buf of
      None \<Rightarrow> labels_ok (split_dot name) \<and> length name \<in> {239..242}
    | Some (n, buf') \<Rightarrow>
        if labels_ok (split_dot name) \<and> length name \<le> 238
        then n = length name + 18 \<and>
          buf' = overlay buf 0 (query_header ident @ enc_labels (split_dot name) @ [0, 0, 1, 0, 1])
        else n = 0 \<and> (\<not> labels_ok (split_dot name) \<or> 243 \<le> length name)"
proof -
  consider "labels_ok (split_dot name) \<and> length name \<le> 238"
    | "labels_ok (split_dot name) \<and> 239 \<le> length name \<and> length name \<le> 242"
    | "\<not> labels_ok (split_dot name) \<or> 243 \<le> length name"
    by linarith
  then show ?thesis
  proof cases
    case 3
    then show ?thesis
      using build_query_reject [OF assms, of name ident] by auto
  qed (use assms in \<open>simp_all add: build_query_ok build_query_panic\<close>)
qed

lemma build_query_cases_witness:
  "case build_query 7 [97, 46, 98] (replicate 256 0) of
      None \<Rightarrow> labels_ok (split_dot [97, 46, 98]) \<and> length [97 :: u8, 46, 98] \<in> {239..242}
    | Some (n, buf') \<Rightarrow>
        if labels_ok (split_dot [97, 46, 98]) \<and> length [97 :: u8, 46, 98] \<le> 238
        then n = length [97 :: u8, 46, 98] + 18 \<and>
          buf' = overlay (replicate 256 0) 0
            (query_header 7 @ enc_labels (split_dot [97, 46, 98]) @ [0, 0, 1, 0, 1])
        else n = 0 \<and> (\<not> labels_ok (split_dot [97, 46, 98]) \<or> 243 \<le> length [97 :: u8, 46, 98])"
  by (rule build_query_cases) simp

section \<open>The frame around it\<close>

type_synonym dns_params = "bytes \<times> bytes \<times> bytes \<times> bytes \<times> u16"

definition dns_wf :: "dns_params \<Rightarrow> bytes \<Rightarrow> bool" where
  "dns_wf = (\<lambda>(src_mac, src_ip, dst_mac, dst_ip, src_port) frame.
     length src_mac = 6 \<and> length src_ip = 4 \<and> length dst_mac = 6 \<and> length dst_ip = 4 \<and>
     length frame = 1514)"

definition dns_frame :: "dns_params \<Rightarrow> bytes \<Rightarrow> bytes \<Rightarrow> (nat \<times> bytes) option" where
  "dns_frame = (\<lambda>(src_mac, src_ip, dst_mac, dst_ip, src_port) query frame.
     dns_build_frame src_mac src_ip dst_mac dst_ip src_port query (length query) frame)"

lemma dns_build_frame_envelope:
  assumes "length src_mac = 6" and "length src_ip = 4" and "length dst_mac = 6"
    and "length dst_ip = 4" and "length frame = 1514" and "query_len \<le> 1472"
    and "query_len \<le> length query"
  shows "\<exists>f. dns_build_frame src_mac src_ip dst_mac dst_ip src_port query query_len frame =
    Some (42 + query_len, f) \<and> udp_envelope (take query_len query) f \<and>
    seg f 0 6 = dst_mac \<and> seg f 30 34 = dst_ip \<and> seg f 34 38 = be16 src_port @ [0, 53]"
proof -
  define h where "h = dst_mac @ src_mac @ [0x08, 0x00, 0x45, 0] @
    be16 (word_of_nat (28 + query_len)) @ replicate 4 0 @ [64, 17] @ replicate 2 0 @ src_ip @ dst_ip"
  define u where "u = be16 src_port @ [0, 0x35] @ be16 (word_of_nat (8 + query_len)) @
    replicate 2 0 @ take query_len query"
  define c where "c = ip_checksum (seg (overlay frame 0 h) 14 34)"
  define f where "f = overlay (overlay (overlay frame 0 h) 24 (be16 c)) 34 u"
  have h: "length h = 34" "h ! 24 = 0" "h ! 25 = 0" "h ! 12 = 0x08" "h ! 13 = 0" "h ! 14 = 0x45"
    "h ! 23 = 17" "seg h 0 6 = dst_mac" "seg h 30 34 = dst_ip"
    using assms by (simp_all add: h_def nth_append be16_def seg_def)
  have u: "length u = 8 + query_len" "from_be16 (u ! 4) (u ! 5) = word_of_nat (8 + query_len)"
    "seg u 8 (8 + query_len) = take query_len query" "seg u 0 4 = be16 src_port @ [0, 53]"
    using assms by (simp_all add: u_def nth_append nth_be seg_def)
  have "dns_build_frame src_mac src_ip dst_mac dst_ip src_port query query_len frame =
    Some (42 + query_len, f)"
    using assms
    by (simp add: dns_build_frame_def overlay_snoc f_def c_def h_def u_def seg_def del: of_nat_add)
  moreover have "udp_envelope (take query_len query) f"
    using assms h u
    by (intro envelope_intro [where ?f0.0 = "overlay frame 0 h"])
      (simp_all add: f_def c_def seg_overlay_other nth_overlay seg_overlay_tail)
  moreover have "seg f 0 6 = dst_mac" "seg f 30 34 = dst_ip"
    "seg f 34 38 = be16 src_port @ [0, 53]"
    using assms h u by (simp_all add: f_def seg_overlay_other seg_overlay_tail)
  ultimately show ?thesis
    by blast
qed

interpretation dns_udp: udp_framing dns_wf dns_frame
proof
  fix p :: dns_params and frame payload :: bytes
  assume "dns_wf p frame" and "length payload \<le> 1472"
  then show "\<exists>f. dns_frame p payload frame = Some (42 + length payload, f) \<and> udp_envelope payload f"
    using dns_build_frame_envelope [of "fst p" "fst (snd p)" "fst (snd (snd p))"
        "fst (snd (snd (snd p)))" frame "length payload" payload "snd (snd (snd (snd p)))"]
    by (auto simp: dns_wf_def dns_frame_def split: prod.splits)
qed

section \<open>The response parser never over-reads\<close>

lemma skip_name_total: "len \<le> length buf \<Longrightarrow> skip_name buf len off \<noteq> None"
proof (induction buf len off rule: skip_name.induct)
  case (1 buf len off)
  then show ?case by (subst skip_name.simps) auto
qed

lemma skip_questions_total: "len \<le> length buf \<Longrightarrow> skip_questions n buf len off \<noteq> None"
proof (induction n arbitrary: off)
  case (Suc n)
  then obtain r where "skip_name buf len off = Some r"
    using skip_name_total by fastforce
  with Suc show ?case
    by (auto split: option.splits)
qed simp

lemma find_a_record_total: "len \<le> length buf \<Longrightarrow> find_a_record n buf len off \<noteq> None"
proof (induction n arbitrary: off)
  case (Suc n)
  then obtain r where "skip_name buf len off = Some r"
    using skip_name_total by fastforce
  with Suc show ?case
    by (auto split: option.splits simp: Let_def)
qed simp

lemma dns_parse_response_returns:
  assumes "len \<le> length buf"
  shows "\<exists>r. dns_parse_response buf len ident = Some r"
proof (cases "len < 42")
  case True
  then show ?thesis by (simp add: dns_parse_response_def)
next
  case False
  define h where "h = unat (buf ! 14 AND 0x0F) * 4"
  define q where "q = unat (from_be16 (buf ! (26 + h)) (buf ! (27 + h)))"
  define a where "a = unat (from_be16 (buf ! (28 + h)) (buf ! (29 + h)))"
  obtain r where r: "skip_questions q buf len (34 + h) = Some r"
    using skip_questions_total [OF assms] by fastforce
  have "\<exists>x. find_a_record a buf len i = Some x" for i
    using find_a_record_total [OF assms] by fastforce
  with r False assms show ?thesis
    by (cases r) (auto simp: dns_parse_response_def Let_def add.assoc h_def q_def a_def)
qed

text \<open>The DNS response parser is safe on hostile input: for every received frame and every
  \<open>len\<close> within the buffer it returns (compressed or truncated names, section counts and record
  lengths that point past the packet included), without an out-of-range access.\<close>

theorem dns_parse_response_total:
  assumes "len \<le> length buf"
  shows "\<exists>r. dns_parse_response buf len ident = Some r"
  using assms by (rule dns_parse_response_returns)

lemma dns_parse_response_total_witness:
  "\<exists>r. dns_parse_response (replicate 64 0xC0) 64 7 = Some r"
  by (rule dns_parse_response_total) simp

section \<open>What it yields for a well-formed response\<close>

text \<open>A name on the wire: labels, then the root or a compression pointer.\<close>

definition name_end :: "bytes \<Rightarrow> bool" where
  "name_end t \<longleftrightarrow> t = [0] \<or> (\<exists>p q. t = [p, q] \<and> p AND 0xC0 = 0xC0)"

definition wire_name :: "bytes \<Rightarrow> bool" where
  "wire_name n \<longleftrightarrow> (\<exists>ls t. labels_ok ls \<and> name_end t \<and> n = enc_labels ls @ t)"

lemma label_byte:
  assumes "0 < l" and "l \<le> 63"
  shows "unat (word_of_nat l :: u8) = l" and "(word_of_nat l :: u8) \<noteq> 0"
    and "(word_of_nat l :: u8) AND 0xC0 \<noteq> 0xC0"
proof -
  show l: "unat (word_of_nat l :: u8) = l"
    using assms by (simp add: unat_of_nat)
  then show "(word_of_nat l :: u8) \<noteq> 0"
    using assms by auto
  have "(word_of_nat l :: u8) AND 0xC0 \<le> word_of_nat l"
    by (metis and.commute order_refl word_and_le1)
  then show "(word_of_nat l :: u8) AND 0xC0 \<noteq> 0xC0"
    using assms l by (auto simp: word_le_nat_alt)
qed

lemma skip_name_wire:
  assumes "wire_name n" and "length pre + length n \<le> len"
  shows "skip_name (pre @ n @ rest) len (length pre) = Some (Some (length pre + length n))"
proof -
  obtain ls t where "labels_ok ls" and t: "name_end t" and n: "n = enc_labels ls @ t"
    using assms(1) by (auto simp: wire_name_def)
  have "length pre + length (enc_labels ls @ t) \<le> len \<Longrightarrow>
    skip_name (pre @ (enc_labels ls @ t) @ rest) len (length pre) =
      Some (Some (length pre + length (enc_labels ls @ t)))"
    using \<open>labels_ok ls\<close>
  proof (induction ls arbitrary: pre)
    case Nil
    then show ?case
      using t by (subst skip_name.simps) (auto simp: name_end_def nth_append)
  next
    case (Cons l ls)
    then have l: "0 < length l" "length l \<le> 63" and "labels_ok ls"
      by (simp_all add: labels_ok_def)
    with Cons.prems show ?case
      using Cons.IH [of "pre @ word_of_nat (length l) # l"] label_byte [OF l]
      by (subst skip_name.simps) (simp add: nth_append add.assoc)
  qed
  then show ?thesis
    using assms(2) by (simp add: n)
qed

record dns_rr =
  rr_name :: bytes
  rr_type :: u16
  rr_class :: u16
  rr_ttl :: u32
  rr_data :: bytes

definition rr_ok :: "dns_rr \<Rightarrow> bool" where
  "rr_ok r \<longleftrightarrow> wire_name (rr_name r) \<and> length (rr_data r) < 65536"

definition enc_rr :: "dns_rr \<Rightarrow> bytes" where
  "enc_rr r = rr_name r @ be16 (rr_type r) @ be16 (rr_class r) @ be32 (rr_ttl r) @
     be16 (word_of_nat (length (rr_data r))) @ rr_data r"

definition enc_question :: "bytes \<times> u16 \<times> u16 \<Rightarrow> bytes" where
  "enc_question = (\<lambda>(n, t, c). n @ be16 t @ be16 c)"

definition is_a_record :: "dns_rr \<Rightarrow> bool" where
  "is_a_record r \<longleftrightarrow> rr_type r = 1 \<and> length (rr_data r) = 4"

lemma skip_questions_wire:
  assumes "\<forall>q \<in> set qs. wire_name (fst q)"
    and "length (pre @ concat (map enc_question qs)) \<le> len"
  shows "skip_questions (length qs) (pre @ concat (map enc_question qs) @ rest) len (length pre) =
    Some (Some (length (pre @ concat (map enc_question qs))))"
  using assms
proof (induction qs arbitrary: pre)
  case (Cons q qs)
  obtain n t c where q: "q = (n, t, c)"
    by (cases q)
  show ?case
    using Cons.prems Cons.IH [of "pre @ enc_question q"]
      skip_name_wire [of n pre len "be16 t @ be16 c @ concat (map enc_question qs) @ rest"]
    by (simp add: q enc_question_def add.assoc)
qed simp

lemma length_enc_rr [simp]:
  "length (enc_rr r) = length (rr_name r) + 10 + length (rr_data r)"
  by (simp add: enc_rr_def)

lemma nth_app_right: "length p \<le> i \<Longrightarrow> (p @ xs) ! i = xs ! (i - length p)"
  by (simp add: nth_append)

lemma find_a_record_wire:
  assumes "\<forall>r \<in> set rs. rr_ok r" and "length (pre @ concat (map enc_rr rs)) \<le> len"
  shows "find_a_record (length rs) (pre @ concat (map enc_rr rs) @ rest) len (length pre) =
    Some (map_option rr_data (find is_a_record rs))"
  using assms
proof (induction rs arbitrary: pre)
  case (Cons r rs)
  define tail where "tail = concat (map enc_rr rs) @ rest"
  define buf where "buf = pre @ enc_rr r @ tail"
  define o10 where "o10 = length pre + length (rr_name r) + 10"
  have len: "o10 + length (rr_data r) \<le> len"
    using Cons.prems(2) by (simp add: enc_rr_def o10_def)
  have blen: "o10 + length (rr_data r) \<le> length buf"
    by (simp add: buf_def enc_rr_def o10_def)
  have name: "skip_name buf len (length pre) = Some (Some (o10 - 10))"
    using Cons.prems skip_name_wire [of "rr_name r" pre len]
    by (simp add: buf_def enc_rr_def rr_ok_def o10_def)
  have rtype: "rd16 buf (o10 - 10) = Some (rr_type r)"
    by (simp add: buf_def enc_rr_def o10_def nth_app_right be16_def)
  have "rd16 buf (o10 - 10 + 8) = Some (word_of_nat (length (rr_data r)))"
    using rd16_app [of "o10 - 10 + 8" "pre @ rr_name r @ be16 (rr_type r) @ be16 (rr_class r) @ be32 (rr_ttl r)"]
    by (simp add: buf_def enc_rr_def o10_def)
  moreover have "unat (word_of_nat (length (rr_data r)) :: u16) = length (rr_data r)"
    using Cons.prems by (simp add: rr_ok_def unat_of_nat)
  ultimately have rdl: "map_option unat (rd16 buf (o10 - 10 + 8)) = Some (length (rr_data r))"
    by simp
  have rdata: "seg buf o10 (o10 + length (rr_data r)) = rr_data r"
    by (simp add: buf_def enc_rr_def o10_def seg_def)
  have "find_a_record (length rs) buf len (o10 + length (rr_data r)) =
    Some (map_option rr_data (find is_a_record rs))"
    using Cons.prems Cons.IH [of "pre @ enc_rr r"]
    by (simp add: buf_def tail_def o10_def add.assoc)
  then have rest: "\<not> is_a_record r \<Longrightarrow> find_a_record (length rs) buf len (o10 + length (rr_data r)) =
      Some (map_option rr_data (find is_a_record (r # rs)))"
    by simp
  have "find_a_record (Suc (length rs)) buf len (length pre) =
      (if rr_type r = 1 \<and> length (rr_data r) = 4 then Some (Some (seg buf o10 (o10 + 4)))
       else find_a_record (length rs) buf len (o10 + length (rr_data r)))"
    using name rtype rdl len blen by (auto simp: o10_def Let_def simp del: rd16_ok)
  then show ?case
    using rest rdata is_a_record_def [of r]
    by (auto simp: buf_def [symmetric] tail_def [symmetric] simp del: find_a_record.simps)
qed simp

text \<open>A DNS message, in the layout of RFC 1035, and a frame prefix of IPv4 and UDP from port 53.\<close>

definition dns_message ::
  "u16 \<Rightarrow> u16 \<Rightarrow> (bytes \<times> u16 \<times> u16) list \<Rightarrow> dns_rr list \<Rightarrow> u16 \<Rightarrow> u16 \<Rightarrow> bytes" where
  "dns_message ident flags qs rs nscount arcount =
     be16 ident @ be16 flags @ be16 (word_of_nat (length qs)) @ be16 (word_of_nat (length rs)) @
     be16 nscount @ be16 arcount @ concat (map enc_question qs) @ concat (map enc_rr rs)"

definition dns_carrier :: "bytes \<Rightarrow> bool" where
  "dns_carrier pre \<longleftrightarrow> length pre = 42 \<and> pre ! 12 = 0x08 \<and> pre ! 13 = 0x00 \<and> pre ! 14 = 0x45 \<and>
     pre ! 23 = 17 \<and> pre ! 34 = 0 \<and> pre ! 35 = 53"

text \<open>C34. For a well-formed response with the query's identifier, no error code and any numbers of
  questions and answers, names compressed or not, \<open>parse_response\<close> yields the address of the
  first answer that is an A record with four data bytes, skipping every other record (a CNAME
  chain, say), and \<open>None\<close> when there is none. Whatever follows the answers, authority and additional
  records or padding, within the length received or in the buffer after it, is ignored.\<close>

theorem dns_first_a_record:
  assumes "dns_carrier pre" and "flags AND 0x000F = 0"
    and "\<forall>q \<in> set qs. wire_name (fst q)" and "\<forall>r \<in> set rs. rr_ok r"
    and "length qs < 65536" and "length rs < 65536"
    and "length (pre @ dns_message ident flags qs rs ns ar) \<le> len"
    and "len \<le> length (pre @ dns_message ident flags qs rs ns ar @ rest)"
  shows "dns_parse_response (pre @ dns_message ident flags qs rs ns ar @ rest) len ident =
    Some (map_option rr_data (find is_a_record rs))"
proof -
  let ?hdr = "be16 ident @ be16 flags @ be16 (word_of_nat (length qs)) @
    be16 (word_of_nat (length rs)) @ be16 ns @ be16 ar"
  let ?qs = "concat (map enc_question qs)"
  let ?rs = "concat (map enc_rr rs)"
  define buf where "buf = pre @ dns_message ident flags qs rs ns ar @ rest"
  have pre: "length pre = 42" "buf ! 12 = 0x08" "buf ! 13 = 0x00" "buf ! 14 = 0x45" "buf ! 23 = 17"
    using assms(1) by (simp_all add: dns_carrier_def buf_def nth_append)
  have port: "buf ! 34 = 0" "buf ! 35 = 53"
    using assms(1) by (simp_all add: dns_carrier_def buf_def nth_append)
  have len: "54 \<le> len" "len \<le> length buf"
    using pre(1) assms(7,8) by (simp_all add: buf_def dns_message_def)
  have hdr: "rd16 buf 42 = Some ident" "rd16 buf 44 = Some flags"
    "rd16 buf 46 = Some (word_of_nat (length qs))" "rd16 buf 48 = Some (word_of_nat (length rs))"
    using pre(1) rd16_app [of 42 pre ident] rd16_app [of 44 "pre @ be16 ident" flags]
      rd16_app [of 46 "pre @ be16 ident @ be16 flags" "word_of_nat (length qs)"]
      rd16_app [of 48 "pre @ be16 ident @ be16 flags @ be16 (word_of_nat (length qs))"
        "word_of_nat (length rs)"]
    by (simp_all add: buf_def dns_message_def)
  have "skip_questions (length qs) ((pre @ ?hdr) @ ?qs @ ?rs @ rest) len (length (pre @ ?hdr)) =
      Some (Some (length ((pre @ ?hdr) @ ?qs)))"
    using assms(3,7) by (intro skip_questions_wire) (simp_all add: dns_message_def)
  then have questions: "skip_questions (length qs) buf len 54 = Some (Some (54 + length ?qs))"
    using pre(1) by (simp add: buf_def dns_message_def)
  have "find_a_record (length rs) ((pre @ ?hdr @ ?qs) @ ?rs @ rest) len (length (pre @ ?hdr @ ?qs)) =
      Some (map_option rr_data (find is_a_record rs))"
    using assms(4,7) by (intro find_a_record_wire) (simp_all add: dns_message_def)
  then have answers: "find_a_record (length rs) buf len (54 + length ?qs) =
      Some (map_option rr_data (find is_a_record rs))"
    using pre(1) by (simp add: buf_def dns_message_def)
  have "unat (word_of_nat (length qs) :: u16) = length qs"
    "unat (word_of_nat (length rs) :: u16) = length rs"
    using assms(5,6) by (simp_all add: unat_of_nat)
  then show ?thesis
    unfolding buf_def [symmetric] using pre port len hdr questions answers assms(2)
    by (auto simp: dns_parse_response_def rd16_ok [of 34] rd16_ok [of 36])
qed

text \<open>A CNAME chain of two records, followed by an EDNS record in the additional section.\<close>

definition sample_prefix :: bytes where
  "sample_prefix = replicate 12 0 @ [8, 0, 0x45] @ replicate 8 0 @ [17] @ replicate 10 0 @ [0, 53] @ replicate 6 0"

definition sample_chain :: bytes where
  "sample_chain = dns_message 7 0x8180 [([1, 97, 0], 1, 1)]
     [\<lparr>rr_name = [0xC0, 12], rr_type = 5, rr_class = 1, rr_ttl = 60, rr_data = [1, 98, 0]\<rparr>,
      \<lparr>rr_name = [1, 98, 0], rr_type = 1, rr_class = 1, rr_ttl = 60, rr_data = [10, 0, 2, 3]\<rparr>] 0 1"

definition sample_edns :: bytes where "sample_edns = [0, 0, 41, 2, 0, 0, 0, 0, 0, 0, 0]"

lemma dns_first_a_record_witness:
  "dns_parse_response (sample_prefix @ sample_chain @ sample_edns) (length (sample_prefix @ sample_chain @ sample_edns)) 7 =
    Some (Some [10, 0, 2, 3])"
proof -
  have ptr: "wire_name [0xC0, 12]"
    unfolding wire_name_def by (rule exI [of _ "[]"]) (simp add: labels_ok_def name_end_def)
  have "labels_ok [[x]]" for x
    by (simp add: labels_ok_def)
  then have "wire_name (enc_labels [[x]] @ [0])" for x
    unfolding wire_name_def name_end_def by blast
  then have "wire_name [1, x, 0]" for x
    by simp
  with ptr show ?thesis
    unfolding sample_chain_def
    by (subst dns_first_a_record) (simp_all add: sample_prefix_def dns_carrier_def rr_ok_def is_a_record_def nth_append)
qed

end
