(* ===== verification/Dhcp.thy ===== *)
theory Dhcp
  imports Udp Print
begin

text \<open>
  \<^verbatim>\<open>common/src/dhcp.rs\<close> beyond the checksum: the DISCOVER payload, the broadcast frame around it,
  the response parser with its option walk, and the dotted-quad parser of option 66.
\<close>

section \<open>Building the request\<close>

definition build_discover :: "u32 \<Rightarrow> bytes \<Rightarrow> bytes option" where
  "build_discover xid mac = do {
     let pkt = replicate 300 0;
     pkt \<leftarrow> wr pkt 0 1;
     pkt \<leftarrow> wr pkt 1 1;
     pkt \<leftarrow> wr pkt 2 6;
     pkt \<leftarrow> put pkt 4 8 (be32 xid);
     pkt \<leftarrow> wr pkt 10 0x80;
     pkt \<leftarrow> put pkt 28 34 mac;
     pkt \<leftarrow> put pkt 236 240 [0x63, 0x82, 0x53, 0x63];
     let off = 240;
     pkt \<leftarrow> wr pkt off 53;
     pkt \<leftarrow> wr pkt (off + 1) 1;
     pkt \<leftarrow> wr pkt (off + 2) 1;
     let off = off + 3;
     pkt \<leftarrow> wr pkt off 55;
     pkt \<leftarrow> wr pkt (off + 1) 5;
     pkt \<leftarrow> wr pkt (off + 2) 1;
     pkt \<leftarrow> wr pkt (off + 3) 3;
     pkt \<leftarrow> wr pkt (off + 4) 6;
     pkt \<leftarrow> wr pkt (off + 5) 66;
     pkt \<leftarrow> wr pkt (off + 6) 67;
     let off = off + 7;
     wr pkt off 255
   }"

text \<open>The frame's identification, flags and checksum bytes are not written: the callers pass a
  zeroed frame.\<close>

definition build_eth_ip_udp :: "bytes \<Rightarrow> bytes \<Rightarrow> nat \<Rightarrow> bytes \<Rightarrow> (nat \<times> bytes) option" where
  "build_eth_ip_udp mac dhcp_payload dhcp_len frame = do {
     frame \<leftarrow> put frame 0 6 (replicate 6 0xFF);
     frame \<leftarrow> put frame 6 12 mac;
     frame \<leftarrow> wr frame 12 0x08;
     frame \<leftarrow> wr frame 13 0x00;
     let ip_off = 14;
     let ip_total_len = 20 + 8 + dhcp_len;
     frame \<leftarrow> wr frame ip_off 0x45;
     frame \<leftarrow> wr frame (ip_off + 1) 0x00;
     frame \<leftarrow> put frame (ip_off + 2) (ip_off + 4) (be16 (word_of_nat ip_total_len));
     frame \<leftarrow> wr frame (ip_off + 8) 64;
     frame \<leftarrow> wr frame (ip_off + 9) 17;
     frame \<leftarrow> put frame (ip_off + 12) (ip_off + 16) (replicate 4 0x00);
     frame \<leftarrow> put frame (ip_off + 16) (ip_off + 20) (replicate 4 0xFF);
     header \<leftarrow> slice frame ip_off (ip_off + 20);
     frame \<leftarrow> put frame (ip_off + 10) (ip_off + 12) (be16 (ip_checksum header));
     let udp_off = ip_off + 20;
     let udp_len = 8 + dhcp_len;
     frame \<leftarrow> put frame udp_off (udp_off + 2) [0x00, 0x44];
     frame \<leftarrow> put frame (udp_off + 2) (udp_off + 4) [0x00, 0x43];
     frame \<leftarrow> put frame (udp_off + 4) (udp_off + 6) (be16 (word_of_nat udp_len));
     let dhcp_off = udp_off + 8;
     payload \<leftarrow> slice dhcp_payload 0 dhcp_len;
     frame \<leftarrow> put frame dhcp_off (dhcp_off + dhcp_len) payload;
     ret (dhcp_off + dhcp_len, frame)
   }"

section \<open>The dotted quad of option 66\<close>

text \<open>
  The loop state is \<open>(ip, octet, octet_idx, has_digit)\<close>; a 0 byte ends the string. \<open>octet\<close> is a
  \<open>u16\<close> and stays below 2560 because a value above 255 returns at once.
\<close>

fun parse_ip_from :: "bytes \<Rightarrow> bytes \<times> u16 \<times> nat \<times> bool \<Rightarrow> (bytes \<times> u16 \<times> nat \<times> bool) option" where
  "parse_ip_from [] st = Some st"
| "parse_ip_from (b # s) (ip, octet, octet_idx, has_digit) =
     (if b = 0 then Some (ip, octet, octet_idx, has_digit)
      else if b \<ge> 48 \<and> b \<le> 57 then
        let octet = octet * 10 + ucast (b - 48) in
        if octet > 255 then None else parse_ip_from s (ip, octet, octet_idx, True)
      else if b = 46 then
        if \<not> has_digit \<or> octet_idx \<ge> 3 then None
        else parse_ip_from s (ip[octet_idx := ucast octet], 0, octet_idx + 1, False)
      else None)"

definition parse_ip_string :: "bytes \<Rightarrow> bytes option" where
  "parse_ip_string s =
     (case parse_ip_from s (replicate 4 0, 0, 0, False) of None \<Rightarrow> None
      | Some (ip, octet, octet_idx, has_digit) \<Rightarrow>
          if \<not> has_digit \<or> octet_idx \<noteq> 3 then None else Some (ip[octet_idx := ucast octet]))"

section \<open>The response\<close>

record dhcp_config =
  yiaddr :: bytes
  subnet :: bytes
  gateway :: bytes
  dns :: bytes
  next_server :: bytes
  bootfile :: bytes

record dhcp_walk = dhcp_config +
  dhcp_msg_type :: u8

text \<open>One option, already inside the packet: \<open>buf[off]\<close> is its type, \<open>buf[off + 1]\<close> its length.\<close>

definition apply_option :: "bytes \<Rightarrow> nat \<Rightarrow> u8 \<Rightarrow> nat \<Rightarrow> dhcp_walk \<Rightarrow> dhcp_walk option" where
  "apply_option buf off opt_type opt_len st =
     (if opt_type = 53 \<and> opt_len = 1 then do {
        b \<leftarrow> rd buf (off + 2); ret (st\<lparr>dhcp_msg_type := b\<rparr>)
      } else if opt_type = 1 \<and> opt_len = 4 then do {
        a \<leftarrow> slice buf (off + 2) (off + 6); ret (st\<lparr>subnet := a\<rparr>)
      } else if opt_type = 3 \<and> opt_len \<ge> 4 then do {
        a \<leftarrow> slice buf (off + 2) (off + 6); ret (st\<lparr>gateway := a\<rparr>)
      } else if opt_type = 6 \<and> opt_len \<ge> 4 then do {
        a \<leftarrow> slice buf (off + 2) (off + 6); ret (st\<lparr>dns := a\<rparr>)
      } else if opt_type = 66 \<and> opt_len \<ge> 4 then
        if opt_len = 4 then do {
          a \<leftarrow> slice buf (off + 2) (off + 6); ret (st\<lparr>next_server := a\<rparr>)
        } else do {
          s \<leftarrow> slice buf (off + 2) (off + 2 + opt_len);
          ret (case parse_ip_string s of Some ip \<Rightarrow> st\<lparr>next_server := ip\<rparr> | None \<Rightarrow> st)
        }
      else if opt_type = 67 \<and> opt_len > 0 then do {
        let copy_len = min opt_len 127;
        s \<leftarrow> slice buf (off + 2) (off + 2 + copy_len);
        f \<leftarrow> put (bootfile st) 0 copy_len s;
        f \<leftarrow> wr f copy_len 0;
        ret (st\<lparr>bootfile := f\<rparr>)
      } else ret st)"

function walk_options :: "bytes \<Rightarrow> nat \<Rightarrow> nat \<Rightarrow> dhcp_walk \<Rightarrow> dhcp_walk option" where
  "walk_options buf len off st =
     (if off + 1 < len then do {
        opt_type \<leftarrow> rd buf off;
        if opt_type = 255 then ret st else do {
        opt_len \<leftarrow> map_option unat (rd buf (off + 1));
        if off + 2 + opt_len > len then ret st else do {
        st \<leftarrow> apply_option buf off opt_type opt_len st;
        walk_options buf len (off + (2 + opt_len)) st
        }}
      } else ret st)"
  by pat_completeness auto
termination
  by (relation "measure (\<lambda>(buf, len, off, st). len - off)") auto

declare walk_options.simps [simp del]

text \<open>The BOOTP \<open>file\<close> field up to its first 0, into the zeroed 128-byte \<open>bootfile\<close>.\<close>

fun copy_file :: "bytes \<Rightarrow> nat \<Rightarrow> bytes \<Rightarrow> bytes option" where
  "copy_file [] n f = wr f n 0"
| "copy_file (b # bs) n f = (if b = 0 then wr f n 0 else do { f \<leftarrow> wr f n b; copy_file bs (n + 1) f })"

text \<open>The parser from the magic cookie on, and the whole of it.\<close>

definition dhcp_parse_payload :: "bytes \<Rightarrow> nat \<Rightarrow> nat \<Rightarrow> u32 \<Rightarrow> bytes \<Rightarrow> dhcp_config option option" where
  "dhcp_parse_payload buf len dhcp_off xid mac = do {
     cookie \<leftarrow> match_at buf [(dhcp_off + 236, 0x63), (dhcp_off + 237, 0x82),
                             (dhcp_off + 238, 0x53), (dhcp_off + 239, 0x63)];
     if \<not> cookie then ret None else do {
     x0 \<leftarrow> rd buf (dhcp_off + 4);
     x1 \<leftarrow> rd buf (dhcp_off + 5);
     x2 \<leftarrow> rd buf (dhcp_off + 6);
     x3 \<leftarrow> rd buf (dhcp_off + 7);
     if from_be32 x0 x1 x2 x3 \<noteq> xid then ret None else do {
     mac_match \<leftarrow> match_at buf (map (\<lambda>i. (dhcp_off + 28 + i, mac ! i)) [0..<6]);
     if \<not> mac_match then ret None else do {
     yi \<leftarrow> slice buf (dhcp_off + 16) (dhcp_off + 20);
     si \<leftarrow> slice buf (dhcp_off + 20) (dhcp_off + 24);
     file_field \<leftarrow> slice buf (dhcp_off + 108) (dhcp_off + 235);
     bf \<leftarrow> copy_file file_field 0 (replicate 128 0);
     st \<leftarrow> walk_options buf len (dhcp_off + 240)
       \<lparr>yiaddr = yi, subnet = replicate 4 255, gateway = replicate 4 0, dns = replicate 4 0,
        next_server = si, bootfile = bf, dhcp_msg_type = 0\<rparr>;
     if dhcp_msg_type st \<noteq> 2 \<and> dhcp_msg_type st \<noteq> 5 then ret None
     else ret (Some (dhcp_config.truncate st))
     }}}
   }"

definition dhcp_parse_response :: "bytes \<Rightarrow> nat \<Rightarrow> u32 \<Rightarrow> bytes \<Rightarrow> dhcp_config option option" where
  "dhcp_parse_response buf len xid mac =
     (if len < 282 then ret None
      else do {
        ipv4 \<leftarrow> match_at buf [(12, 0x08), (13, 0x00)];
        if \<not> ipv4 then ret None else do {
        let ip_off = 14;
        b \<leftarrow> rd buf ip_off;
        let ip_hdr_len = unat (b AND 0x0F) * 4;
        if ip_hdr_len < 20 then ret None else do {
        proto \<leftarrow> rd buf (ip_off + 9);
        if proto \<noteq> 17 then ret None else do {
        let udp_off = ip_off + ip_hdr_len;
        let dhcp_off = udp_off + 8;
        let dhcp_len = len - dhcp_off;
        if dhcp_len < 240 then ret None else if dhcp_off + 4 > len then ret None
        else dhcp_parse_payload buf len dhcp_off xid mac
        }}}
      })"

section \<open>The request on the wire\<close>

definition discover_payload :: "u32 \<Rightarrow> bytes \<Rightarrow> bytes" where
  "discover_payload xid mac =
     [1, 1, 6, 0] @ be32 xid @ [0, 0, 0x80] @ replicate 17 0 @ mac @ replicate 202 0 @
     [0x63, 0x82, 0x53, 0x63] @ [53, 1, 1] @ [55, 5, 1, 3, 6, 66, 67] @ [255] @ replicate 49 0"

lemma build_discover_payload:
  assumes "length mac = 6"
  shows "build_discover xid mac = Some (discover_payload xid mac)"
  using assms
  by (simp add: build_discover_def overlay_snoc overlay_gap)
    (simp add: discover_payload_def overlay_front numeral_2_eq_2)

type_synonym dhcp_params = bytes

definition dhcp_wf :: "bytes \<Rightarrow> bytes \<Rightarrow> bool" where
  "dhcp_wf mac frame \<longleftrightarrow> length mac = 6 \<and> length frame = 1514 \<and> frame ! 24 = 0 \<and> frame ! 25 = 0"

definition dhcp_frame :: "bytes \<Rightarrow> bytes \<Rightarrow> bytes \<Rightarrow> (nat \<times> bytes) option" where
  "dhcp_frame mac payload frame = build_eth_ip_udp mac payload (length payload) frame"

lemma build_eth_ip_udp_envelope:
  assumes "dhcp_wf mac frame" and "dhcp_len \<le> 1472" and "dhcp_len \<le> length payload"
  shows "\<exists>f. build_eth_ip_udp mac payload dhcp_len frame = Some (42 + dhcp_len, f) \<and>
    udp_envelope (take dhcp_len payload) f \<and> seg f 34 38 = [0, 68, 0, 67]"
proof -
  define h where "h = replicate 6 0xFF @ mac @ [0x08, 0x00, 0x45, 0] @
    be16 (word_of_nat (28 + dhcp_len)) @ seg frame 18 22 @ [64, 17] @ seg frame 24 26 @
    replicate 4 0 @ replicate 4 0xFF"
  define u where "u = [0, 68, 0, 67] @ be16 (word_of_nat (8 + dhcp_len)) @ seg frame 40 42 @
    take dhcp_len payload"
  define c where "c = ip_checksum (seg (overlay frame 0 h) 14 34)"
  define f where "f = overlay (overlay (overlay frame 0 h) 24 (be16 c)) 34 u"
  have mac: "length mac = 6" and frame: "length frame = 1514" "frame ! 24 = 0" "frame ! 25 = 0"
    using assms(1) by (simp_all add: dhcp_wf_def)
  have h: "length h = 34" "h ! 24 = 0" "h ! 25 = 0" "h ! 12 = 0x08" "h ! 13 = 0" "h ! 14 = 0x45"
    "h ! 23 = 17"
    using mac frame by (simp_all add: h_def nth_append be16_def seg_step)
  have u: "length u = 8 + dhcp_len" "from_be16 (u ! 4) (u ! 5) = word_of_nat (8 + dhcp_len)"
    "seg u 8 (8 + dhcp_len) = take dhcp_len payload" "seg u 0 4 = [0, 68, 0, 67]"
    using assms(3) frame by (simp_all add: u_def nth_append nth_be seg_def)
  have "build_eth_ip_udp mac payload dhcp_len frame = Some (42 + dhcp_len, f)"
    using assms(2,3) mac frame
    by (simp add: build_eth_ip_udp_def overlay_snoc overlay_gap f_def c_def h_def u_def seg_0 seg_overlay_other
        del: of_nat_add)
  moreover have "udp_envelope (take dhcp_len payload) f"
    using assms(2,3) frame h u
    by (intro envelope_intro [where ?f0.0 = "overlay frame 0 h"])
      (simp_all add: f_def c_def seg_overlay_other nth_overlay seg_overlay_tail)
  moreover have "seg f 34 38 = [0, 68, 0, 67]"
    using assms(2,3) frame h u by (simp_all add: f_def seg_overlay_other seg_overlay_tail)
  ultimately show ?thesis
    by blast
qed

interpretation dhcp_udp: udp_framing dhcp_wf dhcp_frame
proof
  fix mac frame payload :: bytes
  assume "dhcp_wf mac frame" and "length payload \<le> 1472"
  then show "\<exists>f. dhcp_frame mac payload frame = Some (42 + length payload, f) \<and> udp_envelope payload f"
    using build_eth_ip_udp_envelope [of mac frame "length payload" payload]
    by (auto simp: dhcp_frame_def)
qed

section \<open>The dotted quad\<close>

lemma parse_ip_digit:
  assumes "n < 10" and "unat octet * 10 + n \<le> 255"
  shows "parse_ip_from ((48 + word_of_nat n) # s) (ip, octet, idx, dg) =
    parse_ip_from s (ip, octet * 10 + word_of_nat n, idx, True)"
proof -
  have d: "unat (48 + word_of_nat n :: u8) = 48 + n"
    using assms(1) by (simp add: unat_word_ariths unat_of_nat)
  have "unat (word_of_nat n :: u8) = n"
    using assms by (simp add: unat_of_nat)
  then have w: "ucast (word_of_nat n :: u8) = (word_of_nat n :: u16)"
    by (metis of_nat_unat)
  have "unat (octet * 10 + word_of_nat n) = unat octet * 10 + n"
    using assms by (simp add: unat_word_ariths unat_of_nat)
  then have "\<not> octet * 10 + word_of_nat n > 255"
    using assms(2) by (simp add: word_less_nat_alt)
  moreover have "(48 + word_of_nat n :: u8) \<noteq> 0" "48 \<le> (48 + word_of_nat n :: u8)"
    "(48 + word_of_nat n :: u8) \<le> 57"
    unfolding word_le_nat_alt word_eq_iff_unsigned [where ?'a = nat] d using assms(1) by simp_all
  ultimately show ?thesis
    by (simp add: w del: word_not_simps)
qed

lemma parse_ip_octet:
  "n \<le> 255 \<Longrightarrow> parse_ip_from (dec_str n @ s) (ip, 0, idx, dg) =
    parse_ip_from s (ip, word_of_nat n, idx, True)"
proof (induction n arbitrary: s rule: dec_str.induct)
  case (1 n)
  show ?case
  proof (cases "n < 10")
    case True
    then show ?thesis
      by (simp only: dec_str_small append.simps) (simp add: parse_ip_digit del: parse_ip_from.simps)
  next
    case False
    have "unat (word_of_nat (n div 10) :: u16) * 10 + n mod 10 \<le> 255"
      using 1(2) by (simp add: unat_of_nat)
    moreover have "word_of_nat (n div 10) * 10 + word_of_nat (n mod 10) = (word_of_nat n :: u16)"
      by (metis mult_div_mod_eq of_nat_add of_nat_mult of_nat_numeral mult.commute)
    ultimately show ?thesis
      using 1 False by (simp add: dec_str_step parse_ip_digit del: parse_ip_from.simps(2))
  qed
qed

lemma parse_ip_dot:
  "idx < 3 \<Longrightarrow> parse_ip_from (46 # s) (ip, octet, idx, True) =
    parse_ip_from s (ip[idx := ucast octet], 0, idx + 1, False)"
  by simp

lemma parse_ip_string_dotted:
  assumes "length ip = 4"
  shows "parse_ip_string (dotted ip) = Some ip"
proof -
  obtain a b c d where ip: "ip = [a, b, c, d]"
    using assms by (auto simp: length_Suc_conv eval_nat_numeral)
  have le: "unat (x :: u8) \<le> 255" for x
    using unat_u8 [of x] by simp
  have w: "ucast (ucast x :: u16) = x" for x :: u8
    by (rule ucast_up_ucast_id) (simp add: is_up)
  have "dotted ip = dec_str (unat a) @ 46 # dec_str (unat b) @ 46 # dec_str (unat c) @ 46 #
      dec_str (unat d) @ []"
    by (simp add: dotted_def ip)
  then show ?thesis
    unfolding parse_ip_string_def
    by (simp only: parse_ip_octet [OF le] parse_ip_dot)
      (simp add: parse_ip_octet [OF le] parse_ip_dot w ip eval_nat_numeral del: parse_ip_from.simps(2))
qed

text \<open>Option 66 in text form: \<open>parse_ip_string\<close> reads back every address printed as a dotted
  quad, stopping at a terminating 0 or at the end of the option.\<close>

theorem parse_ip_string_roundtrip:
  assumes "length ip = 4"
  shows "parse_ip_string (dotted ip) = Some ip"
  using assms by (rule parse_ip_string_dotted)

lemma parse_ip_string_roundtrip_witness:
  "parse_ip_string (dotted [10, 0, 255, 3]) = Some [10, 0, 255, 3]"
  by (rule parse_ip_string_roundtrip) simp

section \<open>The option walk\<close>

text \<open>What one option does to the configuration, by its type and data alone.\<close>

definition option_effect :: "u8 \<times> bytes \<Rightarrow> dhcp_walk \<Rightarrow> dhcp_walk" where
  "option_effect = (\<lambda>(t, d) st.
     if t = 53 \<and> length d = 1 then st\<lparr>dhcp_msg_type := d ! 0\<rparr>
     else if t = 1 \<and> length d = 4 then st\<lparr>subnet := d\<rparr>
     else if t = 3 \<and> length d \<ge> 4 then st\<lparr>gateway := take 4 d\<rparr>
     else if t = 6 \<and> length d \<ge> 4 then st\<lparr>dns := take 4 d\<rparr>
     else if t = 66 \<and> length d = 4 then st\<lparr>next_server := d\<rparr>
     else if t = 66 \<and> length d > 4 then
       (case parse_ip_string d of Some ip \<Rightarrow> st\<lparr>next_server := ip\<rparr> | None \<Rightarrow> st)
     else if t = 67 \<and> length d > 0 then
       st\<lparr>bootfile := overlay (bootfile st) 0 (take 127 d @ [0])\<rparr>
     else st)"

lemma length_bootfile_effect [simp]: "length (bootfile (option_effect op st)) = length (bootfile st)"
  by (auto simp: option_effect_def split: prod.splits option.splits)

lemma apply_option_effect:
  assumes d: "seg buf (off + 2) (off + 2 + length d) = d" and "off + 2 + length d \<le> length buf"
    and "length (bootfile st) = 128"
  shows "apply_option buf off t (length d) st = Some (option_effect (t, d) st)"
proof -
  have nth: "buf ! (off + 2 + i) = d ! i" if "i < length d" for i
    using arg_cong [OF d, of "\<lambda>xs. xs ! i"] that assms(2) by (simp add: nth_seg)
  have one: "rd buf (off + 2) = Some (d ! 0)" if "length d = 1"
    using nth [of 0] that assms(2) by simp
  have sl: "slice buf (off + 2) (off + 2 + n) = Some (take n d)" if "n \<le> length d" for n
    using arg_cong [OF d, of "take n"] that assms(2) by (simp add: seg_def min_absorb2)
  have four: "slice buf (off + 2) (off + 6) = Some (take 4 d)" if "4 \<le> length d"
    using sl [OF that] by (simp add: numeral_eq_Suc)
  have t127: "take (min (length d) 127) d = take 127 d"
    by (simp add: min_def)
  have name: "do {
      s \<leftarrow> slice buf (off + 2) (off + 2 + min (length d) 127);
      f \<leftarrow> put (bootfile st) 0 (min (length d) 127) s;
      f \<leftarrow> wr f (min (length d) 127) 0;
      ret (st\<lparr>bootfile := f\<rparr>)
    } = Some (st\<lparr>bootfile := overlay (bootfile st) 0 (take 127 d @ [0])\<rparr>)"
    using sl [of "min (length d) 127"] assms(3) t127 by (simp add: overlay_snoc)
  consider "t = 53 \<and> length d = 1" | "t = 1 \<and> length d = 4" | "t = 3 \<and> length d \<ge> 4"
    | "t = 6 \<and> length d \<ge> 4" | "t = 66 \<and> length d \<ge> 4" | "t = 67 \<and> length d > 0"
    | (other) "\<not> (t = 53 \<and> length d = 1) \<and> \<not> (t = 1 \<and> length d = 4) \<and> \<not> (t = 3 \<and> length d \<ge> 4)
        \<and> \<not> (t = 6 \<and> length d \<ge> 4) \<and> \<not> (t = 66 \<and> length d \<ge> 4) \<and> \<not> (t = 67 \<and> length d > 0)"
    by blast
  then show ?thesis
  proof cases
    case 5
    then show ?thesis
      using four sl [of "length d"] by (auto simp: apply_option_def option_effect_def)
  next
    case other
    then have "apply_option buf off t (length d) st = Some st"
      unfolding apply_option_def by (simp only: if_False)
    moreover have "\<not> (t = 66 \<and> length d = 4)" "\<not> (t = 66 \<and> length d > 4)"
      using other by auto
    then have "option_effect (t, d) st = st"
      unfolding option_effect_def prod.case using other by (simp only: if_False)
    ultimately show ?thesis by simp
  qed (use one four name in \<open>simp_all add: apply_option_def option_effect_def\<close>)
qed

definition enc_option :: "u8 \<times> bytes \<Rightarrow> bytes" where
  "enc_option = (\<lambda>(t, d). t # word_of_nat (length d) # d)"

lemma walk_options_wire:
  assumes "\<forall>(t, d) \<in> set opts. t \<noteq> 255 \<and> length d < 256"
    and "length (bootfile st) = 128"
    and "length (pre @ concat (map enc_option opts)) < len" and "len \<le> length (pre @ concat (map enc_option opts) @ 255 # rest)"
  shows "walk_options (pre @ concat (map enc_option opts) @ 255 # rest) len (length pre) st =
    Some (fold option_effect opts st)"
  using assms
proof (induction opts arbitrary: pre st)
  case Nil
  then show ?case
    by (subst walk_options.simps) (simp add: nth_append)
next
  case (Cons opt opts)
  obtain t d where opt: "opt = (t, d)"
    by (cases opt)
  define buf where "buf = pre @ concat (map enc_option (opt # opts)) @ 255 # rest"
  have l: "unat (word_of_nat (length d) :: u8) = length d"
    using Cons.prems(1) by (simp add: opt unat_of_nat)
  have "seg buf (length pre + 2) (length pre + 2 + length d) = d"
    by (simp add: buf_def opt enc_option_def seg_def)
  then have "apply_option buf (length pre) t (length d) st = Some (option_effect (t, d) st)"
    using Cons.prems(2) by (intro apply_option_effect) (simp_all add: buf_def opt enc_option_def)
  moreover have "walk_options buf len (length (pre @ enc_option opt)) (option_effect opt st) =
      Some (fold option_effect opts (option_effect opt st))"
    using Cons.prems Cons.IH [of "option_effect opt st" "pre @ enc_option opt"]
    by (simp add: buf_def)
  moreover have "buf ! length pre = t" "buf ! Suc (length pre) = word_of_nat (length d)"
    by (simp_all add: buf_def opt enc_option_def nth_append)
  ultimately have "walk_options buf len (length pre) st = Some (fold option_effect (opt # opts) st)"
    using Cons.prems l
    by (subst walk_options.simps) (simp add: opt buf_def [symmetric] enc_option_def, simp add: buf_def opt enc_option_def)
  then show ?case
    by (simp add: buf_def)
qed

section \<open>The whole response\<close>

lemma copy_file_ok:
  "n + length bs < length f \<Longrightarrow>
   copy_file bs n f = Some (overlay f n (takeWhile (\<lambda>b. b \<noteq> 0) bs @ [0]))"
proof (induction bs n f rule: copy_file.induct)
  case (2 b bs n f)
  then show ?case
    using length_takeWhile_le [of "\<lambda>b. b \<noteq> 0" bs] by (simp add: overlay_snoc)
qed simp

lemma apply_option_total:
  assumes "off + 2 + n \<le> length buf" and "length (bootfile st) = 128"
  shows "apply_option buf off t n st =
    Some (option_effect (t, seg buf (off + 2) (off + 2 + n)) st)"
  using apply_option_effect [of buf off "seg buf (off + 2) (off + 2 + n)" st t] assms by simp

lemma yiaddr_effect [simp]: "yiaddr (option_effect op st) = yiaddr st"
  by (auto simp: option_effect_def split: prod.splits option.splits)

lemma walk_options_invariant:
  "len \<le> length buf \<Longrightarrow> length (bootfile st) = 128 \<Longrightarrow>
   \<exists>st'. walk_options buf len off st = Some st' \<and> yiaddr st' = yiaddr st \<and> length (bootfile st') = 128"
proof (induction buf len off st rule: walk_options.induct)
  case (1 buf len off st)
  show ?case
    using 1
    by (subst walk_options.simps)
      (auto simp: apply_option_total, metis yiaddr_effect length_bootfile_effect)
qed

text \<open>What a response must carry, at the offset \<open>o\<close> of the DHCP payload.\<close>

definition dhcp_matches :: "bytes \<Rightarrow> nat \<Rightarrow> u32 \<Rightarrow> bytes \<Rightarrow> bool" where
  "dhcp_matches buf off xid mac \<longleftrightarrow>
     seg buf (off + 236) (off + 240) = [0x63, 0x82, 0x53, 0x63] \<and>
     from_be32 (buf ! (off + 4)) (buf ! (off + 5)) (buf ! (off + 6)) (buf ! (off + 7)) = xid \<and>
     seg buf (off + 28) (off + 34) = mac"

definition dhcp_initial :: "bytes \<Rightarrow> nat \<Rightarrow> dhcp_walk" where
  "dhcp_initial buf off =
     \<lparr>yiaddr = seg buf (off + 16) (off + 20), subnet = replicate 4 255, gateway = replicate 4 0,
      dns = replicate 4 0, next_server = seg buf (off + 20) (off + 24),
      bootfile = overlay (replicate 128 0) 0
        (takeWhile (\<lambda>b. b \<noteq> 0) (seg buf (off + 108) (off + 235)) @ [0]),
      dhcp_msg_type = 0\<rparr>"

lemma match_at_seg:
  assumes "length ys = n" and "a + n \<le> length xs"
  shows "match_at xs (map (\<lambda>i. (a + i, ys ! i)) [0..<n]) = Some (seg xs a (a + n) = ys)"
proof -
  have "(\<forall>i<n. xs ! (a + i) = ys ! i) \<longleftrightarrow> seg xs a (a + n) = ys"
    using assms nth_seg [of a _ "a + n" xs] by (auto intro!: nth_equalityI)
  then show ?thesis
    using assms by auto
qed

lemma dhcp_parse_payload_eq:
  assumes "off + 240 \<le> len" and "len \<le> length buf" and "length mac = 6"
  shows "dhcp_parse_payload buf len off xid mac =
    (if dhcp_matches buf off xid mac
     then map_option (\<lambda>st. if dhcp_msg_type st \<noteq> 2 \<and> dhcp_msg_type st \<noteq> 5 then None
         else Some (dhcp_config.truncate st)) (walk_options buf len (off + 240) (dhcp_initial buf off))
     else Some None)"
proof -
  have mac: "match_at buf (map (\<lambda>i. (off + 28 + i, mac ! i)) [0..<6]) =
      Some (seg buf (off + 28) (off + 28 + 6) = mac)"
    using assms by (intro match_at_seg) simp_all
  have cookie: "match_at buf [(off + 236, 0x63), (off + 237, 0x82), (off + 238, 0x53), (off + 239, 0x63)] =
      Some (seg buf (off + 236) (off + 240) = [0x63, 0x82, 0x53, 0x63])"
    using assms match_at_seg [of "[0x63, 0x82, 0x53, 0x63]" 4 "off + 236" buf]
    by (simp add: upt_rec ac_simps del: match_at_ok match_at.simps)
  have file_field: "copy_file (seg buf (off + 108) (off + 235)) 0 (replicate 128 0) =
      Some (overlay (replicate 128 0) 0 (takeWhile (\<lambda>b. b \<noteq> 0) (seg buf (off + 108) (off + 235)) @ [0]))"
    by (rule copy_file_ok) simp
  have tl: "off + 28 + 6 = off + 34"
    by simp
  show ?thesis
    unfolding dhcp_parse_payload_def mac cookie tl dhcp_matches_def
    using assms
    by (auto simp: file_field dhcp_initial_def map_option_bind map_conv_bind_option split: Option.bind_splits)
qed

lemma dhcp_parse_response_eq:
  assumes "len \<le> length buf"
  shows "dhcp_parse_response buf len xid mac =
    (let off = 22 + unat (buf ! 14 AND 0x0F) * 4 in
     if 282 \<le> len \<and> buf ! 12 = 0x08 \<and> buf ! 13 = 0x00 \<and> 42 \<le> off \<and> buf ! 23 = 17 \<and> off + 240 \<le> len
     then dhcp_parse_payload buf len off xid mac else Some None)"
proof -
  define off where "off = 22 + unat (buf ! 14 AND 0x0F) * 4"
  have "14 + unat (buf ! 14 AND 0x0F) * 4 + 8 = off"
    "unat (buf ! 14 AND 0x0F) * 4 < 20 \<longleftrightarrow> \<not> 42 \<le> off"
    by (auto simp: off_def)
  with assms show ?thesis
    unfolding Let_def off_def [symmetric] by (auto simp: dhcp_parse_response_def Let_def)
qed

text \<open>C33. \<open>parse_response\<close> on any received frame returns, whatever its header lengths and option
  lengths are, and when it yields a configuration the frame was of at least 282 bytes, with the EtherType
  of IPv4, an IP header of at least 20 bytes and the protocol number of UDP, and carried, at its
  DHCP payload, the magic cookie, our transaction identifier and our MAC, and \<open>yiaddr\<close> is that
  payload's: a response to another client or another transaction is never accepted.\<close>

theorem dhcp_response_authentic:
  assumes "len \<le> length buf" and "length mac = 6"
  shows "case dhcp_parse_response buf len xid mac of None \<Rightarrow> False
    | Some None \<Rightarrow> True
    | Some (Some cfg) \<Rightarrow> 282 \<le> len \<and> buf ! 12 = 0x08 \<and> buf ! 13 = 0x00 \<and> buf ! 23 = 17 \<and>
        (\<exists>off. off = 22 + 4 * unat (buf ! 14 AND 0x0F) \<and> 20 \<le> 4 * unat (buf ! 14 AND 0x0F) \<and> off + 240 \<le> len \<and>
          dhcp_matches buf off xid mac \<and> yiaddr cfg = seg buf (off + 16) (off + 20) \<and>
          length (bootfile cfg) = 128)"
proof -
  define off where "off = 22 + unat (buf ! 14 AND 0x0F) * 4"
  show ?thesis
  proof (cases "282 \<le> len \<and> buf ! 12 = 0x08 \<and> buf ! 13 = 0x00 \<and> 42 \<le> off \<and> buf ! 23 = 17 \<and>
      off + 240 \<le> len \<and> dhcp_matches buf off xid mac")
    case True
    define st0 where "st0 = dhcp_initial buf off"
    have "length (bootfile st0) = 128"
      by (simp add: st0_def dhcp_initial_def)
    then obtain st where st: "walk_options buf len (off + 240) st0 = Some st"
      "yiaddr st = yiaddr st0" "length (bootfile st) = 128"
      using walk_options_invariant [OF assms(1)] by blast
    have "dhcp_parse_response buf len xid mac =
        Some (if dhcp_msg_type st \<noteq> 2 \<and> dhcp_msg_type st \<noteq> 5 then None
          else Some (dhcp_config.truncate st))"
      using True st(1) assms
      by (simp add: dhcp_parse_response_eq dhcp_parse_payload_eq off_def [symmetric] st0_def Let_def)
    with True st(2,3) show ?thesis
      by (auto simp: dhcp_config.truncate_def st0_def dhcp_initial_def off_def mult.commute)
  next
    case False
    then have "dhcp_parse_response buf len xid mac = Some None"
      using assms
      by (auto simp: dhcp_parse_response_eq dhcp_parse_payload_eq off_def [symmetric] Let_def)
    then show ?thesis by simp
  qed
qed

section \<open>A complete exchange\<close>

text \<open>A server's message: the BOOTP fields, the cookie, the options, the end option. The options are those
  with a length byte; the pad option (type 0) has none, and the code does not treat it as such.\<close>

record dhcp_reply =
  r_head :: bytes
  r_xid :: u32
  r_flags :: bytes
  r_yiaddr :: bytes
  r_siaddr :: bytes
  r_giaddr :: bytes
  r_chaddr :: bytes
  r_sname :: bytes
  r_file :: bytes
  r_options :: "(u8 \<times> bytes) list"

definition reply_ok :: "dhcp_reply \<Rightarrow> bool" where
  "reply_ok r \<longleftrightarrow> length (r_head r) = 4 \<and> length (r_flags r) = 8 \<and> length (r_yiaddr r) = 4 \<and>
     length (r_siaddr r) = 4 \<and> length (r_giaddr r) = 4 \<and> length (r_chaddr r) = 6 \<and>
     length (r_sname r) = 74 \<and> length (r_file r) = 128 \<and>
     (\<forall>(t, d) \<in> set (r_options r). t \<noteq> 0 \<and> t \<noteq> 255 \<and> length d < 256)"

definition enc_reply :: "dhcp_reply \<Rightarrow> bytes" where
  "enc_reply r = r_head r @ be32 (r_xid r) @ r_flags r @ r_yiaddr r @ r_siaddr r @ r_giaddr r @
     r_chaddr r @ r_sname r @ r_file r @ [0x63, 0x82, 0x53, 0x63] @
     concat (map enc_option (r_options r)) @ [255]"

definition dhcp_carrier :: "bytes \<Rightarrow> bool" where
  "dhcp_carrier pre \<longleftrightarrow> length pre = 42 \<and> pre ! 12 = 0x08 \<and> pre ! 13 = 0x00 \<and> pre ! 14 = 0x45 \<and>
     pre ! 23 = 17"

text \<open>The configuration a reply means: its fields, then its options in order.\<close>

definition reply_config :: "dhcp_reply \<Rightarrow> dhcp_walk" where
  "reply_config r = fold option_effect (r_options r)
     \<lparr>yiaddr = r_yiaddr r, subnet = replicate 4 255, gateway = replicate 4 0, dns = replicate 4 0,
      next_server = r_siaddr r,
      bootfile = overlay (replicate 128 0) 0 (takeWhile (\<lambda>b. b \<noteq> 0) (take 127 (r_file r)) @ [0]),
      dhcp_msg_type = 0\<rparr>"

lemma reply_parsed:
  assumes "dhcp_carrier pre" and "reply_ok r"
    and "length (pre @ enc_reply r) \<le> len" and "len \<le> length (pre @ enc_reply r @ rest)"
  shows "dhcp_parse_response (pre @ enc_reply r @ rest) len (r_xid r) (r_chaddr r) =
    Some (if dhcp_msg_type (reply_config r) \<in> {2, 5}
      then Some (dhcp_config.truncate (reply_config r)) else None)"
proof -
  define buf where "buf = pre @ enc_reply r @ rest"
  define mid where "mid = r_head r @ be32 (r_xid r) @ r_flags r @ r_yiaddr r @ r_siaddr r @ r_giaddr r @
     r_chaddr r @ r_sname r @ r_file r @ [0x63, 0x82, 0x53, 0x63]"
  have pre: "length pre = 42" "buf ! 12 = 0x08" "buf ! 13 = 0x00" "buf ! 14 = 0x45" "buf ! 23 = 17"
    using assms(1) by (simp_all add: dhcp_carrier_def buf_def nth_append)
  have buf: "buf = pre @ mid @ concat (map enc_option (r_options r)) @ 255 # rest"
    by (simp add: buf_def mid_def enc_reply_def)
  have mid: "length mid = 240"
    using assms(2) by (simp add: reply_ok_def mid_def)
  have len: "283 \<le> len" "len \<le> length buf"
    using assms(2-4) pre(1) by (simp_all add: buf_def enc_reply_def reply_ok_def)
  have sg: "seg buf (42 + i) (42 + j) = seg mid i j" if "j \<le> 240" for i j
    using that pre(1) mid by (simp add: buf seg_def)
  have nt: "buf ! (42 + i) = mid ! i" if "i < 240" for i
    using that pre(1) mid by (simp add: buf nth_append)
  have "seg buf (42 + 236) (42 + 240) = [0x63, 0x82, 0x53, 0x63]"
    "seg buf (42 + 28) (42 + 34) = r_chaddr r" "seg buf (42 + 16) (42 + 20) = r_yiaddr r"
    "seg buf (42 + 20) (42 + 24) = r_siaddr r" "seg buf (42 + 108) (42 + 235) = take 127 (r_file r)"
    using assms(2) by (subst sg; simp add: reply_ok_def seg_def mid_def)+
  moreover have "buf ! (42 + 4) = be32 (r_xid r) ! 0" "buf ! (42 + 5) = be32 (r_xid r) ! 1"
    "buf ! (42 + 6) = be32 (r_xid r) ! 2" "buf ! (42 + 7) = be32 (r_xid r) ! 3"
    using assms(2) by (subst nt; simp add: reply_ok_def nth_append mid_def)+
  ultimately have matches: "dhcp_matches buf 42 (r_xid r) (r_chaddr r)"
    and init: "dhcp_initial buf 42 =
     \<lparr>yiaddr = r_yiaddr r, subnet = replicate 4 255, gateway = replicate 4 0, dns = replicate 4 0,
      next_server = r_siaddr r,
      bootfile = overlay (replicate 128 0) 0 (takeWhile (\<lambda>b. b \<noteq> 0) (take 127 (r_file r)) @ [0]),
      dhcp_msg_type = 0\<rparr>"
    by (simp_all add: dhcp_matches_def dhcp_initial_def nth_be)
  have "walk_options ((pre @ mid) @ concat (map enc_option (r_options r)) @ 255 # rest) len
      (length (pre @ mid)) (dhcp_initial buf 42) =
    Some (fold option_effect (r_options r) (dhcp_initial buf 42))"
    using assms(2-4) by (intro walk_options_wire) (auto simp: reply_ok_def enc_reply_def mid_def init)
  then have "walk_options buf len 282 (dhcp_initial buf 42) = Some (reply_config r)"
    using pre(1) mid init
    by (simp add: buf [symmetric] reply_config_def)
  then have "dhcp_parse_payload buf len 42 (r_xid r) (r_chaddr r) =
    Some (if dhcp_msg_type (reply_config r) \<in> {2, 5}
      then Some (dhcp_config.truncate (reply_config r)) else None)"
    using matches len assms(2) by (simp add: dhcp_parse_payload_eq reply_ok_def)
  then show ?thesis
    using len pre by (simp add: buf_def [symmetric] dhcp_parse_response_eq)
qed

text \<open>C32. The parser implements the meaning of a reply: for every server message in the layout of the
  protocol that is addressed to us (its transaction identifier and hardware address are ours), with any
  list of options that have a length byte, so without pad options between them, \<open>parse_response\<close> yields
  exactly the configuration the message means, defaults and overriding order included, when its type is
  OFFER or ACK, and \<open>None\<close> otherwise; bytes after the message do not matter.\<close>

theorem dhcp_response_meaning:
  assumes "dhcp_carrier pre" and "reply_ok r"
    and "length (pre @ enc_reply r) \<le> len" and "len \<le> length (pre @ enc_reply r @ rest)"
  shows "dhcp_parse_response (pre @ enc_reply r @ rest) len (r_xid r) (r_chaddr r) =
    Some (if dhcp_msg_type (reply_config r) \<in> {2, 5}
      then Some (dhcp_config.truncate (reply_config r)) else None)"
  by (rule reply_parsed [OF assms])

definition sample_offer :: dhcp_reply where
  "sample_offer = \<lparr>r_head = [2, 1, 6, 0], r_xid = 0x12345678, r_flags = replicate 8 0,
     r_yiaddr = [10, 0, 2, 15], r_siaddr = [10, 0, 2, 4], r_giaddr = replicate 4 0,
     r_chaddr = [0x52, 0x54, 0, 0x12, 0x35, 0x56], r_sname = replicate 74 0,
     r_file = replicate 128 0,
     r_options = [(53, [2]), (1, [255, 255, 255, 0]), (3, [10, 0, 2, 2]), (66, dotted [10, 0, 2, 9])]\<rparr>"

lemma dhcp_response_meaning_witness:
  "dhcp_parse_response ((replicate 12 0 @ [8, 0, 0x45] @ replicate 8 0 @ [17] @ replicate 18 0) @
       enc_reply sample_offer @ [])
     (length ((replicate 12 0 @ [8, 0, 0x45] @ replicate 8 0 @ [17] @ replicate 18 0) @
       enc_reply sample_offer)) (r_xid sample_offer) (r_chaddr sample_offer) =
   Some (if dhcp_msg_type (reply_config sample_offer) \<in> {2, 5}
      then Some (dhcp_config.truncate (reply_config sample_offer)) else None)"
proof (rule dhcp_response_meaning)
  have "length (dotted [10, 0, 2, 9]) < 256"
    by (simp add: dotted_def dec_str.simps)
  then show "reply_ok sample_offer"
    by (simp add: reply_ok_def sample_offer_def)
qed (simp_all add: dhcp_carrier_def nth_append)

text \<open>The offer in its frame, which is accepted.\<close>

definition sample_frame :: bytes where
  "sample_frame = (replicate 12 0 @ [8, 0, 0x45] @ replicate 8 0 @ [17] @ replicate 18 0) @ enc_reply sample_offer"

lemma dhcp_response_authentic_witness:
  "\<exists>cfg. dhcp_parse_response sample_frame (length sample_frame) 0x12345678 [0x52, 0x54, 0, 0x12, 0x35, 0x56] = Some (Some cfg) \<and>
    dhcp_matches sample_frame 42 0x12345678 [0x52, 0x54, 0, 0x12, 0x35, 0x56] \<and> yiaddr cfg = seg sample_frame 58 62"
proof -
  let ?mac = "[0x52, 0x54, 0, 0x12, 0x35, 0x56] :: bytes"
  let ?pre = "replicate 12 0 @ [8, 0, 0x45] @ replicate 8 0 @ [17] @ replicate 18 0 :: bytes"
  have "length (dotted [10, 0, 2, 9]) < 256"
    by (simp add: dotted_def dec_str.simps)
  then have ok: "reply_ok sample_offer"
    by (simp add: reply_ok_def sample_offer_def)
  have "dhcp_msg_type (reply_config sample_offer) = 2"
    by (auto simp: reply_config_def sample_offer_def option_effect_def split: option.split)
  then obtain cfg where cfg: "dhcp_parse_response sample_frame (length sample_frame) 0x12345678 ?mac = Some (Some cfg)"
    using reply_parsed [of ?pre sample_offer "length sample_frame" "[]", OF _ ok]
    by (auto simp: sample_frame_def dhcp_carrier_def nth_append sample_offer_def)
  have "sample_frame ! 14 = 0x45"
    by (simp add: sample_frame_def nth_append)
  then have "22 + 4 * unat (sample_frame ! 14 AND 0x0F) = 42"
    by simp
  with dhcp_response_authentic [of "length sample_frame" sample_frame ?mac "0x12345678"] cfg show ?thesis
    by simp
qed

text \<open>C37. The DISCOVER frame: the broadcast frame the client builds around its DISCOVER payload in a
  zeroed buffer delivers that payload to a receiver that reads it as UDP, its IPv4 header
  verifies, and the payload is the BOOTREQUEST with the transaction identifier and the MAC,
  message type 1 and the parameter request list.\<close>

theorem dhcp_discover_delivered:
  assumes "length mac = 6" and "42 + 300 + pad \<le> 1514"
  shows "\<exists>payload f. build_discover xid mac = Some payload \<and>
    payload = discover_payload xid mac \<and>
    build_eth_ip_udp mac payload 300 (replicate 1514 0) = Some (342, f) \<and>
    udp_payload f (342 + pad) = Some (Some payload) \<and> ip_checksum (seg f 14 34) = 0"
proof -
  let ?p = "discover_payload xid mac"
  have p: "length ?p = 300"
    using assms(1) by (simp add: discover_payload_def)
  have wf: "dhcp_wf mac (replicate 1514 0)"
    using assms(1) by (simp add: dhcp_wf_def)
  have len: "length ?p \<le> 1472" "42 + length ?p + pad \<le> 1514"
    using p assms(2) by simp_all
  obtain f where f: "dhcp_frame mac ?p (replicate 1514 0) = Some (42 + length ?p, f)"
    and "udp_payload f (42 + length ?p + pad) = Some (Some ?p)"
    using dhcp_udp.payload_delivered [OF wf len] by blast
  moreover have "ip_checksum (seg f 14 34) = 0"
    by (rule dhcp_udp.header_verifies(1) [OF wf len(1) f])
  ultimately show ?thesis
    using assms(1) p by (simp add: build_discover_payload dhcp_frame_def)
qed

lemma dhcp_discover_delivered_witness:
  "\<exists>payload f. build_discover 7 [1, 2, 3, 4, 5, 6] = Some payload \<and>
    payload = discover_payload 7 [1, 2, 3, 4, 5, 6] \<and>
    build_eth_ip_udp [1, 2, 3, 4, 5, 6] payload 300 (replicate 1514 0) = Some (342, f) \<and>
    udp_payload f (342 + 4) = Some (Some payload) \<and> ip_checksum (seg f 14 34) = 0"
  by (rule dhcp_discover_delivered) simp_all

end
