(* ===== verification/Netio.thy ===== *)
theory Netio
  imports Arp Dns Dhcp
begin

text \<open>
  \<^verbatim>\<open>common/src/netio.rs\<close>: next-hop resolution and the DNS lookup over the network card. The card
  is seen through the interface of \<open>e1000::send\<close> and \<open>e1000::try_receive\<close>: the outcomes of the
  sends and of the receives to come, and the frames sent so far. A receive copies the frame, cut
  to 1514 bytes, over the start of the caller's buffer, whose other bytes keep what earlier
  frames left there.
\<close>

section \<open>The card\<close>

record nic =
  rx :: "bytes option list"
  tx_ok :: "bool list"
  tx :: "bytes list"

definition nic_send :: "bytes \<Rightarrow> nic \<Rightarrow> bool \<times> nic" where
  "nic_send data n =
     (if length data > 2048 then (False, n)
      else case tx_ok n of
        False # r \<Rightarrow> (False, n\<lparr>tx_ok := r\<rparr>)
      | True # r \<Rightarrow> (True, n\<lparr>tx_ok := r, tx := tx n @ [data]\<rparr>)
      | [] \<Rightarrow> (True, n\<lparr>tx := tx n @ [data]\<rparr>))"

definition nic_receive :: "bytes \<Rightarrow> nic \<Rightarrow> nat option \<times> bytes \<times> nic" where
  "nic_receive buf n =
     (case rx n of
        [] \<Rightarrow> (None, buf, n)
      | None # r \<Rightarrow> (None, buf, n\<lparr>rx := r\<rparr>)
      | Some d # r \<Rightarrow>
          let copy_len = min (length d) 1514 in
          (Some copy_len, overlay buf 0 (take copy_len d), n\<lparr>rx := r\<rparr>))"

section \<open>Address resolution\<close>

text \<open>\<open>for i in 0..4\<close> with the early return is the conjunction over the four bytes.\<close>

definition same_subnet :: "bytes \<Rightarrow> bytes \<Rightarrow> bytes \<Rightarrow> bool" where
  "same_subnet ip1 ip2 netmask =
     list_all (\<lambda>i. ip1 ! i AND netmask ! i = ip2 ! i AND netmask ! i) [0..<4]"

text \<open>
  \<open>for _ in 0..n\<close>: up to \<open>n\<close> receives, each result given to a parser; the first value it
  yields is returned.
\<close>

fun poll :: "nat \<Rightarrow> (bytes \<Rightarrow> nat \<Rightarrow> 'a option option) \<Rightarrow> bytes \<Rightarrow> nic \<Rightarrow> ('a option \<times> nic) option" where
  "poll 0 parse buf n = ret (None, n)"
| "poll (Suc k) parse buf n =
     (case nic_receive buf n of
        (None, buf, n) \<Rightarrow> poll k parse buf n
      | (Some len, buf, n) \<Rightarrow> do {
          r \<leftarrow> parse buf len;
          case r of Some a \<Rightarrow> ret (Some a, n) | None \<Rightarrow> poll k parse buf n
        })"

definition arp_resolve :: "bytes \<Rightarrow> bytes \<Rightarrow> bytes \<Rightarrow> nic \<Rightarrow> (bytes option \<times> nic) option" where
  "arp_resolve src_mac src_ip dst_ip n = do {
     (len, frame) \<leftarrow> build_request src_mac src_ip dst_ip (replicate 1514 0);
     data \<leftarrow> slice frame 0 len;
     let (ok, n) = nic_send data n;
     if \<not> ok then ret (None, n)
     else poll 20 (\<lambda>buf len. arp_parse_reply buf len dst_ip) (replicate 1514 0) n
   }"

definition dns_lookup ::
  "bytes \<Rightarrow> bytes \<Rightarrow> bytes \<Rightarrow> bytes \<Rightarrow> bytes \<Rightarrow> nic \<Rightarrow> (bytes option \<times> nic) option" where
  "dns_lookup src_mac src_ip dst_mac dst_ip name n = do {
     let ident = 0x1234;
     let src_port = 0x3039;
     (query_len, query) \<leftarrow> build_query ident name (replicate 256 0);
     if query_len = 0 then ret (None, n) else do {
     (frame_len, frame) \<leftarrow>
       dns_build_frame src_mac src_ip dst_mac dst_ip src_port query query_len (replicate 1514 0);
     data \<leftarrow> slice frame 0 frame_len;
     let (ok, n) = nic_send data n;
     if \<not> ok then ret (None, n)
     else poll 20 (\<lambda>buf len. dns_parse_response buf len ident) (replicate 1514 0) n
     }
   }"

section \<open>The whole resolution, with its output\<close>

text \<open>From the next hop on, and the whole flow.\<close>

definition resolve_via :: "bytes \<Rightarrow> dhcp_config \<Rightarrow> bytes \<Rightarrow> nic \<Rightarrow> console \<Rightarrow> (nic \<times> console) option" where
  "resolve_via mac cfg next_hop n c = do {
     let c = puts (lit ''    ARP '') c;
     c \<leftarrow> print_ip next_hop c;
     let c = puts (lit ''...'') c;
     (r, n) \<leftarrow> arp_resolve mac (yiaddr cfg) next_hop n;
     case r of
       None \<Rightarrow> ret (n, puts (lit ''FAILED'' @ [10]) c)
     | Some dst_mac \<Rightarrow> do {
         let c = puts (lit ''OK'' @ [10]) c;
         let c = puts (lit ''    DNS: google.com...'') c;
         (r, n) \<leftarrow> dns_lookup mac (yiaddr cfg) dst_mac (dns cfg) (lit ''google.com'') n;
         case r of
           Some ip \<Rightarrow> do {
             let c = puts (lit ''OK'' @ [10]) c;
             let c = puts (lit ''    google.com: '') c;
             c \<leftarrow> print_ip ip c;
             ret (n, putc 10 c)
           }
         | None \<Rightarrow> ret (n, puts (lit ''FAILED'' @ [10]) c)
       }
   }"

definition dns_resolve_and_print ::
  "bytes \<Rightarrow> dhcp_config \<Rightarrow> nic \<Rightarrow> console \<Rightarrow> (nic \<times> console) option" where
  "dns_resolve_and_print mac cfg n c =
     (if dns cfg = replicate 4 0 then ret (n, puts (lit ''    DNS: (none)'' @ [10]) c)
      else do {
        let c = puts (lit ''    DNS server: '') c;
        c \<leftarrow> print_ip (dns cfg) c;
        let c = putc 10 c;
        if same_subnet (yiaddr cfg) (dns cfg) (subnet cfg) then resolve_via mac cfg (dns cfg) n c
        else if gateway cfg \<noteq> replicate 4 0 then resolve_via mac cfg (gateway cfg) n c
        else ret (n, puts (lit ''    Cannot resolve: no gateway for off-subnet DNS'' @ [10]) c)
      })"

section \<open>Behaviour\<close>

text \<open>Polling with a parser that is total on the received prefix never panics, and the first frame
  that parses decides. The buffer stays 1514 bytes and its prefix is the frame.\<close>

definition frame_of :: "bytes \<Rightarrow> bytes" where
  "frame_of d = take 1514 d"

lemma nic_receive_Some:
  assumes "rx n = Some d # r" and "length buf = 1514"
  shows "nic_receive buf n = (Some (length (frame_of d)), frame_of d @ drop (length (frame_of d)) buf,
    n\<lparr>rx := r\<rparr>)"
  using assms by (auto simp: nic_receive_def frame_of_def overlay_front Let_def min_def)

lemma poll_total:
  assumes "\<And>buf len. length buf = 1514 \<Longrightarrow> len \<le> 1514 \<Longrightarrow> parse buf len \<noteq> None"
    and "length buf = 1514"
  shows "\<exists>r n'. poll k parse buf n = Some (r, n') \<and> tx n' = tx n"
  using assms(2)
proof (induction k arbitrary: buf n)
  case (Suc k)
  show ?case
  proof (cases "rx n")
    case Nil
    then show ?thesis
      using Suc by (simp add: nic_receive_def)
  next
    case (Cons e r)
    show ?thesis
    proof (cases e)
      case None
      then show ?thesis
        using Suc.IH [of buf "n\<lparr>rx := r\<rparr>"] Suc.prems Cons by (simp add: nic_receive_def)
    next
      case (Some d)
      let ?l = "length (frame_of d)"
      let ?b = "frame_of d @ drop ?l buf"
      have b: "length ?b = 1514" "?l \<le> 1514"
        using Suc.prems by (auto simp: frame_of_def)
      then obtain v where v: "parse ?b ?l = Some v"
        using assms(1) [of ?b ?l] by auto
      show ?thesis
        using Suc.IH [OF b(1), of "n\<lparr>rx := r\<rparr>"] v Suc.prems Cons Some
        by (cases v) (auto simp: nic_receive_Some)
    qed
  qed
qed simp

fun first_some :: "('a \<Rightarrow> 'b option) \<Rightarrow> 'a list \<Rightarrow> 'b option" where
  "first_some g [] = None"
| "first_some g (x # xs) = (case g x of Some y \<Rightarrow> Some y | None \<Rightarrow> first_some g xs)"

definition frames :: "bytes option list \<Rightarrow> bytes list" where
  "frames es = map (\<lambda>e. frame_of (the e)) (filter (\<lambda>e. e \<noteq> None) es)"

lemma poll_first:
  assumes parse: "\<And>d junk. length d + length junk = 1514 \<Longrightarrow> parse (d @ junk) (length d) = Some (g d)"
    and "length buf = 1514"
  shows "\<exists>n'. poll k parse buf n = Some (first_some g (frames (take k (rx n))), n') \<and> tx n' = tx n"
  using assms(2)
proof (induction k arbitrary: buf n)
  case 0
  then show ?case by (simp add: frames_def)
next
  case (Suc k)
  show ?case
  proof (cases "rx n")
    case Nil
    then show ?thesis
      using Suc.IH [of buf n] Suc.prems by (simp add: nic_receive_def frames_def)
  next
    case (Cons e r)
    show ?thesis
    proof (cases e)
      case None
      then show ?thesis
        using Suc.IH [of buf "n\<lparr>rx := r\<rparr>"] Suc.prems Cons by (simp add: nic_receive_def frames_def)
    next
      case (Some d)
      let ?l = "length (frame_of d)"
      let ?b = "frame_of d @ drop ?l buf"
      have b: "length ?b = 1514"
        using Suc.prems by (auto simp: frame_of_def)
      then have "parse ?b ?l = Some (g (frame_of d))"
        by (intro parse) (auto simp: frame_of_def)
      then show ?thesis
        using Suc.IH [OF b, of "n\<lparr>rx := r\<rparr>"] Suc.prems Cons Some
        by (cases "g (frame_of d)") (auto simp: nic_receive_Some frames_def)
    qed
  qed
qed

text \<open>What an ARP frame answers, by its own bytes.\<close>

definition arp_answer :: "bytes \<Rightarrow> bytes \<Rightarrow> bytes option" where
  "arp_answer ip d =
     (if 42 \<le> length d \<and> seg d 12 22 = [0x08, 0x06, 0, 1, 8, 0, 6, 4, 0, 2] \<and> seg d 28 32 = ip
      then Some (seg d 22 28) else None)"

lemma arp_parse_answer: "arp_parse_reply (d @ junk) (length d) ip = Some (arp_answer ip d)"
  by (cases "42 \<le> length d") (simp_all add: arp_parse_reply_total arp_answer_def)

lemma first_some_SomeD: "first_some g xs = Some y \<Longrightarrow> \<exists>x \<in> set xs. g x = Some y"
  by (induction xs) (auto split: option.splits)

definition link_up :: "nic \<Rightarrow> bool" where
  "link_up n \<longleftrightarrow> tx_ok n = [] \<or> hd (tx_ok n)"

lemma nic_send_up:
  "link_up n \<Longrightarrow> length data \<le> 2048 \<Longrightarrow>
   \<exists>n'. nic_send data n = (True, n') \<and> rx n' = rx n \<and> tx n' = tx n @ [data]"
  by (auto simp: nic_send_def link_up_def split: list.splits bool.splits)

text \<open>\<open>arp_resolve_e1000\<close> on a working link broadcasts exactly one frame, the ARP request for
  \<open>dst_ip\<close>, and its result is the sender address of the first ARP reply for \<open>dst_ip\<close> among the
  frames of the next 20 receives; time-outs and other traffic are skipped, and stale bytes that
  earlier frames left in the receive buffer never contribute.\<close>

theorem arp_resolve_first_answer:
  assumes "length src_mac = 6" and "length src_ip = 4" and "length dst_ip = 4" and "link_up n"
  shows "\<exists>n'. arp_resolve src_mac src_ip dst_ip n =
      Some (first_some (arp_answer dst_ip) (frames (take 20 (rx n))), n') \<and>
    tx n' = tx n @ [arp_packet 1 (replicate 6 0xFF) src_mac src_ip (replicate 6 0) dst_ip]"
proof -
  let ?p = "arp_packet 1 (replicate 6 0xFF) src_mac src_ip (replicate 6 0) dst_ip"
  have p: "length ?p = 42"
    using assms(1-3) by (simp add: arp_packet_def)
  obtain n1 where send: "nic_send ?p n = (True, n1)" "rx n1 = rx n" "tx n1 = tx n @ [?p]"
    using nic_send_up [OF assms(4), of ?p] p by auto
  obtain n' where "poll 20 (\<lambda>buf len. arp_parse_reply buf len dst_ip) (replicate 1514 0) n1 =
      Some (first_some (arp_answer dst_ip) (frames (take 20 (rx n1))), n')" "tx n' = tx n1"
    using poll_first [of "\<lambda>buf len. arp_parse_reply buf len dst_ip" "arp_answer dst_ip"
        "replicate 1514 0" 20 n1]
    by (auto simp: arp_parse_answer)
  with send p assms(1-3) show ?thesis
    by (simp add: arp_resolve_def build_request_packet overlay_front seg_0)
qed

lemma arp_resolve_first_answer_witness:
  "\<exists>n'. arp_resolve [1, 2, 3, 4, 5, 6] [10, 0, 2, 15] [10, 0, 2, 2]
        \<lparr>rx = [None, Some (replicate 60 0), None], tx_ok = [], tx = []\<rparr> =
      Some (first_some (arp_answer [10, 0, 2, 2]) (frames (take 20
        (rx \<lparr>rx = [None, Some (replicate 60 0), None], tx_ok = [], tx = []\<rparr>))), n') \<and>
    tx n' = tx \<lparr>rx = [None, Some (replicate 60 (0 :: u8)), None], tx_ok = [], tx = []\<rparr> @
      [arp_packet 1 (replicate 6 0xFF) [1, 2, 3, 4, 5, 6] [10, 0, 2, 15] (replicate 6 0) [10, 0, 2, 2]]"
  by (rule arp_resolve_first_answer) (simp_all add: link_up_def)

text \<open>The addresses the parsers return.\<close>

lemma find_a_record_length: "find_a_record k buf len off = Some (Some ip) \<Longrightarrow> length ip = 4"
  by (induction k arbitrary: off)
    (auto simp: Let_def slice_def split: option.splits if_splits Option.bind_splits)

lemma dns_parse_response_length:
  "dns_parse_response buf len ident = Some (Some ip) \<Longrightarrow> length ip = 4"
  by (auto simp: dns_parse_response_def Let_def split: if_splits Option.bind_splits option.splits
      dest: find_a_record_length)

lemma lit_google: "lit ''google.com'' = [103, 111, 111, 103, 108, 101, 46, 99, 111, 109]"
  by (simp add: lit_def)

lemma google_query:
  "\<exists>q. build_query 0x1234 (lit ''google.com'') (replicate 256 0) = Some (28, q) \<and> length q = 256"
  by (subst build_query_ok) (simp_all add: lit_google labels_ok_def)

lemma dns_parse_response_bound: "len \<le> length buf \<Longrightarrow> dns_parse_response buf len ident \<noteq> None"
  using dns_parse_response_returns by fastforce

lemma poll_result: "poll k parse buf n = Some (Some a, n') \<Longrightarrow> \<exists>b l. parse b l = Some (Some a)"
  by (induction k parse buf n rule: poll.induct)
    (auto split: prod.splits option.splits Option.bind_splits)

lemma dns_lookup_total:
  assumes "length src_mac = 6" and "length src_ip = 4" and "length dst_mac = 6" and "length dst_ip = 4"
  shows "\<exists>r n'. dns_lookup src_mac src_ip dst_mac dst_ip (lit ''google.com'') n = Some (r, n') \<and>
    (\<forall>ip. r = Some ip \<longrightarrow> length ip = 4)"
proof -
  obtain q where q: "build_query 0x1234 (lit ''google.com'') (replicate 256 0) = Some (28, q)"
    and "length q = 256"
    using google_query by blast
  then obtain f where f: "dns_build_frame src_mac src_ip dst_mac dst_ip 0x3039 q 28 (replicate 1514 0) =
      Some (70, f)" "length f = 1514"
    using dns_build_frame_envelope [of src_mac src_ip dst_mac dst_ip "replicate 1514 0" 28 q] assms
    by (auto simp: udp_envelope_def)
  obtain ok n1 where send: "nic_send (take 70 f) n = (ok, n1)"
    by fastforce
  obtain r n' where "poll 20 (\<lambda>buf len. dns_parse_response buf len 0x1234) (replicate 1514 0) n1 = Some (r, n')"
    using poll_total [of "\<lambda>buf len. dns_parse_response buf len 0x1234" "replicate 1514 0" 20 n1]
      dns_parse_response_bound by fastforce
  with q f send show ?thesis
    by (auto simp: dns_lookup_def seg_0 dest!: poll_result dest: dns_parse_response_length)
qed

lemma arp_resolve_total:
  assumes "length src_mac = 6" and "length src_ip = 4" and "length dst_ip = 4"
  shows "\<exists>r n'. arp_resolve src_mac src_ip dst_ip n = Some (r, n') \<and> (\<forall>m. r = Some m \<longrightarrow> length m = 6)"
proof -
  let ?p = "arp_packet 1 (replicate 6 0xFF) src_mac src_ip (replicate 6 0) dst_ip"
  have p: "length ?p = 42"
    using assms by (simp add: arp_packet_def)
  obtain ok n1 where send: "nic_send ?p n = (ok, n1)"
    by fastforce
  obtain n' where poll: "poll 20 (\<lambda>buf len. arp_parse_reply buf len dst_ip) (replicate 1514 0) n1 =
      Some (first_some (arp_answer dst_ip) (frames (take 20 (rx n1))), n')"
    using poll_first [of "\<lambda>buf len. arp_parse_reply buf len dst_ip" "arp_answer dst_ip"
        "replicate 1514 0" 20 n1]
    by (auto simp: arp_parse_answer)
  have "length m = 6" if "first_some (arp_answer dst_ip) xs = Some m" for xs m
    using first_some_SomeD [OF that] by (auto simp: arp_answer_def split: if_splits)
  with poll send p assms show ?thesis
    by (cases ok) (auto simp: arp_resolve_def build_request_packet overlay_front seg_0)
qed

definition config_ok :: "dhcp_config \<Rightarrow> bool" where
  "config_ok cfg \<longleftrightarrow> length (yiaddr cfg) = 4 \<and> length (subnet cfg) = 4 \<and> length (gateway cfg) = 4 \<and>
     length (dns cfg) = 4"

lemma resolve_via_total:
  assumes "length mac = 6" and "config_ok cfg" and "length next_hop = 4"
  shows "\<exists>r. resolve_via mac cfg next_hop n c = Some r"
proof -
  obtain r n1 where r: "arp_resolve mac (yiaddr cfg) next_hop n = Some (r, n1)"
    "\<forall>m. r = Some m \<longrightarrow> length m = 6"
    using arp_resolve_total [of mac "yiaddr cfg" next_hop n] assms by (auto simp: config_ok_def)
  show ?thesis
  proof (cases r)
    case None
    then show ?thesis
      using r assms(3) by (simp add: resolve_via_def print_ip_eq)
  next
    case (Some m)
    then obtain r2 n2 where r2: "dns_lookup mac (yiaddr cfg) m (dns cfg) (lit ''google.com'') n1 = Some (r2, n2)"
      "\<forall>ip. r2 = Some ip \<longrightarrow> length ip = 4"
      using dns_lookup_total [of mac "yiaddr cfg" m "dns cfg" n1] r(2) assms
      by (auto simp: config_ok_def)
    with Some r assms(3) show ?thesis
      by (cases r2) (auto simp: resolve_via_def print_ip_eq)
  qed
qed

text \<open>The resolution flow after DHCP never panics: for every configuration with four-byte
  addresses, whatever frames arrive and whichever sends fail, \<open>dns_resolve_and_print\<close> returns.\<close>

theorem dns_resolve_no_panic:
  assumes "length mac = 6" and "config_ok cfg"
  shows "\<exists>r. dns_resolve_and_print mac cfg n c = Some r"
proof -
  have len: "length (dns cfg) = 4" "length (gateway cfg) = 4"
    using assms(2) by (simp_all add: config_ok_def)
  let ?c = "putc 10 (puts (dotted (dns cfg)) (puts (lit ''    DNS server: '') c))"
  show ?thesis
    using resolve_via_total [OF assms len(1), of n ?c] resolve_via_total [OF assms len(2), of n ?c] len(1)
    by (simp add: dns_resolve_and_print_def print_ip_eq Let_def del: split_paired_Ex)
qed

lemma dns_resolve_no_panic_witness:
  "\<exists>r. dns_resolve_and_print [1, 2, 3, 4, 5, 6]
    \<lparr>yiaddr = [10, 0, 2, 15], subnet = [255, 255, 255, 0], gateway = [10, 0, 2, 2], dns = [8, 8, 8, 8],
     next_server = [10, 0, 2, 4], bootfile = replicate 128 0\<rparr>
    \<lparr>rx = [None, Some (replicate 60 0)], tx_ok = [], tx = []\<rparr> \<lparr>putc_fn = True, out = []\<rparr> = Some r"
  by (rule dns_resolve_no_panic) (simp_all add: config_ok_def)

end
