(* ===== verification/Tftp.thy ===== *)
theory Tftp
  imports Udp Print
begin

text \<open>
  The TFTP packets of \<^verbatim>\<open>common/src/tftp.rs\<close>: read request, option acknowledgment, data and
  acknowledgment. \<open>usize\<close> results of the decimal parser are words of any width \<open>'w\<close> (32 bits
  in the BIOS image, 64 elsewhere), wrapping as the release build does.
\<close>

section \<open>Packets\<close>

definition OP_RRQ :: u16 where "OP_RRQ = 1"
definition OP_DATA :: u16 where "OP_DATA = 3"
definition OP_ACK :: u16 where "OP_ACK = 4"
definition OP_ERROR :: u16 where "OP_ERROR = 5"
definition OP_OACK :: u16 where "OP_OACK = 6"
definition DEFAULT_BLKSIZE :: nat where "DEFAULT_BLKSIZE = 512"

lemmas tftp_consts = OP_RRQ_def OP_DATA_def OP_ACK_def OP_ERROR_def OP_OACK_def DEFAULT_BLKSIZE_def

definition build_rrq :: "bytes \<Rightarrow> bytes \<Rightarrow> (nat \<times> bytes) option" where
  "build_rrq filename buf = do {
     let pos = 0;
     buf \<leftarrow> put buf pos (pos + 2) (be16 OP_RRQ);
     let pos = pos + 2;
     let filename_len = min (length filename) 128;
     buf \<leftarrow> put buf pos (pos + filename_len) (take filename_len filename);
     let pos = pos + filename_len;
     buf \<leftarrow> wr buf pos 0;
     let pos = pos + 1;
     let mode = lit ''octet'';
     buf \<leftarrow> put buf pos (pos + length mode) mode;
     let pos = pos + length mode;
     buf \<leftarrow> wr buf pos 0;
     let pos = pos + 1;
     ret (pos, buf)
   }"

text \<open>\<open>while pos < len && buf[pos] != 0 { pos += 1 }\<close>\<close>

function skip_to_nul :: "bytes \<Rightarrow> nat \<Rightarrow> nat \<Rightarrow> nat option" where
  "skip_to_nul buf len pos =
     (if pos < len then do { b \<leftarrow> rd buf pos; if b \<noteq> 0 then skip_to_nul buf len (pos + 1) else ret pos }
      else ret pos)"
  by pat_completeness auto
termination
  by (relation "measure (\<lambda>(buf, len, pos). len - pos)") auto

declare skip_to_nul.simps [simp del]

fun parse_decimal_from :: "'w::len word \<Rightarrow> bytes \<Rightarrow> 'w word option" where
  "parse_decimal_from result [] = Some result"
| "parse_decimal_from result (b # r) =
     (if 48 \<le> b \<and> b \<le> 57 then parse_decimal_from (result * 10 + ucast (b - 48)) r else None)"

definition parse_decimal :: "bytes \<Rightarrow> 'w::len word option" where
  "parse_decimal buf = parse_decimal_from 0 buf"

text \<open>One parsed option updates the negotiated pair \<open>(blksize, tsize)\<close>.\<close>

definition oack_option :: "bytes \<Rightarrow> bytes \<Rightarrow> 'w::len word \<times> 'w word \<Rightarrow> 'w word \<times> 'w word" where
  "oack_option key val = (\<lambda>(blksize, tsize).
     if key = lit ''blksize'' then
       case parse_decimal val of Some sz \<Rightarrow> (sz, tsize) | None \<Rightarrow> (blksize, tsize)
     else if key = lit ''tsize'' then
       case parse_decimal val of Some sz \<Rightarrow> (blksize, sz) | None \<Rightarrow> (blksize, tsize)
     else (blksize, tsize))"

lemma skip_to_nul_ge: "skip_to_nul buf len pos = Some q \<Longrightarrow> pos \<le> q"
proof (induction buf len pos rule: skip_to_nul.induct)
  case (1 buf len pos)
  from "1.prems" show ?case
    by (subst (asm) skip_to_nul.simps)
      (auto split: if_splits Option.bind_splits dest!: "1.IH")
qed

function oack_loop :: "bytes \<Rightarrow> nat \<Rightarrow> nat \<Rightarrow> 'w::len word \<times> 'w word \<Rightarrow> ('w word \<times> 'w word) option" where
  "oack_loop buf len pos st =
     (if pos < len then
        case skip_to_nul buf len pos of None \<Rightarrow> panic
        | Some p \<Rightarrow>
          if p \<ge> len then ret st
          else case slice buf pos p of None \<Rightarrow> panic
          | Some key \<Rightarrow>
            case skip_to_nul buf len (p + 1) of None \<Rightarrow> panic
            | Some q \<Rightarrow>
              if q \<ge> len then ret st
              else case slice buf (p + 1) q of None \<Rightarrow> panic
              | Some val \<Rightarrow> oack_loop buf len (q + 1) (oack_option key val st)
      else ret st)"
  by pat_completeness auto
termination
  by (relation "measure (\<lambda>(buf, len, pos, st). len - pos)") (auto dest!: skip_to_nul_ge)

declare oack_loop.simps [simp del]

definition parse_oack :: "bytes \<Rightarrow> nat \<Rightarrow> ('w::len word \<times> 'w word) option option" where
  "parse_oack buf len =
     (if len < 2 then ret None
      else do {
        a \<leftarrow> rd buf 0; b \<leftarrow> rd buf 1;
        let opcode = from_be16 a b;
        if opcode \<noteq> OP_OACK then ret None
        else map_option Some (oack_loop buf len 2 (word_of_nat DEFAULT_BLKSIZE, 0))
      })"

definition parse_data :: "bytes \<Rightarrow> nat \<Rightarrow> (u16 \<times> bytes) option option" where
  "parse_data buf len =
     (if len < 4 then ret None
      else do {
        a \<leftarrow> rd buf 0; b \<leftarrow> rd buf 1;
        let opcode = from_be16 a b;
        if opcode \<noteq> OP_DATA then ret None
        else do {
          c \<leftarrow> rd buf 2; d \<leftarrow> rd buf 3;
          let block = from_be16 c d;
          data \<leftarrow> slice buf 4 len;
          ret (Some (block, data))
        }
      })"

definition build_ack :: "u16 \<Rightarrow> bytes \<Rightarrow> (nat \<times> bytes) option" where
  "build_ack block buf = do {
     buf \<leftarrow> put buf 0 2 (be16 OP_ACK);
     buf \<leftarrow> put buf 2 4 (be16 block);
     ret (4, buf)
   }"

section \<open>Behaviour\<close>

definition rrq_packet :: "bytes \<Rightarrow> bytes" where
  "rrq_packet filename = [0, 1] @ take 128 filename @ [0] @ lit ''octet'' @ [0]"

lemma build_rrq_packet:
  assumes "min (length filename) 128 + 9 \<le> length buf"
  shows "build_rrq filename buf =
    Some (min (length filename) 128 + 9, overlay buf 0 (rrq_packet filename))"
  using assms
  by (auto simp: build_rrq_def rrq_packet_def overlay_snoc tftp_consts be16_def min_def)

lemma parse_decimal_append:
  "parse_decimal_from r (xs @ ys) =
    (case parse_decimal_from r xs of None \<Rightarrow> None | Some r \<Rightarrow> parse_decimal_from r ys)"
  by (induction r xs rule: parse_decimal_from.induct) simp_all

lemma digit_char: "n < 10 \<Longrightarrow> unat (48 + word_of_nat n :: u8) = 48 + n"
  by (simp add: unat_word_ariths unat_of_nat)

lemma parse_digit:
  assumes "n < 10"
  shows "parse_decimal_from r [48 + word_of_nat n] = Some (r * 10 + word_of_nat n :: 'w::len word)"
proof -
  have "unat (word_of_nat n :: u8) = n"
    using assms by (simp add: unat_of_nat)
  then have "ucast (word_of_nat n :: u8) = (word_of_nat n :: 'w word)"
    by (metis of_nat_unat)
  then show ?thesis
    using assms by (auto simp: word_le_nat_alt digit_char simp del: unat_plus_simple)
qed

lemma parse_decimal_dec_str: "parse_decimal (dec_str n) = Some (word_of_nat n :: 'w::len word)"
proof -
  have "parse_decimal_from 0 (dec_str n) = Some (word_of_nat n :: 'w word)"
  proof (induction n rule: dec_str.induct)
    case (1 n)
    show ?case
    proof (cases "n < 10")
      case True
      then show ?thesis
        by (simp only: dec_str_small parse_digit) simp
    next
      case False
      have "word_of_nat (n div 10) * 10 + word_of_nat (n mod 10) = (word_of_nat n :: 'w word)"
        by (metis mult_div_mod_eq of_nat_add of_nat_mult of_nat_numeral mult.commute)
      with 1 False show ?thesis
        by (simp add: dec_str_step parse_decimal_append parse_digit del: parse_decimal_from.simps)
    qed
  qed
  then show ?thesis
    by (simp add: parse_decimal_def)
qed

text \<open>An option acknowledgment as a server sends it.\<close>

fun oack_opts :: "(bytes \<times> bytes) list \<Rightarrow> bytes" where
  "oack_opts [] = []"
| "oack_opts ((k, v) # r) = k @ 0 # v @ 0 # oack_opts r"

lemma skip_to_nul_string:
  "0 \<notin> set k \<Longrightarrow> length pre + length k < len \<Longrightarrow>
   skip_to_nul (pre @ k @ 0 # rest) len (length pre) = Some (length pre + length k)"
proof (induction k arbitrary: pre)
  case Nil
  then show ?case
    by (subst skip_to_nul.simps) (simp add: nth_append)
next
  case (Cons b k)
  then show ?case
    using Cons.IH [of "pre @ [b]"] by (subst skip_to_nul.simps) (simp add: nth_append)
qed

lemma oack_loop_step:
  assumes "0 \<notin> set k" and "0 \<notin> set v" and "length pre + length k + length v + 2 \<le> len"
  shows "oack_loop (pre @ k @ 0 # v @ 0 # rest) len (length pre) st =
    oack_loop (pre @ k @ 0 # v @ 0 # rest) len (length (pre @ k @ 0 # v @ [0])) (oack_option k v st)"
proof -
  have "skip_to_nul (pre @ k @ 0 # v @ 0 # rest) len (length pre) = Some (length pre + length k)"
    using assms by (intro skip_to_nul_string) simp_all
  moreover have "skip_to_nul ((pre @ k @ [0]) @ v @ 0 # rest) len (length (pre @ k @ [0])) =
      Some (length (pre @ k @ [0]) + length v)"
    using assms by (intro skip_to_nul_string) simp_all
  moreover have "seg (pre @ k @ 0 # v @ 0 # rest) (length pre) (length pre + length k) = k"
    "seg (pre @ k @ 0 # v @ 0 # rest) (Suc (length pre + length k)) (Suc (length pre + length k + length v)) = v"
    by (simp_all add: seg_def)
  ultimately show ?thesis
    using assms by (subst oack_loop.simps) (simp add: add.assoc)
qed

lemma oack_loop_opts:
  assumes "\<forall>(k, v) \<in> set opts. 0 \<notin> set k \<and> 0 \<notin> set v"
    and "len = length (pre @ oack_opts opts)"
  shows "oack_loop (pre @ oack_opts opts @ rest) len (length pre) st =
    Some (fold (\<lambda>(k, v). oack_option k v) opts st)"
  using assms
proof (induction opts arbitrary: pre st rule: oack_opts.induct)
  case 1
  then show ?case by (subst oack_loop.simps) simp
next
  case (2 k v r)
  then show ?case
    using "2.IH" [of "pre @ k @ 0 # v @ [0]" "oack_option k v st"]
    by (simp add: oack_loop_step)
qed

lemma skip_to_nul_total: "len \<le> length buf \<Longrightarrow> skip_to_nul buf len pos \<noteq> None"
proof (induction buf len pos rule: skip_to_nul.induct)
  case (1 buf len pos)
  then show ?case
    by (subst skip_to_nul.simps) auto
qed

lemma skip_to_nul_le: "skip_to_nul buf len pos = Some q \<Longrightarrow> pos \<le> len \<Longrightarrow> q \<le> len"
proof (induction buf len pos rule: skip_to_nul.induct)
  case (1 buf len pos)
  from "1.prems" show ?case
    by (subst (asm) skip_to_nul.simps)
      (auto split: if_splits Option.bind_splits intro: "1.IH")
qed

lemma oack_loop_total: "len \<le> length buf \<Longrightarrow> oack_loop buf len pos st \<noteq> None"
proof (induction buf len pos st rule: oack_loop.induct)
  case (1 buf len pos st)
  show ?case
    using 1
    by (subst oack_loop.simps)
      (auto split: option.splits simp: slice_def skip_to_nul_total dest!: skip_to_nul_ge)
qed

lemma parse_oack_returns:
  assumes "len \<le> length buf"
  shows "\<exists>r :: ('w::len word \<times> 'w word) option. parse_oack buf len = Some r"
proof (cases "len < 2")
  case False
  then have "0 < length buf" "1 < length buf"
    using assms by linarith+
  then have "rd buf 0 = Some (buf ! 0)" "rd buf 1 = Some (buf ! 1)"
    by simp_all
  then show ?thesis
    using oack_loop_total [OF assms, of 2 "(word_of_nat DEFAULT_BLKSIZE, 0 :: 'w word)"]
    by (auto simp: parse_oack_def)
qed (simp add: parse_oack_def)

text \<open>Whatever a server sends, \<open>parse_oack\<close> on a received packet neither loops nor reads past
  the packet: it returns for every buffer and every \<open>len\<close> within it.\<close>

theorem parse_oack_total:
  assumes "len \<le> length buf"
  shows "\<exists>r :: ('w::len word \<times> 'w word) option. parse_oack buf len = Some r"
  using assms by (rule parse_oack_returns)

lemma parse_oack_total_witness:
  "\<exists>r :: (u64 \<times> u64) option. parse_oack [0, 6, 98, 0] 4 = Some r"
  by (rule parse_oack_total) simp

text \<open>Option negotiation round trip: an OACK carrying \<open>blksize\<close> \<open>n\<close> and \<open>tsize\<close> \<open>m\<close> in decimal,
  with any other options before, between or after them absent, parses to exactly \<open>(n, m)\<close> (as
  machine words); bytes after the packet are ignored.\<close>

theorem parse_oack_negotiates:
  "parse_oack (be16 OP_OACK @ oack_opts [(lit ''blksize'', dec_str n), (lit ''tsize'', dec_str m)] @ rest)
     (length (be16 OP_OACK @ oack_opts [(lit ''blksize'', dec_str n), (lit ''tsize'', dec_str m)])) =
   Some (Some (word_of_nat n, word_of_nat m :: 'w::len word))"
proof -
  let ?opts = "[(lit ''blksize'', dec_str n), (lit ''tsize'', dec_str m)]"
  have "0 \<notin> set (dec_str i)" for i
    using dec_str_digits [of 0 i] by auto
  moreover have "0 \<notin> set (lit ''blksize'')" "0 \<notin> set (lit ''tsize'')"
    "lit ''tsize'' \<noteq> lit ''blksize''"
    by (simp_all add: lit_def)
  ultimately have "oack_loop (be16 OP_OACK @ oack_opts ?opts @ rest) (length (be16 OP_OACK @ oack_opts ?opts))
      (length (be16 OP_OACK)) (word_of_nat DEFAULT_BLKSIZE, 0) =
      Some (word_of_nat n, word_of_nat m :: 'w word)"
    by (subst oack_loop_opts)
      (auto simp del: oack_opts.simps simp: oack_option_def parse_decimal_dec_str)
  then show ?thesis
    by (simp add: parse_oack_def tftp_consts be16_def del: oack_opts.simps flip: numeral_2_eq_2)
qed

text \<open>The DATA and ACK packets as concatenations.\<close>

definition data_packet :: "u16 \<Rightarrow> bytes \<Rightarrow> bytes" where
  "data_packet block data = be16 OP_DATA @ be16 block @ data"

lemma parse_data_packet: "parse_data (data_packet block data @ rest) (4 + length data) = Some (Some (block, data))"
  by (simp add: parse_data_def data_packet_def tftp_consts be16_def seg_def)

lemma build_ack_packet: "4 \<le> length buf \<Longrightarrow> build_ack block buf = Some (4, overlay buf 0 (be16 OP_ACK @ be16 block))"
  by (simp add: build_ack_def overlay_snoc)

end
