(* ===== verification/Download.thy ===== *)
theory Download
  imports Netio Tftp BiosMem
begin

text \<open>
  \<^verbatim>\<open>bios/src/net.rs\<close>: the DHCP run and the TFTP download over the card, for any sink. The receive
  loop consumes the outcomes \<open>rx\<close> of the receives to come, one per round; a time-out (\<open>None\<close>, or
  the end of the list) makes the code give up, so the recursion over \<open>rx\<close> follows every run that
  returns. \<open>usize\<close> is 32 bits wide in this image; \<open>total_size\<close> and lengths of bytes in memory
  are kept as \<open>nat\<close> (a sink's capacity bounds them).
\<close>

section \<open>The planned buffer\<close>

definition print_summary :: "u32 \<Rightarrow> e820_state \<Rightarrow> console \<Rightarrow> console option" where
  "print_summary bss_end s c = do {
     let (base, cap) = allocate bss_end s TFTP_SIZE_HINT;
     let c = puts (lit ''TFTP buffer: '') c;
     c \<leftarrow> print_hex base 8 c;
     let c = puts (lit '' ('') c;
     c \<leftarrow> print_dec (word_of_nat cap div (1024 * 1024)) c;
     ret (puts (lit '' MB)'' @ [10]) c)
   }"

section \<open>DHCP\<close>

definition dhcp_run :: "bytes \<Rightarrow> nic \<Rightarrow> console \<Rightarrow> (dhcp_config option \<times> nic \<times> console) option" where
  "dhcp_run mac n c = do {
     let xid = 0x12345678;
     let c = puts (lit ''DHCP...'') c;
     discover \<leftarrow> build_discover xid mac;
     (frame_len, frame) \<leftarrow> build_eth_ip_udp mac discover 300 (replicate 1514 0);
     data \<leftarrow> slice frame 0 frame_len;
     let (ok, n) = nic_send data n;
     if \<not> ok then ret (None, n, puts (lit ''send failed'' @ [10]) c)
     else do {
       let c = puts (lit ''sent '') c;
       (r, n) \<leftarrow> poll 4 (\<lambda>buf len. dhcp_parse_response buf len xid mac) (replicate 1514 0) n;
       ret (r, n, c)
     }
   }"

section \<open>One round of the download\<close>

definition extract_src_port :: "bytes \<Rightarrow> nat \<Rightarrow> u16 option" where
  "extract_src_port frame len =
     (if len < 42 then ret 69
      else do {
        b \<leftarrow> rd frame 14;
        let ip_hdr_len = unat (b AND 0x0F) * 4;
        let udp_offset = 14 + ip_hdr_len;
        if udp_offset + 4 > len then ret 69 else rd16 frame udp_offset
      })"

record 's download =
  server_port :: "u16 option"
  blksize :: u32
  total_size :: nat
  recv_buf :: bytes
  iteration :: u32
  card :: nic
  con :: console
  sink :: 's

datatype 's outcome = Continue "'s download" | Return "nat option" "'s download"

text \<open>The debug output of a round: its length, first two bytes, and first 16 bytes.\<close>

fun put_hex_bytes :: "bytes \<Rightarrow> console \<Rightarrow> console" where
  "put_hex_bytes [] c = c"
| "put_hex_bytes (b # bs) c =
     put_hex_bytes bs (putc (hex_digit (b AND 0x0F)) (putc (hex_digit (drop_bit 4 b)) c))"

definition log_frame :: "bytes \<Rightarrow> nat \<Rightarrow> console \<Rightarrow> console option" where
  "log_frame buf copy_len c = do {
     let c = puts (lit ''    TFTP: got '') c;
     c \<leftarrow> print_dec (word_of_nat copy_len) c;
     let c = puts (lit '' bytes'') c;
     c \<leftarrow> (if copy_len \<ge> 2 then do {
         w \<leftarrow> rd16 buf 0;
         print_hex (ucast w) 4 (puts (lit '', opcode=0x'') c)
       } else ret c);
     let c = puts (lit '' data='') c;
     s \<leftarrow> slice buf 0 (min copy_len 16);
     ret (putc 10 (put_hex_bytes s c))
   }"

text \<open>The ARP branch: \<open>Some n\<close> when the round ends with a request for our address.\<close>

definition answer_arp :: "bytes \<Rightarrow> bytes \<Rightarrow> bytes \<Rightarrow> nat \<Rightarrow> nic \<Rightarrow> nic option option" where
  "answer_arp mac src_ip buf copy_len n =
     (if copy_len < 42 then ret None
      else do {
        arp \<leftarrow> match_at buf [(12, 0x08), (13, 0x06)];
        if \<not> arp then ret None else do {
        let off = 14;
        request \<leftarrow> match_at buf [(off + 6, 0x00), (off + 7, 0x01)];
        if \<not> request then ret None else do {
        tpa \<leftarrow> slice buf (off + 24) (off + 28);
        if tpa \<noteq> src_ip then ret None else do {
        (r, arp_reply) \<leftarrow> build_reply mac src_ip buf (replicate 1514 0);
        case r of None \<Rightarrow> ret (Some n)
        | Some reply_len \<Rightarrow> do {
            data \<leftarrow> slice arp_reply 0 reply_len;
            ret (Some (snd (nic_send data n)))
          }
        }}}
      })"

definition send_ack :: "bytes \<Rightarrow> bytes \<Rightarrow> bytes \<Rightarrow> u16 \<Rightarrow> u16 \<Rightarrow> nic \<Rightarrow> nic option" where
  "send_ack mac src_ip dst_ip sport block n = do {
     (ack_len, ack_buf) \<leftarrow> build_ack block (replicate 4 0);
     payload \<leftarrow> slice ack_buf 0 ack_len;
     (r, ack_frame) \<leftarrow> build_udp_frame mac src_ip dst_ip 68 sport payload (replicate 1514 0);
     case r of None \<Rightarrow> ret n
     | Some ack_frame_len \<Rightarrow> do {
         data \<leftarrow> slice ack_frame 0 ack_frame_len;
         ret (snd (nic_send data n))
       }
   }"

text \<open>The report of an ERROR packet: \<open>position\<close> of the terminating 0 of its message, or all of it.\<close>

definition report_error :: "bytes \<Rightarrow> console \<Rightarrow> console option" where
  "report_error payload c = do {
     let c = puts (lit ''    TFTP: ERROR from server: '') c;
     code \<leftarrow> rd16 payload 2;
     c \<leftarrow> print_dec (ucast code) c;
     let c = puts (lit '' - '') c;
     ret (putc 10 (puts (takeWhile (\<lambda>b. b \<noteq> 0) (drop 4 payload)) c))
   }"

text \<open>The part of the round after a UDP payload has been found.\<close>

definition handle_payload ::
  "('s \<Rightarrow> bytes \<Rightarrow> 's option) \<Rightarrow> ('s \<Rightarrow> nat \<Rightarrow> 's option) \<Rightarrow> bytes \<Rightarrow> bytes \<Rightarrow> bytes \<Rightarrow> u16 \<Rightarrow> bytes \<Rightarrow>
   's download \<Rightarrow> 's outcome option" where
  "handle_payload write_block finalize mac src_ip dst_ip sport payload st = do {
     let tftp_len = length payload;
     is_error \<leftarrow> (if tftp_len \<ge> 4 then map_option (\<lambda>w. w = 5) (rd16 payload 0) else ret False);
     if is_error then do {
       c \<leftarrow> report_error payload (con st);
       ret (Return None (st\<lparr>con := c\<rparr>))
     } else do {
     oack \<leftarrow> parse_oack payload tftp_len;
     case oack of
       Some (new_blksize, tsize) \<Rightarrow> do {
         n \<leftarrow> send_ack mac src_ip dst_ip sport 0 (card st);
         ret (Continue (st\<lparr>blksize := new_blksize, card := n\<rparr>))
       }
     | None \<Rightarrow> do {
         d \<leftarrow> parse_data payload tftp_len;
         case d of None \<Rightarrow> ret (Continue st)
         | Some (block, data) \<Rightarrow>
             (case write_block (sink st) data of None \<Rightarrow> ret (Return None st)
              | Some s \<Rightarrow> do {
                  let st = st\<lparr>sink := s, total_size := total_size st + length data\<rparr>;
                  n \<leftarrow> send_ack mac src_ip dst_ip sport block (card st);
                  let st = st\<lparr>card := n\<rparr>;
                  if length data < unat (blksize st) then
                    (case finalize (sink st) (total_size st) of
                       None \<Rightarrow> ret (Return None st)
                     | Some s \<Rightarrow> ret (Return (Some (total_size st)) (st\<lparr>sink := s\<rparr>)))
                  else ret (Continue st)
                })
       }
     }
   }"

text \<open>A round with a received frame, already copied into \<open>recv_buf\<close>.\<close>

definition download_step ::
  "('s \<Rightarrow> bytes \<Rightarrow> 's option) \<Rightarrow> ('s \<Rightarrow> nat \<Rightarrow> 's option) \<Rightarrow> bytes \<Rightarrow> bytes \<Rightarrow> bytes \<Rightarrow> nat \<Rightarrow>
   's download \<Rightarrow> 's outcome option" where
  "download_step write_block finalize mac src_ip dst_ip copy_len st = do {
     c \<leftarrow> log_frame (recv_buf st) copy_len (con st);
     let st = st\<lparr>con := c\<rparr>;
     arp \<leftarrow> answer_arp mac src_ip (recv_buf st) copy_len (card st);
     case arp of
       Some n \<Rightarrow> ret (Continue (st\<lparr>card := n\<rparr>))
     | None \<Rightarrow> do {
         st \<leftarrow> (case server_port st of Some p \<Rightarrow> ret st
               | None \<Rightarrow> do {
                   port \<leftarrow> extract_src_port (recv_buf st) copy_len;
                   let c = puts (lit ''    TFTP: server port='') (con st);
                   c \<leftarrow> print_dec (ucast port) c;
                   ret (st\<lparr>server_port := Some port, con := putc 10 c\<rparr>)
                 });
         let sport = (case server_port st of Some p \<Rightarrow> p | None \<Rightarrow> 69);
         payload \<leftarrow> udp_payload (recv_buf st) copy_len;
         case payload of None \<Rightarrow> ret (Continue st)
         | Some p \<Rightarrow> handle_payload write_block finalize mac src_ip dst_ip sport p st
       }
   }"

definition report_timeout :: "'s download \<Rightarrow> 's download option" where
  "report_timeout st = do {
     let c = puts (lit ''    TFTP: receive timeout (try '') (con st);
     c \<leftarrow> print_dec (ucast (iteration st)) c;
     ret (st\<lparr>con := puts (lit '')'' @ [10]) c\<rparr>)
   }"

section \<open>The loop\<close>

fun download_loop ::
  "('s \<Rightarrow> bytes \<Rightarrow> 's option) \<Rightarrow> ('s \<Rightarrow> nat \<Rightarrow> 's option) \<Rightarrow> bytes \<Rightarrow> bytes \<Rightarrow> bytes \<Rightarrow>
   bytes option list \<Rightarrow> 's download \<Rightarrow> (nat option \<times> 's download) option" where
  "download_loop write_block finalize mac src_ip dst_ip [] st =
     map_option (\<lambda>st. (None, st)) (report_timeout (st\<lparr>iteration := iteration st + 1\<rparr>))"
| "download_loop write_block finalize mac src_ip dst_ip (None # es) st =
     map_option (\<lambda>st. (None, st))
       (report_timeout (st\<lparr>iteration := iteration st + 1, card := (card st)\<lparr>rx := es\<rparr>\<rparr>))"
| "download_loop write_block finalize mac src_ip dst_ip (Some d # es) st = do {
     let copy_len = min (length d) 1514;
     let st = st\<lparr>iteration := iteration st + 1, card := (card st)\<lparr>rx := es\<rparr>,
       recv_buf := overlay (recv_buf st) 0 (take copy_len d)\<rparr>;
     oc \<leftarrow> download_step write_block finalize mac src_ip dst_ip copy_len st;
     case oc of Continue st \<Rightarrow> download_loop write_block finalize mac src_ip dst_ip es st
     | Return r st \<Rightarrow> ret (r, st)
   }"

definition tftp_download ::
  "('s \<Rightarrow> bytes \<Rightarrow> 's option) \<Rightarrow> ('s \<Rightarrow> nat \<Rightarrow> 's option) \<Rightarrow> bytes \<Rightarrow> bytes \<Rightarrow> bytes \<Rightarrow> bytes \<Rightarrow>
   's \<Rightarrow> nic \<Rightarrow> console \<Rightarrow> (nat option \<times> 's \<times> nic \<times> console) option" where
  "tftp_download write_block finalize mac src_ip dst_ip filename k n c = do {
     (rrq_len, rrq_buf) \<leftarrow> build_rrq filename (replicate 512 0);
     rrq \<leftarrow> slice rrq_buf 0 rrq_len;
     (r, frame) \<leftarrow> build_udp_frame mac src_ip dst_ip 68 69 rrq (replicate 1514 0);
     case r of None \<Rightarrow> ret (None, k, n, c)
     | Some frame_len \<Rightarrow> do {
         let c = puts (lit ''    TFTP: Sending RRQ...'' @ [10]) c;
         data \<leftarrow> slice frame 0 frame_len;
         let (ok, n) = nic_send data n;
         if \<not> ok then ret (None, k, n, puts (lit ''    TFTP: RRQ send FAILED'' @ [10]) c)
         else do {
           let c = puts (lit ''    TFTP: RRQ sent, waiting for response...'' @ [10]) c;
           (r, st) \<leftarrow> download_loop write_block finalize mac src_ip dst_ip (rx n)
             \<lparr>server_port = None, blksize = word_of_nat DEFAULT_BLKSIZE, total_size = 0,
              recv_buf = replicate 1514 0, iteration = 0, card = n, con = c, sink = k\<rparr>;
           ret (r, sink st, card st, con st)
         }
       }
   }"

section \<open>Every helper of a round returns\<close>

lemma format_hex_total: "0 < k \<Longrightarrow> k \<le> 16 \<Longrightarrow> \<exists>s. format_hex v k = Some s"
  using hex_loop_fresh [of k v] by (auto simp: format_hex_def)

lemma log_frame_total:
  assumes "copy_len \<le> length buf"
  shows "\<exists>c'. log_frame buf copy_len c = Some c'"
proof -
  obtain s where "format_hex (ucast (from_be16 (buf ! 0) (buf ! 1))) 4 = Some s"
    using format_hex_total [of 4] by auto
  with assms show ?thesis
    by (cases "2 \<le> copy_len") (simp_all add: log_frame_def print_dec_eq print_hex_def Let_def)
qed

lemma report_timeout_total: "\<exists>c'. report_timeout st = Some (st\<lparr>con := c'\<rparr>)"
  unfolding report_timeout_def print_dec_eq Let_def bind.bind_lunit by (rule exI) (rule refl)

lemma answer_arp_ipv4:
  assumes "buf ! 13 = 0x00" and "42 \<le> length buf"
  shows "answer_arp mac src_ip buf copy_len n = Some None"
  using assms by (simp add: answer_arp_def)

lemma extract_src_port_eq:
  assumes "seg f 34 36 = be16 p" and "f ! 14 = 0x45" and "42 \<le> len" and "len \<le> length f"
  shows "extract_src_port f len = Some p"
proof -
  have "f ! 34 = be16 p ! 0" "f ! 35 = be16 p ! 1"
    using assms(1,3,4) by (simp_all add: seg_step be16_def)
  then show ?thesis
    using assms by (simp add: extract_src_port_def nth_be)
qed

text \<open>The acknowledgment frame for a block, and what \<open>send_ack\<close> does with it.\<close>

definition ack_frame :: "bytes \<Rightarrow> bytes \<Rightarrow> bytes \<Rightarrow> u16 \<Rightarrow> u16 \<Rightarrow> bytes" where
  "ack_frame mac src_ip dst_ip sport block =
     (case build_udp_frame mac src_ip dst_ip 68 sport (be16 OP_ACK @ be16 block) (replicate 1514 0) of
        Some (Some n, f) \<Rightarrow> take n f | _ \<Rightarrow> [])"

definition addresses_ok :: "bytes \<Rightarrow> bytes \<Rightarrow> bytes \<Rightarrow> bool" where
  "addresses_ok mac src_ip dst_ip \<longleftrightarrow> length mac = 6 \<and> length src_ip = 4 \<and> length dst_ip = 4"

lemma ack_frame_payload:
  assumes "addresses_ok mac src_ip dst_ip"
  shows "length (ack_frame mac src_ip dst_ip sport block) = 46"
    and "udp_payload (ack_frame mac src_ip dst_ip sport block) 46 = Some (Some (be16 OP_ACK @ be16 block))"
    and "\<exists>f. build_udp_frame mac src_ip dst_ip 68 sport (be16 OP_ACK @ be16 block) (replicate 1514 0) =
      Some (Some 46, f) \<and> ack_frame mac src_ip dst_ip sport block = take 46 f \<and> length f = 1514"
proof -
  let ?p = "be16 OP_ACK @ be16 block"
  obtain f where f: "build_udp_frame mac src_ip dst_ip 68 sport ?p (replicate 1514 0) = Some (Some 46, f)"
    and env: "udp_envelope ?p f"
    using build_udp_frame_envelope [of mac src_ip dst_ip "replicate 1514 0" ?p 68 sport] assms
    by (auto simp: addresses_ok_def)
  then have len: "length f = 1514" and frame: "ack_frame mac src_ip dst_ip sport block = take 46 f"
    by (simp_all add: udp_envelope_def ack_frame_def)
  then show "length (ack_frame mac src_ip dst_ip sport block) = 46"
    by simp
  show "\<exists>f. build_udp_frame mac src_ip dst_ip 68 sport ?p (replicate 1514 0) = Some (Some 46, f) \<and>
      ack_frame mac src_ip dst_ip sport block = take 46 f \<and> length f = 1514"
    using f len frame by blast
  have "udp_payload (take 46 f) 46 = udp_payload f 46"
    using len env by (simp add: udp_payload_def udp_envelope_def)
  then show "udp_payload (ack_frame mac src_ip dst_ip sport block) 46 = Some (Some ?p)"
    using udp_envelope_payload [OF env, of 46] frame by simp
qed

lemma send_ack_eq:
  assumes "addresses_ok mac src_ip dst_ip"
  shows "send_ack mac src_ip dst_ip sport block n =
    Some (snd (nic_send (ack_frame mac src_ip dst_ip sport block) n))"
  using ack_frame_payload(3) [OF assms, of sport block]
  by (auto simp: send_ack_def build_ack_packet overlay_front seg_0)

lemma nic_send_all_ok:
  "tx_ok n = [] \<Longrightarrow> length d \<le> 2048 \<Longrightarrow> nic_send d n = (True, n\<lparr>tx := tx n @ [d]\<rparr>)"
  by (simp add: nic_send_def)

section \<open>A transfer\<close>

text \<open>A frame as a server sends it from port \<open>p\<close>: a UDP envelope of DATA block \<open>b\<close>, cut after the
  payload or after padding.\<close>

definition data_frame :: "u16 \<Rightarrow> u16 \<Rightarrow> bytes \<Rightarrow> bytes \<Rightarrow> bool" where
  "data_frame p b x d \<longleftrightarrow> (\<exists>f n. udp_envelope (data_packet b x) f \<and> seg f 34 36 = be16 p \<and>
     length x \<le> 1468 \<and> 46 + length x \<le> n \<and> n \<le> 1514 \<and> d = take n f)"

lemma length_data_packet [simp]: "length (data_packet b x) = 4 + length x"
  by (simp add: data_packet_def)

lemma udp_envelope_prefix:
  assumes "udp_envelope p f" and "42 + length p \<le> n" and "n \<le> 1514" and "length junk = 1514 - n"
  shows "udp_envelope p (take n f @ junk)"
proof -
  have "length f = 1514"
    using assms(1) by (simp add: udp_envelope_def)
  moreover from this have "seg (take n f @ junk) a b = seg f a b" if "b \<le> n" for a b
    using that assms(2-4) by simp
  moreover have "(take n f @ junk) ! i = f ! i" if "i < n" for i
    using that assms(3) \<open>length f = 1514\<close> by (simp add: nth_append)
  ultimately show ?thesis
    using assms by (simp add: udp_envelope_def)
qed

lemma data_frame_parse:
  assumes "data_frame p b x d" and "length buf = 1514"
  shows "42 \<le> length d" and "length d \<le> 1514"
    and "udp_payload (d @ drop (length d) buf) (length d) = Some (Some (data_packet b x))"
    and "extract_src_port (d @ drop (length d) buf) (length d) = Some p"
    and "(d @ drop (length d) buf) ! 13 = 0"
proof -
  obtain f n where f: "udp_envelope (data_packet b x) f" "seg f 34 36 = be16 p"
    and n: "length x \<le> 1468" "46 + length x \<le> n" "n \<le> 1514" "d = take n f"
    using assms(1) by (auto simp: data_frame_def)
  then have l: "length d = n" "length f = 1514"
    by (auto simp: udp_envelope_def)
  have env: "udp_envelope (data_packet b x) (d @ drop n buf)"
    using udp_envelope_prefix [OF f(1), of n "drop n buf"] n assms(2) by simp
  show "42 \<le> length d" "length d \<le> 1514"
    using n l by simp_all
  show "udp_payload (d @ drop (length d) buf) (length d) = Some (Some (data_packet b x))"
    using udp_envelope_payload [OF env, of n] n l by simp
  have "seg (d @ drop n buf) 34 36 = seg f 34 36"
    using n l by simp
  then show "extract_src_port (d @ drop (length d) buf) (length d) = Some p"
    using env f(2) n l assms(2) by (intro extract_src_port_eq) (simp_all add: udp_envelope_def)
  show "(d @ drop (length d) buf) ! 13 = 0"
    using env l by (simp add: udp_envelope_def)
qed

text \<open>The same builder on the server's side yields such frames.\<close>

definition server_frame :: "u16 \<Rightarrow> u16 \<Rightarrow> bytes \<Rightarrow> bytes" where
  "server_frame p b x =
     (case build_udp_frame (replicate 6 0x52) [10, 0, 2, 2] [10, 0, 2, 15] p 68 (data_packet b x)
        (replicate 1514 0) of Some (Some n, f) \<Rightarrow> take n f | _ \<Rightarrow> [])"

lemma server_frame_ok:
  assumes "length x \<le> 1468"
  shows "data_frame p b x (server_frame p b x)"
proof -
  obtain f where f: "build_udp_frame (replicate 6 0x52) [10, 0, 2, 2] [10, 0, 2, 15] p 68 (data_packet b x)
      (replicate 1514 0) = Some (Some (46 + length x), f)"
    "udp_envelope (data_packet b x) f" "seg f 34 38 = be16 p @ be16 68"
    using build_udp_frame_envelope [of "replicate 6 0x52" "[10, 0, 2, 2]" "[10, 0, 2, 15]"
        "replicate 1514 0" "data_packet b x" p 68] assms
    by auto
  have "length f = 1514"
    using f(2) by (simp add: udp_envelope_def)
  then have "seg f 34 36 = take 2 (seg f 34 38)"
    by (simp add: seg_def min_def)
  with f(3) have "seg f 34 36 = be16 p"
    by (simp add: be16_def)
  with f(1,2) assms show ?thesis
    unfolding data_frame_def server_frame_def
    by (intro exI [of _ f] exI [of _ "46 + length x"]) simp
qed

text \<open>What a DATA packet does to the state of a download, when its block fits.\<close>

definition after_data :: "(u16 \<Rightarrow> bytes) \<Rightarrow> u16 \<Rightarrow> bytes \<Rightarrow> 's \<Rightarrow> 's download \<Rightarrow> 's download" where
  "after_data ack b x k st =
     st\<lparr>sink := k, total_size := total_size st + length x, card := snd (nic_send (ack b) (card st))\<rparr>"

lemma parse_oack_data: "parse_oack (data_packet b x) n = Some (None :: (u32 \<times> u32) option)"
  by (simp add: parse_oack_def data_packet_def tftp_consts be16_def)

lemma parse_data_exact: "parse_data (data_packet b x) (4 + length x) = Some (Some (b, x))"
  using parse_data_packet [of b x "[]"] by simp

text \<open>A round whose frame carries DATA reaches \<open>handle_payload\<close> with the packet, whatever earlier
  frames left in the buffer; only the log, the buffer and the port have changed.\<close>

definition same_transfer :: "u16 \<Rightarrow> bytes option list \<Rightarrow> 's download \<Rightarrow> 's download \<Rightarrow> bool" where
  "same_transfer p es st st1 \<longleftrightarrow> sink st1 = sink st \<and> blksize st1 = blksize st \<and>
     total_size st1 = total_size st \<and> card st1 = (card st)\<lparr>rx := es\<rparr> \<and> server_port st1 = Some p \<and>
     length (recv_buf st1) = 1514"

lemma loop_data_frame:
  assumes "data_frame p b x d" and "length (recv_buf st) = 1514" and "server_port st \<in> {None, Some p}"
  shows "\<exists>st1. same_transfer p es st st1 \<and>
    download_loop wb fin mac src_ip dst_ip (Some d # es) st = do {
      oc \<leftarrow> handle_payload wb fin mac src_ip dst_ip p (data_packet b x) st1;
      case oc of Continue st \<Rightarrow> download_loop wb fin mac src_ip dst_ip es st
      | Return r st \<Rightarrow> ret (r, st)
    }"
proof -
  let ?l = "length d"
  let ?b = "d @ drop ?l (recv_buf st)"
  note d = data_frame_parse [OF assms(1,2)]
  define st0 where "st0 = st\<lparr>iteration := iteration st + 1, card := (card st)\<lparr>rx := es\<rparr>, recv_buf := ?b\<rparr>"
  have b: "length ?b = 1514" "?l \<le> length ?b"
    using d(2) assms(2) by simp_all
  obtain c where c: "log_frame ?b ?l (con st0) = Some c"
    using log_frame_total [OF b(2)] by blast
  have arp: "answer_arp mac src_ip ?b ?l n = Some None" for n
    using d(5) b by (intro answer_arp_ipv4) simp_all
  define st1 where "st1 = (case server_port st of Some q \<Rightarrow> st0\<lparr>con := c\<rparr>
    | None \<Rightarrow> st0\<lparr>server_port := Some p,
        con := putc 10 (puts (dec_str (unat (ucast p :: u64))) (puts (lit ''    TFTP: server port='') c))\<rparr>)"
  have "download_step wb fin mac src_ip dst_ip ?l st0 =
      handle_payload wb fin mac src_ip dst_ip p (data_packet b x) st1"
    using c arp d(3,4) assms(3)
    by (auto simp: download_step_def st0_def st1_def print_dec_eq)
  moreover have "download_loop wb fin mac src_ip dst_ip (Some d # es) st = do {
      oc \<leftarrow> download_step wb fin mac src_ip dst_ip ?l st0;
      case oc of Continue st \<Rightarrow> download_loop wb fin mac src_ip dst_ip es st
      | Return r st \<Rightarrow> ret (r, st)
    }"
    using d(1,2) assms(2) by (simp add: st0_def overlay_front Let_def)
  moreover have "same_transfer p es st st1"
    using b(1) assms(3) by (auto simp: same_transfer_def st1_def st0_def)
  ultimately show ?thesis
    by auto
qed

text \<open>The read request as it leaves the card.\<close>

definition rrq_frame :: "bytes \<Rightarrow> bytes \<Rightarrow> bytes \<Rightarrow> bytes \<Rightarrow> bytes" where
  "rrq_frame mac src_ip dst_ip filename =
     (case build_udp_frame mac src_ip dst_ip 68 69 (rrq_packet filename) (replicate 1514 0) of
        Some (Some n, f) \<Rightarrow> take n f | _ \<Rightarrow> [])"

lemma length_rrq_packet [simp]: "length (rrq_packet filename) = min (length filename) 128 + 9"
  by (simp add: rrq_packet_def)

lemma rrq_frame_eq:
  assumes "addresses_ok mac src_ip dst_ip"
  shows "\<exists>f. build_udp_frame mac src_ip dst_ip 68 69 (rrq_packet filename) (replicate 1514 0) =
      Some (Some (min (length filename) 128 + 51), f) \<and>
    rrq_frame mac src_ip dst_ip filename = take (min (length filename) 128 + 51) f \<and>
    length f = 1514 \<and> udp_envelope (rrq_packet filename) f"
proof -
  have "length (rrq_packet filename) \<le> 1472"
    by (simp add: min_def)
  then obtain f where "build_udp_frame mac src_ip dst_ip 68 69 (rrq_packet filename) (replicate 1514 0) =
      Some (Some (42 + length (rrq_packet filename)), f)" "udp_envelope (rrq_packet filename) f"
    using build_udp_frame_envelope [of mac src_ip dst_ip "replicate 1514 0" "rrq_packet filename" 68 69] assms
    by (auto simp: addresses_ok_def)
  then show ?thesis
    by (auto simp: rrq_frame_def udp_envelope_def add.commute)
qed

lemma download_unfold:
  assumes "addresses_ok mac src_ip dst_ip" and "tx_ok n = []"
  shows "\<exists>c1. tftp_download wb fin mac src_ip dst_ip filename k n c = do {
      (r, st) \<leftarrow> download_loop wb fin mac src_ip dst_ip (rx n)
        \<lparr>server_port = None, blksize = 512, total_size = 0, recv_buf = replicate 1514 0,
         iteration = 0, card = n\<lparr>tx := tx n @ [rrq_frame mac src_ip dst_ip filename]\<rparr>,
         con = c1, sink = k\<rparr>;
      ret (r, sink st, card st, con st)
    }"
proof -
  obtain f where f: "build_udp_frame mac src_ip dst_ip 68 69 (rrq_packet filename) (replicate 1514 0) =
      Some (Some (min (length filename) 128 + 51), f)"
    "rrq_frame mac src_ip dst_ip filename = take (min (length filename) 128 + 51) f" "length f = 1514"
    using rrq_frame_eq [OF assms(1)] by blast
  have l: "min (length filename) 128 + 51 \<le> 1514" "min (length filename) 128 + 9 \<le> 512"
    by (simp_all add: min_def)
  have "length (rrq_packet filename) \<le> 512"
    using l by simp
  then have "build_rrq filename (replicate 512 0) =
      Some (length (rrq_packet filename), overlay (replicate 512 0) 0 (rrq_packet filename))"
    "slice (overlay (replicate 512 0) 0 (rrq_packet filename)) 0 (length (rrq_packet filename)) =
      Some (rrq_packet filename)"
    by (simp_all add: build_rrq_packet overlay_front seg_0)
  moreover have "nic_send (rrq_frame mac src_ip dst_ip filename) n =
      (True, n\<lparr>tx := tx n @ [rrq_frame mac src_ip dst_ip filename]\<rparr>)"
    using assms(2) f l by (intro nic_send_all_ok) simp_all
  moreover have "slice f 0 (min (length filename) 128 + 51) = Some (rrq_frame mac src_ip dst_ip filename)"
    using f l by (simp add: seg_0)
  ultimately show ?thesis
    using f(1) unfolding tftp_download_def
    by (simp add: DEFAULT_BLKSIZE_def Let_def) blast
qed

context tftp_sink
begin

lemma handle_data:
  assumes "addresses_ok mac src_ip dst_ip" and "inv (sink st)" and "length x \<le> room (sink st)"
  shows "\<exists>k. inv k \<and> contents k = contents (sink st) @ x \<and> room k = room (sink st) - length x \<and>
    (let st' = after_data (ack_frame mac src_ip dst_ip sport) b x k st in
     if length x < unat (blksize st)
     then \<exists>k'. inv k' \<and> contents k' = contents k \<and>
       handle_payload write_block finalize mac src_ip dst_ip sport (data_packet b x) st =
         Some (Return (Some (total_size st')) (st'\<lparr>sink := k'\<rparr>))
     else handle_payload write_block finalize mac src_ip dst_ip sport (data_packet b x) st =
         Some (Continue st'))"
proof -
  obtain k where k: "write_block (sink st) x = Some k" "inv k" "contents k = contents (sink st) @ x"
    "room k = room (sink st) - length x"
    using write_ok assms(2,3) by blast
  obtain k' where k': "finalize k (total_size st + length x) = Some k'" "inv k'" "contents k' = contents k"
    using finalize_ok k(2) by blast
  have "rd16 (data_packet b x) 0 = Some 3"
    by (simp add: data_packet_def tftp_consts be16_def)
  then have "handle_payload write_block finalize mac src_ip dst_ip sport (data_packet b x) st =
    (let st' = after_data (ack_frame mac src_ip dst_ip sport) b x k st in
     if length x < unat (blksize st)
     then Some (Return (Some (total_size st')) (st'\<lparr>sink := k'\<rparr>))
     else Some (Continue st'))"
    using k(1) k'(1) assms(1)
    by (simp add: handle_payload_def parse_oack_data parse_data_exact send_ack_eq after_data_def Let_def)
  then show ?thesis
    using k k'(2,3) by (intro exI [of _ k]) (auto simp: Let_def)
qed

lemma loop_blocks:
  assumes "addresses_ok mac src_ip dst_ip" and "list_all2 (\<lambda>d (b, x). data_frame p b x d) ds bs"
    and "bs \<noteq> []" and "\<forall>(b, x) \<in> set (butlast bs). length x = unat (blksize st)"
    and "length (snd (last bs)) < unat (blksize st)"
    and "inv (sink st)" and "length (concat (map snd bs)) \<le> room (sink st)"
    and "length (recv_buf st) = 1514" and "server_port st \<in> {None, Some p}" and "tx_ok (card st) = []"
  shows "\<exists>st'. download_loop write_block finalize mac src_ip dst_ip (map Some ds @ es) st =
      Some (Some (total_size st + length (concat (map snd bs))), st') \<and>
    inv (sink st') \<and> contents (sink st') = contents (sink st) @ concat (map snd bs) \<and>
    tx (card st') = tx (card st) @ map (\<lambda>(b, x). ack_frame mac src_ip dst_ip p b) bs"
  using assms(2-)
proof (induction bs arbitrary: ds st rule: list.induct)
  case (Cons bx bs)
  obtain b x where bx: "bx = (b, x)"
    by (cases bx)
  obtain d ds' where ds: "ds = d # ds'" "data_frame p b x d"
    "list_all2 (\<lambda>d (b, x). data_frame p b x d) ds' bs"
    using Cons.prems(1) by (auto simp: bx list_all2_Cons2)
  let ?es = "map Some ds' @ es"
  let ?ack = "ack_frame mac src_ip dst_ip p"
  obtain st1 where st1: "same_transfer p ?es st st1"
    and loop: "download_loop write_block finalize mac src_ip dst_ip (Some d # ?es) st = do {
      oc \<leftarrow> handle_payload write_block finalize mac src_ip dst_ip p (data_packet b x) st1;
      case oc of Continue st \<Rightarrow> download_loop write_block finalize mac src_ip dst_ip ?es st
      | Return r st \<Rightarrow> ret (r, st)
    }"
    using loop_data_frame [OF ds(2) Cons.prems(7,8)] by blast
  have st1_eq: "sink st1 = sink st" "blksize st1 = blksize st" "total_size st1 = total_size st"
    "tx (card st1) = tx (card st)" "tx_ok (card st1) = []"
    using st1 Cons.prems(9) by (simp_all add: same_transfer_def)
  have room: "length x \<le> room (sink st)"
    using Cons.prems(6) by (simp add: bx)
  obtain k where k: "inv k" "contents k = contents (sink st) @ x" "room k = room (sink st) - length x"
    and handle: "let st' = after_data ?ack b x k st1 in
     if length x < unat (blksize st)
     then \<exists>k'. inv k' \<and> contents k' = contents k \<and>
       handle_payload write_block finalize mac src_ip dst_ip p (data_packet b x) st1 =
         Some (Return (Some (total_size st')) (st'\<lparr>sink := k'\<rparr>))
     else handle_payload write_block finalize mac src_ip dst_ip p (data_packet b x) st1 =
         Some (Continue st')"
    using handle_data [OF assms(1), of st1 x p b] Cons.prems(5) room st1_eq by auto
  have sent: "tx (card (after_data ?ack b x k st1)) = tx (card st) @ [?ack b]"
    "tx_ok (card (after_data ?ack b x k st1)) = []"
    using st1_eq ack_frame_payload(1) [OF assms(1), of p b]
    by (simp_all add: after_data_def nic_send_all_ok)
  show ?case
  proof (cases "bs = []")
    case True
    then have "ds' = []" "length x < unat (blksize st)"
      using ds(3) Cons.prems(4) by (simp_all add: bx)
    with True handle loop k sent st1_eq ds show ?thesis
      by (auto simp: bx Let_def after_data_def)
  next
    case False
    then have full: "\<not> length x < unat (blksize st)"
      using Cons.prems(3) by (simp add: bx)
    have "\<exists>st'. download_loop write_block finalize mac src_ip dst_ip ?es (after_data ?ack b x k st1) =
      Some (Some (total_size (after_data ?ack b x k st1) + length (concat (map snd bs))), st') \<and>
      inv (sink st') \<and> contents (sink st') = contents (sink (after_data ?ack b x k st1)) @ concat (map snd bs) \<and>
      tx (card st') = tx (card (after_data ?ack b x k st1)) @ map (\<lambda>(b, x). ?ack b) bs"
      using Cons.prems False ds(3) k st1 st1_eq sent(2)
      by (intro Cons.IH) (auto simp: bx after_data_def same_transfer_def)
    with handle loop full k sent st1_eq ds show ?thesis
      by (auto simp: bx Let_def after_data_def)
  qed
qed simp

lemma download_delivers:
  assumes "addresses_ok mac src_ip dst_ip" and "tx_ok n = []" and "rx n = map Some ds @ es"
    and "list_all2 (\<lambda>d (b, x). data_frame p b x d) ds bs" and "bs \<noteq> []"
    and "\<forall>(b, x) \<in> set (butlast bs). length x = 512" and "length (snd (last bs)) < 512"
    and "inv k" and "length (concat (map snd bs)) \<le> room k"
  shows "\<exists>k' n' c'. tftp_download write_block finalize mac src_ip dst_ip filename k n c =
      Some (Some (length (concat (map snd bs))), k', n', c') \<and>
    inv k' \<and> contents k' = contents k @ concat (map snd bs) \<and>
    tx n' = tx n @ rrq_frame mac src_ip dst_ip filename #
      map (\<lambda>(b, x). ack_frame mac src_ip dst_ip p b) bs"
proof -
  obtain c1 where c1: "tftp_download write_block finalize mac src_ip dst_ip filename k n c = do {
      (r, st) \<leftarrow> download_loop write_block finalize mac src_ip dst_ip (rx n)
        \<lparr>server_port = None, blksize = 512, total_size = 0, recv_buf = replicate 1514 0,
         iteration = 0, card = n\<lparr>tx := tx n @ [rrq_frame mac src_ip dst_ip filename]\<rparr>,
         con = c1, sink = k\<rparr>;
      ret (r, sink st, card st, con st)
    }"
    using download_unfold [OF assms(1,2), of write_block finalize filename k c] by blast
  let ?st = "\<lparr>server_port = None, blksize = 512, total_size = 0, recv_buf = replicate 1514 0,
     iteration = 0, card = n\<lparr>tx := tx n @ [rrq_frame mac src_ip dst_ip filename]\<rparr>,
     con = c1, sink = k\<rparr>"
  have "\<exists>st'. download_loop write_block finalize mac src_ip dst_ip (map Some ds @ es) ?st =
      Some (Some (total_size ?st + length (concat (map snd bs))), st') \<and>
    inv (sink st') \<and> contents (sink st') = contents (sink ?st) @ concat (map snd bs) \<and>
    tx (card st') = tx (card ?st) @ map (\<lambda>(b, x). ack_frame mac src_ip dst_ip p b) bs"
    using assms by (intro loop_blocks) simp_all
  with c1 assms(3) show ?thesis
    by auto
qed

end

section \<open>The BIOS download\<close>

text \<open>C24. A TFTP transfer delivers the file: when the server answers the read request with the
  file's blocks in order (512 bytes each, a shorter last one), in frames that may be padded, and
  the file fits the buffer, \<open>tftp_download\<close> into extended memory returns the file's size, the
  bytes at the buffer's address are exactly the file, and the frames it sent are the read request
  followed by one acknowledgment per block, in order, to the server's port.\<close>

theorem tftp_download_delivers:
  assumes "addresses_ok mac src_ip dst_ip" and "tx_ok n = []" and "rx n = map Some ds @ es"
    and "list_all2 (\<lambda>d (b, x). data_frame p b x d) ds bs" and "bs \<noteq> []"
    and "\<forall>(b, x) \<in> set (butlast bs). length x = 512" and "length (snd (last bs)) < 512"
    and "current_offset sk = 0" and "length (concat (map snd bs)) \<le> capacity sk"
  shows "\<exists>sk' m' n' c'.
    tftp_download mem_write_block mem_finalize mac src_ip dst_ip filename (sk, m) n c =
      Some (Some (length (concat (map snd bs))), (sk', m'), n', c') \<and>
    load m' (unat (ucast (buffer_addr sk) :: u32)) (length (concat (map snd bs))) = concat (map snd bs) \<and>
    tx n' = tx n @ rrq_frame mac src_ip dst_ip filename #
      map (\<lambda>(b, x). ack_frame mac src_ip dst_ip p b) bs"
proof -
  let ?file = "concat (map snd bs)"
  have "mem_inv (base_addr sk) (sk, m)" "length ?file \<le> mem_room (sk, m)"
    using assms(8,9) by (simp_all add: mem_inv_def mem_room_def)
  then obtain sk' m' n' c' where
    run: "tftp_download mem_write_block mem_finalize mac src_ip dst_ip filename (sk, m) n c =
      Some (Some (length ?file), (sk', m'), n', c')"
    and inv: "mem_inv (base_addr sk) (sk', m')"
    and got: "mem_contents (sk', m') = mem_contents (sk, m) @ ?file"
    and sent: "tx n' = tx n @ rrq_frame mac src_ip dst_ip filename #
      map (\<lambda>(b, x). ack_frame mac src_ip dst_ip p b) bs"
    using mem_sink.download_delivers [OF assms(1-7), of "base_addr sk" "(sk, m)" filename c] by auto
  have "load m' (unat (ucast (base_addr sk) :: u32)) (current_offset sk') = ?file"
    using inv got assms(8) by (simp add: mem_inv_def mem_contents_def load_def)
  moreover from this have "current_offset sk' = length ?file"
    by (metis length_load)
  ultimately show ?thesis
    using run sent by (auto simp: buffer_addr_def)
qed

lemma tftp_download_delivers_witness:
  "\<exists>sk' m' n' c'.
    tftp_download mem_write_block mem_finalize (replicate 6 2) [10, 0, 2, 15] [10, 0, 2, 2] (lit ''a.lua'')
      (\<lparr>base_addr = 0x200000, current_offset = 0, capacity = 4096\<rparr>, \<lambda>_. 0)
      \<lparr>rx = map Some [server_frame 40000 1 (replicate 512 7), server_frame 40000 2 [1, 2, 3]] @ [],
       tx_ok = [], tx = []\<rparr> \<lparr>putc_fn = True, out = []\<rparr> =
      Some (Some (length (concat (map snd [(1, replicate 512 7), (2 :: u16, [1 :: u8, 2, 3])]))),
        (sk', m'), n', c') \<and>
    load m' (unat (ucast (buffer_addr \<lparr>base_addr = 0x200000, current_offset = 0, capacity = 4096\<rparr>) :: u32))
      (length (concat (map snd [(1, replicate 512 7), (2 :: u16, [1 :: u8, 2, 3])]))) =
      concat (map snd [(1, replicate 512 7), (2 :: u16, [1, 2, 3])]) \<and>
    tx n' = tx \<lparr>rx = map Some [server_frame 40000 1 (replicate 512 7), server_frame 40000 2 [1, 2, 3]] @ [],
       tx_ok = [], tx = []\<rparr> @ rrq_frame (replicate 6 2) [10, 0, 2, 15] [10, 0, 2, 2] (lit ''a.lua'') #
      map (\<lambda>(b, x). ack_frame (replicate 6 2) [10, 0, 2, 15] [10, 0, 2, 2] 40000 b)
        [(1, replicate 512 7), (2 :: u16, [1 :: u8, 2, 3])]"
  by (rule tftp_download_delivers
      [where ds = "[server_frame 40000 1 (replicate 512 7), server_frame 40000 2 [1, 2, 3]]" and es = "[]"])
    (simp_all add: addresses_ok_def server_frame_ok)

text \<open>C30. Lock-step violations are not detected: a DATA block that the server sends twice (its
  acknowledgment was lost, say) is appended twice, and the transfer still succeeds. The block
  number that each packet carries is acknowledged but never compared.\<close>

theorem tftp_duplicate_appended:
  assumes "addresses_ok mac src_ip dst_ip" and "length x = 512" and "length y < 512"
    and "tx_ok n = []" and "rx n = [Some dx, Some dx, Some dy]"
    and "data_frame p 1 x dx" and "data_frame p 2 y dy"
    and "current_offset sk = 0" and "1536 \<le> capacity sk"
  shows "\<exists>sk' m' n' c'.
    tftp_download mem_write_block mem_finalize mac src_ip dst_ip filename (sk, m) n c =
      Some (Some (1024 + length y), (sk', m'), n', c') \<and>
    load m' (unat (ucast (buffer_addr sk) :: u32)) (1024 + length y) = x @ x @ y"
proof -
  let ?bs = "[(1, x), (1, x), (2 :: u16, y)]"
  have "mem_inv (base_addr sk) (sk, m)" "length (concat (map snd ?bs)) \<le> mem_room (sk, m)"
    using assms by (simp_all add: mem_inv_def mem_room_def)
  moreover have "rx n = map Some [dx, dx, dy] @ []"
    "list_all2 (\<lambda>d (b, x). data_frame p b x d) [dx, dx, dy] ?bs"
    "\<forall>(b, x) \<in> set (butlast ?bs). length x = 512" "length (snd (last ?bs)) < 512"
    using assms by simp_all
  ultimately obtain sk' m' n' c' where
    run: "tftp_download mem_write_block mem_finalize mac src_ip dst_ip filename (sk, m) n c =
      Some (Some (length (concat (map snd ?bs))), (sk', m'), n', c')"
    and inv: "mem_inv (base_addr sk) (sk', m')"
    and got: "mem_contents (sk', m') = mem_contents (sk, m) @ concat (map snd ?bs)"
    using mem_sink.download_delivers [OF assms(1,4), of "[dx, dx, dy]" "[]" p ?bs "base_addr sk" "(sk, m)"
        filename c] by auto
  have "load m' (unat (ucast (base_addr sk) :: u32)) (current_offset sk') = x @ x @ y"
    using inv got assms(8) by (simp add: mem_inv_def mem_contents_def load_def)
  moreover from this have "current_offset sk' = 1024 + length y"
    using assms(2) by (metis length_load length_append add.assoc numeral_Bit0)
  ultimately show ?thesis
    using run assms(2) by (auto simp: buffer_addr_def)
qed

lemma tftp_duplicate_appended_witness:
  "\<exists>sk' m' n' c'.
    tftp_download mem_write_block mem_finalize (replicate 6 2) [10, 0, 2, 15] [10, 0, 2, 2] (lit ''a.lua'')
      (\<lparr>base_addr = 0x200000, current_offset = 0, capacity = 4096\<rparr>, \<lambda>_. 0)
      \<lparr>rx = [Some (server_frame 9 1 (replicate 512 7)), Some (server_frame 9 1 (replicate 512 7)),
        Some (server_frame 9 2 [1])], tx_ok = [], tx = []\<rparr> \<lparr>putc_fn = True, out = []\<rparr> =
      Some (Some (1024 + length [1 :: u8]), (sk', m'), n', c') \<and>
    load m' (unat (ucast (buffer_addr \<lparr>base_addr = 0x200000, current_offset = 0, capacity = 4096\<rparr>) :: u32))
      (1024 + length [1 :: u8]) = replicate 512 7 @ replicate 512 7 @ [1]"
  by (rule tftp_duplicate_appended [where p = 9 and dx = "server_frame 9 1 (replicate 512 7)"
      and dy = "server_frame 9 2 [1]"])
    (simp_all add: addresses_ok_def server_frame_ok)

section \<open>No packet makes the download panic\<close>

lemma build_reply_total:
  assumes "length mac = 6" and "length ip = 4" and "length frame = 1514"
  shows "\<exists>r f. build_reply mac ip request frame = Some (r, f) \<and> (\<forall>k. r = Some k \<longrightarrow> k = 42) \<and> length f = 1514"
proof (cases "length request < 42 \<or> seg request 12 14 \<noteq> [0x08, 0x06] \<or>
    seg request 20 22 \<noteq> [0, 1] \<or> seg request 38 42 \<noteq> ip")
  case True
  then show ?thesis
    using assms build_reply_ignores by auto
next
  case False
  then show ?thesis
    using assms build_reply_packet [of mac ip frame request] by auto
qed

lemma answer_arp_total:
  assumes "length mac = 6" and "length ip = 4" and "length buf = 1514"
  shows "\<exists>r. answer_arp mac ip buf copy_len n = Some r"
proof -
  obtain r f where "build_reply mac ip buf (replicate 1514 0) = Some (r, f)"
    "\<forall>k. r = Some k \<longrightarrow> k = 42" "length f = 1514"
    using build_reply_total [of mac ip "replicate 1514 0" buf] assms by auto
  with assms show ?thesis
    by (cases r) (auto simp: answer_arp_def)
qed

lemma extract_src_port_total: "len \<le> length frame \<Longrightarrow> \<exists>p. extract_src_port frame len = Some p"
  by (auto simp: extract_src_port_def Let_def)

lemma rd16_total: "i + 1 < length xs \<Longrightarrow> \<exists>w. rd16 xs i = Some w"
  by simp

lemma parse_data_returns: "\<exists>r. parse_data payload (length payload) = Some r"
proof (cases "length payload < 4")
  case False
  then have "rd payload 0 = Some (payload ! 0)"
    by (auto simp: rd_def)
  with False show ?thesis
    by (simp add: parse_data_def Let_def)
qed (simp add: parse_data_def)

text \<open>What every round keeps.\<close>

definition round_ok :: "'s download \<Rightarrow> bool" where
  "round_ok st \<longleftrightarrow> length (recv_buf st) = 1514"

definition outcome_ok :: "'s outcome \<Rightarrow> bool" where
  "outcome_ok oc \<longleftrightarrow> (case oc of Continue st \<Rightarrow> round_ok st | Return r st \<Rightarrow> True)"

lemma handle_payload_total:
  assumes "addresses_ok mac src_ip dst_ip" and "round_ok st"
  shows "\<exists>oc. handle_payload wb fin mac src_ip dst_ip sport p st = Some oc \<and> outcome_ok oc"
proof -
  obtain r :: "(u32 \<times> u32) option" where r: "parse_oack p (length p) = Some r"
    using parse_oack_returns [of "length p" p] by auto
  obtain d where d: "parse_data p (length p) = Some d"
    using parse_data_returns by blast
  show ?thesis
  proof (cases "length p \<ge> 4 \<and> from_be16 (p ! 0) (p ! 1) = 5")
    case True
    then show ?thesis
      by (simp add: handle_payload_def report_error_def print_dec_eq outcome_ok_def)
  next
    case False
    then have "handle_payload wb fin mac src_ip dst_ip sport p st =
      (case r of
        Some (new_blksize, tsize) \<Rightarrow> Some (Continue (st\<lparr>blksize := new_blksize,
          card := snd (nic_send (ack_frame mac src_ip dst_ip sport 0) (card st))\<rparr>))
      | None \<Rightarrow> (case d of None \<Rightarrow> Some (Continue st)
        | Some (block, data) \<Rightarrow>
            (case wb (sink st) data of None \<Rightarrow> Some (Return None st)
             | Some s \<Rightarrow>
                 let st = after_data (ack_frame mac src_ip dst_ip sport) block data s st in
                 if length data < unat (blksize st) then
                    (case fin (sink st) (total_size st) of
                       None \<Rightarrow> ret (Return None st)
                     | Some s \<Rightarrow> ret (Return (Some (total_size st)) (st\<lparr>sink := s\<rparr>)))
                 else ret (Continue st))))"
      using r d assms(1)
      by (cases "length p \<ge> 4")
        (auto simp: handle_payload_def send_ack_eq after_data_def Let_def
          split: option.splits prod.splits)
    then show ?thesis
      using assms(2)
      by (auto simp: outcome_ok_def round_ok_def after_data_def Let_def split: option.splits prod.splits)
  qed
qed

lemma download_step_total:
  assumes "addresses_ok mac src_ip dst_ip" and "round_ok st" and "len \<le> 1514"
  shows "\<exists>oc. download_step wb fin mac src_ip dst_ip len st = Some oc \<and> outcome_ok oc"
proof -
  have len: "len \<le> length (recv_buf st)"
    using assms(2,3) by (simp add: round_ok_def)
  obtain c where c: "log_frame (recv_buf st) len (con st) = Some c"
    using log_frame_total [OF len] by blast
  obtain r where r: "answer_arp mac src_ip (recv_buf st) len (card st) = Some r"
    using answer_arp_total [of mac src_ip "recv_buf st" len "card st"] assms
    by (auto simp: addresses_ok_def round_ok_def)
  obtain q where q: "extract_src_port (recv_buf st) len = Some q"
    using extract_src_port_total [OF len] by blast
  obtain u where u: "udp_payload (recv_buf st) len = Some u"
    using udp_payload_infix [OF len] by blast
  have "\<exists>oc. handle_payload wb fin mac src_ip dst_ip sport p st' = Some oc \<and> outcome_ok oc"
    if "recv_buf st' = recv_buf st" for sport p st'
    using handle_payload_total [OF assms(1), of st'] that assms(2) by (simp add: round_ok_def)
  with c r q u assms(2) show ?thesis
    by (cases r; cases u; cases "server_port st")
      (auto simp: download_step_def print_dec_eq outcome_ok_def round_ok_def Let_def)
qed

lemma download_loop_total:
  assumes "addresses_ok mac src_ip dst_ip" and "round_ok st"
  shows "\<exists>r st'. download_loop wb fin mac src_ip dst_ip es st = Some (r, st')"
  using assms(2)
proof (induction es arbitrary: st)
  case Nil
  then show ?case
    using report_timeout_total [of "st\<lparr>iteration := iteration st + 1\<rparr>"] by auto
next
  case (Cons e es)
  show ?case
  proof (cases e)
    case None
    then show ?thesis
      using report_timeout_total [of "st\<lparr>iteration := iteration st + 1, card := (card st)\<lparr>rx := es\<rparr>\<rparr>"]
      by auto
  next
    case (Some d)
    define len where "len = min (length d) 1514"
    define st0 where "st0 = st\<lparr>iteration := iteration st + 1, card := (card st)\<lparr>rx := es\<rparr>,
       recv_buf := overlay (recv_buf st) 0 (take len d)\<rparr>"
    have "round_ok st0" "len \<le> 1514"
      using Cons.prems by (simp_all add: round_ok_def st0_def len_def)
    then obtain oc where oc: "download_step wb fin mac src_ip dst_ip len st0 = Some oc" "outcome_ok oc"
      using download_step_total [OF assms(1)] by blast
    have "download_loop wb fin mac src_ip dst_ip (Some d # es) st =
        (case oc of Continue st \<Rightarrow> download_loop wb fin mac src_ip dst_ip es st | Return r st \<Rightarrow> Some (r, st))"
      using oc(1) by (simp add: st0_def len_def Let_def)
    with oc(2) Cons.IH Some show ?thesis
      by (cases oc) (auto simp: outcome_ok_def)
  qed
qed

text \<open>C29. No sequence of received frames makes the download panic or read outside its buffers, for
  any sink and any file name: with every send succeeding it returns, with a size or without,
  however malformed the frames are.\<close>

theorem tftp_download_total:
  assumes "addresses_ok mac src_ip dst_ip" and "tx_ok n = []"
  shows "\<exists>r k' n' c'. tftp_download wb fin mac src_ip dst_ip filename k n c = Some (r, k', n', c')"
proof -
  obtain c1 where c1: "tftp_download wb fin mac src_ip dst_ip filename k n c = do {
      (r, st) \<leftarrow> download_loop wb fin mac src_ip dst_ip (rx n)
        \<lparr>server_port = None, blksize = 512, total_size = 0, recv_buf = replicate 1514 0,
         iteration = 0, card = n\<lparr>tx := tx n @ [rrq_frame mac src_ip dst_ip filename]\<rparr>,
         con = c1, sink = k\<rparr>;
      ret (r, sink st, card st, con st)
    }"
    using download_unfold [OF assms, of wb fin filename k c] by blast
  show ?thesis
    using download_loop_total [OF assms(1), of "\<lparr>server_port = None, blksize = 512, total_size = 0,
        recv_buf = replicate 1514 0, iteration = 0,
        card = n\<lparr>tx := tx n @ [rrq_frame mac src_ip dst_ip filename]\<rparr>, con = c1, sink = k\<rparr>" wb fin "rx n"] c1
    by (auto simp: round_ok_def)
qed

lemma tftp_download_total_witness:
  "\<exists>r k' n' c'. tftp_download mem_write_block mem_finalize (replicate 6 2) [10, 0, 2, 15] [10, 0, 2, 2]
    (lit ''x'') (\<lparr>base_addr = 0x200000, current_offset = 0, capacity = 4096\<rparr>, \<lambda>_. 0)
    \<lparr>rx = [Some (replicate 60 0xFF), None], tx_ok = [], tx = []\<rparr> \<lparr>putc_fn = True, out = []\<rparr> =
    Some (r, k', n', c')"
  by (rule tftp_download_total) (simp_all add: addresses_ok_def)

section \<open>Invariants of the sink hold through every download\<close>

text \<open>
  Whatever is sent, the sink and the byte count change only by accepted blocks: a relation between
  them that every accepted block keeps holds when the download ends, and a reported size is the
  count.
\<close>

definition sink_keeps ::
  "('s \<Rightarrow> bytes \<Rightarrow> 's option) \<Rightarrow> ('s \<Rightarrow> nat \<Rightarrow> 's option) \<Rightarrow> ('s \<Rightarrow> nat \<Rightarrow> bool) \<Rightarrow> bool" where
  "sink_keeps wb fin P \<longleftrightarrow>
     (\<forall>s d s' t. P s t \<longrightarrow> wb s d = Some s' \<longrightarrow> P s' (t + length d)) \<and>
     (\<forall>s t s'. P s t \<longrightarrow> fin s t = Some s' \<longrightarrow> P s' t)"

lemma sink_keepsD:
  assumes "sink_keeps wb fin P"
  shows "wb s d = Some s' \<Longrightarrow> P s t \<Longrightarrow> P s' (t + length d)"
    and "wb s d = Some s' \<Longrightarrow> fin s' (t + length d) = Some s'' \<Longrightarrow> P s t \<Longrightarrow> P s'' (t + length d)"
  using assms unfolding sink_keeps_def by blast+

lemma handle_payload_invariant:
  assumes keeps: "sink_keeps wb fin P"
    and "P (sink st) (total_size st)"
    and "handle_payload wb fin mac src_ip dst_ip sport p st = Some oc"
  shows "case oc of Continue st' \<Rightarrow> P (sink st') (total_size st')
    | Return r st' \<Rightarrow> P (sink st') (total_size st') \<and> (r = None \<or> r = Some (total_size st'))"
  using assms(2,3)
  by (auto simp: handle_payload_def Let_def split: if_splits option.splits Option.bind_splits prod.splits
      intro: sink_keepsD [OF keeps])

lemma download_step_invariant:
  assumes keeps: "sink_keeps wb fin P"
    and "P (sink st) (total_size st)"
    and "download_step wb fin mac src_ip dst_ip len st = Some oc"
  shows "case oc of Continue st' \<Rightarrow> P (sink st') (total_size st')
    | Return r st' \<Rightarrow> P (sink st') (total_size st') \<and> (r = None \<or> r = Some (total_size st'))"
proof -
  have hp: "case oc of Continue st' \<Rightarrow> P (sink st') (total_size st')
    | Return r st' \<Rightarrow> P (sink st') (total_size st') \<and> (r = None \<or> r = Some (total_size st'))"
    if "handle_payload wb fin mac src_ip dst_ip sport p st1 = Some oc" "sink st1 = sink st"
      "total_size st1 = total_size st" for sport p st1
    using handle_payload_invariant [OF keeps _ that(1)] that(2,3) assms(2) by simp
  show ?thesis
    using assms(2,3)
    by (auto simp: download_step_def Let_def split: if_splits option.splits Option.bind_splits dest: hp)
qed

lemma download_loop_invariant:
  assumes keeps: "sink_keeps wb fin P"
    and "P (sink st) (total_size st)"
    and "download_loop wb fin mac src_ip dst_ip es st = Some (r, st')"
  shows "P (sink st') (total_size st') \<and> (r = None \<or> r = Some (total_size st'))"
  using assms(2,3)
proof (induction es arbitrary: st)
  case Nil
  then show ?case
    using report_timeout_total [of "st\<lparr>iteration := iteration st + 1\<rparr>"] by auto
next
  case (Cons e es)
  show ?case
  proof (cases e)
    case None
    then show ?thesis
      using Cons.prems
        report_timeout_total [of "st\<lparr>iteration := iteration st + 1, card := (card st)\<lparr>rx := es\<rparr>\<rparr>"]
      by auto
  next
    case (Some d)
    define len where "len = min (length d) 1514"
    define st0 where "st0 = st\<lparr>iteration := iteration st + 1, card := (card st)\<lparr>rx := es\<rparr>,
       recv_buf := overlay (recv_buf st) 0 (take len d)\<rparr>"
    have "do {
        oc \<leftarrow> download_step wb fin mac src_ip dst_ip len st0;
        case oc of Continue st \<Rightarrow> download_loop wb fin mac src_ip dst_ip es st
        | Return r st \<Rightarrow> ret (r, st)
      } = Some (r, st')"
      using Cons.prems(2) Some by (simp add: st0_def len_def Let_def)
    then obtain oc where oc: "download_step wb fin mac src_ip dst_ip len st0 = Some oc"
      "(case oc of Continue st \<Rightarrow> download_loop wb fin mac src_ip dst_ip es st
        | Return r st \<Rightarrow> Some (r, st)) = Some (r, st')"
      by (auto split: Option.bind_splits)
    have "P (sink st0) (total_size st0)"
      using Cons.prems(1) by (simp add: st0_def)
    from download_step_invariant [OF keeps this oc(1)] oc(2) Cons.IH show ?thesis
      by (cases oc) auto
  qed
qed

lemma tftp_download_invariant:
  assumes keeps: "sink_keeps wb fin P"
    and "P k 0"
    and run: "tftp_download wb fin mac src_ip dst_ip filename k n c = Some (r, k', n', c')"
  shows "\<exists>t. P k' t \<and> (r = None \<or> r = Some t)"
proof -
  have loop: "\<exists>t. P (sink st') t \<and> (r = None \<or> r = Some t)"
    if "download_loop wb fin mac src_ip dst_ip es st = Some (r, st')" "sink st = k" "total_size st = 0"
    for es st st'
    using download_loop_invariant [OF keeps _ that(1)] that(2,3) assms(2) by auto
  show ?thesis
    using run assms(2)
    by (auto simp: tftp_download_def Let_def split: if_splits option.splits Option.bind_splits prod.splits
        dest!: loop)
qed

end
