(* ===== verification/Fetch.thy ===== *)
theory Fetch
  imports Download
begin

text \<open>
  \<^verbatim>\<open>bios/src/fetch.rs\<close>: the files a Lua script fetches, in four windows of a fixed memory region,
  and the read-only pseudo-filesystem over them. The globals are the record \<open>fetch_state\<close>; the
  two sinks implement the contract \<open>tftp_sink\<close>. Strings are their bytes.
\<close>

section \<open>State\<close>

definition MAX_FETCH_FILES :: nat where "MAX_FETCH_FILES = 4"
definition FETCH_TOTAL_CAP :: nat where "FETCH_TOTAL_CAP = 16 * 1024 * 1024"
definition PER_FILE_CAP :: nat where "PER_FILE_CAP = FETCH_TOTAL_CAP div MAX_FETCH_FILES"
definition FETCH_BASE :: nat where "FETCH_BASE = 0x2000000"

lemmas fetch_consts = MAX_FETCH_FILES_def FETCH_TOTAL_CAP_def PER_FILE_CAP_def FETCH_BASE_def

record fetch_entry =
  f_name :: bytes
  f_base :: nat
  f_len :: nat
  f_used :: bool

record fetch_context =
  ctx_base :: u64
  ctx_mac :: bytes
  ctx_src_ip :: bytes
  ctx_server_ip :: bytes
  ctx_subnet :: bytes
  ctx_gateway :: bytes
  ctx_bootfile :: bytes

record fetch_state =
  fetch_ctx :: fetch_context
  fetch_files :: "fetch_entry list"
  io_opened :: "bool list"
  io_pos :: "nat list"
  io_closed :: "bool list"

definition empty_file :: fetch_entry where
  "empty_file = \<lparr>f_name = replicate 64 0, f_base = 0, f_len = 0, f_used = False\<rparr>"

definition fetch_init :: fetch_state where
  "fetch_init = \<lparr>fetch_ctx = \<lparr>ctx_base = 0, ctx_mac = replicate 6 0, ctx_src_ip = replicate 4 0,
       ctx_server_ip = replicate 4 0, ctx_subnet = replicate 4 0, ctx_gateway = replicate 4 0,
       ctx_bootfile = replicate 128 0\<rparr>,
     fetch_files = replicate MAX_FETCH_FILES empty_file,
     io_opened = replicate MAX_FETCH_FILES False, io_pos = replicate MAX_FETCH_FILES 0,
     io_closed = replicate MAX_FETCH_FILES False\<rparr>"

definition set_context :: "u64 \<Rightarrow> bytes \<Rightarrow> dhcp_config \<Rightarrow> fetch_state \<Rightarrow> fetch_state" where
  "set_context base mac cfg s =
     s\<lparr>fetch_ctx := \<lparr>ctx_base = base, ctx_mac = mac, ctx_src_ip = yiaddr cfg,
         ctx_server_ip = next_server cfg, ctx_subnet = subnet cfg, ctx_gateway = gateway cfg,
         ctx_bootfile = bootfile cfg\<rparr>,
       fetch_files := map (\<lambda>f. f\<lparr>f_used := False\<rparr>) (fetch_files s)\<rparr>"

definition fetch_dhcp_info :: "fetch_state \<Rightarrow> bytes \<Rightarrow> (bytes \<times> nat) option" where
  "fetch_dhcp_info s buf =
     (let x = fetch_ctx s in
      format_dhcp_info (ctx_mac x) (ctx_src_ip x) (ctx_subnet x) (ctx_gateway x) (ctx_server_ip x)
        (ctx_bootfile x) buf)"

section \<open>The two sinks\<close>

record fetch_sink =
  fs_base :: nat
  fs_offset :: nat
  fs_capacity :: nat

definition fetch_write_block :: "fetch_sink \<times> memory \<Rightarrow> bytes \<Rightarrow> (fetch_sink \<times> memory) option" where
  "fetch_write_block = (\<lambda>(k, m) data.
     let new_off = fs_offset k + length data in
     if new_off > fs_capacity k then None
     else let dst = fs_base k + fs_offset k in
       Some (k\<lparr>fs_offset := new_off\<rparr>, store m dst data))"

definition fetch_finalize :: "fetch_sink \<times> memory \<Rightarrow> nat \<Rightarrow> (fetch_sink \<times> memory) option" where
  "fetch_finalize s n = Some s"

record load_sink =
  ls_buf :: bytes
  ls_offset :: nat

definition load_write_block :: "load_sink \<Rightarrow> bytes \<Rightarrow> load_sink option" where
  "load_write_block k data =
     (let new_off = ls_offset k + length data in
      if new_off > length (ls_buf k) then None
      else Some (k\<lparr>ls_buf := overlay (ls_buf k) (ls_offset k) data, ls_offset := new_off\<rparr>))"

definition load_finalize :: "load_sink \<Rightarrow> nat \<Rightarrow> load_sink option" where
  "load_finalize k n = Some k"

section \<open>Fetching\<close>

text \<open>\<open>starts_with\<close> and \<open>strip_prefix(..).unwrap_or(..)\<close>\<close>

definition starts_with :: "bytes \<Rightarrow> bytes \<Rightarrow> bool" where
  "starts_with s p \<longleftrightarrow> take (length p) s = p"

definition strip_prefix :: "bytes \<Rightarrow> bytes \<Rightarrow> bytes" where
  "strip_prefix s p = (if starts_with s p then drop (length p) s else s)"

definition first_free :: "fetch_state \<Rightarrow> nat option" where
  "first_free s = find (\<lambda>i. \<not> f_used (fetch_files s ! i)) [0..<MAX_FETCH_FILES]"

text \<open>The machine around the callbacks: memory, card, console.\<close>

record host =
  fs :: fetch_state
  ram :: memory
  netcard :: nic
  screen :: console

definition fetch_file :: "bytes \<Rightarrow> bytes \<Rightarrow> host \<Rightarrow> (nat option \<times> host) option" where
  "fetch_file name save_as h =
     (if starts_with name (lit ''http://'') then ret (None, h)
      else let name = strip_prefix name (lit ''tftp://'') in
        if name = [] \<or> length name \<ge> 64 then ret (None, h)
        else if save_as = [] \<or> length save_as \<ge> 64 then ret (None, h)
        else let x = fetch_ctx (fs h) in
          if ctx_base x = 0 \<or> ctx_server_ip x = replicate 4 0 then ret (None, h)
          else case first_free (fs h) of None \<Rightarrow> ret (None, h)
          | Some idx \<Rightarrow> do {
              let slot_base = FETCH_BASE + idx * PER_FILE_CAP;
              (r, (k, m), n, c) \<leftarrow> tftp_download fetch_write_block fetch_finalize (ctx_mac x)
                (ctx_src_ip x) (ctx_server_ip x) name
                (\<lparr>fs_base = slot_base, fs_offset = 0, fs_capacity = PER_FILE_CAP\<rparr>, ram h)
                (netcard h) (screen h);
              let h = h\<lparr>ram := m, netcard := n, screen := c\<rparr>;
              case r of None \<Rightarrow> ret (None, h)
              | Some sz \<Rightarrow> do {
                  n64 \<leftarrow> put (replicate 64 0) 0 (length save_as) save_as;
                  ret (Some sz, h\<lparr>fs := (fs h)\<lparr>fetch_files := (fetch_files (fs h))
                    [idx := \<lparr>f_name = n64, f_base = slot_base, f_len = sz, f_used = True\<rparr>]\<rparr>\<rparr>)
                }
            })"

definition load_file :: "bytes \<Rightarrow> bytes \<Rightarrow> host \<Rightarrow> (nat option \<times> bytes \<times> host) option" where
  "load_file name buf h =
     (if starts_with name (lit ''http://'') then ret (None, buf, h)
      else let name = strip_prefix name (lit ''tftp://''); x = fetch_ctx (fs h) in
        if ctx_base x = 0 \<or> ctx_server_ip x = replicate 4 0 then ret (None, buf, h)
        else do {
          (r, k, n, c) \<leftarrow> tftp_download load_write_block load_finalize (ctx_mac x)
            (ctx_src_ip x) (ctx_server_ip x) name \<lparr>ls_buf = buf, ls_offset = 0\<rparr> (netcard h) (screen h);
          ret (r, ls_buf k, h\<lparr>netcard := n, screen := c\<rparr>)
        })"

section \<open>The pseudo-filesystem\<close>

definition stored_name :: "fetch_entry \<Rightarrow> bytes" where
  "stored_name f = takeWhile (\<lambda>b. b \<noteq> 0) (f_name f)"

definition find_fetched_slot :: "bytes \<Rightarrow> fetch_state \<Rightarrow> nat option" where
  "find_fetched_slot name s =
     find (\<lambda>i. f_used (fetch_files s ! i) \<and> stored_name (fetch_files s ! i) = name) [0..<MAX_FETCH_FILES]"

definition io_open :: "bytes \<Rightarrow> bytes \<Rightarrow> fetch_state \<Rightarrow> u8 option \<times> fetch_state" where
  "io_open name mode s =
     (if 114 \<notin> set mode then (None, s)
      else case find_fetched_slot name s of None \<Rightarrow> (None, s)
      | Some slot \<Rightarrow> (Some (word_of_nat slot),
          s\<lparr>io_pos := (io_pos s)[slot := 0], io_closed := (io_closed s)[slot := False],
            io_opened := (io_opened s)[slot := True]\<rparr>))"

definition io_close :: "u8 \<Rightarrow> fetch_state \<Rightarrow> bool \<times> fetch_state" where
  "io_close id8 s =
     (let i = unat id8 in
      if i \<ge> MAX_FETCH_FILES then (False, s)
      else if \<not> io_opened s ! i then (False, s)
      else (True, s\<lparr>io_closed := (io_closed s)[i := True], io_opened := (io_opened s)[i := False]\<rparr>))"

text \<open>\<open>end\<close> of the current line: the first newline at or after \<open>pos\<close>, or the length.\<close>

function line_end :: "memory \<Rightarrow> nat \<Rightarrow> nat \<Rightarrow> nat \<Rightarrow> nat" where
  "line_end m base len e =
     (if e < len \<and> m (base + e) \<noteq> 10 then line_end m base len (e + 1) else e)"
  by pat_completeness auto
termination
  by (relation "measure (\<lambda>(m, base, len, e). len - e)") auto

declare line_end.simps [simp del]

definition io_read ::
  "memory \<Rightarrow> u8 \<Rightarrow> u8 \<Rightarrow> nat \<Rightarrow> bytes \<Rightarrow> fetch_state \<Rightarrow> nat option \<times> bytes \<times> fetch_state" where
  "io_read m id8 fmt n buf s =
     (let i = unat id8 in
      if i \<ge> MAX_FETCH_FILES then (None, buf, s)
      else if \<not> io_opened s ! i \<or> io_closed s ! i then (None, buf, s)
      else let base = f_base (fetch_files s ! i); len = f_len (fetch_files s ! i); pos = io_pos s ! i in
        if pos \<ge> len then (None, buf, s)
        else if fmt = 0 then
          let nr = min (len - pos) (length buf) in
          if nr = 0 then (None, buf, s)
          else (Some nr, overlay buf 0 (load m (base + pos) nr), s\<lparr>io_pos := (io_pos s)[i := pos + nr]\<rparr>)
        else if fmt = 1 then
          let e = line_end m base len pos; nr = min (e - pos) (length buf) in
          if nr = 0 \<and> pos \<ge> len then (None, buf, s)
          else let buf = (if nr > 0 then overlay buf 0 (load m (base + pos) nr) else buf);
                   s = s\<lparr>io_pos := (io_pos s)[i := (if e < len then e + 1 else e)]\<rparr> in
            (if nr = 0 then None else Some nr, buf, s)
        else
          let want = (if n = 0 then length buf else n); nr = min (min (len - pos) want) (length buf) in
          if nr = 0 then (None, buf, s)
          else (Some nr, overlay buf 0 (load m (base + pos) nr), s\<lparr>io_pos := (io_pos s)[i := pos + nr]\<rparr>))"

definition io_type :: "u8 \<Rightarrow> fetch_state \<Rightarrow> bytes option" where
  "io_type id8 s =
     (let i = unat id8 in
      if i \<ge> MAX_FETCH_FILES then None
      else if \<not> io_opened s ! i then None
      else if io_closed s ! i then Some (lit ''closed file'') else Some (lit ''file''))"

definition io_write :: "u8 \<Rightarrow> bytes \<Rightarrow> bool" where "io_write id8 data = False"
definition io_flush :: "u8 \<Rightarrow> bool" where "io_flush id8 = True"
definition io_seek :: "u8 \<Rightarrow> bytes \<Rightarrow> int \<Rightarrow> nat option" where "io_seek id8 whence offset = None"
definition io_size :: "u8 \<Rightarrow> nat" where "io_size id8 = 0"

definition os_remove :: "bytes \<Rightarrow> fetch_state \<Rightarrow> bool \<times> fetch_state" where
  "os_remove name s =
     (case find_fetched_slot name s of None \<Rightarrow> (False, s)
      | Some i \<Rightarrow> (True, s\<lparr>fetch_files := (fetch_files s)[i := (fetch_files s ! i)\<lparr>f_used := False\<rparr>]\<rparr>))"

definition os_rename :: "bytes \<Rightarrow> bytes \<Rightarrow> fetch_state \<Rightarrow> bool \<times> fetch_state" where
  "os_rename old new s =
     (case find_fetched_slot old s of None \<Rightarrow> (False, s)
      | Some i \<Rightarrow>
          if length new \<ge> 64 then (False, s)
          else (True, s\<lparr>fetch_files := (fetch_files s)[i := (fetch_files s ! i)
            \<lparr>f_name := overlay (replicate 64 0) 0 new\<rparr>]\<rparr>))"

section \<open>The sinks keep the contract\<close>

definition fetch_contents :: "fetch_sink \<times> memory \<Rightarrow> bytes" where
  "fetch_contents = (\<lambda>(k, m). load m (fs_base k) (fs_offset k))"

definition fetch_room :: "fetch_sink \<times> memory \<Rightarrow> nat" where
  "fetch_room = (\<lambda>(k, m). fs_capacity k - fs_offset k)"

definition fetch_window :: "nat \<Rightarrow> nat \<Rightarrow> memory \<Rightarrow> fetch_sink \<times> memory \<Rightarrow> bool" where
  "fetch_window b cap m0 = (\<lambda>(k, m). fs_base k = b \<and> fs_capacity k = cap \<and> fs_offset k \<le> cap \<and>
     (\<forall>a. b \<le> a \<and> a < b + cap \<or> m a = m0 a))"

lemma fetch_write_window:
  "fetch_window b cap m0 s \<Longrightarrow> fetch_write_block s d = Some s' \<Longrightarrow>
   fetch_window b cap m0 s' \<and> fs_offset (fst s') = fs_offset (fst s) + length d"
  by (cases s) (auto simp: fetch_write_block_def fetch_window_def Let_def store_def split: if_splits)

interpretation fetch_sink: tftp_sink fetch_write_block fetch_finalize fetch_contents fetch_room
  "fetch_window b cap m0" for b cap m0
proof
  fix s :: "fetch_sink \<times> memory" and d :: bytes and n :: nat
  obtain k m where s: "s = (k, m)" by force
  show "\<exists>s'. fetch_write_block s d = Some s' \<and> fetch_window b cap m0 s' \<and>
      fetch_contents s' = fetch_contents s @ d \<and> fetch_room s' = fetch_room s - length d"
    if w: "fetch_window b cap m0 s" and l: "length d \<le> fetch_room s"
  proof -
    let ?s = "(k\<lparr>fs_offset := fs_offset k + length d\<rparr>, store m (fs_base k + fs_offset k) d)"
    have fits: "fs_offset k + length d \<le> fs_capacity k"
      using w l by (auto simp: s fetch_window_def fetch_room_def)
    then have "fetch_write_block s d = Some ?s"
      by (simp add: s fetch_write_block_def)
    moreover from this have "fetch_window b cap m0 ?s"
      using fetch_write_window [OF w] by blast
    moreover have "fetch_contents ?s = fetch_contents s @ d" "fetch_room ?s = fetch_room s - length d"
      by (simp_all add: s fetch_contents_def fetch_room_def load_store_append)
    ultimately show ?thesis by blast
  qed
  show "fetch_window b cap m0 s \<Longrightarrow> fetch_room s < length d \<Longrightarrow> fetch_write_block s d = None"
    by (auto simp: s fetch_write_block_def fetch_window_def fetch_room_def Let_def)
  show "fetch_window b cap m0 s \<Longrightarrow> \<exists>s'. fetch_finalize s n = Some s' \<and> fetch_window b cap m0 s' \<and>
      fetch_contents s' = fetch_contents s"
    by (simp add: fetch_finalize_def)
qed

definition load_contents :: "load_sink \<Rightarrow> bytes" where
  "load_contents k = take (ls_offset k) (ls_buf k)"

definition load_room :: "load_sink \<Rightarrow> nat" where
  "load_room k = length (ls_buf k) - ls_offset k"

definition load_fits :: "nat \<Rightarrow> load_sink \<Rightarrow> bool" where
  "load_fits n k \<longleftrightarrow> length (ls_buf k) = n \<and> ls_offset k \<le> n"

interpretation load_sink: tftp_sink load_write_block load_finalize load_contents load_room "load_fits cap"
  for cap
proof
  fix k :: load_sink and d :: bytes and n :: nat
  show "load_fits cap k \<Longrightarrow> length d \<le> load_room k \<Longrightarrow>
      \<exists>k'. load_write_block k d = Some k' \<and> load_fits cap k' \<and>
        load_contents k' = load_contents k @ d \<and> load_room k' = load_room k - length d"
    by (auto simp: load_write_block_def load_fits_def load_contents_def load_room_def Let_def overlay_def
        min_absorb2)
  show "load_fits cap k \<Longrightarrow> load_room k < length d \<Longrightarrow> load_write_block k d = None"
    by (auto simp: load_write_block_def load_fits_def load_room_def Let_def)
  show "load_fits cap k \<Longrightarrow> \<exists>k'. load_finalize k n = Some k' \<and> load_fits cap k' \<and>
      load_contents k' = load_contents k"
    by (simp add: load_finalize_def)
qed

section \<open>The invariant of the file table\<close>

definition slot_ok :: "nat \<Rightarrow> fetch_entry \<Rightarrow> bool" where
  "slot_ok i f \<longleftrightarrow> length (f_name f) = 64 \<and>
     (f_used f \<longrightarrow> f_base f = FETCH_BASE + i * PER_FILE_CAP \<and> f_len f \<le> PER_FILE_CAP)"

definition fetch_inv :: "fetch_state \<Rightarrow> bool" where
  "fetch_inv s \<longleftrightarrow> length (fetch_files s) = 4 \<and> length (io_opened s) = 4 \<and> length (io_pos s) = 4 \<and>
     length (io_closed s) = 4 \<and> (\<forall>i<4. slot_ok i (fetch_files s ! i))"

lemma first_free_less: "first_free s = Some i \<Longrightarrow> i < 4 \<and> \<not> f_used (fetch_files s ! i)"
  by (auto simp: first_free_def find_Some_iff MAX_FETCH_FILES_def)

lemma find_slot_less:
  "find_fetched_slot name s = Some i \<Longrightarrow>
   i < 4 \<and> f_used (fetch_files s ! i) \<and> stored_name (fetch_files s ! i) = name"
  by (auto simp: find_fetched_slot_def find_Some_iff MAX_FETCH_FILES_def)

lemma fetch_inv_update:
  "fetch_inv s \<Longrightarrow> i < 4 \<Longrightarrow> slot_ok i f \<Longrightarrow> fetch_inv (s\<lparr>fetch_files := (fetch_files s)[i := f]\<rparr>)"
  by (auto simp: fetch_inv_def nth_list_update)

lemma fetch_inv_slot: "fetch_inv s \<Longrightarrow> i < 4 \<Longrightarrow> slot_ok i (fetch_files s ! i)"
  by (simp add: fetch_inv_def)

lemma fetch_init_inv: "fetch_inv fetch_init"
  by (auto simp: fetch_inv_def fetch_init_def slot_ok_def empty_file_def fetch_consts)

lemma set_context_inv: "fetch_inv s \<Longrightarrow> fetch_inv (set_context b mac cfg s)"
  by (auto simp: fetch_inv_def set_context_def slot_ok_def)

lemma io_open_inv: "fetch_inv s \<Longrightarrow> fetch_inv (snd (io_open name mode s))"
  by (auto simp: fetch_inv_def io_open_def split: option.splits)

lemma io_close_inv: "fetch_inv s \<Longrightarrow> fetch_inv (snd (io_close i s))"
  by (auto simp: fetch_inv_def io_close_def Let_def)

lemma io_read_inv: "fetch_inv s \<Longrightarrow> fetch_inv (snd (snd (io_read m i fmt n buf s)))"
  by (auto simp: fetch_inv_def io_read_def Let_def)

lemma os_remove_inv: "fetch_inv s \<Longrightarrow> fetch_inv (snd (os_remove name s))"
  using fetch_inv_slot
  by (auto simp: os_remove_def slot_ok_def split: option.splits intro!: fetch_inv_update dest!: find_slot_less)

lemma os_rename_inv: "fetch_inv s \<Longrightarrow> fetch_inv (snd (os_rename old new s))"
  using fetch_inv_slot
  by (auto simp: os_rename_def slot_ok_def split: option.splits intro!: fetch_inv_update dest!: find_slot_less)

text \<open>What a fetch does to the table and to memory, whatever the network delivers.\<close>

definition window_of :: "nat \<Rightarrow> nat set" where
  "window_of i = {FETCH_BASE + i * PER_FILE_CAP ..< FETCH_BASE + i * PER_FILE_CAP + PER_FILE_CAP}"

lemma fetch_sink_keeps:
  "sink_keeps fetch_write_block fetch_finalize
     (\<lambda>s t. fetch_window b cap m0 s \<and> fs_offset (fst s) = t)"
  using fetch_write_window by (fastforce simp: sink_keeps_def fetch_finalize_def)

lemma fetch_file_effect:
  assumes "fetch_inv (fs h)" and "fetch_file name save_as h = Some (r, h')"
  shows "fetch_inv (fs h') \<and>
    (fs h' = fs h \<and> r = None \<or>
     (\<exists>i n. first_free (fs h) = Some i \<and> r = Some n \<and> n \<le> PER_FILE_CAP \<and>
        fs h' = (fs h)\<lparr>fetch_files := (fetch_files (fs h))[i :=
          \<lparr>f_name = overlay (replicate 64 0) 0 save_as, f_base = FETCH_BASE + i * PER_FILE_CAP,
           f_len = n, f_used = True\<rparr>]\<rparr>)) \<and>
    (\<forall>a. ram h' a = ram h a \<or> (\<exists>i. first_free (fs h) = Some i \<and> a \<in> window_of i))"
proof -
  define x where "x = fetch_ctx (fs h)"
  have no_change: ?thesis if "h' = h" "r = None"
    using that assms(1) by simp
  show ?thesis
  proof (cases "first_free (fs h)")
    case None
    then have "h' = h \<and> r = None"
      using assms(2) by (auto simp: fetch_file_def Let_def split: if_splits)
    then show ?thesis using no_change by blast
  next
    case (Some i)
    let ?b = "FETCH_BASE + i * PER_FILE_CAP"
    let ?sink = "\<lparr>fs_base = ?b, fs_offset = 0, fs_capacity = PER_FILE_CAP\<rparr>"
    have run: "do {
        (r, (k, m), n, c) \<leftarrow> tftp_download fetch_write_block fetch_finalize (ctx_mac x)
          (ctx_src_ip x) (ctx_server_ip x) (strip_prefix name (lit ''tftp://'')) (?sink, ram h)
          (netcard h) (screen h);
        let h = h\<lparr>ram := m, netcard := n, screen := c\<rparr>;
        case r of None \<Rightarrow> ret (None, h)
        | Some sz \<Rightarrow> do {
            n64 \<leftarrow> put (replicate 64 0) 0 (length save_as) save_as;
            ret (Some sz, h\<lparr>fs := (fs h)\<lparr>fetch_files := (fetch_files (fs h))
              [i := \<lparr>f_name = n64, f_base = ?b, f_len = sz, f_used = True\<rparr>]\<rparr>\<rparr>)
          }
      } = Some (r, h') \<and> length save_as < 64"
      if "\<not> (h' = h \<and> r = None)"
      using assms(2) that Some by (auto simp: fetch_file_def Let_def x_def split: if_splits)
    show ?thesis
    proof (cases "h' = h \<and> r = None")
      case True
      then show ?thesis using no_change by blast
    next
      case False
      then obtain r0 k m n c where dl: "tftp_download fetch_write_block fetch_finalize (ctx_mac x)
          (ctx_src_ip x) (ctx_server_ip x) (strip_prefix name (lit ''tftp://'')) (?sink, ram h)
          (netcard h) (screen h) = Some (r0, (k, m), n, c)"
        using run by (auto split: Option.bind_splits)
      have "fetch_window ?b PER_FILE_CAP (ram h) (?sink, ram h) \<and> fs_offset (fst (?sink, ram h)) = 0"
        by (simp add: fetch_window_def)
      from tftp_download_invariant [OF fetch_sink_keeps this dl]
      have win: "fetch_window ?b PER_FILE_CAP (ram h) (k, m)" and size: "r0 = None \<or> r0 = Some (fs_offset k)"
        by auto
      have mem: "\<forall>a. m a = ram h a \<or> a \<in> window_of i" and cap: "fs_offset k \<le> PER_FILE_CAP"
        using win by (auto simp: fetch_window_def window_of_def)
      show ?thesis
      proof (cases r0)
        case None
        then show ?thesis
          using run False dl mem Some assms(1) by auto
      next
        case (Some sz)
        let ?f = "\<lparr>f_name = overlay (replicate 64 0) 0 save_as, f_base = ?b, f_len = sz, f_used = True\<rparr>"
        have res: "r = Some sz" "h' = h\<lparr>ram := m, netcard := n, screen := c,
            fs := (fs h)\<lparr>fetch_files := (fetch_files (fs h))[i := ?f]\<rparr>\<rparr>"
          using run False dl Some by (auto simp: Let_def)
        have sz: "sz \<le> PER_FILE_CAP"
          using Some size cap by simp
        have "fetch_inv (fs h')"
          using res(2) assms(1) first_free_less [OF \<open>first_free (fs h) = Some i\<close>] sz
          by (simp add: fetch_inv_update slot_ok_def)
        moreover have "fs h' = (fs h)\<lparr>fetch_files := (fetch_files (fs h))[i := ?f]\<rparr>" "ram h' = m"
          by (simp_all add: res(2))
        ultimately show ?thesis
          using res(1) sz mem \<open>first_free (fs h) = Some i\<close> by blast
      qed
    qed
  qed
qed

section \<open>Runs of the callbacks\<close>

text \<open>Any interleaving of the callbacks a script may cause, from the initial globals.\<close>

inductive fs_step :: "host \<Rightarrow> host \<Rightarrow> bool" where
  step_context: "fs_step h (h\<lparr>fs := set_context b mac cfg (fs h)\<rparr>)"
| step_fetch: "fetch_file name save_as h = Some (r, h') \<Longrightarrow> fs_step h h'"
| step_load: "load_file name buf h = Some (r, buf', h') \<Longrightarrow> fs_step h h'"
| step_open: "fs_step h (h\<lparr>fs := snd (io_open name mode (fs h))\<rparr>)"
| step_close: "fs_step h (h\<lparr>fs := snd (io_close i (fs h))\<rparr>)"
| step_read: "fs_step h (h\<lparr>fs := snd (snd (io_read (ram h) i fmt n buf (fs h)))\<rparr>)"
| step_remove: "fs_step h (h\<lparr>fs := snd (os_remove name (fs h))\<rparr>)"
| step_rename: "fs_step h (h\<lparr>fs := snd (os_rename old new (fs h))\<rparr>)"

inductive fs_reach :: "host \<Rightarrow> bool" where
  reach_init: "fs h = fetch_init \<Longrightarrow> fs_reach h"
| reach_step: "fs_reach h \<Longrightarrow> fs_step h h' \<Longrightarrow> fs_reach h'"

inductive_cases fs_stepE: "fs_step h h'"

lemma load_file_fs: "load_file name buf h = Some (r, buf', h') \<Longrightarrow> fs h' = fs h \<and> ram h' = ram h"
  by (auto simp: load_file_def Let_def split: if_splits Option.bind_splits)

definition handles_ok :: "fetch_state \<Rightarrow> bool" where
  "handles_ok s \<longleftrightarrow> (\<forall>i<4. \<not> (io_opened s ! i \<and> io_closed s ! i))"

lemma handles_update:
  assumes "handles_ok s" and "fetch_inv s" and "\<not> (a \<and> b)"
  shows "handles_ok (s\<lparr>io_opened := (io_opened s)[i := a], io_closed := (io_closed s)[i := b]\<rparr>)"
  using assms by (auto simp: handles_ok_def fetch_inv_def nth_list_update')

lemma fs_step_inv: "fs_step h h' \<Longrightarrow> fetch_inv (fs h) \<Longrightarrow> fetch_inv (fs h')"
proof (induction rule: fs_step.induct)
  case (step_fetch name save_as h r h')
  then show ?case using fetch_file_effect by blast
next
  case (step_load name buf h r buf' h')
  then show ?case using load_file_fs by metis
qed (simp_all add: set_context_inv io_open_inv io_close_inv io_read_inv os_remove_inv os_rename_inv)

lemma fs_step_handles:
  "fs_step h h' \<Longrightarrow> fetch_inv (fs h) \<Longrightarrow> handles_ok (fs h) \<Longrightarrow> handles_ok (fs h')"
proof (induction rule: fs_step.induct)
  case (step_context h b mac cfg)
  then show ?case by (simp add: handles_ok_def set_context_def)
next
  case (step_fetch name save_as h r h')
  then have "io_opened (fs h') = io_opened (fs h) \<and> io_closed (fs h') = io_closed (fs h)"
    using fetch_file_effect [OF step_fetch(2,1)] by auto
  with step_fetch show ?case by (simp add: handles_ok_def)
next
  case (step_load name buf h r buf' h')
  then show ?case using load_file_fs by metis
next
  case (step_open h name mode)
  then show ?case
    by (auto simp: io_open_def handles_ok_def fetch_inv_def nth_list_update' split: option.splits)
next
  case (step_close h i)
  then show ?case
    by (auto simp: io_close_def handles_ok_def fetch_inv_def nth_list_update' Let_def)
next
  case (step_read h i fmt n buf)
  have "io_opened (snd (snd (io_read (ram h) i fmt n buf (fs h)))) = io_opened (fs h) \<and>
    io_closed (snd (snd (io_read (ram h) i fmt n buf (fs h)))) = io_closed (fs h)"
    by (simp add: io_read_def Let_def)
  with step_read show ?case by (simp add: handles_ok_def)
qed (auto simp: handles_ok_def os_remove_def os_rename_def split: option.splits)

lemma fs_reach_inv: "fs_reach h \<Longrightarrow> fetch_inv (fs h) \<and> handles_ok (fs h)"
proof (induction rule: fs_reach.induct)
  case (reach_init h)
  then show ?case
    using fetch_init_inv by (simp add: handles_ok_def fetch_init_def MAX_FETCH_FILES_def)
next
  case (reach_step h h')
  then show ?case using fs_step_inv fs_step_handles by blast
qed

lemma windows_disjoint: "i \<noteq> j \<Longrightarrow> window_of i \<inter> window_of j = {}"
proof -
  assume "i \<noteq> j"
  then consider "Suc i \<le> j" | "Suc j \<le> i" by linarith
  then show ?thesis
  proof cases
    case 1
    then have "Suc i * PER_FILE_CAP \<le> j * PER_FILE_CAP" by (rule mult_le_mono1)
    then show ?thesis by (auto simp: window_of_def)
  next
    case 2
    then have "Suc j * PER_FILE_CAP \<le> i * PER_FILE_CAP" by (rule mult_le_mono1)
    then show ?thesis by (auto simp: window_of_def)
  qed
qed

text \<open>The bytes of a fetched file.\<close>

definition file_bytes :: "host \<Rightarrow> nat \<Rightarrow> bytes" where
  "file_bytes h i = load (ram h) (f_base (fetch_files (fs h) ! i)) (f_len (fetch_files (fs h) ! i))"

lemma file_bytes_stable:
  assumes "fetch_inv (fs h)" and "i < 4" and "f_used (fetch_files (fs h) ! i)"
    and "fetch_files (fs h') ! i = fetch_files (fs h) ! i"
    and "\<forall>a. ram h' a = ram h a \<or> a \<notin> window_of i"
  shows "file_bytes h' i = file_bytes h i"
proof -
  have "f_base (fetch_files (fs h) ! i) = FETCH_BASE + i * PER_FILE_CAP"
    "f_len (fetch_files (fs h) ! i) \<le> PER_FILE_CAP"
    using fetch_inv_slot [OF assms(1,2)] assms(3) by (simp_all add: slot_ok_def)
  then show ?thesis
    using assms(4,5) by (auto simp: file_bytes_def load_def window_of_def)
qed

lemma fetch_keeps_memory:
  assumes "fetch_inv (fs h)" and "fetch_file name save_as h = Some (r, h')" and "f_used (fetch_files (fs h) ! i)"
  shows "\<forall>a. ram h' a = ram h a \<or> a \<notin> window_of i"
proof
  fix a
  show "ram h' a = ram h a \<or> a \<notin> window_of i"
  proof (cases "ram h' a = ram h a")
    case False
    then obtain j where "first_free (fs h) = Some j" "a \<in> window_of j"
      using fetch_file_effect [OF assms(1,2)] by blast
    then show ?thesis
      using first_free_less [of "fs h" j] assms(3) windows_disjoint [of i j] by auto
  qed simp
qed

text \<open>C26. Files are isolated: in every state a script can reach, through any sequence of fetches,
  loads, opens, reads, closes, removals and renames and whatever the network delivers, a fetch
  leaves every file fetched before, its name, size and bytes, as it was. A fetch that fails leaves the
  table of files as it was; one that succeeds changes exactly one slot, which was free and now holds a
  file of the size reported under the name asked for.\<close>

theorem fetch_isolated:
  assumes "fs_reach h" and "fetch_file name save_as h = Some (r, h')"
  shows "(\<forall>i<4. f_used (fetch_files (fs h) ! i) \<longrightarrow>
      fetch_files (fs h') ! i = fetch_files (fs h) ! i \<and> file_bytes h' i = file_bytes h i) \<and>
    (r = None \<longrightarrow> fetch_files (fs h') = fetch_files (fs h)) \<and>
    (\<forall>n. r = Some n \<longrightarrow> (\<exists>i<4. \<not> f_used (fetch_files (fs h) ! i) \<and>
      (\<forall>j. j \<noteq> i \<longrightarrow> fetch_files (fs h') ! j = fetch_files (fs h) ! j) \<and>
      f_used (fetch_files (fs h') ! i) \<and> f_name (fetch_files (fs h') ! i) = overlay (replicate 64 0) 0 save_as \<and>
      length (file_bytes h' i) = n))"
proof -
  have inv: "fetch_inv (fs h)"
    using fs_reach_inv [OF assms(1)] by blast
  note eff = fetch_file_effect [OF inv assms(2)]
  have same: "fetch_files (fs h') ! i = fetch_files (fs h) ! i" if "f_used (fetch_files (fs h) ! i)" for i
  proof (cases "fs h' = fs h")
    case False
    then obtain j f where "first_free (fs h) = Some j"
      and upd: "fs h' = (fs h)\<lparr>fetch_files := (fetch_files (fs h))[j := f]\<rparr>"
      using eff by blast
    then have "j \<noteq> i"
      using first_free_less [of "fs h"] that by blast
    then show ?thesis
      by (simp add: upd)
  qed simp
  have "file_bytes h' i = file_bytes h i" if "i < 4" "f_used (fetch_files (fs h) ! i)" for i
    using file_bytes_stable [OF inv that same fetch_keeps_memory [OF inv assms(2)]] that(2) by blast
  moreover have "\<exists>i<4. \<not> f_used (fetch_files (fs h) ! i) \<and>
      (\<forall>j. j \<noteq> i \<longrightarrow> fetch_files (fs h') ! j = fetch_files (fs h) ! j) \<and>
      f_used (fetch_files (fs h') ! i) \<and> f_name (fetch_files (fs h') ! i) = overlay (replicate 64 0) 0 save_as \<and>
      length (file_bytes h' i) = n" if "r = Some n" for n
    using eff that first_free_less [of "fs h"] inv by (auto simp: file_bytes_def fetch_inv_def)
  moreover have "r = None \<longrightarrow> fetch_files (fs h') = fetch_files (fs h)"
    using eff by auto
  ultimately show ?thesis
    using same by blast
qed

section \<open>A fetched file reads back\<close>

text \<open>A server's answer to the read request of a fetch: the file in blocks.\<close>

definition served :: "u16 \<Rightarrow> (u16 \<times> bytes) list \<Rightarrow> bytes list \<Rightarrow> bool" where
  "served p bs ds \<longleftrightarrow> list_all2 (\<lambda>d (b, x). data_frame p b x d) ds bs \<and> bs \<noteq> [] \<and>
     (\<forall>(b, x) \<in> set (butlast bs). length x = 512) \<and> length (snd (last bs)) < 512"

definition fetch_ready :: "host \<Rightarrow> bool" where
  "fetch_ready h \<longleftrightarrow> (let x = fetch_ctx (fs h) in
     addresses_ok (ctx_mac x) (ctx_src_ip x) (ctx_server_ip x) \<and> ctx_base x \<noteq> 0 \<and>
     ctx_server_ip x \<noteq> replicate 4 0 \<and> tx_ok (netcard h) = [])"

definition names_ok :: "bytes \<Rightarrow> bytes \<Rightarrow> bool" where
  "names_ok name save_as \<longleftrightarrow> \<not> starts_with name (lit ''http://'') \<and>
     strip_prefix name (lit ''tftp://'') \<noteq> [] \<and> length (strip_prefix name (lit ''tftp://'')) < 64 \<and>
     save_as \<noteq> [] \<and> length save_as < 64"

lemma fetch_delivers:
  assumes "fetch_ready h" and "names_ok name save_as" and "first_free (fs h) = Some i"
    and "rx (netcard h) = map Some ds @ es" and "served p bs ds"
    and "length (concat (map snd bs)) \<le> PER_FILE_CAP"
  shows "\<exists>h'. fetch_file name save_as h = Some (Some (length (concat (map snd bs))), h') \<and>
    fs h' = (fs h)\<lparr>fetch_files := (fetch_files (fs h))[i :=
      \<lparr>f_name = overlay (replicate 64 0) 0 save_as, f_base = FETCH_BASE + i * PER_FILE_CAP,
       f_len = length (concat (map snd bs)), f_used = True\<rparr>]\<rparr> \<and>
    load (ram h') (FETCH_BASE + i * PER_FILE_CAP) (length (concat (map snd bs))) = concat (map snd bs)"
proof -
  define x where "x = fetch_ctx (fs h)"
  let ?file = "concat (map snd bs)" and ?b = "FETCH_BASE + i * PER_FILE_CAP"
  let ?k = "(\<lparr>fs_base = ?b, fs_offset = 0, fs_capacity = PER_FILE_CAP\<rparr>, ram h)"
  have ok: "addresses_ok (ctx_mac x) (ctx_src_ip x) (ctx_server_ip x)" "ctx_base x \<noteq> 0"
    "ctx_server_ip x \<noteq> replicate 4 0" "tx_ok (netcard h) = []"
    using assms(1) by (simp_all add: fetch_ready_def x_def Let_def)
  have "fetch_window ?b PER_FILE_CAP (ram h) ?k" "length ?file \<le> fetch_room ?k"
    using assms(6) by (simp_all add: fetch_window_def fetch_room_def)
  moreover have srv: "list_all2 (\<lambda>d (b, x). data_frame p b x d) ds bs" "bs \<noteq> []"
    "\<forall>(b, x) \<in> set (butlast bs). length x = 512" "length (snd (last bs)) < 512"
    using assms(5) by (simp_all add: served_def)
  ultimately obtain k m n c where
    dl: "tftp_download fetch_write_block fetch_finalize (ctx_mac x) (ctx_src_ip x) (ctx_server_ip x)
      (strip_prefix name (lit ''tftp://'')) ?k (netcard h) (screen h) = Some (Some (length ?file), (k, m), n, c)"
    and inv: "fetch_window ?b PER_FILE_CAP (ram h) (k, m)"
    and got: "fetch_contents (k, m) = fetch_contents ?k @ ?file"
    using fetch_sink.download_delivers [OF ok(1,4) assms(4) srv, of ?b PER_FILE_CAP "ram h" ?k
        "strip_prefix name (lit ''tftp://'')" "screen h"] by auto
  have mem: "load m ?b (fs_offset k) = ?file"
    using inv got by (simp add: fetch_contents_def fetch_window_def load_def)
  then have "load m ?b (length ?file) = ?file"
    by (metis length_load)
  with dl ok assms(2,3) show ?thesis
    by (simp add: fetch_file_def names_ok_def x_def [symmetric] Let_def)
qed

lemma stored_name_save:
  assumes "0 \<notin> set s" and "length s < 64"
  shows "stored_name \<lparr>f_name = overlay (replicate 64 0) 0 s, f_base = b, f_len = n, f_used = u\<rparr> = s"
proof -
  have "takeWhile (\<lambda>b. b \<noteq> 0) (s @ replicate (64 - length s) (0 :: u8)) =
      s @ takeWhile (\<lambda>b. b \<noteq> 0) (replicate (64 - length s) 0)"
    using assms(1) by (intro takeWhile_append2) auto
  then show ?thesis
    using assms(2) by (simp add: stored_name_def overlay_front)
qed

lemma find_fetched_slot_saved:
  assumes "fetch_inv s" and "i < 4" and "\<not> f_used (fetch_files s ! i)" and "f_used f" and "stored_name f = name"
  shows "find_fetched_slot name (s\<lparr>fetch_files := (fetch_files s)[i := f]\<rparr>) =
    Some (case find_fetched_slot name s of None \<Rightarrow> i | Some j \<Rightarrow> min i j)"
proof -
  have len: "length (fetch_files s) = 4"
    using assms(1) by (simp add: fetch_inv_def)
  show ?thesis
  proof (cases "find_fetched_slot name s")
    case None
    then have "\<not> (f_used (fetch_files s ! j) \<and> stored_name (fetch_files s ! j) = name)" if "j < 4" for j
      using that by (auto simp: find_fetched_slot_def find_None_iff MAX_FETCH_FILES_def)
    with None len show ?thesis
      unfolding find_fetched_slot_def find_Some_iff MAX_FETCH_FILES_def using assms(2-5)
      by (intro exI [of _ i]) (simp add: nth_list_update')
  next
    case (Some j)
    then have j: "j < 4" "f_used (fetch_files s ! j)" "stored_name (fetch_files s ! j) = name"
      "\<forall>l<j. \<not> (f_used (fetch_files s ! l) \<and> stored_name (fetch_files s ! l) = name)"
      by (auto simp: find_fetched_slot_def find_Some_iff MAX_FETCH_FILES_def)
    then have "i \<noteq> j"
      using assms(3) by blast
    with j len have "find_fetched_slot name (s\<lparr>fetch_files := (fetch_files s)[i := f]\<rparr>) = Some (min i j)"
      unfolding find_fetched_slot_def find_Some_iff MAX_FETCH_FILES_def using assms(2-5)
      by (intro exI [of _ "min i j"]) (auto simp: nth_list_update' min_def)
    with Some show ?thesis
      by simp
  qed
qed

text \<open>
  C25. What was fetched is what is read. In every state a script can reach, with the network set up, a free
  slot and a server that answers with the blocks of a file that is not empty and fits a slot, the fetch
  reports the file's size and opening the saved name for reading succeeds; reading it whole yields
  exactly the file, for any buffer it fits, unless a file of the same name lies in an earlier slot: then
  that one is opened, and still has its old bytes.
\<close>

theorem fetch_then_read:
  assumes "fs_reach h" and "fetch_ready h" and "names_ok name save_as" and "0 \<notin> set save_as"
    and free: "first_free (fs h) = Some i"
    and "rx (netcard h) = map Some ds @ es" and "served p bs ds" and "concat (map snd bs) = data"
    and "data \<noteq> []" and "length data \<le> PER_FILE_CAP" and "length data \<le> length buf"
  shows "\<exists>h' handle s. fetch_file name save_as h = Some (Some (length data), h') \<and>
    io_open save_as (lit ''r'') (fs h') = (Some handle, s) \<and>
    (case find_fetched_slot save_as (fs h) of
       Some j \<Rightarrow> if j < i then unat handle = j \<and> file_bytes h' j = file_bytes h j
                 else \<exists>s'. io_read (ram h') handle 0 0 buf s = (Some (length data), data @ drop (length data) buf, s')
     | None \<Rightarrow> \<exists>s'. io_read (ram h') handle 0 0 buf s = (Some (length data), data @ drop (length data) buf, s'))"
proof -
  have inv: "fetch_inv (fs h)"
    using fs_reach_inv [OF assms(1)] by blast
  let ?f = "\<lparr>f_name = overlay (replicate 64 0) 0 save_as, f_base = FETCH_BASE + i * PER_FILE_CAP,
     f_len = length data, f_used = True\<rparr>"
  obtain h' where fetch: "fetch_file name save_as h = Some (Some (length data), h')"
    and fs': "fs h' = (fs h)\<lparr>fetch_files := (fetch_files (fs h))[i := ?f]\<rparr>"
    and mem: "load (ram h') (FETCH_BASE + i * PER_FILE_CAP) (length data) = data"
    using fetch_delivers [OF assms(2,3) free assms(6,7)] assms(8,10) by auto
  have i4: "i < 4" "\<not> f_used (fetch_files (fs h) ! i)"
    using first_free_less [OF free] by simp_all
  define k where "k = (case find_fetched_slot save_as (fs h) of None \<Rightarrow> i | Some j \<Rightarrow> min i j)"
  have "find_fetched_slot save_as (fs h') = Some k"
    unfolding fs' k_def using assms(3,4)
    by (intro find_fetched_slot_saved [OF inv i4]) (simp_all add: stored_name_save names_ok_def)
  moreover have "114 \<in> set (lit ''r'')"
    by (simp add: lit_def)
  ultimately obtain s where op: "io_open save_as (lit ''r'') (fs h') = (Some (word_of_nat k), s)"
    and s: "s = (fs h')\<lparr>io_pos := (io_pos (fs h'))[k := 0], io_closed := (io_closed (fs h'))[k := False],
      io_opened := (io_opened (fs h'))[k := True]\<rparr>"
    by (simp add: io_open_def)
  have "k \<le> i"
    by (simp add: k_def split: option.splits)
  then have k: "unat (word_of_nat k :: u8) = k"
    using i4 by (simp add: unat_of_nat)
  have new: "\<exists>s'. io_read (ram h') (word_of_nat k) 0 0 buf s = (Some (length data), data @ drop (length data) buf, s')"
    if "k = i"
    using that k i4(1) inv assms(9,11) mem
    by (simp add: io_read_def s fs' fetch_inv_def MAX_FETCH_FILES_def overlay_front Let_def min_absorb1)
  have old: "unat (word_of_nat k :: u8) = j \<and> file_bytes h' j = file_bytes h j"
    if "find_fetched_slot save_as (fs h) = Some j" "j < i" for j
  proof -
    have "j < 4" "f_used (fetch_files (fs h) ! j)"
      using find_slot_less [OF that(1)] by simp_all
    from file_bytes_stable [OF inv this _ fetch_keeps_memory [OF inv fetch this(2)]] show ?thesis
      using that k by (simp add: fs' k_def)
  qed
  show ?thesis
    using fetch op new old by (auto simp: k_def split: option.splits)
qed

text \<open>A concrete script state: the DHCP context is set, the server answers with one block.\<close>

definition demo_host :: host where
  "demo_host = \<lparr>fs = set_context 0xC0000000 (replicate 6 2)
       \<lparr>yiaddr = [10, 0, 2, 15], subnet = [255, 255, 255, 0], gateway = [10, 0, 2, 2],
        dns = [10, 0, 2, 3], next_server = [10, 0, 2, 2], bootfile = replicate 128 0\<rparr>
       fetch_init,
     ram = \<lambda>_. 0, netcard = \<lparr>rx = [Some (server_frame 40000 1 [1, 2, 3])], tx_ok = [], tx = []\<rparr>,
     screen = \<lparr>putc_fn = False, out = []\<rparr>\<rparr>"

lemma demo_host_reach: "fs_reach demo_host"
proof -
  let ?h = "demo_host\<lparr>fs := fetch_init\<rparr>"
  have "fs_reach ?h"
    by (simp add: reach_init)
  moreover have "fs_step ?h demo_host"
    using step_context [of ?h] by (auto simp: demo_host_def)
  ultimately show ?thesis
    by (rule reach_step)
qed

lemma zero_in_lit: "0 \<notin> set (lit ''b'')"
  by (simp add: lit_def)

lemma replicate_4: "replicate 4 x = [x, x, x, x]"
  by (simp add: numeral_eq_Suc)

lemma demo_host_card: "rx (netcard demo_host) = [Some (server_frame 40000 1 [1, 2, 3])]"
  by (simp add: demo_host_def)

lemma demo_host_facts:
  "fetch_ready demo_host" "names_ok (lit ''tftp://a'') (lit ''b'')" "first_free (fs demo_host) = Some 0"
  "find_fetched_slot (lit ''b'') (fs demo_host) = None"
  "served 40000 [(1, [1, 2, 3])] [server_frame 40000 1 [1, 2, 3]]"
  by (simp_all add: fetch_ready_def demo_host_def set_context_def addresses_ok_def names_ok_def
      starts_with_def strip_prefix_def lit_def first_free_def find_fetched_slot_def fetch_init_def
      MAX_FETCH_FILES_def empty_file_def served_def server_frame_ok upt_rec replicate_4)

lemma fetch_then_read_witness:
  "\<exists>h' handle s s'. fetch_file (lit ''tftp://a'') (lit ''b'') demo_host = Some (Some (length [1 :: u8, 2, 3]), h') \<and>
    io_open (lit ''b'') (lit ''r'') (fs h') = (Some handle, s) \<and>
    io_read (ram h') handle 0 0 (replicate 5 0) s =
      (Some (length [1 :: u8, 2, 3]), [1, 2, 3] @ drop (length [1 :: u8, 2, 3]) (replicate 5 0), s')"
proof -
  have "rx (netcard demo_host) = map Some [server_frame 40000 1 [1, 2, 3]] @ []" "[1 :: u8, 2, 3] \<noteq> []"
    "concat (map snd [(1 :: u16, [1 :: u8, 2, 3])]) = [1, 2, 3]" "length [1 :: u8, 2, 3] \<le> PER_FILE_CAP"
    "length [1 :: u8, 2, 3] \<le> length (replicate 5 (0 :: u8))"
    by (simp_all add: demo_host_card fetch_consts)
  from fetch_then_read [OF demo_host_reach demo_host_facts(1,2) zero_in_lit demo_host_facts(3) this(1) demo_host_facts(5) this(3,2,4,5)]
  show ?thesis
    unfolding demo_host_facts(4) option.case by blast
qed

lemma fetch_isolated_witness:
  "\<exists>h'. fetch_file (lit ''tftp://a'') (lit ''b'') demo_host = Some (Some 3, h') \<and>
    (\<exists>i<4. \<not> f_used (fetch_files (fs demo_host) ! i) \<and> f_used (fetch_files (fs h') ! i) \<and>
      length (file_bytes h' i) = 3)"
proof -
  obtain h' where "fetch_file (lit ''tftp://a'') (lit ''b'') demo_host = Some (Some 3, h')"
    using fetch_delivers [OF demo_host_facts(1,2,3) _ demo_host_facts(5), of "[]"]
    by (auto simp: demo_host_card fetch_consts)
  with fetch_isolated [OF demo_host_reach this] show ?thesis
    by blast
qed

text \<open>C31. A handle is never reported as closed: closing clears the open flag that \<open>io_type\<close> tests
  first, so in every reachable state \<open>io.type\<close> of a closed handle is nothing, not
  \<open>"closed file"\<close>.\<close>

theorem io_type_never_closed:
  assumes "fs_reach h"
  shows "io_type i (fs h) \<noteq> Some (lit ''closed file'')"
  using fs_reach_inv [OF assms] by (auto simp: io_type_def handles_ok_def Let_def MAX_FETCH_FILES_def lit_def)

lemma io_type_never_closed_witness:
  "io_type 0 (fs \<lparr>fs = fetch_init, ram = \<lambda>_. 0, netcard = \<lparr>rx = [], tx_ok = [], tx = []\<rparr>,
     screen = \<lparr>putc_fn = False, out = []\<rparr>\<rparr>) \<noteq> Some (lit ''closed file'')"
  by (rule io_type_never_closed) (simp add: reach_init)

end
