(* ===== verification/LuaExprs.thy ===== *)
theory LuaExprs
  imports LuaSyntax
begin

text \<open>
  The expressions of \<^verbatim>\<open>lua/src/parse.rs\<close> proved against the contract \<open>parser_calls\<close> of their
  recursive calls.
\<close>

lemma later_refl: "later 0 p p"
  by (simp add: later_simps)

context parser_calls
begin

section \<open>Expressions\<close>

lemma parse_arg_list_wp:
  assumes "parser_ok p" and "left p < m"
    and "\<And>x p'. parser_ok p' \<Longrightarrow> later 1 p p' \<Longrightarrow> opt_kid (st p') x \<Longrightarrow> Q x p'"
  shows "wp (parse_arg_list rec) Q p"
  using assms
  by (auto simp: parse_arg_list_def wp_simps job_simps later_simps intro!: advance_wp expect_wp rec_wp)

lemma parse_table_lit_wp:
  assumes "parser_ok p" and "cur p \<noteq> TEof" and "left p \<le> m"
    and "\<And>x p'. parser_ok p' \<Longrightarrow> later 1 p p' \<Longrightarrow> kid (st p') x \<Longrightarrow> Q x p'"
  shows "wp (parse_table_lit rec) Q p"
  using assms
  by (auto simp: parse_table_lit_def wp_simps job_simps later_simps node_ok_def
      intro!: advance_wp expect_wp rec_wp alloc_wp)

lemma parse_atom_wp:
  assumes "parser_ok p" and "left p \<le> m"
    and "\<And>x p'. parser_ok p' \<Longrightarrow> later 1 p p' \<Longrightarrow> kid (st p') x \<Longrightarrow> Q x p'"
  shows "wp (parse_atom rec) Q p"
  using assms
  by (cases "cur p")
    (auto simp: parse_atom_def wp_simps job_simps later_simps node_ok_def parser_okD
      intro!: advance_wp expect_wp rec_wp alloc_wp intern_wp intern_name_wp resolve_name_wp
        parse_table_lit_wp parse_func_body_wp)


lemma method_call_wp:
  assumes "parser_ok p" and "kid (st p) node" and "kid (st p) method" and "left p < m"
    and "\<And>x p'. parser_ok p' \<Longrightarrow> later 1 p p' \<Longrightarrow> kid (st p') x \<Longrightarrow> Q x p'"
  shows "wp (method_call rec node method) Q p"
  using assms
  by (auto simp: method_call_def wp_simps job_simps later_simps node_ok_def
      intro!: rec_wp alloc_wp set_next_wp parse_arg_list_wp)

lemma parse_suffix_wp:
  assumes "parser_ok p" and "kid (st p) node" and "left p \<le> m"
    and "\<And>x p'. parser_ok p' \<Longrightarrow> later 0 p p' \<Longrightarrow> kid (st p') x \<Longrightarrow> Q x p'"
  shows "wp (parse_suffix rec node) Q p"
proof -
  note steps = wp_simps job_simps later_simps node_ok_def parser_okD
  note rules = advance_wp expect_wp rec_wp alloc_wp method_call_wp intern_name_wp parse_arg_list_wp
  consider "cur p = TDot" | "cur p = TColon" | "cur p = TLBracket" | "cur p = TLParen"
    | "cur p \<notin> {TDot, TColon, TLBracket, TLParen}" by blast
  then show ?thesis
  proof cases
    case 1
    then show ?thesis
      using assms by (auto simp: parse_suffix_def steps split: tok.split intro!: rules)
  next
    case 2
    then show ?thesis
      using assms by (auto simp: parse_suffix_def steps split: tok.split intro!: rules)
  next
    case 5
    then show ?thesis
      using assms by (cases "cur p") (auto simp: parse_suffix_def steps)
  qed (use assms in \<open>auto simp: parse_suffix_def steps intro!: rules\<close>)
qed

lemma parse_primary_wp:
  assumes "parser_ok p" and "left p \<le> m"
    and "\<And>x p'. parser_ok p' \<Longrightarrow> later 1 p p' \<Longrightarrow> kid (st p') x \<Longrightarrow> Q x p'"
  shows "wp (parse_primary rec) Q p"
  using assms
  by (auto simp: parse_primary_def wp_simps job_simps later_simps intro!: parse_atom_wp rec_wp)

lemma parse_unary_wp:
  assumes "parser_ok p" and "left p \<le> m"
    and "\<And>x p'. parser_ok p' \<Longrightarrow> later 1 p p' \<Longrightarrow> kid (st p') x \<Longrightarrow> Q x p'"
  shows "wp (parse_unary rec) Q p"
  using assms
  by (auto simp: parse_unary_def wp_simps job_simps later_simps node_ok_def
      intro!: advance_wp alloc_wp parse_primary_wp rec_wp)

text \<open>A level of left-associative operators, over the level below it.\<close>

lemma rest_of_wp:
  assumes "parser_ok p" and "kid (st p) l" and "left p \<le> m" and "TEof \<notin> fst ` set ops"
    and operand: "\<And>p Q. parser_ok p \<Longrightarrow> left p \<le> m \<Longrightarrow>
      (\<And>x p'. parser_ok p' \<Longrightarrow> later 1 p p' \<Longrightarrow> kid (st p') x \<Longrightarrow> Q x p') \<Longrightarrow> wp operand Q p"
    and again: "\<And>p Q l. parser_ok p \<Longrightarrow> kid (st p) l \<Longrightarrow> left p < m \<Longrightarrow>
      (\<And>x p'. parser_ok p' \<Longrightarrow> later 0 p p' \<Longrightarrow> kid (st p') x \<Longrightarrow> Q x p') \<Longrightarrow> wp (again l) Q p"
    and "\<And>x p'. parser_ok p' \<Longrightarrow> later 0 p p' \<Longrightarrow> kid (st p') x \<Longrightarrow> Q x p'"
  shows "wp (rest_of ops operand again l) Q p"
proof (cases "map_of ops (cur p)")
  case None
  then show ?thesis
    using assms(1,2,7) by (simp add: rest_of_def wp_simps later_refl)
next
  case (Some op)
  then have "cur p \<noteq> TEof"
    using assms(4) by (auto dest!: map_of_SomeD simp: image_iff)
  then show ?thesis
    using Some assms(1-3,7)
    by (auto simp: rest_of_def wp_simps later_simps node_ok_def intro!: advance_wp operand alloc_wp again)
qed

lemma level_wp:
  assumes operand: "\<And>p Q. parser_ok p \<Longrightarrow> left p \<le> m \<Longrightarrow>
      (\<And>x p'. parser_ok p' \<Longrightarrow> later 1 p p' \<Longrightarrow> kid (st p') x \<Longrightarrow> Q x p') \<Longrightarrow> wp operand Q p"
    and rest: "\<And>p Q l. parser_ok p \<Longrightarrow> kid (st p) l \<Longrightarrow> left p \<le> m \<Longrightarrow>
      (\<And>x p'. parser_ok p' \<Longrightarrow> later 0 p p' \<Longrightarrow> kid (st p') x \<Longrightarrow> Q x p') \<Longrightarrow> wp (rest l) Q p"
    and "parser_ok p" and "left p \<le> m"
    and "\<And>x p'. parser_ok p' \<Longrightarrow> later 1 p p' \<Longrightarrow> kid (st p') x \<Longrightarrow> Q x p'"
  shows "wp (andthen operand rest) Q p"
  using assms(3-5) by (auto simp: wp_simps later_simps intro!: operand rest)

lemma parse_mul_rest_wp:
  assumes "parser_ok p" and "kid (st p) l" and "left p \<le> m"
    and "\<And>x p'. parser_ok p' \<Longrightarrow> later 0 p p' \<Longrightarrow> kid (st p') x \<Longrightarrow> Q x p'"
  shows "wp (parse_mul_rest rec l) Q p"
  unfolding parse_mul_rest_def
  by (rule rest_of_wp [OF assms(1-3) _ parse_unary_wp rec_wp])
    (use assms(4) in \<open>auto simp: mul_ops_def job_simps kid_def\<close>)

lemma parse_muldiv_wp:
  assumes "parser_ok p" and "left p \<le> m"
    and "\<And>x p'. parser_ok p' \<Longrightarrow> later 1 p p' \<Longrightarrow> kid (st p') x \<Longrightarrow> Q x p'"
  shows "wp (parse_muldiv rec) Q p"
  unfolding parse_muldiv_def by (rule level_wp [OF parse_unary_wp parse_mul_rest_wp assms])

lemma parse_add_rest_wp:
  assumes "parser_ok p" and "kid (st p) l" and "left p \<le> m"
    and "\<And>x p'. parser_ok p' \<Longrightarrow> later 0 p p' \<Longrightarrow> kid (st p') x \<Longrightarrow> Q x p'"
  shows "wp (parse_add_rest rec l) Q p"
  unfolding parse_add_rest_def
  by (rule rest_of_wp [OF assms(1-3) _ parse_muldiv_wp rec_wp])
    (use assms(4) in \<open>auto simp: add_ops_def job_simps kid_def\<close>)

lemma parse_addsub_wp:
  assumes "parser_ok p" and "left p \<le> m"
    and "\<And>x p'. parser_ok p' \<Longrightarrow> later 1 p p' \<Longrightarrow> kid (st p') x \<Longrightarrow> Q x p'"
  shows "wp (parse_addsub rec) Q p"
  unfolding parse_addsub_def by (rule level_wp [OF parse_muldiv_wp parse_add_rest_wp assms])

lemma parse_concat_wp:
  assumes "parser_ok p" and "left p \<le> m"
    and "\<And>x p'. parser_ok p' \<Longrightarrow> later 1 p p' \<Longrightarrow> kid (st p') x \<Longrightarrow> Q x p'"
  shows "wp (parse_concat rec) Q p"
  using assms
  by (auto simp: parse_concat_def wp_simps job_simps later_simps node_ok_def
      intro!: parse_addsub_wp advance_wp rec_wp alloc_wp)

lemma parse_cmp_rest_wp:
  assumes "parser_ok p" and "kid (st p) l" and "left p \<le> m"
    and "\<And>x p'. parser_ok p' \<Longrightarrow> later 0 p p' \<Longrightarrow> kid (st p') x \<Longrightarrow> Q x p'"
  shows "wp (parse_cmp_rest rec l) Q p"
  unfolding parse_cmp_rest_def
  by (rule rest_of_wp [OF assms(1-3) _ parse_concat_wp rec_wp])
    (use assms(4) in \<open>auto simp: cmp_ops_def job_simps kid_def\<close>)

lemma parse_cmp_wp:
  assumes "parser_ok p" and "left p \<le> m"
    and "\<And>x p'. parser_ok p' \<Longrightarrow> later 1 p p' \<Longrightarrow> kid (st p') x \<Longrightarrow> Q x p'"
  shows "wp (parse_cmp rec) Q p"
  unfolding parse_cmp_def by (rule level_wp [OF parse_concat_wp parse_cmp_rest_wp assms])

lemma parse_and_rest_wp:
  assumes "parser_ok p" and "kid (st p) l" and "left p \<le> m"
    and "\<And>x p'. parser_ok p' \<Longrightarrow> later 0 p p' \<Longrightarrow> kid (st p') x \<Longrightarrow> Q x p'"
  shows "wp (parse_and_rest rec l) Q p"
  unfolding parse_and_rest_def
  by (rule rest_of_wp [OF assms(1-3) _ parse_cmp_wp rec_wp])
    (use assms(4) in \<open>auto simp: job_simps kid_def\<close>)

lemma parse_and_wp:
  assumes "parser_ok p" and "left p \<le> m"
    and "\<And>x p'. parser_ok p' \<Longrightarrow> later 1 p p' \<Longrightarrow> kid (st p') x \<Longrightarrow> Q x p'"
  shows "wp (parse_and rec) Q p"
  unfolding parse_and_def by (rule level_wp [OF parse_cmp_wp parse_and_rest_wp assms])

lemma parse_or_rest_wp:
  assumes "parser_ok p" and "kid (st p) l" and "left p \<le> m"
    and "\<And>x p'. parser_ok p' \<Longrightarrow> later 0 p p' \<Longrightarrow> kid (st p') x \<Longrightarrow> Q x p'"
  shows "wp (parse_or_rest rec l) Q p"
  unfolding parse_or_rest_def
  by (rule rest_of_wp [OF assms(1-3) _ parse_and_wp rec_wp])
    (use assms(4) in \<open>auto simp: job_simps kid_def\<close>)

lemma parse_expr_wp:
  assumes "parser_ok p" and "left p \<le> m"
    and "\<And>x p'. parser_ok p' \<Longrightarrow> later 1 p p' \<Longrightarrow> kid (st p') x \<Longrightarrow> Q x p'"
  shows "wp (parse_expr rec) Q p"
  unfolding parse_expr_def parse_or_def by (rule level_wp [OF parse_and_wp parse_or_rest_wp assms])

lemma parse_args_wp:
  assumes "parser_ok p" and "open_chain (st p) first prev" and "left p \<le> m"
    and "\<And>x p'. parser_ok p' \<Longrightarrow> later 1 p p' \<Longrightarrow> kid (st p') x \<Longrightarrow> Q x p'"
  shows "wp (parse_args rec first prev) Q p"
  using assms
  by (auto simp: parse_args_def wp_simps job_simps later_simps node_ok_def
      intro!: parse_expr_wp alloc_wp chain_wp advance_wp rec_wp)

lemma parse_field_wp:
  assumes "parser_ok p" and "left p \<le> m"
    and "\<And>k v n p'. parser_ok p' \<Longrightarrow> later 1 p p' \<Longrightarrow> kid (st p') k \<Longrightarrow> kid (st p') v \<Longrightarrow> Q (k, v, n) p'"
  shows "wp (parse_field rec ordinal) Q p"
  using assms
  by (cases "cur p")
    (auto simp: parse_field_def wp_simps job_simps later_simps node_ok_def
      intro!: parse_expr_wp advance_wp expect_wp rec_wp alloc_wp intern_name_wp)

lemma parse_fields_wp:
  assumes "parser_ok p" and "open_chain (st p) first prev" and "left p \<le> m"
    and "\<And>x p'. parser_ok p' \<Longrightarrow> later 1 p p' \<Longrightarrow> kid (st p') x \<Longrightarrow> Q x p'"
  shows "wp (parse_fields rec first prev ordinal) Q p"
  using assms
  by (auto simp: parse_fields_def wp_simps job_simps later_simps node_ok_def
      intro!: parse_field_wp alloc_wp chain_wp advance_wp rec_wp)

end

end
