(* ===== verification/LuaParsed.thy ===== *)
theory LuaParsed
  imports LuaExprs
begin

text \<open>
  The statements of \<^verbatim>\<open>lua/src/parse.rs\<close> proved against the contract \<open>parser_calls\<close> of their
  recursive calls, and the interpretation of the contract by \<open>parse\<close>.
\<close>

context parser_calls
begin

lemma parse_loop_body_wp:
  assumes "parser_ok p" and "left p < m"
    and "\<And>x p'. parser_ok p' \<Longrightarrow> later 0 p p' \<Longrightarrow> opt_kid (st p') x \<Longrightarrow> Q x p'"
  shows "wp (parse_loop_body rec) Q p"
  unfolding parse_loop_body_def enter_loop_def leave_loop_def wp_simps
  by (rule parse_block_wp) (use assms in \<open>auto simp: wp_simps later_def\<close>)

lemma parse_local_function_wp:
  assumes "parser_ok p" and "cur p \<noteq> TEof" and "left p \<le> m"
    and "\<And>x p'. parser_ok p' \<Longrightarrow> later 1 p p' \<Longrightarrow> kid (st p') x \<Longrightarrow> Q x p'"
  shows "wp (parse_local_function rec) Q p"
  using assms
  by (auto simp: parse_local_function_def wp_simps later_simps node_ok_def
      intro!: advance_wp expect_name_wp declare_local_rec_wp parse_func_body_wp alloc_wp)

lemma parse_local_wp:
  assumes "parser_ok p" and "cur p \<noteq> TEof" and "left p \<le> m"
    and "\<And>x p'. parser_ok p' \<Longrightarrow> later 1 p p' \<Longrightarrow> kid (st p') x \<Longrightarrow> Q x p'"
  shows "wp (parse_local rec) Q p"
  using assms
  by (auto simp: parse_local_def wp_simps later_simps node_ok_def simp del: declare_names.simps local_names.simps
      intro!: advance_wp expect_name_wp parse_local_function_wp alloc_wp local_names_wp expect_wp
        parse_expr_wp opt_semi_wp declare_names_wp)

lemma parse_global_wp:
  assumes "parser_ok p" and "cur p \<noteq> TEof" and "left p \<le> m"
    and "\<And>x p'. parser_ok p' \<Longrightarrow> later 1 p p' \<Longrightarrow> kid (st p') x \<Longrightarrow> Q x p'"
  shows "wp (parse_global rec) Q p"
  using assms
  by (auto simp: parse_global_def wp_simps later_simps node_ok_def
      intro!: advance_wp expect_name_wp alloc_wp parse_expr_wp opt_semi_wp)

lemma parse_function_stat_wp:
  assumes "parser_ok p" and "cur p \<noteq> TEof" and "left p \<le> m"
    and "\<And>x p'. parser_ok p' \<Longrightarrow> later 1 p p' \<Longrightarrow> kid (st p') x \<Longrightarrow> Q x p'"
  shows "wp (parse_function_stat rec) Q p"
  using assms
  by (auto simp: parse_function_stat_def wp_simps later_simps node_ok_def
      intro!: advance_wp expect_name_wp alloc_wp parse_func_body_wp)

lemma parse_if_tail_wp:
  assumes "parser_ok p" and "left p \<le> m"
    and "\<And>x p'. parser_ok p' \<Longrightarrow> later 1 p p' \<Longrightarrow> opt_kid (st p') x \<Longrightarrow> Q x p'"
  shows "wp (parse_if_tail rec) Q p"
proof -
  consider "cur p = TEnd" | "cur p = TElse" | "cur p = TElseif" | "cur p \<notin> {TEnd, TElse, TElseif}" by blast
  then show ?thesis
  proof cases
    case 4
    then show ?thesis
      using assms by (cases "cur p") (auto simp: parse_if_tail_def wp_simps parser_okD)
  qed (use assms in \<open>auto simp: parse_if_tail_def wp_simps later_simps node_ok_def job_simps
      intro!: advance_wp parse_block_wp expect_wp parse_expr_wp rec_wp alloc_wp\<close>)
qed

lemma parse_if_wp:
  assumes "parser_ok p" and "cur p \<noteq> TEof" and "left p \<le> m"
    and "\<And>x p'. parser_ok p' \<Longrightarrow> later 1 p p' \<Longrightarrow> kid (st p') x \<Longrightarrow> Q x p'"
  shows "wp (parse_if rec) Q p"
  using assms
  by (auto simp: parse_if_def wp_simps later_simps node_ok_def
      intro!: advance_wp expect_wp alloc_wp parse_expr_wp parse_block_wp parse_if_tail_wp)

lemma parse_while_wp:
  assumes "parser_ok p" and "cur p \<noteq> TEof" and "left p \<le> m"
    and "\<And>x p'. parser_ok p' \<Longrightarrow> later 1 p p' \<Longrightarrow> kid (st p') x \<Longrightarrow> Q x p'"
  shows "wp (parse_while rec) Q p"
  using assms
  by (auto simp: parse_while_def wp_simps later_simps node_ok_def
      intro!: advance_wp expect_wp alloc_wp parse_expr_wp parse_loop_body_wp)

lemma parse_repeat_wp:
  assumes "parser_ok p" and "cur p \<noteq> TEof" and "left p \<le> m"
    and "\<And>x p'. parser_ok p' \<Longrightarrow> later 1 p p' \<Longrightarrow> kid (st p') x \<Longrightarrow> Q x p'"
  shows "wp (parse_repeat rec) Q p"
  using assms
  by (auto simp: parse_repeat_def wp_simps later_simps node_ok_def
      intro!: advance_wp expect_wp alloc_wp parse_expr_wp parse_loop_body_wp)

lemma parse_label_wp:
  assumes "parser_ok p" and "cur p \<noteq> TEof" and "1 \<le> n_scopes p"
    and "\<And>x p'. parser_ok p' \<Longrightarrow> later 1 p p' \<Longrightarrow> kid (st p') x \<Longrightarrow> Q x p'"
  shows "wp parse_label Q p"
  using assms
  by (auto simp: parse_label_def wp_simps later_simps node_ok_def
      intro!: advance_wp expect_name_wp expect_wp alloc_wp record_label_wp)

lemma parse_goto_wp:
  assumes "parser_ok p" and "cur p \<noteq> TEof" and "1 \<le> n_scopes p"
    and "\<And>x p'. parser_ok p' \<Longrightarrow> later 1 p p' \<Longrightarrow> kid (st p') x \<Longrightarrow> Q x p'"
  shows "wp parse_goto Q p"
  using assms
  by (auto simp: parse_goto_def wp_simps later_simps node_ok_def
      intro!: advance_wp expect_name_wp alloc_wp record_goto_wp)

lemma parse_break_wp:
  assumes "parser_ok p" and "cur p \<noteq> TEof"
    and "\<And>x p'. parser_ok p' \<Longrightarrow> later 1 p p' \<Longrightarrow> kid (st p') x \<Longrightarrow> Q x p'"
  shows "wp parse_break Q p"
  using assms
  by (auto simp: parse_break_def wp_simps later_simps node_ok_def parser_okD
      intro!: advance_wp opt_semi_wp alloc_wp)

lemma parse_return_wp:
  assumes "parser_ok p" and "cur p \<noteq> TEof" and "left p \<le> m"
    and "\<And>x p'. parser_ok p' \<Longrightarrow> later 1 p p' \<Longrightarrow> kid (st p') x \<Longrightarrow> Q x p'"
  shows "wp (parse_return rec) Q p"
  using assms
  by (auto simp: parse_return_def wp_simps later_simps node_ok_def
      intro!: advance_wp opt_semi_wp alloc_wp parse_expr_wp)

lemma check_target_wp:
  assumes "parser_ok p" and "kid (st p) i" and "Q () p"
  shows "wp (check_target i) Q p"
  using assms by (auto simp: check_target_def wp_simps parser_okD intro!: get_node_wp)

lemma parse_targets_wp:
  assumes "parser_ok p" and "kid (st p) prev" and "left p \<le> m"
    and "\<And>x p'. parser_ok p' \<Longrightarrow> later 0 p p' \<Longrightarrow> Q x p'"
  shows "wp (parse_targets rec prev) Q p"
  using assms
  by (auto simp: parse_targets_def wp_simps later_simps job_simps
      intro!: advance_wp parse_expr_wp check_target_wp set_next_wp rec_wp)

lemma parse_expr_stat_wp:
  assumes "parser_ok p" and "left p \<le> m"
    and "\<And>x p'. parser_ok p' \<Longrightarrow> later 1 p p' \<Longrightarrow> kid (st p') x \<Longrightarrow> Q x p'"
  shows "wp (parse_expr_stat rec) Q p"
  using assms
  by (auto simp: parse_expr_stat_def parse_assignment_from_def wp_simps later_simps node_ok_def
      intro!: parse_expr_wp check_target_wp parse_targets_wp expect_wp opt_semi_wp alloc_wp)


lemma set_decl_wp:
  assumes "parser_ok p" and "kid (st p) node"
    and "\<And>p'. parser_ok p' \<Longrightarrow> later 0 p p' \<Longrightarrow> nlocals p' = nlocals p \<Longrightarrow> st p' = st p \<Longrightarrow> Q () p'"
  shows "wp (set_decl r node) Q p"
  unfolding set_decl_def wp_simps
  by (rule assms(3)) (use assms(1,2) in \<open>auto simp: later_simps parser_ok_def kid_defs\<close>)


lemma nlocals_bound: "parser_ok p \<Longrightarrow> nlocals p \<le> MAX_RESOLVED_LOCALS"
  by (simp add: parser_ok_def)

lemma numeric_loop_wp:
  assumes "parser_ok p" and "left p < m" and "kid (st p) name_node" and "kid (st p) start"
    and "kid (st p) limit" and "opt_kid (st p) step"
    and "\<And>x p'. parser_ok p' \<Longrightarrow> later 1 p p' \<Longrightarrow> kid (st p') x \<Longrightarrow> Q x p'"
  shows "wp (numeric_loop rec name name_node start limit step) Q p"
  using assms
  by (auto simp: numeric_loop_def wp_simps Let_def later_simps node_ok_def nlocals_bound
      intro!: expect_wp declare_local_rec_wp parse_loop_body_wp alloc_wp set_decl_wp)

lemma for_step_wp:
  assumes "parser_ok p" and "left p \<le> m"
    and "\<And>x p'. parser_ok p' \<Longrightarrow> later 0 p p' \<Longrightarrow> opt_kid (st p') x \<Longrightarrow> Q x p'"
  shows "wp (for_step rec) Q p"
  using assms by (auto simp: for_step_def wp_simps later_simps intro!: advance_wp parse_expr_wp)

lemma parse_numeric_for_wp:
  assumes "parser_ok p" and "cur p \<noteq> TEof" and "left p \<le> m" and "kid (st p) name_node"
    and "\<And>x p'. parser_ok p' \<Longrightarrow> later 1 p p' \<Longrightarrow> kid (st p') x \<Longrightarrow> Q x p'"
  shows "wp (parse_numeric_for rec name name_node) Q p"
  using assms
  by (auto simp: parse_numeric_for_def wp_simps later_simps
      intro!: advance_wp parse_expr_wp expect_wp for_step_wp numeric_loop_wp)

lemma generic_loop_wp:
  assumes "parser_ok p" and "left p < m" and "kid (st p) name_node" and "opt_kid (st p) vnode"
    and "kid (st p) tbl"
    and "\<And>x p'. parser_ok p' \<Longrightarrow> later 1 p p' \<Longrightarrow> kid (st p') x \<Longrightarrow> Q x p'"
  shows "wp (generic_loop rec name name_node vnode tbl) Q p"
  using assms
  by (auto simp: generic_loop_def wp_simps Let_def later_simps node_ok_def nlocals_bound
      intro!: expect_wp declare_local_rec_wp get_node_wp parse_loop_body_wp alloc_wp set_decl_wp)

lemma second_name_wp:
  assumes "parser_ok p" and "\<And>x p'. parser_ok p' \<Longrightarrow> later 0 p p' \<Longrightarrow> opt_kid (st p') x \<Longrightarrow> Q x p'"
  shows "wp second_name Q p"
  using assms
  by (auto simp: second_name_def wp_simps later_simps node_ok_def intro!: advance_wp expect_name_wp alloc_wp)

lemma parse_generic_for_wp:
  assumes "parser_ok p" and "left p \<le> m" and "kid (st p) name_node"
    and "\<And>x p'. parser_ok p' \<Longrightarrow> later 1 p p' \<Longrightarrow> kid (st p') x \<Longrightarrow> Q x p'"
  shows "wp (parse_generic_for rec name name_node) Q p"
  using assms
  by (auto simp: parse_generic_for_def wp_simps later_simps
      intro!: second_name_wp expect_wp parse_expr_wp generic_loop_wp)

lemma parse_for_wp:
  assumes "parser_ok p" and "cur p \<noteq> TEof" and "left p \<le> m"
    and "\<And>x p'. parser_ok p' \<Longrightarrow> later 1 p p' \<Longrightarrow> kid (st p') x \<Longrightarrow> Q x p'"
  shows "wp (parse_for rec) Q p"
  using assms
  by (auto simp: parse_for_def wp_simps later_simps node_ok_def
      intro!: advance_wp expect_name_wp alloc_wp parse_numeric_for_wp parse_generic_for_wp)

lemmas stat_rules = parse_local_wp parse_global_wp parse_function_stat_wp parse_if_wp parse_while_wp
  parse_for_wp parse_repeat_wp parse_label_wp parse_goto_wp parse_break_wp parse_return_wp

lemma parse_stat_wp:
  assumes "parser_ok p" and "left p \<le> m" and "1 \<le> n_scopes p"
    and "\<And>x p'. parser_ok p' \<Longrightarrow> later 1 p p' \<Longrightarrow> kid (st p') x \<Longrightarrow> Q x p'"
  shows "wp (parse_stat rec) Q p"
proof -
  have expr: "wp (parse_expr_stat rec) Q p"
    using assms by (intro parse_expr_stat_wp)
  show ?thesis
    unfolding parse_stat_def wp_simps
    by (cases "cur p") (simp_all add: expr, (rule stat_rules; use assms in simp)+)
qed

lemma parse_stats_wp:
  assumes "parser_ok p" and "left p \<le> m" and "1 \<le> n_scopes p" and "open_chain (st p) first prev"
    and "\<And>x p'. parser_ok p' \<Longrightarrow> later 0 p p' \<Longrightarrow> opt_kid (st p') x \<Longrightarrow> Q x p'"
  shows "wp (parse_stats rec first prev) Q p"
  using assms
  by (auto simp: parse_stats_def wp_simps later_simps job_simps
      intro!: parse_stat_wp chain_wp rec_wp)

section \<open>The dispatcher\<close>

lemma parse_job_wp:
  assumes "parser_ok p" and "job_ok p j" and "left p \<le> m"
    and "\<And>x p'. parser_ok p' \<Longrightarrow> later (job_cost j) p p' \<Longrightarrow> job_result j (st p') x \<Longrightarrow> Q x p'"
  shows "wp (parse_job rec j) Q p"
proof (cases j)
  case (JStats first prev)
  then show ?thesis
    using assms by (auto simp: parse_job_def job_ok_def job_cost_def job_result_def intro!: parse_stats_wp)
next
  case JIfTail
  then show ?thesis
    using assms by (auto simp: parse_job_def job_ok_def job_cost_def job_result_def intro!: parse_if_tail_wp)
next
  case (JTargets l)
  then show ?thesis
    using assms by (auto simp: parse_job_def job_ok_def job_cost_def job_result_def intro!: parse_targets_wp)
qed (use assms in \<open>auto simp: parse_job_def job_ok_def job_cost_def job_result_def
  intro!: parse_expr_wp parse_unary_wp parse_concat_wp parse_or_rest_wp parse_and_rest_wp parse_cmp_rest_wp
    parse_add_rest_wp parse_mul_rest_wp parse_suffix_wp parse_fields_wp parse_args_wp\<close>)

end

text \<open>\<open>parse\<close> satisfies the contract, with its fuel as the bound.\<close>

interpretation parse_calls: parser_calls "parse k" k for k
proof (induction k)
  case 0
  show ?case by unfold_locales simp
next
  case (Suc k)
  show ?case
    by unfold_locales (auto intro!: parser_calls.parse_job_wp [OF Suc.IH])
qed

end
