(* ===== verification/LuaSource.thy ===== *)
theory LuaSource
  imports LuaParsed
begin

text \<open>
  Properties of the parser of \<^verbatim>\<open>lua/src/parse.rs\<close> on a whole source text.
\<close>

section \<open>Whole sources\<close>

lemma new_parser_ok:
  assumes "prog_ok l"
  shows "parser_ok (new_parser s l)" and "left (new_parser s l) \<le> length s + 1" and "st (new_parser s l) = l"
proof -
  obtain r lx where n: "next_token (new_lexer s) = (r, lx)" by force
  have lexes: "lexes_to (new_lexer s) r lx"
    using next_token_ok [of "new_lexer s"] n by (simp add: new_lexer_ok)
  have "opt_kid l NO_NODE"
    by (simp add: opt_kid_def)
  then show "parser_ok (new_parser s l)"
    using assms lexes
    by (cases r) (auto simp: new_parser_def n parser_ok_def scope_ok_def ups_ok_def empty_scope_def
        empty_func_scope_def lexes_to_def parse_caps)
  have "src lx = s"
    using lexes by (simp add: lexes_to_def new_lexer_def)
  then show "left (new_parser s l) \<le> length s + 1"
    by (auto simp: new_parser_def n left_def)
  show "st (new_parser s l) = l"
    by (simp add: new_parser_def n)
qed

lemma fresh_prog_ok: "prog_ok new_lua" "prog_ok (lua_reset l)"
  by (simp_all add: prog_ok_def new_lua_arena opt_kid_def) (simp_all add: new_lua_def lua_reset_def)

text \<open>
  C6. For every source text and every well-formed memory, the parser returns: it does not panic and
  does not run on (\<open>length s + 2\<close> recursive calls deep are enough), and whether it accepts or
  reports an error, it leaves a memory in which every node, link, function and string reference is
  in range; the first statement it returns is a node, or \<open>NO_NODE\<close> for an empty script.
\<close>

theorem parse_source_total:
  assumes "prog_ok l"
  shows "case parse_source s l of (Ok first, l') \<Rightarrow> prog_ok l' \<and> opt_kid l' first
    | (Err _, l') \<Rightarrow> prog_ok l' | _ \<Rightarrow> False"
proof -
  let ?p = "new_parser s l"
  note ok = new_parser_ok [OF assms, of s]
  have "wp (parse_script (length s + 2)) (\<lambda>x p'. prog_ok (st p') \<and> opt_kid (st p') x) ?p"
    unfolding parse_script_def wp_simps
  proof (rule parse_calls.parse_block_wp [OF ok(1)])
    show "left ?p < length s + 2"
      using ok(2) by simp
  qed (auto simp: parser_okD)
  then show ?thesis
    by (auto simp: wp_def parse_source_def split: prod.splits res.splits)
qed

lemma parse_source_total_witness:
  "case parse_source (lit ''goto x = }'') new_lua of (Ok first, l') \<Rightarrow> prog_ok l' \<and> opt_kid l' first
    | (Err _, l') \<Rightarrow> prog_ok l' | _ \<Rightarrow> False"
  by (rule parse_source_total [OF fresh_prog_ok(1)])

end
