(* ===== verification/Devices.thy ===== *)
theory Devices
  imports Print
begin

text \<open>
  The user-facing pieces of \<^verbatim>\<open>common/src\<close>: the storage scan of \<^verbatim>\<open>scan.rs\<close> with its
  firmware-specific \<open>detect\<close> callback as a parameter, the boot menu of \<^verbatim>\<open>menu.rs\<close> over the
  sequence of key polls, and the file format detection of \<^verbatim>\<open>loader.rs\<close>.
\<close>

section \<open>Storage scan\<close>

record device_info =
  dev_index :: u8
  present :: bool
  removable :: bool
  block_count :: u64
  block_size :: u16
  description :: "bytes option"

definition MAX_DEVICES :: nat where "MAX_DEVICES = 32"

definition new_device :: device_info where
  "new_device = \<lparr>dev_index = 0, present = False, removable = False, block_count = 0,
     block_size = 512, description = None\<rparr>"

type_synonym detector = "nat \<Rightarrow> device_info \<Rightarrow> bool \<times> device_info"

definition print_device :: "nat \<Rightarrow> device_info \<Rightarrow> console \<Rightarrow> console option" where
  "print_device i info c = do {
     let c = puts (lit ''  Device '') c;
     c \<leftarrow> print_dec (word_of_nat i) c;
     let c = puts (lit '': '') c;
     let c = putc (if removable info then 82 else 70) c;
     let c = puts (lit '' '') c;
     let c = (case description info of Some desc \<Rightarrow> puts desc c | None \<Rightarrow> c);
     let c = puts (lit '' ('') c;
     c \<leftarrow> print_hex (ucast (dev_index info)) 2 c;
     let c = puts (lit '') - '') c;
     c \<leftarrow> print_dec (block_count info) c;
     let c = puts (lit '' x '') c;
     c \<leftarrow> print_dec (ucast (block_size info)) c;
     ret (puts (lit '' byte sectors'' @ [13, 10]) c)
   }"

fun scan_from :: "detector \<Rightarrow> nat list \<Rightarrow> nat \<Rightarrow> console \<Rightarrow> (nat \<times> console) option" where
  "scan_from detect [] found c = ret (found, c)"
| "scan_from detect (i # is) found c =
     (let (r, info) = detect i new_device in
      if \<not> r then scan_from detect is found c
      else if \<not> present info then scan_from detect is found c
      else do { c \<leftarrow> print_device i info c; scan_from detect is (found + 1) c })"

definition scan_devices :: "detector \<Rightarrow> console \<Rightarrow> console option" where
  "scan_devices detect c = do {
     let c = puts (lit ''Scanning for devices...'' @ [13, 10]) c;
     (found, c) \<leftarrow> scan_from detect [0..<MAX_DEVICES] 0 c;
     let c = puts (lit ''Found '') c;
     c \<leftarrow> print_dec (word_of_nat found) c;
     ret (puts (lit '' device(s)'' @ [13, 10]) c)
   }"

section \<open>Menu\<close>

datatype menu_action = StorageScan | NetworkBoot | LuaShell | HardDiskBoot

text \<open>
  \<open>get_key\<close> is polled until it yields a key. The polls to come are a list; \<open>None\<close> as the result
  means that the polls ran out while the menu was still waiting.
\<close>

definition menu_text :: "console \<Rightarrow> console" where
  "menu_text c = puts (lit ''Choose: '')
     (puts (lit ''  [4] Chain to other bootloader'' @ [10])
     (puts (lit ''  [3] Lua Shell'' @ [10])
     (puts (lit ''  [2] Boot from network'' @ [10])
     (puts (lit ''  [1] List storage devices'' @ [10])
     (puts ([10] @ lit ''Menu:'' @ [10]) c)))))"

definition menu_choice :: "u8 \<Rightarrow> menu_action option" where
  "menu_choice key =
     (if key = 49 then Some StorageScan else if key = 50 then Some NetworkBoot
      else if key = 51 then Some LuaShell else if key = 52 then Some HardDiskBoot else None)"

fun await_key :: "u8 option list \<Rightarrow> console \<Rightarrow> (menu_action option \<times> u8 option list \<times> console)" where
  "await_key [] c = (None, [], c)"
| "await_key (None # ks) c = await_key ks c"
| "await_key (Some key # ks) c =
     (let c = puts [10, 10] (putc key c) in
      case menu_choice key of
        Some a \<Rightarrow> (Some a, ks, c)
      | None \<Rightarrow> await_key ks (menu_text (puts (lit ''Invalid choice, try again.'' @ [10]) c)))"

definition show_menu :: "u8 option list \<Rightarrow> console \<Rightarrow> menu_action option \<times> u8 option list \<times> console" where
  "show_menu keys c = await_key keys (menu_text c)"

section \<open>File formats\<close>

datatype file_format = PeCoff | Elf32 | Elf64 | Multiboot | Multiboot2 | TextFile | Binary

definition is_text_byte :: "u8 \<Rightarrow> bool" where
  "is_text_byte b \<longleftrightarrow> b = 0 \<or> (b \<ge> 0x20 \<and> b \<le> 0x7E) \<or> b = 0x09 \<or> b = 0x0A \<or> b = 0x0D"

definition from_le32 :: "u8 \<Rightarrow> u8 \<Rightarrow> u8 \<Rightarrow> u8 \<Rightarrow> u32" where
  "from_le32 a b c d = from_be32 d c b a"

definition detect_tail :: "bytes \<Rightarrow> file_format" where
  "detect_tail data =
     (let magic = from_le32 (data ! 0) (data ! 1) (data ! 2) (data ! 3) in
      if magic = 0x1BADB002 then Multiboot
      else if magic = 0xE85250D6 then Multiboot2
      else let check_len = min (length data) 1024; is_text = list_all is_text_byte (take check_len data) in
        if is_text \<and> check_len > 0 then TextFile else Binary)"

definition detect_format :: "bytes \<Rightarrow> file_format" where
  "detect_format data =
     (if length data < 4 then Binary
      else if data ! 0 = 0x4D \<and> data ! 1 = 0x5A then PeCoff
      else if data ! 0 = 0x7F \<and> data ! 1 = 0x45 \<and> data ! 2 = 0x4C \<and> data ! 3 = 0x46 then
        if length data \<ge> 5 then
          if data ! 4 = 1 then Elf32 else if data ! 4 = 2 then Elf64 else detect_tail data
        else detect_tail data
      else detect_tail data)"

section \<open>Behaviour\<close>

definition hex2 :: "u8 \<Rightarrow> bytes" where
  "hex2 b = the (format_hex (ucast b) 2)"

lemma print_hex2: "print_hex (ucast (b :: u8)) 2 c = Some (puts (hex2 b) c)"
  using hex_loop_fresh [of 2 "ucast b"]
  by (auto simp: print_hex_def hex2_def format_hex_def split: if_splits)

definition device_line :: "nat \<Rightarrow> device_info \<Rightarrow> bytes" where
  "device_line i info = lit ''  Device '' @ dec_str i @ lit '': '' @
     [if removable info then 82 else 70] @ lit '' '' @
     (case description info of Some desc \<Rightarrow> desc | None \<Rightarrow> []) @ lit '' ('' @
     hex2 (dev_index info) @ lit '') - '' @ dec_str (unat (block_count info)) @ lit '' x '' @
     dec_str (unat (block_size info)) @ lit '' byte sectors'' @ [13, 10]"

definition devices_found :: "detector \<Rightarrow> nat list \<Rightarrow> nat list" where
  "devices_found detect is =
     filter (\<lambda>i. fst (detect i new_device) \<and> present (snd (detect i new_device))) is"

lemma print_device_line:
  "i < 32 \<Longrightarrow> print_device i info c = Some (puts (device_line i info) c)"
  by (simp add: print_device_def device_line_def print_dec_eq print_hex2 putc_puts puts_puts
      unat_of_nat del: puts.simps split: option.split)

lemma scan_from_lines:
  "\<forall>i \<in> set is. i < 32 \<Longrightarrow> scan_from detect is n c =
    Some (n + length (devices_found detect is),
      puts (concat (map (\<lambda>i. device_line i (snd (detect i new_device))) (devices_found detect is))) c)"
proof (induction "is" arbitrary: n c)
  case (Cons i "is")
  then show ?case
    by (auto simp: devices_found_def print_device_line puts_puts Let_def simp del: puts.simps split: prod.splits)
qed (simp add: devices_found_def puts_out)

text \<open>The storage scan never panics, whatever the firmware callback reports, and prints exactly
  one line per device that is detected and present, in index order, between the heading and the
  count of those devices.\<close>

theorem scan_devices_output:
  "scan_devices detect c = Some (puts (lit ''Scanning for devices...'' @ [13, 10] @
     concat (map (\<lambda>i. device_line i (snd (detect i new_device))) (devices_found detect [0..<32])) @
     lit ''Found '' @ dec_str (length (devices_found detect [0..<32])) @ lit '' device(s)'' @ [13, 10]) c)"
proof -
  have "length (devices_found detect [0..<32]) \<le> 32"
    using length_filter_le [of _ "[0..<32]"] by (simp add: devices_found_def)
  then show ?thesis
    by (simp add: scan_devices_def MAX_DEVICES_def scan_from_lines print_dec_eq puts_puts unat_of_nat
        del: upt_rec_numeral puts.simps)
qed

definition valid_poll :: "u8 option \<Rightarrow> bool" where
  "valid_poll p \<longleftrightarrow> (\<exists>k a. p = Some k \<and> menu_choice k = Some a)"

lemma await_key_first:
  "fst (await_key ks c) = (case dropWhile (\<lambda>p. \<not> valid_poll p) ks of
     Some k # r \<Rightarrow> menu_choice k | _ \<Rightarrow> None) \<and>
   fst (snd (await_key ks c)) = tl (dropWhile (\<lambda>p. \<not> valid_poll p) ks)"
proof (induction ks c rule: await_key.induct)
  case (3 key ks c)
  then show ?case
    by (cases "menu_choice key") (auto simp: valid_poll_def Let_def)
qed (auto simp: valid_poll_def)

text \<open>The menu ignores missing and invalid keys and returns the action of the first valid one,
  leaving the later polls unread; it has no other result.\<close>

theorem show_menu_first_valid:
  "fst (show_menu ks c) = (case dropWhile (\<lambda>p. \<not> valid_poll p) ks of
     Some k # r \<Rightarrow> menu_choice k | _ \<Rightarrow> None) \<and>
   fst (snd (show_menu ks c)) = tl (dropWhile (\<lambda>p. \<not> valid_poll p) ks)"
  unfolding show_menu_def by (rule await_key_first)

lemma multiboot_not_text:
  assumes "from_le32 a b c d = 0x1BADB002 \<or> from_le32 a b c d = 0xE85250D6"
  shows "\<not> is_text_byte a"
proof -
  have "ucast (from_le32 a b c d) = a"
    by (rule bit_word_eqI) (auto simp: from_le32_def from_be32_def bit_simps)
  with assms have "a = 0x02 \<or> a = 0xD6"
    by auto
  then show ?thesis
    by (auto simp: is_text_byte_def)
qed

text \<open>A file is taken for text exactly when it has at least four bytes, the first kilobyte holds
  only printable, blank or 0 bytes, and it does not start with \<open>MZ\<close>: no ELF or Multiboot image
  is ever taken for text, while a text that starts with the letters MZ is not recognised.\<close>

theorem detect_format_text:
  "detect_format data = TextFile \<longleftrightarrow>
     4 \<le> length data \<and> list_all is_text_byte (take 1024 data) \<and> take 2 data \<noteq> [0x4D, 0x5A]"
proof (cases "length data < 4")
  case False
  then have "seg data 0 4 = [data ! 0, data ! 1, data ! 2, data ! 3]"
    by (simp add: seg_step numeral_eq_Suc)
  then obtain a b c d r where data: "data = a # b # c # d # r"
    by (metis append_Cons append_Nil append_take_drop_id seg_0)
  have e: "\<not> is_text_byte 0x7F"
    by (simp add: is_text_byte_def)
  have "take (min (length data) 1024) data = take 1024 data" "0 < min (length data) 1024"
    using False by (auto simp: min_def)
  then have tail: "detect_tail data = TextFile \<longleftrightarrow> list_all is_text_byte (take 1024 data)"
    using multiboot_not_text [of a b c d]
    by (auto simp: detect_tail_def Let_def data simp del: One_nat_def)
  show ?thesis
  proof (cases "detect_format data = detect_tail data")
    case True
    then show ?thesis
      using tail by (auto simp: detect_format_def data split: if_splits)
  next
    case no: False
    then have "a = 0x4D \<and> b = 0x5A \<or> a = 0x7F"
      by (auto simp: detect_format_def data split: if_splits)
    then show ?thesis
      using no e by (auto simp: detect_format_def data split: if_splits)
  qed
qed (simp add: detect_format_def)

end
