(* ===== verification/Spec2Isabelle.thy ===== *)
theory Spec2Isabelle
  imports Rom LuaShell LuaFormatting LuaPacking LuaEval LuaCode Print Checksum BiosMem Download Fetch LuaSource LuaEnv LuaText Udp Tftp Dns Dhcp Arp Devices Netio
begin

text \<open>
  Rustrapper is network boot firmware: an image that configures itself by DHCP, downloads a boot file
  over TFTP into memory and starts it, or runs a Lua script or shell that does so. It has BIOS, UEFI,
  ARM64 and native front ends around two libraries: \<^verbatim>\<open>src/common\<close> with the packet formats and
  \<^verbatim>\<open>src/lua\<close> with a Lua interpreter that works without an allocator in one memory block. This
  development models the two libraries and the BIOS transfers over them.

  \<^bold>\<open>Conventions.\<close> A value of \<^verbatim>\<open>u8\<close> to \<^verbatim>\<open>u64\<close>, \<^verbatim>\<open>i64\<close> is a word of its width and wraps as in a release
  build; where the wrap is a panic in Rust (division, the shift of an index below zero that is then used
  as an index) the model panics. A panic is the result \<open>None\<close> (packets, memory and downloads), \<open>Panic\<close>
  (lexer, parser, compiler) or \<open>VPanic\<close> (machine); errors of the source are the values \<open>Err\<close> and \<open>Throw\<close>, next to
  the state at that point, which Rust code has changed already. A fixed array is a list with checked
  access (\<open>rd\<close>, \<open>slice\<close>, \<open>put\<close>, \<open>wr\<close> of \<open>Prelude\<close>) or, in the interpreter's memory, a function of the index with
  its capacity as a constant and a check at every access that the source does not bound. \<^verbatim>\<open>f64\<close> values are
  bit patterns with exact arithmetic and one rounding. A callback is an address; what it answers is a
  parameter of the model that may depend on the number of calls made before.

  \<^bold>\<open>Network\<close> (\<^verbatim>\<open>src/common/src\<close>, \<^verbatim>\<open>src/bios/src\<close>).
  \<^item> \<open>Prelude\<close>: bytes, buffers, big- and little-endian numbers, the collection \<open>buf_simps\<close>.
  \<^item> \<open>Print\<close> (\<^verbatim>\<open>print.rs\<close>): the console behind \<^verbatim>\<open>PUTC_FN\<close>, numbers, the DHCP summary.
  \<^item> \<open>Checksum\<close> (\<^verbatim>\<open>dhcp.rs\<close>, \<^verbatim>\<open>ip_checksum\<close>): the 32-bit accumulator equals one's complement addition.
  \<^item> \<open>Udp\<close> (\<^verbatim>\<open>tftp.rs\<close>, \<^verbatim>\<open>udp_payload\<close>, \<^verbatim>\<open>build_udp_frame\<close>): the locale \<open>udp_framing\<close> states what a frame builder
    owes to the receiver, and is interpreted on the builders of TFTP, DNS and DHCP.
  \<^item> \<open>Tftp\<close> (\<^verbatim>\<open>tftp.rs\<close>), \<open>Dns\<close> (\<^verbatim>\<open>dns.rs\<close>), \<open>Dhcp\<close> (\<^verbatim>\<open>dhcp.rs\<close>), \<open>Arp\<close> (\<^verbatim>\<open>arp.rs\<close>): builders and parsers; the
    lemmas state what each parser makes of a well-formed message, that none panics on a received frame,
    and that it accepts only what is meant for it.
  \<^item> \<open>Netio\<close> (\<^verbatim>\<open>netio.rs\<close>): ARP and DNS over the card. The card (\<^verbatim>\<open>e1000.rs\<close>) is the record \<open>nic\<close>: the outcomes
    of the sends and receives to come and the frames sent. A time-out ends the code, so that the recursion
    over the receives follows every run.
  \<^item> \<open>Devices\<close> (\<^verbatim>\<open>scan.rs\<close>, \<^verbatim>\<open>menu.rs\<close>, \<^verbatim>\<open>loader.rs\<close>): storage scan, boot menu, file formats.
  \<^item> \<open>BiosMem\<close> (\<^verbatim>\<open>mem.rs\<close>): the E820 map and the choice of a buffer. Its locale \<open>tftp_sink\<close> is the contract of the
    trait \<^verbatim>\<open>TftpSink\<close>, interpreted here on the extended-memory sink and in \<open>Fetch\<close> on the two sinks of
    \<^verbatim>\<open>fetch.rs\<close>.
  \<^item> \<open>Download\<close> (\<^verbatim>\<open>net.rs\<close>): \<^verbatim>\<open>dhcp_run\<close> and \<^verbatim>\<open>tftp_download\<close> for any sink: a server that sends a file
    delivers it. \<open>Fetch\<close> (\<^verbatim>\<open>fetch.rs\<close>): fetched files and their descriptors as a state machine; its reachable
    states keep every file apart.
  \<^item> \<open>Rom\<close> (\<^verbatim>\<open>romwrap/src/main.rs\<close>): the PCI option ROM around an image, which it holds unchanged below 32 MB.

  \<^bold>\<open>Lua\<close> (\<^verbatim>\<open>src/lua/src\<close>). Text is lexed and parsed to nodes in the interpreter's memory, compiled to
  bytecode in the same memory, and run by a stack machine whose builtins are the natives of \<^verbatim>\<open>eval.rs\<close>.
  \<^item> \<open>LuaBase\<close>: results, sequencing, numbers from text. \<open>LuaLex\<close> (\<^verbatim>\<open>lex.rs\<close>): the lexer. \<open>LuaText\<close>: it inverts the
    writing of tokens and reads everything.
  \<^item> \<open>LuaState\<close> (\<^verbatim>\<open>lib.rs\<close>): values, nodes, instructions and the memory, the record \<open>lua\<close>, with its operations.
    \<open>LuaEnv\<close>: the locale \<open>interner\<close> of the string arena, and the laws of variables and threads.
  \<^item> \<open>LuaParse\<close> (\<^verbatim>\<open>parse.rs\<close>): the parser. \<open>LuaSyntax\<close>, \<open>LuaExprs\<close>, \<open>LuaParsed\<close>, \<open>LuaSource\<close>: it is total and leaves
    a well-formed program; the grammar is proved against the locale \<open>parser_calls\<close> of its recursive calls.
  \<^item> \<open>LuaCompile\<close> (\<^verbatim>\<open>vm.rs\<close>): the compiler. \<open>LuaCode\<close>: its code is well-formed, against the locale \<open>compile_calls\<close>.
  \<^item> \<open>LuaFloat\<close>, \<open>LuaValue\<close> (\<^verbatim>\<open>eval.rs\<close>): numbers and their text, tables, metatables, operators. \<open>LuaVm\<close> (\<^verbatim>\<open>vm.rs\<close>):
    instructions, calls, protected calls, coroutines. \<open>LuaRun\<close>: the entry points.
  \<^item> \<open>LuaFuel\<close>: more fuel does not change a run that ends. \<open>LuaEval\<close>: the code of an expression refines an
    evaluator over the syntax, and a line of the shell prints its value.
  \<^item> \<open>LuaPattern\<close>, \<open>LuaString\<close>, \<open>LuaPack\<close>, \<open>LuaFormat\<close>, \<open>LuaTable\<close>, \<open>LuaNative\<close> (\<^verbatim>\<open>eval.rs\<close>): the natives, which
    \<open>natives\<close> numbers as the source does. \<open>LuaLaws\<close>, \<open>LuaPacking\<close>, \<open>LuaFormatting\<close>: their laws; \<open>LuaTable\<close> sorts for
    every order of the locale \<open>weak_order\<close>, interpreted on the comparison of the interpreter.
  \<^item> \<open>LuaRepl\<close> (\<^verbatim>\<open>repl.rs\<close>): the interactive shell, with the keys of its escape sequences, the line editor, its
    history, completion, the shell commands, whose texts are in \<open>LuaHelp\<close>, and the session over a list of keys.
    \<open>LuaShell\<close>: a model of a terminal row and the editor as a text with a gap; on continuation lines they
    stay in step, on the first line they do not; history can be walked forth and back and submitted again.

  \<^bold>\<open>Fuel.\<close> The parser takes one unit of fuel for each nested call; every call is made after a token was
  consumed, and \<open>LuaSource\<close> shows that the fuel its entry points give is enough for every text. The
  compiler takes the height of the syntax, which \<open>LuaCode\<close> shows to be enough. The machine counts its
  instructions up to \<open>MAX_STEPS\<close>, but for each thread, and natives and metamethods start runs of their
  own, so that its fuel is a parameter: \<open>LuaFuel\<close> shows that a result does not depend on it, and the
  properties that a run returns give fuel that suffices. All other loops are structural or carry their
  measure.

  \<^bold>\<open>Not modelled.\<close> The registers and descriptor rings of the card, PCI access, serial and screen output,
  and the jump into the loaded image are device accesses. The UEFI, ARM64 and native front ends call
  firmware protocols or an operating system around the code modelled here. The natives that only call
  the host (\<^verbatim>\<open>fetch\<close>, \<^verbatim>\<open>io\<close>, \<^verbatim>\<open>os\<close> and \<^verbatim>\<open>cd\<close>) and \<^verbatim>\<open>string.dump\<close> are the parameter \<open>h_native\<close>. The depth of native recursion is not bounded: the parser's Rust stack may
  overflow on a text that nests deeply enough, which the model does not show. \<^verbatim>\<open>usize\<close> has 64 bits in
  \<^verbatim>\<open>string.format\<close> and \<^verbatim>\<open>string.pack\<close>, as on the UEFI, ARM64 and native targets; on the 32-bit BIOS target a number
  of \<open>2^32\<close> or more in such a format saturates or wraps at that width instead.
\<close>

end
